(* ===== verification/Prelude.thy ===== *)
theory Prelude
  imports Complex_Main "HOL-Library.Multiset"
begin

text \<open>
  What every component of the development shares: the numbers of the source, its list
  operations (indexing, \<^verbatim>\<open>splice\<close>, \<^verbatim>\<open>indexOf\<close>, the stable \<^verbatim>\<open>sort\<close>), its
  string idioms, and the lemmas about them.

  A TypeScript \<^verbatim>\<open>number\<close> that counts bytes, pixels or positions is an \<open>int\<close> or a
  \<open>nat\<close>; one that can hold a fraction (a ratio, a weight, a scroll offset) is a rational,
  since every finite double is one.  Rounding of doubles is not modelled; where the source
  can produce \<^verbatim>\<open>NaN\<close> the model says so with an option.
\<close>

section \<open>Numbers\<close>

type_synonym number = rat

abbreviation clamp :: "'a::linorder \<Rightarrow> 'a \<Rightarrow> 'a \<Rightarrow> 'a" where
  "clamp lo hi v \<equiv> min hi (max lo v)"

text \<open>\<^verbatim>\<open>Math.round\<close> rounds halves up, as \<open>round\<close> does.\<close>

lemma round_bounds:
  fixes x :: number
  shows "of_int (round x) \<le> x + 1/2" and "x - 1/2 < of_int (round x)"
proof -
  show "of_int (round x) \<le> x + 1/2"
    unfolding round_def by (rule of_int_floor_le)
  have "x + 1/2 < of_int (round x) + 1"
    unfolding round_def by (rule floor_correct [THEN conjunct2, simplified])
  then show "x - 1/2 < of_int (round x)"
    by simp
qed

lemma round_nonneg: "0 \<le> (x::number) \<Longrightarrow> 0 \<le> round x"
  using round_mono [of 0 x] by simp

lemma round_le_int: "(x::number) \<le> of_int n \<Longrightarrow> round x \<le> n"
  using round_mono [of x "of_int n"] by simp

lemma round_ge_int: "of_int n \<le> (x::number) \<Longrightarrow> n \<le> round x"
  using round_mono [of "of_int n" x] by simp

section \<open>Lists as the source uses them\<close>

text \<open>Indexing: out of range is \<^verbatim>\<open>undefined\<close>, negative indices included.\<close>

definition nth_opt :: "'a list \<Rightarrow> int \<Rightarrow> 'a option" where
  "nth_opt xs i = (if 0 \<le> i \<and> i < int (length xs) then Some (xs ! nat i) else None)"

lemma nth_opt_Some: "nth_opt xs i = Some x \<Longrightarrow> x \<in> set xs"
  by (auto simp: nth_opt_def split: if_splits)

lemma nth_opt_nat [simp]: "n < length xs \<Longrightarrow> nth_opt xs (int n) = Some (xs ! n)"
  by (simp add: nth_opt_def)

lemma nth_opt_None: "nth_opt xs i = None \<longleftrightarrow> i < 0 \<or> int (length xs) \<le> i"
  by (auto simp: nth_opt_def)

text \<open>\<^verbatim>\<open>splice(i, 0, x)\<close> and \<^verbatim>\<open>splice(i, 1)\<close>.\<close>

definition splice_in :: "nat \<Rightarrow> 'a \<Rightarrow> 'a list \<Rightarrow> 'a list" where
  "splice_in i x xs = take i xs @ x # drop i xs"

definition splice_out :: "nat \<Rightarrow> 'a list \<Rightarrow> 'a list" where
  "splice_out i xs = take i xs @ drop (Suc i) xs"

lemma length_splice_in [simp]: "length (splice_in i x xs) = Suc (length xs)"
  by (simp add: splice_in_def)

lemma length_splice_out [simp]: "i < length xs \<Longrightarrow> length (splice_out i xs) = length xs - 1"
  by (simp add: splice_out_def)

lemma mset_splice_in [simp]: "mset (splice_in i x xs) = add_mset x (mset xs)"
proof -
  have "mset (take i xs) + mset (drop i xs) = mset xs"
    by (metis append_take_drop_id mset_append)
  then show ?thesis by (simp add: splice_in_def)
qed

lemma set_splice_in [simp]: "set (splice_in i x xs) = insert x (set xs)"
  by (metis mset_splice_in set_mset_add_mset_insert set_mset_mset)

lemma mset_splice_out: "i < length xs \<Longrightarrow> add_mset (xs ! i) (mset (splice_out i xs)) = mset xs"
proof -
  assume "i < length xs"
  then have "mset xs = mset (take i xs @ xs ! i # drop (Suc i) xs)"
    by (simp flip: id_take_nth_drop)
  then show ?thesis by (simp add: splice_out_def)
qed

lemma set_splice_out_subset: "set (splice_out i xs) \<subseteq> set xs"
  by (auto simp: splice_out_def dest: in_set_takeD in_set_dropD)

lemma distinct_splice_in [simp]: "distinct (splice_in i x xs) \<longleftrightarrow> x \<notin> set xs \<and> distinct xs"
  by (metis distinct.simps(2) mset.simps(2) mset_eq_imp_distinct_iff mset_splice_in)

lemma distinct_splice_out: "distinct xs \<Longrightarrow> distinct (splice_out i xs)"
  by (simp add: splice_out_def set_take_disj_set_drop_if_distinct)

lemma nth_splice_in:
  "i \<le> length xs \<Longrightarrow> j \<le> length xs \<Longrightarrow>
    splice_in i x xs ! j = (if j < i then xs ! j else if j = i then x else xs ! (j - 1))"
  by (auto simp: splice_in_def nth_append min_def nth_Cons')

lemma nth_splice_out:
  "i < length xs \<Longrightarrow> j < length xs - 1 \<Longrightarrow>
    splice_out i xs ! j = (if j < i then xs ! j else xs ! Suc j)"
  by (auto simp: splice_out_def nth_append min_def)

lemma splice_out_splice_in [simp]: "i \<le> length xs \<Longrightarrow> splice_out i (splice_in i x xs) = xs"
  by (simp add: splice_in_def splice_out_def)

text \<open>\<^verbatim>\<open>indexOf\<close>, with \<open>None\<close> for -1.\<close>

fun index_of :: "'a \<Rightarrow> 'a list \<Rightarrow> nat option" where
  "index_of x [] = None"
| "index_of x (y # ys) = (if x = y then Some 0 else map_option Suc (index_of x ys))"

lemma index_of_None [simp]: "index_of x xs = None \<longleftrightarrow> x \<notin> set xs"
  by (induction xs) auto

lemma index_of_absent [simp]: "x \<notin> set xs \<Longrightarrow> index_of x xs = None"
  by simp

lemma index_of_Some: "index_of x xs = Some i \<Longrightarrow> i < length xs \<and> xs ! i = x"
  by (induction xs arbitrary: i) (auto split: if_splits)

lemma index_of_first: "index_of x xs = Some i \<Longrightarrow> j < i \<Longrightarrow> xs ! j \<noteq> x"
proof (induction xs arbitrary: i j)
  case (Cons y ys)
  then show ?case by (cases j) (auto split: if_splits)
qed simp

lemma index_of_nth: "distinct xs \<Longrightarrow> i < length xs \<Longrightarrow> index_of (xs ! i) xs = Some i"
  by (induction xs arbitrary: i) (auto simp: nth_Cons' split: nat.splits)

text \<open>\<^verbatim>\<open>findIndex\<close>, with \<open>None\<close> for -1.\<close>

fun find_index :: "('a \<Rightarrow> bool) \<Rightarrow> 'a list \<Rightarrow> nat option" where
  "find_index P [] = None"
| "find_index P (y # ys) = (if P y then Some 0 else map_option Suc (find_index P ys))"

lemma find_index_split: "find_index P xs = Some i \<Longrightarrow>
    \<exists>us y vs. xs = us @ y # vs \<and> length us = i \<and> P y \<and> (\<forall>u \<in> set us. \<not> P u)"
proof (induction xs arbitrary: i)
  case (Cons x xs)
  show ?case
  proof (cases "P x")
    case True
    with Cons.prems show ?thesis by (auto intro: exI [of _ "[]"])
  next
    case False
    with Cons.prems obtain j where j: "find_index P xs = Some j" "i = Suc j" by auto
    from Cons.IH [OF j(1)] obtain us y vs where
      "xs = us @ y # vs" "length us = j" "P y" "\<forall>u \<in> set us. \<not> P u" by blast
    with False j(2) show ?thesis
      by (intro exI [of _ "x # us"] exI [of _ y] exI [of _ vs]) auto
  qed
qed simp

lemma find_index_None [simp]: "find_index P xs = None \<longleftrightarrow> (\<forall>x \<in> set xs. \<not> P x)"
  by (induction xs) auto

text \<open>\<^verbatim>\<open>sort((a, b) => key(a) - key(b))\<close> is stable: it is \<open>sort_key\<close>.\<close>

lemma sort_key_id: "sorted (map f xs) \<Longrightarrow> sort_key f xs = xs"
  by (simp add: sorted_sort_id sort_key_id_if_sorted)

lemma find_SomeD: "List.find P xs = Some x \<Longrightarrow> x \<in> set xs \<and> P x"
  by (auto simp: find_Some_iff)

lemma sorted_wrt_mid:
  "sorted_wrt R (us @ y # vs) \<longleftrightarrow>
    sorted_wrt R us \<and> sorted_wrt R vs \<and> (\<forall>u \<in> set us. R u y) \<and> (\<forall>v \<in> set vs. R y v) \<and>
    (\<forall>u \<in> set us. \<forall>v \<in> set vs. R u v)"
  by (auto simp: sorted_wrt_append)

section \<open>Strings\<close>

text \<open>\<^verbatim>\<open>a || b\<close> on strings: the empty string and \<^verbatim>\<open>undefined\<close> are falsy.\<close>

definition or_else :: "string \<Rightarrow> string \<Rightarrow> string" where
  "or_else a b = (if a = [] then b else a)"

definition or_blank :: "string option \<Rightarrow> string" where
  "or_blank s = (case s of None \<Rightarrow> [] | Some t \<Rightarrow> t)"

text \<open>\<^verbatim>\<open>a ?? b\<close>.\<close>

definition otherwise :: "'a option \<Rightarrow> 'a \<Rightarrow> 'a" where
  "otherwise a b = (case a of None \<Rightarrow> b | Some v \<Rightarrow> v)"

lemma otherwise_simps [simp]: "otherwise None b = b" "otherwise (Some a) b = a"
  by (simp_all add: otherwise_def)

lemma or_blank_simps [simp]: "or_blank None = []" "or_blank (Some s) = s"
  by (simp_all add: or_blank_def)

section \<open>Strings\<close>

text \<open>\<^verbatim>\<open>startsWith\<close> and the decimal digits of a number in a template string.\<close>

definition starts_with :: "string \<Rightarrow> string \<Rightarrow> bool" where
  "starts_with prefix s \<longleftrightarrow> take (length prefix) s = prefix"

fun show_nat :: "nat \<Rightarrow> string" where
  "show_nat n = (if n < 10 then [char_of (48 + n)] else show_nat (n div 10) @ [char_of (48 + n mod 10)])"

declare show_nat.simps [simp del]

fun read_nat :: "nat \<Rightarrow> string \<Rightarrow> nat" where
  "read_nat v [] = v"
| "read_nat v (c # cs) = read_nat (10 * v + (of_char c - 48)) cs"

lemma read_nat_append: "read_nat v (xs @ ys) = read_nat (read_nat v xs) ys"
  by (induction xs arbitrary: v) simp_all

lemma digit_char: "d < 10 \<Longrightarrow> (of_char (char_of (48 + d) :: char) :: nat) = 48 + d"
  by (simp only: of_char_of) simp

lemma read_show_nat: "read_nat 0 (show_nat n) = n"
proof (induction n rule: show_nat.induct)
  case (1 n)
  show ?case
  proof (cases "n < 10")
    case True
    then show ?thesis by (simp add: show_nat.simps [of n] digit_char)
  next
    case False
    then show ?thesis using 1 digit_char [of "n mod 10"] by (simp add: show_nat.simps [of n] read_nat_append)
  qed
qed

lemma show_nat_inject: "show_nat m = show_nat n \<longleftrightarrow> m = n"
  by (metis read_show_nat)

section \<open>Maps as the source uses them\<close>

text \<open>\<^verbatim>\<open>Map.set\<close> keeps the place of a key it has.\<close>

fun map_put :: "'k \<Rightarrow> 'v \<Rightarrow> ('k \<times> 'v) list \<Rightarrow> ('k \<times> 'v) list" where
  "map_put k v [] = [(k, v)]"
| "map_put k v (e # es) = (if fst e = k then (k, v) # es else e # map_put k v es)"

definition map_drop :: "'k \<Rightarrow> ('k \<times> 'v) list \<Rightarrow> ('k \<times> 'v) list" where
  "map_drop k es = filter (\<lambda>e. fst e \<noteq> k) es"

lemma map_of_put [simp]: "map_of (map_put k v es) = (map_of es)(k \<mapsto> v)"
  by (induction es) (auto simp: fun_eq_iff)

lemma keys_put: "fst ` set (map_put k v es) = insert k (fst ` set es)"
  by (induction es) auto

lemma map_fst_put: "map fst (map_put k v es) = (if k \<in> fst ` set es then map fst es else map fst es @ [k])"
  by (induction es) auto

lemma distinct_put: "distinct (map fst es) \<Longrightarrow> distinct (map fst (map_put k v es))"
  by (simp add: map_fst_put)

lemma map_of_drop [simp]: "map_of (map_drop k es) = (map_of es)(k := None)"
  by (induction es) (auto simp: map_drop_def fun_eq_iff)

lemma keys_drop: "fst ` set (map_drop k es) = fst ` set es - {k}"
  by (auto simp: map_drop_def)

lemma distinct_drop: "distinct (map fst es) \<Longrightarrow> distinct (map fst (map_drop k es))"
  by (simp add: map_drop_def distinct_map_filter)

text \<open>The first element that matches, replaced: what a \<^verbatim>\<open>map\<close> that compares with a found object does.\<close>

fun update_first :: "('a \<Rightarrow> bool) \<Rightarrow> ('a \<Rightarrow> 'a) \<Rightarrow> 'a list \<Rightarrow> 'a list" where
  "update_first P f [] = []"
| "update_first P f (x # xs) = (if P x then f x # xs else x # update_first P f xs)"

lemma map_update_first: "(\<And>x. g (f x) = g x) \<Longrightarrow> map g (update_first P f xs) = map g xs"
  by (induction xs) auto

lemma update_first_split: "\<exists>x \<in> set xs. P x \<Longrightarrow>
    \<exists>us x vs. xs = us @ x # vs \<and> P x \<and> (\<forall>u \<in> set us. \<not> P u) \<and> update_first P f xs = us @ f x # vs \<and> List.find P xs = Some x"
proof (induction xs)
  case (Cons y ys)
  show ?case
  proof (cases "P y")
    case True
    then show ?thesis by (intro exI [of _ "[]"]) auto
  next
    case False
    with Cons obtain us x vs where "ys = us @ x # vs" "P x" "\<forall>u \<in> set us. \<not> P u" "update_first P f ys = us @ f x # vs" "List.find P ys = Some x"
      by auto
    with False show ?thesis by (intro exI [of _ "y # us"]) auto
  qed
qed simp

end
