(* ===== verification/Disk_Model.thy ===== *)
theory Disk_Model
  imports Prelude
begin

text \<open>
  The partition layout of the disk editor, \<^verbatim>\<open>apps/system/disks/src/lib/editor/model.ts\<close>:
  parts on a drive, the edit steps, and the free gaps between parts.  Offsets and sizes are
  bytes below \<open>2^53\<close>, so \<open>int\<close>; a \<^verbatim>\<open>Layout\<close> is a record over its list of parts.
  The invariant \<open>apart\<close> says that the parts are in disk order and that no two overlap.
\<close>

section \<open>Data\<close>

definition MiB :: int where "MiB = 1024 ^ 2"
definition GPT_ENTRIES :: nat where "GPT_ENTRIES = 128"
definition DOS_PRIMARIES :: nat where "DOS_PRIMARIES = 4"
definition DOS_LIMIT :: int where "DOS_LIMIT = 2 * 1024 ^ 4"

datatype table = Gpt | Dos

record part =
  p_key :: string
  p_pending :: bool
  p_number :: "nat option"
  p_offset :: int
  p_size :: int
  p_type :: string
  p_name :: string
  p_flags :: "nat list"
  p_label :: string
  p_filesystem :: string
  p_usage :: string
  p_used :: "int option"
  p_mounted :: bool
  p_encrypted :: bool
  p_locked :: bool
  p_system :: bool
  p_logical :: bool
  p_replaced :: bool
  p_title :: string

record span =
  s_offset :: int
  s_size :: int

record layout =
  l_table :: table
  l_start :: int
  l_end :: int
  l_extended :: "span option"
  l_parts :: "part list"

datatype step =
    Create (step_key: string) int int string string string string "nat list"
    \<comment> \<open>key, offset, size, filesystem, label, type, name, flags\<close>
  | Delete (step_key: string)
  | Place (step_key: string) int int
  | Format (step_key: string) string string
    \<comment> \<open>key, filesystem, label\<close>
  | Change (step_key: string) "string option" "string option" "nat list option" "string option"
    \<comment> \<open>key, and the fields that change: type, name, flags, label\<close>

section \<open>Alignment\<close>

definition align_down :: "int \<Rightarrow> int" where
  "align_down v = (v div MiB) * MiB"

definition align_up :: "int \<Rightarrow> int" where
  "align_up v = - ((- v) div MiB) * MiB"

definition span_end :: "span \<Rightarrow> int" where
  "span_end s = s_offset s + s_size s"

definition part_end :: "part \<Rightarrow> int" where
  "part_end p = p_offset p + p_size p"

lemma MiB_pos [simp]: "0 < MiB" "MiB \<noteq> 0" "0 \<le> MiB"
  by (simp_all add: MiB_def)

lemma align_down_dvd [simp]: "MiB dvd align_down v"
  by (simp add: align_down_def)

lemma align_up_dvd [simp]: "MiB dvd align_up v"
  by (simp add: align_up_def)

lemma align_down_le: "align_down v \<le> v"
proof -
  have "v = v div MiB * MiB + v mod MiB" by simp
  moreover have "0 \<le> v mod MiB" by simp
  ultimately show ?thesis unfolding align_down_def by linarith
qed

lemma align_down_gt: "v < align_down v + MiB"
proof -
  have "v = v div MiB * MiB + v mod MiB" by simp
  moreover have "v mod MiB < MiB" by simp
  ultimately show ?thesis unfolding align_down_def by linarith
qed

lemma align_up_down: "align_up v = - align_down (- v)"
  by (simp add: align_up_def align_down_def)

lemma align_up_ge: "v \<le> align_up v"
  using align_down_le [of "- v"] by (simp add: align_up_down)

lemma align_up_lt: "align_up v < v + MiB"
  using align_down_gt [of "- v"] by (simp add: align_up_down)

text \<open>Alignment is the nearest multiple: the lattice characterisation of floor and ceiling.\<close>

lemma align_down_greatest: "MiB dvd m \<Longrightarrow> m \<le> align_down v \<longleftrightarrow> m \<le> v"
proof
  assume "MiB dvd m" "m \<le> v"
  then obtain k where m: "m = MiB * k" by blast
  have "k = m div MiB" by (simp add: m)
  also have "\<dots> \<le> v div MiB" using \<open>m \<le> v\<close> by (simp add: zdiv_mono1)
  finally show "m \<le> align_down v" by (simp add: m align_down_def mult.commute)
next
  show "m \<le> align_down v \<Longrightarrow> m \<le> v" using align_down_le [of v] by linarith
qed

lemma align_up_least: "MiB dvd m \<Longrightarrow> align_up v \<le> m \<longleftrightarrow> v \<le> m"
  using align_down_greatest [of "- m" "- v"] by (auto simp: align_up_down)

section \<open>Steps\<close>

definition sorted_parts :: "part list \<Rightarrow> part list" where
  "sorted_parts parts = sort_key p_offset parts"

definition updated :: "layout \<Rightarrow> string \<Rightarrow> (part \<Rightarrow> part) \<Rightarrow> layout" where
  "updated lay key change =
    lay\<lparr>l_parts := sorted_parts (map (\<lambda>candidate. if p_key candidate = key then change candidate else candidate)
      (l_parts lay))\<rparr>"

definition inside :: "span option \<Rightarrow> span \<Rightarrow> bool" where
  "inside extended sp =
    (case extended of None \<Rightarrow> False
     | Some ext \<Rightarrow> s_offset ext \<le> s_offset sp \<and> span_end sp \<le> span_end ext)"

text \<open>The part a \<^verbatim>\<open>create\<close> step adds, and what the other steps do to theirs.\<close>

definition created_part :: "span option \<Rightarrow> string \<Rightarrow> int \<Rightarrow> int \<Rightarrow> string \<Rightarrow> string \<Rightarrow> string \<Rightarrow> string
    \<Rightarrow> nat list \<Rightarrow> part" where
  "created_part extended key offset sz filesystem label type name flags =
    \<lparr>p_key = key, p_pending = True, p_number = None, p_offset = offset, p_size = sz, p_type = type,
     p_name = name, p_flags = flags, p_label = label, p_filesystem = filesystem,
     p_usage = (if filesystem \<noteq> [] then ''filesystem'' else []),
     p_used = (if filesystem \<noteq> [] then Some 0 else None),
     p_mounted = False, p_encrypted = False, p_locked = False, p_system = False,
     p_logical = inside extended \<lparr>s_offset = offset, s_size = sz\<rparr>,
     p_replaced = True, p_title = or_else label (or_else name ''New partition'')\<rparr>"

definition placed_part :: "int \<Rightarrow> int \<Rightarrow> part \<Rightarrow> part" where
  "placed_part offset sz target =
    target\<lparr>p_offset := offset, p_size := sz, p_mounted := p_mounted target \<and> p_offset target = offset\<rparr>"

definition formatted_part :: "string \<Rightarrow> string \<Rightarrow> part \<Rightarrow> part" where
  "formatted_part filesystem label target =
    target\<lparr>p_filesystem := filesystem, p_label := label, p_usage := ''filesystem'', p_used := Some 0,
      p_mounted := False, p_encrypted := False, p_locked := False, p_replaced := True,
      p_title := or_else label (or_else (p_name target) (p_title target))\<rparr>"

definition changed_part :: "string option \<Rightarrow> string option \<Rightarrow> nat list option \<Rightarrow> string option \<Rightarrow> part \<Rightarrow> part" where
  "changed_part type name flags label target =
    target\<lparr>p_type := otherwise type (p_type target), p_name := otherwise name (p_name target),
      p_flags := otherwise flags (p_flags target), p_label := otherwise label (p_label target),
      p_title := or_else (or_blank label) (or_else (or_blank name) (p_title target))\<rparr>"

fun apply_step :: "layout \<Rightarrow> step \<Rightarrow> layout" where
  "apply_step lay (Create key offset sz filesystem label type name flags) =
    lay\<lparr>l_parts := sorted_parts (l_parts lay @
      [created_part (l_extended lay) key offset sz filesystem label type name flags])\<rparr>"
| "apply_step lay (Delete key) = lay\<lparr>l_parts := filter (\<lambda>candidate. p_key candidate \<noteq> key) (l_parts lay)\<rparr>"
| "apply_step lay (Place key offset sz) = updated lay key (placed_part offset sz)"
| "apply_step lay (Format key filesystem label) = updated lay key (formatted_part filesystem label)"
| "apply_step lay (Change key type name flags label) = updated lay key (changed_part type name flags label)"

section \<open>Gaps\<close>

definition split_gap :: "span \<Rightarrow> int list \<Rightarrow> span list" where
  "split_gap gap fences =
    (let cuts = [s_offset gap] @ filter (\<lambda>point. s_offset gap < point \<and> point < span_end gap) fences @ [span_end gap]
     in map (\<lambda>(start, stop). \<lparr>s_offset = start, s_size = stop - start\<rparr>) (zip cuts (tl cuts)))"

fun raw_gaps :: "int \<Rightarrow> int \<Rightarrow> part list \<Rightarrow> span list" where
  "raw_gaps cursor stop [] = (if stop > cursor then [\<lparr>s_offset = cursor, s_size = stop - cursor\<rparr>] else [])"
| "raw_gaps cursor stop (candidate # rest) =
    (if p_offset candidate > cursor then [\<lparr>s_offset = cursor, s_size = p_offset candidate - cursor\<rparr>] else [])
    @ raw_gaps (max cursor (part_end candidate)) stop rest"

definition fences_of :: "span option \<Rightarrow> int list" where
  "fences_of extended = (case extended of None \<Rightarrow> [] | Some ext \<Rightarrow> [s_offset ext, span_end ext])"

definition align_gap :: "span \<Rightarrow> span" where
  "align_gap gap = \<lparr>s_offset = align_up (s_offset gap), s_size = align_down (span_end gap) - align_up (s_offset gap)\<rparr>"

definition gaps :: "layout \<Rightarrow> span list" where
  "gaps lay = filter (\<lambda>gap. s_size gap \<ge> MiB) (map align_gap
    (concat (map (\<lambda>gap. split_gap gap (fences_of (l_extended lay))) (raw_gaps (l_start lay) (l_end lay) (l_parts lay)))))"

text \<open>Why a gap cannot take another partition, where the source returns a sentence.\<close>

datatype refusal = Table_full | Four_primaries

definition creatable :: "layout \<Rightarrow> span \<Rightarrow> refusal option" where
  "creatable lay gap =
    (if l_table lay = Gpt then (if length (l_parts lay) < GPT_ENTRIES then None else Some Table_full)
     else if inside (l_extended lay) gap then None
     else let primaries = length (filter (\<lambda>candidate. \<not> p_logical candidate) (l_parts lay))
                + (if l_extended lay \<noteq> None then 1 else 0)
          in if primaries < DOS_PRIMARIES then None else Some Four_primaries)"

section \<open>Bytes of a layout\<close>

definition in_span :: "int \<Rightarrow> span \<Rightarrow> bool" where
  "in_span x s \<longleftrightarrow> s_offset s \<le> x \<and> x < span_end s"

definition in_part :: "int \<Rightarrow> part \<Rightarrow> bool" where
  "in_part x p \<longleftrightarrow> p_offset p \<le> x \<and> x < part_end p"

text \<open>A byte of the editable area that no part holds.\<close>

definition free_byte :: "layout \<Rightarrow> int \<Rightarrow> bool" where
  "free_byte lay x \<longleftrightarrow> l_start lay \<le> x \<and> x < l_end lay \<and> (\<forall>p \<in> set (l_parts lay). \<not> in_part x p)"

definition apart :: "part list \<Rightarrow> bool" where
  "apart parts \<longleftrightarrow> sorted_wrt (\<lambda>p q. part_end p \<le> p_offset q) parts \<and> (\<forall>p \<in> set parts. 0 < p_size p)"

lemma apart_sorted: "apart parts \<Longrightarrow> sorted (map p_offset parts)"
  unfolding apart_def sorted_map
  by (elim conjE, erule sorted_wrt_mono_rel [rotated]) (auto simp: part_end_def)

lemma sorted_parts_id [simp]: "apart parts \<Longrightarrow> sorted_parts parts = parts"
  by (simp add: sorted_parts_def apart_sorted sort_key_id)

lemma apart_disjoint:
  assumes "apart parts" "p \<in> set parts" "q \<in> set parts" "in_part x p" "in_part x q"
  shows "p = q"
proof -
  obtain i j where ij: "i < length parts" "p = parts ! i" "j < length parts" "q = parts ! j"
    using assms(2,3) by (auto simp: in_set_conv_nth)
  have before: "part_end (parts ! a) \<le> p_offset (parts ! b)" if "a < b" "b < length parts" for a b
    using assms(1) that by (auto simp: apart_def sorted_wrt_iff_nth_less)
  have "\<not> i < j" "\<not> j < i"
    using before [of i j] before [of j i] assms(4,5) ij by (auto simp: in_part_def)
  with ij show ?thesis by simp
qed

lemma apart_mid:
  "apart (us @ p # vs) \<longleftrightarrow> apart us \<and> apart vs \<and> 0 < p_size p \<and>
    (\<forall>u \<in> set us. part_end u \<le> p_offset p) \<and> (\<forall>v \<in> set vs. part_end p \<le> p_offset v) \<and>
    (\<forall>u \<in> set us. \<forall>v \<in> set vs. part_end u \<le> p_offset v)"
  by (auto simp: apart_def sorted_wrt_mid)

lemma apart_filter: "apart parts \<Longrightarrow> apart (filter P parts)"
  by (auto simp: apart_def intro: sorted_wrt_filter)

lemma apart_map:
  assumes "\<And>p. p \<in> set parts \<Longrightarrow> p_offset (f p) = p_offset p \<and> p_size (f p) = p_size p"
  shows "apart (map f parts) \<longleftrightarrow> apart parts"
  unfolding apart_def sorted_wrt_map
  using assms by (auto simp: part_end_def intro: sorted_wrt_mono_rel [rotated])

section \<open>The gaps are exactly the free bytes\<close>

lemma raw_gaps_bytes:
  assumes "sorted (map p_offset parts)" "\<forall>p \<in> set parts. 0 \<le> p_size p \<and> p_offset p \<le> stop"
  shows "(\<exists>g \<in> set (raw_gaps cursor stop parts). in_span x g) \<longleftrightarrow>
    cursor \<le> x \<and> x < stop \<and> (\<forall>p \<in> set parts. \<not> in_part x p)"
  using assms
proof (induction parts arbitrary: cursor)
  case Nil
  then show ?case by (auto simp: in_span_def span_end_def)
next
  case (Cons p ps)
  have ge: "\<forall>q \<in> set ps. p_offset p \<le> p_offset q" and IH:
    "(\<exists>g \<in> set (raw_gaps (max cursor (part_end p)) stop ps). in_span x g) \<longleftrightarrow>
      max cursor (part_end p) \<le> x \<and> x < stop \<and> (\<forall>q \<in> set ps. \<not> in_part x q)"
    using Cons by auto
  have "p_offset p \<le> stop" "0 \<le> p_size p" using Cons.prems by auto
  with ge show ?case
    unfolding raw_gaps.simps set_append bex_Un IH
    by (fastforce simp: in_span_def span_end_def in_part_def part_end_def)
qed

lemma raw_gaps_end:
  "g \<in> set (raw_gaps cursor stop parts) \<Longrightarrow> span_end g = stop \<or> (\<exists>p \<in> set parts. p_offset p = span_end g)"
  by (induction cursor stop parts rule: raw_gaps.induct) (auto simp: span_end_def split: if_splits)

lemma raw_gaps_nonempty: "g \<in> set (raw_gaps cursor stop parts) \<Longrightarrow> s_offset g < span_end g"
  by (induction cursor stop parts rule: raw_gaps.induct) (auto simp: span_end_def split: if_splits)

lemma cuts_sound:
  "sorted cuts \<Longrightarrow> (a, b) \<in> set (zip cuts (tl cuts)) \<Longrightarrow>
    a \<in> set cuts \<and> b \<in> set cuts \<and> hd cuts \<le> a \<and> a \<le> b \<and> b \<le> last cuts \<and> (\<forall>c \<in> set cuts. c \<le> a \<or> b \<le> c)"
proof (induction cuts)
  case (Cons c cs)
  show ?case
  proof (cases cs)
    case (Cons d ds)
    then consider "a = c" "b = d" | "(a, b) \<in> set (zip cs (tl cs))"
      using \<open>(a, b) \<in> set (zip (c # cs) (tl (c # cs)))\<close> by auto
    then show ?thesis
    proof cases
      case 1
      have "d \<le> last (d # ds)"
        using Cons.prems(1) \<open>cs = d # ds\<close> by (cases ds rule: rev_cases) auto
      with 1 show ?thesis using Cons.prems(1) \<open>cs = d # ds\<close> by auto
    next
      case 2
      with Cons.IH Cons.prems(1) \<open>cs = d # ds\<close> show ?thesis by auto
    qed
  qed (use Cons in auto)
qed simp

lemma cuts_complete:
  "sorted cuts \<Longrightarrow> cuts \<noteq> [] \<Longrightarrow> hd cuts \<le> a \<Longrightarrow> a < b \<Longrightarrow> b \<le> last cuts \<Longrightarrow>
    \<forall>c \<in> set cuts. c \<le> a \<or> b \<le> c \<Longrightarrow> \<exists>(s, t) \<in> set (zip cuts (tl cuts)). s \<le> a \<and> b \<le> t"
proof (induction cuts)
  case (Cons c cs)
  show ?case
  proof (cases cs)
    case Nil
    with Cons.prems show ?thesis by simp
  next
    case cs: (Cons d ds)
    show ?thesis
    proof (cases "b \<le> d")
      case True
      with Cons.prems cs show ?thesis by auto
    next
      case False
      with Cons.prems cs have "d \<le> a" by auto
      with Cons cs have "\<exists>(s, t) \<in> set (zip cs (tl cs)). s \<le> a \<and> b \<le> t" by auto
      with cs show ?thesis by auto
    qed
  qed
qed simp

definition fences_clear :: "int list \<Rightarrow> int \<Rightarrow> int \<Rightarrow> bool" where
  "fences_clear fences a b \<longleftrightarrow> (\<forall>f \<in> set fences. f \<le> a \<or> b \<le> f)"

lemma split_gap_cuts:
  assumes "sorted fences" "s_offset g < span_end g"
  defines "cuts \<equiv> [s_offset g] @ filter (\<lambda>point. s_offset g < point \<and> point < span_end g) fences @ [span_end g]"
  shows "sorted cuts" and "hd cuts = s_offset g" and "last cuts = span_end g"
    and "set cuts = insert (s_offset g) (insert (span_end g) {f \<in> set fences. s_offset g < f \<and> f < span_end g})"
  using assms by (auto simp: sorted_append intro: sorted_wrt_filter less_imp_le)

lemma split_gap_sound:
  assumes "sorted fences" "s_offset g < span_end g" "h \<in> set (split_gap g fences)"
  shows "s_offset g \<le> s_offset h \<and> span_end h \<le> span_end g \<and> fences_clear fences (s_offset h) (span_end h)"
proof -
  let ?cuts = "[s_offset g] @ filter (\<lambda>point. s_offset g < point \<and> point < span_end g) fences @ [span_end g]"
  note cuts = split_gap_cuts [OF assms(1,2)]
  obtain a b where ab: "(a, b) \<in> set (zip ?cuts (tl ?cuts))" "s_offset h = a" "span_end h = b"
    using assms(3) by (auto simp: split_gap_def span_end_def)
  show ?thesis
    using cuts_sound [OF cuts(1) ab(1)] unfolding cuts ab(2,3) fences_clear_def by fastforce
qed

lemma split_gap_complete:
  assumes "sorted fences" "s_offset g \<le> a" "a < b" "b \<le> span_end g" "fences_clear fences a b"
  shows "\<exists>h \<in> set (split_gap g fences). s_offset h \<le> a \<and> b \<le> span_end h"
proof -
  let ?cuts = "[s_offset g] @ filter (\<lambda>point. s_offset g < point \<and> point < span_end g) fences @ [span_end g]"
  have g: "s_offset g < span_end g" using assms(2-4) by linarith
  note cuts = split_gap_cuts [OF assms(1) g]
  have "\<exists>(s, t) \<in> set (zip ?cuts (tl ?cuts)). s \<le> a \<and> b \<le> t"
    using assms cuts(4) by (intro cuts_complete cuts(1)) (auto simp: cuts(2,3) fences_clear_def)
  then obtain s t where "(s, t) \<in> set (zip ?cuts (tl ?cuts))" "s \<le> a" "b \<le> t" by auto
  then show ?thesis
    unfolding split_gap_def Let_def set_map
    by (intro bexI [of _ "\<lparr>s_offset = s, s_size = t - s\<rparr>"]) (force simp: span_end_def)+
qed

text \<open>
  What a layout read from a disk satisfies: parts apart, none starting before the first mebibyte or
  past the end of the editable area, and an extended partition of some size.
\<close>

definition sound_layout :: "layout \<Rightarrow> bool" where
  "sound_layout lay \<longleftrightarrow> apart (l_parts lay) \<and> (\<forall>p \<in> set (l_parts lay). l_start lay \<le> p_offset p \<and> p_offset p \<le> l_end lay) \<and>
    (case l_extended lay of None \<Rightarrow> True | Some ext \<Rightarrow> 0 < s_size ext)"

lemma sound_layoutD:
  assumes "sound_layout lay"
  shows "apart (l_parts lay)" and "sorted (map p_offset (l_parts lay))"
    and "\<forall>p \<in> set (l_parts lay). 0 \<le> p_size p \<and> p_offset p \<le> l_end lay"
    and "\<forall>p \<in> set (l_parts lay). 0 < p_size p"
    and "sorted (fences_of (l_extended lay))"
  using assms by (auto simp: sound_layout_def apart_sorted fences_of_def span_end_def split: option.splits)
    (auto simp: apart_def intro: less_imp_le)

lemma raw_gaps_free:
  assumes "sound_layout lay"
  shows "(\<exists>g \<in> set (raw_gaps (l_start lay) (l_end lay) (l_parts lay)). in_span x g) \<longleftrightarrow> free_byte lay x"
  unfolding raw_gaps_bytes [OF sound_layoutD(2,3) [OF assms]] free_byte_def ..

lemma in_gapsE:
  assumes "sound_layout lay" "g \<in> set (gaps lay)"
  obtains raw piece where "raw \<in> set (raw_gaps (l_start lay) (l_end lay) (l_parts lay))"
    and "piece \<in> set (split_gap raw (fences_of (l_extended lay)))" and "g = align_gap piece" and "MiB \<le> s_size g"
    and "s_offset raw \<le> s_offset piece" and "span_end piece \<le> span_end raw"
    and "fences_clear (fences_of (l_extended lay)) (s_offset piece) (span_end piece)"
proof -
  obtain raw piece where r: "raw \<in> set (raw_gaps (l_start lay) (l_end lay) (l_parts lay))"
    "piece \<in> set (split_gap raw (fences_of (l_extended lay)))" "g = align_gap piece" "MiB \<le> s_size g"
    using assms(2) by (auto simp: gaps_def)
  with split_gap_sound [OF sound_layoutD(5) [OF assms(1)] raw_gaps_nonempty [OF r(1)] r(2)] that
  show ?thesis by blast
qed

lemma align_gap_bounds: "s_offset s \<le> s_offset (align_gap s)" "span_end (align_gap s) \<le> span_end s"
  by (simp_all add: align_gap_def span_end_def align_up_ge align_down_le)

lemma gaps_aligned:
  "g \<in> set (gaps lay) \<Longrightarrow> MiB dvd s_offset g \<and> MiB dvd s_size g \<and> MiB \<le> s_size g"
  by (auto simp: gaps_def align_gap_def)

lemma gaps_free:
  assumes "sound_layout lay" "g \<in> set (gaps lay)"
  shows "(\<forall>x. in_span x g \<longrightarrow> free_byte lay x) \<and> fences_clear (fences_of (l_extended lay)) (s_offset g) (span_end g)"
proof -
  obtain raw piece where r: "raw \<in> set (raw_gaps (l_start lay) (l_end lay) (l_parts lay))"
    "g = align_gap piece" "s_offset raw \<le> s_offset piece" "span_end piece \<le> span_end raw"
    "fences_clear (fences_of (l_extended lay)) (s_offset piece) (span_end piece)"
    using in_gapsE [OF assms] by metis
  note b = align_gap_bounds [of piece]
  have "free_byte lay x" if "in_span x g" for x
    using r(1) that r(2-4) b
    by (subst raw_gaps_free [OF assms(1), symmetric]) (intro bexI [of _ raw], auto simp: in_span_def)
  moreover have "fences_clear (fences_of (l_extended lay)) (s_offset g) (span_end g)"
    using r(2,5) b by (fastforce simp: fences_clear_def)
  ultimately show ?thesis by blast
qed

lemma free_block_in_raw_gap:
  assumes "sound_layout lay" "a < b" and free: "\<And>x. a \<le> x \<Longrightarrow> x < b \<Longrightarrow> free_byte lay x"
  shows "\<exists>g \<in> set (raw_gaps (l_start lay) (l_end lay) (l_parts lay)). s_offset g \<le> a \<and> b \<le> span_end g"
proof -
  obtain g where g: "g \<in> set (raw_gaps (l_start lay) (l_end lay) (l_parts lay))" "in_span a g"
    using raw_gaps_free [OF assms(1), of a] free [of a] assms(2) by auto
  have "\<not> free_byte lay (span_end g)"
    using raw_gaps_end [OF g(1)] sound_layoutD(4) [OF assms(1)]
    by (fastforce simp: free_byte_def in_part_def part_end_def)
  with free [of "span_end g"] g(2) have "b \<le> span_end g" by (force simp: in_span_def)
  with g show ?thesis by (auto simp: in_span_def)
qed

lemma gaps_cover:
  assumes "sound_layout lay" "MiB dvd a" and free: "\<And>x. a \<le> x \<Longrightarrow> x < a + MiB \<Longrightarrow> free_byte lay x"
    and "fences_clear (fences_of (l_extended lay)) a (a + MiB)"
  shows "\<exists>g \<in> set (gaps lay). s_offset g \<le> a \<and> a + MiB \<le> span_end g"
proof -
  obtain raw where raw: "raw \<in> set (raw_gaps (l_start lay) (l_end lay) (l_parts lay))"
    "s_offset raw \<le> a" "a + MiB \<le> span_end raw"
    using free_block_in_raw_gap [OF assms(1), of a "a + MiB"] free by auto
  obtain piece where piece: "piece \<in> set (split_gap raw (fences_of (l_extended lay)))"
    "s_offset piece \<le> a" "a + MiB \<le> span_end piece"
    using split_gap_complete [OF sound_layoutD(5) [OF assms(1)] raw(2) _ raw(3) assms(4)] by auto
  have "align_up (s_offset piece) \<le> a" "a + MiB \<le> align_down (span_end piece)"
    using piece(2,3) assms(2) by (simp_all add: align_up_least align_down_greatest)
  with raw(1) piece(1) show ?thesis
    by (intro bexI [of _ "align_gap piece"]) (auto simp: gaps_def align_gap_def span_end_def)
qed

end
