(* ===== verification/Disk_Types.thy ===== *)
theory Disk_Types
  imports Disk_Model
begin

text \<open>
  Partition types and volumes: \<^verbatim>\<open>apps/system/disks/src/lib/partitions/types.ts\<close>, the parts of
  \<^verbatim>\<open>format.ts\<close> that name a volume, and the layout read from a drive (\<^verbatim>\<open>part\<close> and \<^verbatim>\<open>layoutOf\<close> of
  \<^verbatim>\<open>model.ts\<close>).  Of the service's \<^verbatim>\<open>Volume\<close> and \<^verbatim>\<open>Drive\<close> only the fields this code reads are
  kept.  Strings are ASCII.
\<close>

section \<open>Strings\<close>

definition to_lower :: "string \<Rightarrow> string" where
  "to_lower s = map (\<lambda>c. if 65 \<le> (of_char c :: nat) \<and> (of_char c :: nat) \<le> 90 then char_of ((of_char c :: nat) + 32) else c) s"

text \<open>\<^verbatim>\<open>replace(part, '')\<close>: the first occurrence goes.\<close>

fun without_first :: "string \<Rightarrow> string \<Rightarrow> string" where
  "without_first gone [] = []"
| "without_first gone (c # cs) =
    (if starts_with gone (c # cs) then drop (length gone) (c # cs) else c # without_first gone cs)"

section \<open>Partition types\<close>

datatype role = Firmware | Boot | Reserved | Swap | Data

record partition_type =
  ty_value :: string
  ty_label :: string
  ty_role :: role
  ty_offered :: bool

definition EFI_SYSTEM :: string where "EFI_SYSTEM = ''c12a7328-f81f-11d2-ba4b-00a0c93ec93b''"
definition LINUX_DATA :: string where "LINUX_DATA = ''0fc63daf-8483-4772-8e79-3d69d8477de4''"
definition BASIC_DATA :: string where "BASIC_DATA = ''ebd0a0a2-b9e5-4433-87c0-68b6b72699c7''"

definition ptype :: "string \<Rightarrow> string \<Rightarrow> role \<Rightarrow> bool \<Rightarrow> partition_type" where
  "ptype value label r offered = \<lparr>ty_value = value, ty_label = label, ty_role = r, ty_offered = offered\<rparr>"

definition GPT_TYPES :: "partition_type list" where
  "GPT_TYPES =
   [ptype LINUX_DATA ''Linux data'' Data True,
    ptype ''4f68bce3-e8cd-4db1-96e7-fbcaf984b709'' ''Linux root'' Data True,
    ptype ''933ac7e1-2eb4-4f13-b844-0e14e2aef915'' ''Linux home'' Data True,
    ptype ''ca7d7ccb-63ed-4c53-861c-1742536059cc'' ''Linux encrypted'' Data True,
    ptype ''e6d6d379-f507-44c2-a23c-238f2a3df928'' ''Linux LVM'' Data True,
    ptype ''0657fd6d-a4ab-43c4-84e5-0933c84b4f4f'' ''Linux swap'' Swap True,
    ptype ''bc13c2ff-59e6-4262-a352-b275fd6f7172'' ''Linux boot'' Boot True,
    ptype EFI_SYSTEM ''EFI system'' Firmware True,
    ptype ''21686148-6449-6e6f-744e-656564454649'' ''BIOS boot'' Firmware True,
    ptype BASIC_DATA ''Microsoft basic data'' Data True,
    ptype ''e3c9e316-0b5c-4db8-817d-f92df00215ae'' ''Microsoft reserved'' Reserved True,
    ptype ''de94bba4-06d1-4d40-a16a-bfd50179d6ac'' ''Windows recovery'' Reserved True,
    ptype ''48465300-0000-11aa-aa11-00306543ecac'' ''Apple HFS+'' Data False,
    ptype ''7c3457ef-0000-11aa-aa11-00306543ecac'' ''Apple APFS'' Data False]"

definition DOS_TYPES :: "partition_type list" where
  "DOS_TYPES =
   [ptype ''0x83'' ''Linux'' Data True,
    ptype ''0x82'' ''Linux swap'' Swap True,
    ptype ''0x8e'' ''Linux LVM'' Data True,
    ptype ''0x07'' ''NTFS or exFAT'' Data True,
    ptype ''0x0c'' ''FAT32'' Data True,
    ptype ''0x0b'' ''FAT32'' Data False,
    ptype ''0xef'' ''EFI system'' Firmware True,
    ptype ''0x27'' ''Windows recovery'' Reserved False,
    ptype ''0x05'' ''Extended'' Reserved False,
    ptype ''0x0f'' ''Extended'' Reserved False]"

definition partition_type_of :: "string option \<Rightarrow> partition_type option" where
  "partition_type_of value =
    (if or_blank value = [] then None
     else List.find (\<lambda>ty. ty_value ty = to_lower (or_blank value)) (GPT_TYPES @ DOS_TYPES))"

definition type_name :: "string option \<Rightarrow> string option" where
  "type_name value =
    (if or_blank value = [] then None
     else Some (case partition_type_of value of None \<Rightarrow> or_blank value | Some ty \<Rightarrow> ty_label ty))"

definition type_options :: "table \<Rightarrow> string \<Rightarrow> (string \<times> string) list" where
  "type_options table current =
    (let offered = filter ty_offered (if table = Gpt then GPT_TYPES else DOS_TYPES);
         known = list_ex (\<lambda>ty. ty_value ty = to_lower current) offered
     in (if known \<or> current = [] then [] else [(current, otherwise (type_name (Some current)) current)])
        @ map (\<lambda>ty. (ty_value ty, ty_label ty)) offered)"

definition type_for :: "table \<Rightarrow> string \<Rightarrow> string" where
  "type_for table filesystem =
    (if table = Gpt
     then (if filesystem = ''exfat'' \<or> filesystem = ''ntfs'' \<or> filesystem = ''vfat'' then BASIC_DATA else LINUX_DATA)
     else (if filesystem = ''exfat'' \<or> filesystem = ''ntfs'' then ''0x07''
           else if filesystem = ''vfat'' then ''0x0c'' else ''0x83''))"

section \<open>Volumes\<close>

datatype volume = Volume (v_block: string) (v_device: string) (v_number: "nat option") (v_offset: int)
    (v_size: int) (v_label: string) (v_usage: string) (v_fsType: string) (v_mountPoints: "string list")
    (v_used: "int option") (v_system: bool) (v_partitionType: "string option") (v_partitionName: string)
    (v_flags: "nat list") (v_logical: bool) (v_encryption: "encryption option")
  and encryption = Encryption (e_kind: string) (e_cleartext: "volume option")

definition cleartext_of :: "volume \<Rightarrow> volume option" where
  "cleartext_of vol = Option.bind (v_encryption vol) e_cleartext"

definition inner :: "volume \<Rightarrow> volume" where
  "inner vol = otherwise (cleartext_of vol) vol"

definition is_efi_system :: "volume \<Rightarrow> bool" where
  "is_efi_system vol \<longleftrightarrow>
    map_option ty_value (partition_type_of (v_partitionType vol)) = Some EFI_SYSTEM \<or> v_partitionType vol = Some ''0xef''"

definition folder_name :: "string \<Rightarrow> string" where
  "folder_name path =
    (case List.find (\<lambda>dir. let full = ''/var/'' @ dir; rest = drop (length full) path
        in starts_with full path \<and> (rest = [] \<or> hd rest = CHR ''/'')) [''mnt'', ''home'', ''srv'', ''opt''] of
      None \<Rightarrow> path
    | Some dir \<Rightarrow> ''/'' @ dir @ drop (length (''/var/'' @ dir)) path)"

definition volume_name :: "volume \<Rightarrow> string" where
  "volume_name vol =
    (let contents = inner vol;
         mount = or_blank (nth_opt (v_mountPoints contents) 0);
         ty = partition_type_of (v_partitionType vol)
     in if v_label vol \<noteq> [] \<or> v_label contents \<noteq> [] then or_else (v_label vol) (v_label contents)
        else if v_partitionName vol \<noteq> [] then v_partitionName vol
        else if is_efi_system vol then ''EFI system''
        else if mount \<noteq> [] then folder_name mount
        else if ty \<noteq> None \<and> ty_role (the ty) \<noteq> Data then ty_label (the ty)
        else if otherwise (v_number vol) 0 \<noteq> 0 then ''Partition '' @ show_nat (otherwise (v_number vol) 0)
        else without_first ''/dev/'' (v_device vol))"

definition SMALL_BOOT :: int where "SMALL_BOOT = 4 * 1000 ^ 3"

definition explorable :: "volume \<Rightarrow> bool" where
  "explorable vol =
    (let contents = inner vol;
         r = (case partition_type_of (v_partitionType vol) of None \<Rightarrow> Data | Some ty \<Rightarrow> ty_role ty);
         boot_only = list_all (\<lambda>point. point \<in> {''/boot'', ''/boot/efi'', ''/efi''}) (v_mountPoints contents)
     in if v_usage contents \<noteq> ''filesystem'' \<or> length (v_mountPoints contents) = 0 then False
        else if v_fsType contents \<in> {''swap'', ''crypto_LUKS'', ''LVM2_member'', ''linux_raid_member'', ''squashfs'', ''iso9660'', ''udf''}
        then False
        else if r \<noteq> Data then False
        else \<not> (boot_only \<and> v_size vol \<le> SMALL_BOOT))"

section \<open>The layout of a drive\<close>

datatype segment = Volume_segment volume | Free_segment int int

record drive =
  dr_id :: string
  dr_block :: string
  dr_size :: int
  dr_table :: "table option"
  dr_extended :: "span option"
  dr_segments :: "segment list"

definition part_of_volume :: "volume \<Rightarrow> part" where
  "part_of_volume vol =
    (let contents = inner vol in
    \<lparr>p_key = v_block vol, p_pending = False, p_number = v_number vol, p_offset = v_offset vol, p_size = v_size vol,
     p_type = or_blank (v_partitionType vol), p_name = v_partitionName vol, p_flags = v_flags vol,
     p_label = v_label contents, p_filesystem = v_fsType contents, p_usage = v_usage contents, p_used = v_used contents,
     p_mounted = 0 < length (v_mountPoints contents), p_encrypted = v_encryption vol \<noteq> None,
     p_locked = (v_encryption vol \<noteq> None \<and> cleartext_of vol = None),
     p_system = (v_system vol \<or> (case cleartext_of vol of None \<Rightarrow> False | Some clear \<Rightarrow> v_system clear)),
     p_logical = v_logical vol, p_replaced = False, p_title = volume_name vol\<rparr>)"

definition layout_of :: "drive \<Rightarrow> layout option" where
  "layout_of drv =
    (case dr_table drv of
      None \<Rightarrow> None
    | Some tab \<Rightarrow>
        let limit = (if tab = Dos then min (dr_size drv) DOS_LIMIT else dr_size drv)
        in Some \<lparr>l_table = tab, l_start = MiB, l_end = align_down (limit - (if tab = Gpt then MiB else 0)),
                 l_extended = dr_extended drv,
                 l_parts = concat (map (\<lambda>seg. case seg of
                     Volume_segment vol \<Rightarrow> (if v_number vol \<noteq> None then [part_of_volume vol] else [])
                   | Free_segment _ _ \<Rightarrow> []) (dr_segments drv))\<rparr>)"

text \<open>The editable area never touches the last mebibyte of a GPT drive, where the backup table lies.\<close>

lemma layout_of_bounds:
  assumes "layout_of drv = Some lay"
  shows "l_start lay = MiB \<and> MiB dvd l_end lay \<and> l_end lay \<le> dr_size drv" (is ?bounds)
    and "l_table lay = Gpt \<Longrightarrow> l_end lay + MiB \<le> dr_size drv"
    and "l_table lay = Dos \<Longrightarrow> l_end lay \<le> DOS_LIMIT"
proof -
  obtain tab where tab: "dr_table drv = Some tab" using assms by (auto simp: layout_of_def split: option.splits)
  show ?bounds
  proof (cases tab)
    case Gpt
    with assms tab align_down_le [of "dr_size drv - MiB"] MiB_pos(3) show ?thesis
      by (auto simp: layout_of_def Let_def simp del: MiB_pos)
  next
    case Dos
    with assms tab align_down_le [of "min (dr_size drv) DOS_LIMIT"] show ?thesis
      by (auto simp: layout_of_def Let_def)
  qed
  show "l_table lay = Gpt \<Longrightarrow> l_end lay + MiB \<le> dr_size drv"
    using assms tab align_down_le [of "dr_size drv - MiB"] by (auto simp: layout_of_def Let_def)
  show "l_table lay = Dos \<Longrightarrow> l_end lay \<le> DOS_LIMIT"
    using assms tab align_down_le [of "min (dr_size drv) DOS_LIMIT"] by (auto simp: layout_of_def Let_def)
qed

lemma layout_of_parts:
  assumes "layout_of drv = Some lay" "p \<in> set (l_parts lay)"
  shows "\<not> p_pending p \<and> \<not> p_replaced p \<and> p_number p \<noteq> None"
  using assms by (auto simp: layout_of_def Let_def part_of_volume_def split: option.splits segment.splits if_splits)

text \<open>A known type is always offered under its own name, and an unknown one is kept first.\<close>

lemma type_options_current:
  assumes "current \<noteq> []"
  shows "\<exists>ty \<in> set (type_options table current). fst ty = current \<or> fst ty = to_lower current"
  using assms by (auto simp: type_options_def Let_def list_ex_iff)

end
