(* ===== verification/Disk_Limits.thy ===== *)
theory Disk_Limits
  imports Disk_Model "HOL-Library.Word"
begin

unbundle bit_operations_syntax

text \<open>
  How far a part may move and grow, \<^verbatim>\<open>apps/system/disks/src/lib/editor/limits.ts\<close>, and the
  proof that every step inside those limits, and every partition created in a gap, keeps the
  layout free of overlaps.  What a file system can do when it is resized comes from the service
  as bits of a number (\<^verbatim>\<open>Support.resize\<close>): the function \<open>support\<close> is a parameter.
\<close>

section \<open>Limits of a part\<close>

definition OFFLINE_SHRINK :: "32 word" where "OFFLINE_SHRINK = 2"
definition OFFLINE_GROW :: "32 word" where "OFFLINE_GROW = 4"
definition ONLINE_SHRINK :: "32 word" where "ONLINE_SHRINK = 8"
definition ONLINE_GROW :: "32 word" where "ONLINE_GROW = 16"
definition SMALLEST_MOVE :: int where "SMALLEST_MOVE = 1024 * MiB"

definition headroom_for :: "string \<Rightarrow> number \<times> int" where
  "headroom_for filesystem = (if filesystem = ''btrfs'' then (125/100, 256 * MiB) else (11/10, 64 * MiB))"

definition smallest_for :: "string \<Rightarrow> int" where
  "smallest_for filesystem =
    (if filesystem = ''btrfs'' then 128 * MiB
     else if filesystem = ''ext4'' then 16 * MiB
     else if filesystem = ''vfat'' then 34 * MiB
     else MiB)"

text \<open>\<^verbatim>\<open>alignUp\<close> of a value that need not be a whole number.\<close>

definition align_up_number :: "number \<Rightarrow> int" where
  "align_up_number v = \<lceil>v / of_int MiB\<rceil> * MiB"

text \<open>The note shown with a part, one constructor for each sentence of the source.\<close>

datatype limit_note = Moves_at_start | System_in_place | System_fixed | Logical_stays | Encrypted_keeps_size
  | Mount_to_measure | Only_moves | Unmounted_while_changing

record limits =
  lim_before :: int
  lim_after :: int
  lim_smallest :: int
  lim_largest :: int
  lim_movable :: bool
  lim_moves_at_start :: bool
  lim_notes :: "limit_note list"

record sizing =
  can_grow :: bool
  can_shrink :: bool
  min_size :: int

definition neighbours :: "layout \<Rightarrow> part \<Rightarrow> int \<times> int" where
  "neighbours lay part =
    (let index = (case find_index (\<lambda>candidate. p_key candidate = p_key part) (l_parts lay) of
                    None \<Rightarrow> -1 | Some i \<Rightarrow> int i);
         previous = nth_opt (l_parts lay) (index - 1);
         next_part = nth_opt (l_parts lay) (index + 1);
         before = (case previous of Some q \<Rightarrow> align_up (part_end q) | None \<Rightarrow> l_start lay);
         after = (case next_part of Some q \<Rightarrow> p_offset q | None \<Rightarrow> l_end lay)
     in case l_extended lay of
          None \<Rightarrow> (before, after)
        | Some ext \<Rightarrow>
            if p_logical part then (max before (s_offset ext + MiB), min after (span_end ext))
            else if p_offset part < s_offset ext then (before, min after (s_offset ext))
            else (max before (align_up (span_end ext)), after))"

definition resizing :: "part \<Rightarrow> (string \<Rightarrow> 32 word option) \<Rightarrow> sizing" where
  "resizing part support =
    (if p_pending part \<or> (p_replaced part \<and> p_filesystem part = [])
     then \<lparr>can_grow = True, can_shrink = True, min_size = smallest_for (p_filesystem part)\<rparr>
     else if p_usage part = [] then \<lparr>can_grow = True, can_shrink = True, min_size = MiB\<rparr>
     else if p_usage part \<noteq> ''filesystem'' \<or> (p_encrypted part \<and> \<not> p_system part)
     then \<lparr>can_grow = False, can_shrink = False, min_size = p_size part\<rparr>
     else
      (let flags = otherwise (support (p_filesystem part)) 0;
           (grows, shrinks) = (if p_system part then (ONLINE_GROW, ONLINE_SHRINK)
             else (ONLINE_GROW OR OFFLINE_GROW, ONLINE_SHRINK OR OFFLINE_SHRINK));
           known = p_used part \<noteq> None;
           (share, margin) = headroom_for (p_filesystem part);
           smallest = (if known
             then max (smallest_for (p_filesystem part))
               (align_up_number (of_int (otherwise (p_used part) 0) * share + of_int margin))
             else p_size part)
       in \<lparr>can_grow = flags AND grows \<noteq> 0, can_shrink = known \<and> flags AND shrinks \<noteq> 0,
           min_size = min (p_size part) smallest\<rparr>))"

definition notes_of :: "part \<Rightarrow> sizing \<Rightarrow> bool \<Rightarrow> limit_note list" where
  "notes_of part sizes moves_at_start =
    (if moves_at_start then [Moves_at_start]
     else if p_system part then [if can_grow sizes \<or> can_shrink sizes then System_in_place else System_fixed]
     else if p_logical part then [Logical_stays] else [])
    @ (if p_encrypted part \<and> \<not> p_replaced part \<and> \<not> p_system part then [Encrypted_keeps_size]
       else if \<not> p_pending part \<and> \<not> p_replaced part \<and> p_usage part = ''filesystem'' \<and> p_used part = None \<and> \<not> p_system part
       then [Mount_to_measure]
       else if p_usage part \<noteq> [] \<and> p_usage part \<noteq> ''filesystem'' \<and> \<not> p_encrypted part then [Only_moves] else [])
    @ (if \<not> p_system part \<and> p_mounted part then [Unmounted_while_changing] else [])"

definition limits_of :: "layout \<Rightarrow> part \<Rightarrow> (string \<Rightarrow> 32 word option) \<Rightarrow> limits" where
  "limits_of lay part support =
    (let (before, after) = neighbours lay part;
         sizes = resizing part support;
         movable = (\<not> p_system part \<and> \<not> p_logical part);
         moves_at_start = (p_system part \<and> \<not> p_logical part \<and> can_grow sizes \<and> p_offset part - before \<ge> SMALLEST_MOVE);
         grows = (can_grow sizes \<and> \<not> p_logical part);
         start = (if movable \<or> moves_at_start then before else p_offset part);
         stop = (if movable \<or> grows then after else part_end part)
     in \<lparr>lim_before = start, lim_after = stop,
         lim_smallest = (if can_shrink sizes \<and> \<not> p_logical part then min_size sizes else p_size part),
         lim_largest = (if grows then stop - start else p_size part),
         lim_movable = movable, lim_moves_at_start = moves_at_start,
         lim_notes = notes_of part sizes moves_at_start\<rparr>)"

section \<open>Well-formed layouts\<close>

definition part_span :: "part \<Rightarrow> span" where
  "part_span p = \<lparr>s_offset = p_offset p, s_size = p_size p\<rparr>"

text \<open>A logical part lies in the extended partition, a primary one beside it.\<close>

definition fits_extended :: "span option \<Rightarrow> part \<Rightarrow> bool" where
  "fits_extended extended p \<longleftrightarrow>
    (if p_logical p then inside extended (part_span p)
     else (case extended of None \<Rightarrow> True
           | Some ext \<Rightarrow> part_end p \<le> s_offset ext \<or> span_end ext \<le> p_offset p))"

definition wf_layout :: "layout \<Rightarrow> bool" where
  "wf_layout lay \<longleftrightarrow> sound_layout lay \<and> distinct (map p_key (l_parts lay)) \<and>
    (\<forall>p \<in> set (l_parts lay). fits_extended (l_extended lay) p)"

lemma wf_layoutD:
  assumes "wf_layout lay"
  shows "sound_layout lay" and "distinct (map p_key (l_parts lay))" and "apart (l_parts lay)"
    and "\<And>p. p \<in> set (l_parts lay) \<Longrightarrow> fits_extended (l_extended lay) p"
    and "\<And>p. p \<in> set (l_parts lay) \<Longrightarrow> p_offset p \<le> l_end lay"
    and "\<And>p. p \<in> set (l_parts lay) \<Longrightarrow> l_start lay \<le> p_offset p"
  using assms by (auto simp: wf_layout_def sound_layout_def)

lemma find_index_key:
  "distinct (map p_key (us @ p # vs)) \<Longrightarrow>
    find_index (\<lambda>c. p_key c = p_key p) (us @ p # vs) = Some (length us)"
  by (induction us) (auto simp: image_iff)

lemma neighbours_split:
  assumes "l_parts lay = us @ p # vs" "distinct (map p_key (l_parts lay))"
  shows "neighbours lay p =
    (let before = (if us = [] then l_start lay else align_up (part_end (last us)));
         after = (if vs = [] then l_end lay else p_offset (hd vs))
     in case l_extended lay of
          None \<Rightarrow> (before, after)
        | Some ext \<Rightarrow>
            if p_logical p then (max before (s_offset ext + MiB), min after (span_end ext))
            else if p_offset p < s_offset ext then (before, min after (s_offset ext))
            else (max before (align_up (span_end ext)), after))"
proof -
  have i: "find_index (\<lambda>c. p_key c = p_key p) (us @ p # vs) = Some (length us)"
    using assms find_index_key by metis
  have prev: "nth_opt (us @ p # vs) (int (length us) - 1) = (if us = [] then None else Some (last us))"
    by (cases us rule: rev_cases) (auto simp: nth_opt_def nth_append)
  have nxt: "nth_opt (us @ p # vs) (int (length us) + 1) = (if vs = [] then None else Some (hd vs))"
    by (auto simp: nth_opt_def hd_conv_nth nth_append nat_add_distrib)
  show ?thesis
    unfolding neighbours_def assms(1) i Let_def option.case prev nxt
    by (cases "us = []"; cases "vs = []"; cases "l_extended lay"; simp)
qed

lemma updated_split:
  assumes "l_parts lay = us @ p # vs" "distinct (map p_key (l_parts lay))"
  shows "l_parts (updated lay (p_key p) f) = sorted_parts (us @ f p # vs)"
proof -
  have "map (\<lambda>c. if p_key c = p_key p then f c else c) us = us"
    "map (\<lambda>c. if p_key c = p_key p then f c else c) vs = vs"
    using assms by (auto intro!: map_idI simp: image_iff)
  then show ?thesis using assms(1) by (simp add: updated_def)
qed

lemma apart_last: "apart us \<Longrightarrow> u \<in> set us \<Longrightarrow> part_end u \<le> part_end (last us)"
  by (induction us rule: rev_induct) (auto simp: apart_def sorted_wrt_append part_end_def intro: add_increasing2 less_imp_le)

lemma apart_hd: "apart vs \<Longrightarrow> v \<in> set vs \<Longrightarrow> p_offset (hd vs) \<le> p_offset v"
  by (cases vs) (auto simp: apart_def part_end_def)

lemma apart_inj:
  assumes "apart parts"
  shows "inj_on p_offset (set parts)"
proof (rule inj_onI)
  fix p q
  assume pq: "p \<in> set parts" "q \<in> set parts" "p_offset p = p_offset q"
  have "0 < p_size p" "0 < p_size q" using assms pq by (auto simp: apart_def)
  with pq show "p = q"
    by (intro apart_disjoint [OF assms, of p q "p_offset p"]) (auto simp: in_part_def part_end_def)
qed

lemma sorted_parts_perm: "apart ys \<Longrightarrow> mset xs = mset ys \<Longrightarrow> sorted_parts xs = ys"
  unfolding sorted_parts_def
  by (rule sort_key_inj_key_eq) (auto simp: apart_sorted apart_inj dest: mset_eq_setD)

lemma align_up_trans: "align_up a \<le> b \<Longrightarrow> a \<le> b"
  using align_up_ge [of a] by linarith

section \<open>Moving and resizing a part\<close>

text \<open>The room \<open>neighbours\<close> gives a part lies between its neighbours in disk order.\<close>

lemma neighbours_between:
  assumes "l_parts lay = us @ p # vs" "distinct (map p_key (l_parts lay))" "apart (l_parts lay)"
    and "neighbours lay p = (before, after)"
  shows "\<forall>u \<in> set us. part_end u \<le> before" and "\<forall>v \<in> set vs. after \<le> p_offset v"
    and "vs = [] \<Longrightarrow> after \<le> l_end lay" and "us = [] \<Longrightarrow> l_start lay \<le> before"
proof -
  have ap: "apart us" "apart vs" using assms(1,3) by (simp_all add: apart_mid)
  have b: "us \<noteq> [] \<Longrightarrow> align_up (part_end (last us)) \<le> before"
    and a: "vs \<noteq> [] \<Longrightarrow> after \<le> p_offset (hd vs)" and e: "vs = [] \<Longrightarrow> after \<le> l_end lay"
    and f: "us = [] \<Longrightarrow> l_start lay \<le> before"
    using assms(4) unfolding neighbours_split [OF assms(1,2)]
    by (auto simp: Let_def split: option.splits if_splits)
  show "\<forall>u \<in> set us. part_end u \<le> before"
    using apart_last [OF ap(1)] align_up_trans [OF b] by fastforce
  show "\<forall>v \<in> set vs. after \<le> p_offset v"
    using apart_hd [OF ap(2)] a by fastforce
  show "vs = [] \<Longrightarrow> after \<le> l_end lay" by (rule e)
  show "us = [] \<Longrightarrow> l_start lay \<le> before" by (rule f)
qed

lemma neighbours_extended:
  assumes "neighbours lay p = (before, after)" "fits_extended (l_extended lay) p"
    and "before \<le> o'" "o' + s \<le> after" "0 < s"
  shows "fits_extended (l_extended lay) (placed_part o' s p)"
proof (cases "l_extended lay")
  case None
  with assms(2) show ?thesis by (auto simp: fits_extended_def inside_def placed_part_def split: if_splits)
next
  case (Some ext)
  have "if p_logical p then s_offset ext \<le> before \<and> after \<le> span_end ext
    else if p_offset p < s_offset ext then after \<le> s_offset ext else span_end ext \<le> before"
    using assms(1) Some align_up_ge [of "span_end ext"] MiB_pos(3)
    by (auto simp: neighbours_def Let_def simp del: MiB_pos)
  with assms(3-5) Some show ?thesis
    by (auto simp: fits_extended_def inside_def placed_part_def part_span_def span_end_def part_end_def
        split: if_splits)
qed

lemma place_split:
  assumes wf: "wf_layout lay" and p: "p \<in> set (l_parts lay)" and nb: "neighbours lay p = (before, after)"
    and o: "before \<le> o'" "o' + s \<le> after" "0 < s"
  obtains us vs where "l_parts lay = us @ p # vs" and "apart (us @ placed_part o' s p # vs)"
    and "apply_step lay (Place (p_key p) o' s) = lay\<lparr>l_parts := us @ placed_part o' s p # vs\<rparr>"
    and "l_start lay \<le> o'" and "o' \<le> l_end lay"
proof -
  obtain us vs where sp: "l_parts lay = us @ p # vs" using p by (meson split_list)
  note wfD = wf_layoutD [OF wf]
  let ?q = "placed_part o' s p"
  have bt: "\<forall>u \<in> set us. part_end u \<le> before" "\<forall>v \<in> set vs. after \<le> p_offset v" "vs = [] \<Longrightarrow> after \<le> l_end lay"
    "us = [] \<Longrightarrow> l_start lay \<le> before"
    using neighbours_between [OF sp wfD(2,3) nb] by blast+
  have q: "p_offset ?q = o'" "part_end ?q = o' + s" "p_size ?q = s"
    by (simp_all add: placed_part_def part_end_def)
  have ap: "apart (us @ ?q # vs)"
    using wfD(3) o bt unfolding sp apart_mid q by fastforce
  have "o' \<le> l_end lay"
    using bt(2,3) o wfD(5) sp by (cases vs) fastforce+
  moreover have "l_start lay \<le> o'"
  proof (cases us)
    case (Cons u us')
    then have "l_start lay \<le> p_offset u" "0 < p_size u" "part_end u \<le> before"
      using wfD(3,6) bt(1) sp by (auto simp: apart_def)
    with o(1) show ?thesis by (simp add: part_end_def)
  qed (use bt(4) o(1) in simp)
  moreover have "apply_step lay (Place (p_key p) o' s) = lay\<lparr>l_parts := us @ ?q # vs\<rparr>"
    using updated_split [OF sp wfD(2), of "placed_part o' s"] ap by (simp add: updated_def)
  ultimately show thesis using that sp ap by blast
qed

lemma place_wf:
  assumes wf: "wf_layout lay" and p: "p \<in> set (l_parts lay)" and nb: "neighbours lay p = (before, after)"
    and o: "before \<le> o'" "o' + s \<le> after" "0 < s"
  shows "wf_layout (apply_step lay (Place (p_key p) o' s))"
proof -
  obtain us vs where sp: "l_parts lay = us @ p # vs" "apart (us @ placed_part o' s p # vs)"
    and eq: "apply_step lay (Place (p_key p) o' s) = lay\<lparr>l_parts := us @ placed_part o' s p # vs\<rparr>"
    and bounds: "l_start lay \<le> o'" "o' \<le> l_end lay"
    using place_split [OF wf p nb o] by blast
  have "p_offset (placed_part o' s p) = o'" "p_key (placed_part o' s p) = p_key p"
    by (simp_all add: placed_part_def)
  then show ?thesis
    unfolding eq using sp bounds wf_layoutD [OF wf] neighbours_extended [OF nb _ o] p
    by (auto simp: wf_layout_def sound_layout_def)
qed

section \<open>Creating a partition in a gap\<close>

lemma free_span_split:
  assumes "apart parts" "0 < s" and free: "\<forall>x. o' \<le> x \<and> x < o' + s \<longrightarrow> (\<forall>p \<in> set parts. \<not> in_part x p)"
  obtains us vs where "parts = us @ vs" "\<forall>u \<in> set us. part_end u \<le> o'" "\<forall>v \<in> set vs. o' + s \<le> p_offset v"
proof
  let ?P = "\<lambda>p. p_offset p < o'"
  show "parts = takeWhile ?P parts @ dropWhile ?P parts" by simp
  have pos: "\<forall>p \<in> set parts. 0 < p_size p" using assms(1) by (simp add: apart_def)
  show "\<forall>u \<in> set (takeWhile ?P parts). part_end u \<le> o'"
  proof
    fix u assume "u \<in> set (takeWhile ?P parts)"
    then have "u \<in> set parts" "p_offset u < o'" by (auto dest: set_takeWhileD)
    with free [rule_format, of o' u] assms(2) show "part_end u \<le> o'" by (auto simp: in_part_def)
  qed
  show "\<forall>v \<in> set (dropWhile ?P parts). o' + s \<le> p_offset v"
  proof
    fix v assume v: "v \<in> set (dropWhile ?P parts)"
    have sd: "sorted (map p_offset (dropWhile ?P parts))"
      using apart_sorted [OF assms(1)] by (simp add: dropWhile_eq_drop sorted_wrt_drop flip: drop_map)
    have "\<not> ?P (hd (dropWhile ?P parts))" 
      by (rule hd_dropWhile [OF length_greater_0_conv [THEN iffD1, OF length_pos_if_in_set [OF v]]])
    then have "o' \<le> p_offset v" using sd v by (cases "dropWhile ?P parts") auto
    moreover have "v \<in> set parts" using v by (rule set_dropWhileD)
    ultimately show "o' + s \<le> p_offset v"
      using free [rule_format, of "p_offset v" v] pos by (force simp: in_part_def part_end_def)
  qed
qed

text \<open>A span of free bytes that no end of the extended partition cuts.\<close>

definition free_span :: "layout \<Rightarrow> int \<Rightarrow> int \<Rightarrow> bool" where
  "free_span lay o' sz \<longleftrightarrow> 0 < sz \<and> (\<forall>x. o' \<le> x \<and> x < o' + sz \<longrightarrow> free_byte lay x) \<and>
    fences_clear (fences_of (l_extended lay)) o' (o' + sz)"

lemma gap_free_span:
  assumes "sound_layout lay" "g \<in> set (gaps lay)" "s_offset g \<le> o'" "o' + s \<le> span_end g" "0 < s"
  shows "free_span lay o' s"
  using gaps_free [OF assms(1,2)] assms(3-5) by (fastforce simp: free_span_def in_span_def fences_clear_def)

lemma create_split:
  fixes key filesystem label type name :: string and flags :: "nat list"
  assumes wf: "wf_layout lay" and fs: "free_span lay o' s"
  defines "c \<equiv> created_part (l_extended lay) key o' s filesystem label type name flags"
  obtains us vs where "l_parts lay = us @ vs" and "apart (us @ c # vs)"
    and "apply_step lay (Create key o' s filesystem label type name flags) = lay\<lparr>l_parts := us @ c # vs\<rparr>"
proof -
  note wfD = wf_layoutD [OF wf]
  have s: "0 < s" and free: "\<forall>x. o' \<le> x \<and> x < o' + s \<longrightarrow> (\<forall>p \<in> set (l_parts lay). \<not> in_part x p)"
    using fs by (auto simp: free_span_def free_byte_def)
  obtain us vs where sp: "l_parts lay = us @ vs" "\<forall>u \<in> set us. part_end u \<le> o'" "\<forall>v \<in> set vs. o' + s \<le> p_offset v"
    using free_span_split [OF wfD(3) s free] by blast
  have c: "p_offset c = o'" "part_end c = o' + s" "p_size c = s"
    by (simp_all add: created_part_def part_end_def c_def)
  have "apart us" "apart vs" "\<forall>u \<in> set us. \<forall>v \<in> set vs. part_end u \<le> p_offset v"
    using wfD(3) by (auto simp: sp(1) apart_def sorted_wrt_append)
  then have ap: "apart (us @ c # vs)"
    using sp(2,3) s unfolding apart_mid c by blast
  have "apply_step lay (Create key o' s filesystem label type name flags) = lay\<lparr>l_parts := us @ c # vs\<rparr>"
    using sorted_parts_perm [OF ap] by (simp add: sp(1) c_def)
  with sp(1) ap that show thesis by blast
qed

lemma created_fits:
  "free_span lay o' s \<Longrightarrow>
    fits_extended (l_extended lay) (created_part (l_extended lay) key o' s filesystem label type name flags)"
  by (auto simp: fits_extended_def created_part_def inside_def part_span_def fences_clear_def free_span_def
      fences_of_def span_end_def part_end_def split: option.splits)

lemma create_wf:
  assumes wf: "wf_layout lay" and fs: "free_span lay o' s" and key: "key \<notin> p_key ` set (l_parts lay)"
  shows "wf_layout (apply_step lay (Create key o' s filesystem label type name flags))"
proof -
  let ?c = "created_part (l_extended lay) key o' s filesystem label type name flags"
  obtain us vs where sp: "l_parts lay = us @ vs" "apart (us @ ?c # vs)"
    and eq: "apply_step lay (Create key o' s filesystem label type name flags) = lay\<lparr>l_parts := us @ ?c # vs\<rparr>"
    using create_split [OF wf fs] by blast
  have "o' \<le> l_end lay" "l_start lay \<le> o'"
    using fs by (auto simp: free_span_def free_byte_def dest!: spec [of _ o'])
  moreover have "p_offset ?c = o'" "p_key ?c = key" by (simp_all add: created_part_def)
  ultimately show ?thesis
    unfolding eq using sp wf_layoutD [OF wf] created_fits [OF fs] key
    by (auto simp: wf_layout_def sound_layout_def)
qed

section \<open>Every admissible step keeps the layout well-formed\<close>

lemma map_same_place_wf:
  assumes wf: "wf_layout lay"
    and g: "\<And>p. p_offset (g p) = p_offset p" "\<And>p. p_size (g p) = p_size p"
      "\<And>p. p_key (g p) = p_key p" "\<And>p. p_logical (g p) = p_logical p"
  shows "wf_layout (lay\<lparr>l_parts := sorted_parts (map g (l_parts lay))\<rparr>)"
proof -
  have ap: "apart (map g (l_parts lay))"
    using apart_map [of "l_parts lay" g] g wf_layoutD(3) [OF wf] by simp
  have "map p_key (map g (l_parts lay)) = map p_key (l_parts lay)" by (simp add: g)
  then have "distinct (map p_key (map g (l_parts lay)))" using wf_layoutD(2) [OF wf] by argo
  moreover have "fits_extended e (g p) = fits_extended e p" for e p
    by (simp add: fits_extended_def part_span_def part_end_def g split: option.split)
  ultimately show ?thesis
    using wf ap by (auto simp: wf_layout_def sound_layout_def g)
qed

lemma updated_same_place_wf:
  assumes "wf_layout lay"
    and "\<And>p. p_offset (f p) = p_offset p \<and> p_size (f p) = p_size p \<and> p_key (f p) = p_key p \<and> p_logical (f p) = p_logical p"
  shows "wf_layout (updated lay key f)"
  unfolding updated_def using assms by (intro map_same_place_wf) auto

text \<open>
  The steps the editor's controls produce: a partition created in free space under a new key, a
  part placed within its neighbours, and any other step.
\<close>

definition admissible :: "layout \<Rightarrow> step \<Rightarrow> bool" where
  "admissible lay s =
    (case s of
       Create key o' sz _ _ _ _ _ \<Rightarrow> free_span lay o' sz \<and> key \<notin> p_key ` set (l_parts lay)
     | Place key o' sz \<Rightarrow> 0 < sz \<and> (\<exists>p \<in> set (l_parts lay). p_key p = key \<and>
         fst (neighbours lay p) \<le> o' \<and> o' + sz \<le> snd (neighbours lay p))
     | _ \<Rightarrow> step_key s \<in> p_key ` set (l_parts lay))"

fun admissible_plan :: "layout \<Rightarrow> step list \<Rightarrow> bool" where
  "admissible_plan lay [] = True"
| "admissible_plan lay (s # rest) = (admissible lay s \<and> admissible_plan (apply_step lay s) rest)"

lemma apply_step_wf: "wf_layout lay \<Longrightarrow> admissible lay s \<Longrightarrow> wf_layout (apply_step lay s)"
proof (cases s)
  case (Create key o' sz fs lb ty nm fl)
  moreover assume "wf_layout lay" "admissible lay s"
  ultimately show ?thesis by (auto simp: admissible_def simp del: apply_step.simps intro: create_wf)
next
  case (Place key o' sz)
  moreover assume "wf_layout lay" "admissible lay s"
  ultimately show ?thesis
    by (auto simp: admissible_def simp del: apply_step.simps intro: place_wf [OF _ _ prod.collapse [symmetric]])
next
  case (Delete key)
  moreover assume "wf_layout lay"
  ultimately show ?thesis
    by (auto simp: wf_layout_def sound_layout_def apart_filter distinct_map_filter)
next
  case (Format key fs lb)
  moreover assume "wf_layout lay"
  ultimately show ?thesis by (auto simp: formatted_part_def intro: updated_same_place_wf)
next
  case (Change key ty nm fl lb)
  moreover assume "wf_layout lay"
  ultimately show ?thesis by (auto simp: changed_part_def intro: updated_same_place_wf)
qed

lemma plan_wf: "wf_layout lay \<Longrightarrow> admissible_plan lay steps \<Longrightarrow> wf_layout (foldl apply_step lay steps)"
  by (induction steps arbitrary: lay) (auto intro: apply_step_wf simp del: apply_step.simps)

section \<open>What the limits allow\<close>

text \<open>A part between its neighbours' edges, as every part aligned to a mebibyte is.\<close>

definition in_place :: "layout \<Rightarrow> part \<Rightarrow> bool" where
  "in_place lay p \<longleftrightarrow> fst (neighbours lay p) \<le> p_offset p \<and> part_end p \<le> snd (neighbours lay p)"

lemma aligned_in_place:
  assumes wf: "wf_layout lay" and p: "p \<in> set (l_parts lay)"
    and al: "MiB dvd p_offset p" "l_start lay \<le> p_offset p" "part_end p \<le> l_end lay"
    and ext: "p_logical p \<Longrightarrow> s_offset (the (l_extended lay)) + MiB \<le> p_offset p"
  shows "in_place lay p"
proof -
  obtain us vs where sp: "l_parts lay = us @ p # vs" using p by (meson split_list)
  note wfD = wf_layoutD [OF wf]
  have u: "us \<noteq> [] \<Longrightarrow> align_up (part_end (last us)) \<le> p_offset p"
    using wfD(3) al(1) by (auto simp: sp apart_mid align_up_least)
  have v: "vs \<noteq> [] \<Longrightarrow> part_end p \<le> p_offset (hd vs)"
    using wfD(3) by (auto simp: sp apart_mid)
  have sz: "0 < p_size p" using wfD(3) by (simp add: sp apart_mid)
  define before where "before = (if us = [] then l_start lay else align_up (part_end (last us)))"
  define after where "after = (if vs = [] then l_end lay else p_offset (hd vs))"
  have ba: "before \<le> p_offset p" "part_end p \<le> after"
    using u v al by (simp_all add: before_def after_def)
  have "\<And>a. l_extended lay = Some a \<Longrightarrow> 0 < s_size a"
    using wfD(1) by (simp add: sound_layout_def)
  then show ?thesis
    using wfD(4) [OF p] ba al(1) ext sz
    unfolding in_place_def neighbours_split [OF sp wfD(2)] before_def [symmetric] after_def [symmetric] Let_def
    by (cases "l_extended lay"; cases "p_logical p")
      (auto simp: fits_extended_def inside_def part_span_def span_end_def part_end_def align_up_least)
qed

lemma limits_within_neighbours:
  assumes "in_place lay p"
  shows "fst (neighbours lay p) \<le> lim_before (limits_of lay p support)"
    and "lim_after (limits_of lay p support) \<le> snd (neighbours lay p)"
    and "lim_before (limits_of lay p support) \<le> p_offset p"
    and "part_end p \<le> lim_after (limits_of lay p support)"
  using assms by (auto simp: limits_of_def in_place_def Let_def split: prod.splits)

lemma limits_admissible:
  assumes "p \<in> set (l_parts lay)" "in_place lay p" "0 < sz"
    and "lim_before (limits_of lay p support) \<le> o'" "o' + sz \<le> lim_after (limits_of lay p support)"
  shows "admissible lay (Place (p_key p) o' sz)"
  using assms limits_within_neighbours(1,2) [OF assms(2), of support]
  by (fastforce simp: admissible_def)

lemma align_up_number_int: "align_up_number (of_int v) = align_up v"
  by (simp add: align_up_number_def align_up_def ceiling_divide_eq_div)

lemma resizing_min_size:
  assumes "MiB \<le> p_size p" "\<not> p_pending p" "\<not> (p_replaced p \<and> p_filesystem p = [])"
  shows "min_size (resizing p support) \<le> p_size p"
proof -
  have [simp]: "\<not> (p_pending p \<or> p_replaced p \<and> p_filesystem p = [])" using assms by blast
  show ?thesis
    unfolding resizing_def Let_def using assms(1) by (simp add: case_prod_unfold split del: if_split split: if_split)
qed

lemma limits_size_range:
  assumes "in_place lay p" "MiB \<le> p_size p" "\<not> p_pending p" "\<not> (p_replaced p \<and> p_filesystem p = [])"
  shows "lim_smallest (limits_of lay p support) \<le> p_size p"
    and "p_size p \<le> lim_largest (limits_of lay p support)"
proof -
  show "lim_smallest (limits_of lay p support) \<le> p_size p"
    using resizing_min_size [OF assms(2-4)] by (simp add: limits_of_def Let_def case_prod_unfold)
  show "p_size p \<le> lim_largest (limits_of lay p support)"
    using assms(1) by (auto simp: limits_of_def in_place_def part_end_def Let_def split: prod.splits)
qed

text \<open>The used part of a file system never falls outside the smallest size offered for it.\<close>

lemma resizing_keeps_data:
  assumes "can_shrink (resizing p support)" "p_usage p = ''filesystem''" "\<not> p_pending p"
    and "\<not> (p_replaced p \<and> p_filesystem p = [])" "p_used p = Some used" "0 \<le> used" "used \<le> p_size p"
  shows "used \<le> min_size (resizing p support)"
proof -
  obtain share margin where h: "headroom_for (p_filesystem p) = (share, margin)" by fastforce
  then have sm: "1 \<le> share" "0 \<le> margin" by (auto simp: headroom_for_def split: if_splits)
  have "(of_int used :: number) \<le> of_int used * share"
    using mult_left_mono [OF sm(1), of "of_int used"] assms(6) by simp
  then have "(of_int used :: number) \<le> of_int used * share + of_int margin"
    using sm(2) by (simp add: add_increasing2)
  also have "\<dots> \<le> of_int (align_up_number (of_int used * share + of_int margin))"
    unfolding align_up_number_def of_int_mult
    by (rule pos_divide_le_eq [THEN iffD1, OF _ le_of_int_ceiling]) simp
  finally have "used \<le> align_up_number (of_int used * share + of_int margin)" by simp
  then show ?thesis
    using assms h by (auto simp: resizing_def Let_def split: if_splits)
qed

section \<open>The partition table never overflows\<close>

definition primaries_of :: "layout \<Rightarrow> nat" where
  "primaries_of lay = length (filter (\<lambda>p. \<not> p_logical p) (l_parts lay)) + (if l_extended lay \<noteq> None then 1 else 0)"

definition within_table :: "layout \<Rightarrow> bool" where
  "within_table lay \<longleftrightarrow> (if l_table lay = Gpt then length (l_parts lay) \<le> GPT_ENTRIES else primaries_of lay \<le> DOS_PRIMARIES)"

lemma length_filter_sorted_parts: "length (filter P (sorted_parts ps)) = length (filter P ps)"
  unfolding sorted_parts_def by (metis filter_mset_eq_conv mset_filter mset_sort size_mset)

lemma create_within_table:
  assumes "within_table lay" "creatable lay g = None" "s_offset g \<le> o'" "o' + s \<le> span_end g"
  shows "within_table (apply_step lay (Create key o' s filesystem label type name flags))"
proof (cases "l_table lay = Gpt")
  case True
  then show ?thesis using assms(2) length_filter_sorted_parts [of "\<lambda>_. True"]
    by (auto simp: within_table_def creatable_def split: if_splits)
next
  case False
  let ?c = "created_part (l_extended lay) key o' s filesystem label type name flags"
  have "p_logical ?c" if "inside (l_extended lay) g"
    using that assms(3,4) by (auto simp: inside_def created_part_def span_end_def split: option.splits)
  then show ?thesis using False assms(1,2)
    by (auto simp: within_table_def creatable_def primaries_of_def length_filter_sorted_parts Let_def
        simp del: apply_step.simps(2-) split: if_splits)
qed

end
