(* ===== verification/Disk_Plan.thy ===== *)
theory Disk_Plan
  imports Disk_Types Disk_Limits
begin

text \<open>
  The plan shown before it is applied, \<^verbatim>\<open>apps/system/disks/src/lib/editor/describe.ts\<close>: a
  sentence for each step, what it destroys, and whether it unmounts the part.  Sizes are shown by
  \<^verbatim>\<open>bytes\<close> of the UI kit, which formats through the platform's \<^verbatim>\<open>Intl\<close>: the function
  \<open>show_bytes\<close> is a parameter.  Sentences are UTF-8, so the curly quotes are three bytes each.
\<close>

section \<open>Sentences\<close>

record described =
  ds_sentence :: string
  ds_loss :: "string option"
  ds_unmounts :: bool

definition curly :: "string \<Rightarrow> string" where
  "curly s = [CHR 0xE2, CHR 0x80, CHR 0x9C] @ s @ [CHR 0xE2, CHR 0x80, CHR 0x9D]"

definition apostrophe :: string where
  "apostrophe = [CHR 0xE2, CHR 0x80, CHR 0x99]"

definition FILESYSTEM_NAMES :: "(string \<times> string) list" where
  "FILESYSTEM_NAMES =
   [(''ext4'', ''ext4''), (''ext3'', ''ext3''), (''ext2'', ''ext2''), (''btrfs'', ''Btrfs''), (''xfs'', ''XFS''),
    (''exfat'', ''exFAT''), (''ntfs'', ''NTFS''), (''vfat'', ''FAT32''), (''f2fs'', ''F2FS''), (''swap'', ''Swap''),
    (''crypto_LUKS'', ''Encrypted''), (''LVM2_member'', ''LVM''), (''iso9660'', ''ISO 9660''), (''udf'', ''UDF''),
    (''squashfs'', ''SquashFS'')]"

definition quoted :: "part \<Rightarrow> string" where
  "quoted p = curly (p_title p)"

definition plan_filesystem_name :: "string \<Rightarrow> string" where
  "plan_filesystem_name filesystem =
    (if filesystem \<noteq> [] then otherwise (map_of FILESYSTEM_NAMES filesystem) filesystem else [])"

definition amount :: "(int \<Rightarrow> string) \<Rightarrow> int \<Rightarrow> int \<Rightarrow> string" where
  "amount show_bytes from_bytes to_bytes = show_bytes \<bar>to_bytes - from_bytes\<bar>"

definition placement :: "(int \<Rightarrow> string) \<Rightarrow> part \<Rightarrow> int \<Rightarrow> int \<Rightarrow> string" where
  "placement show_bytes p offset sz =
    (if p_system p \<and> offset < p_offset p
     then let rest = offset + sz - (p_offset p + p_size p);
              after = (if rest > 0 then '', then grow it over the '' @ show_bytes rest @ '' after it'' else [])
          in ''Move '' @ quoted p @ '' into the '' @ amount show_bytes (p_offset p) offset
             @ '' in front of it the next time the computer starts'' @ after
     else
      let resized = (if sz > p_size p then ''grow it by '' @ amount show_bytes (p_size p) sz
                     else if sz < p_size p then ''shrink it by '' @ amount show_bytes (p_size p) sz else [])
      in if offset = p_offset p
         then (if sz > p_size p then ''Grow'' else ''Shrink'') @ '' '' @ quoted p @ '' by '' @ amount show_bytes (p_size p) sz
         else let direction = (if offset < p_offset p then ''left'' else ''right'');
                  move = ''Move '' @ quoted p @ '' '' @ amount show_bytes (p_offset p) offset @ '' '' @ direction
              in if resized \<noteq> [] then move @ '' and '' @ resized else move)"

definition created_sentence :: "(int \<Rightarrow> string) \<Rightarrow> int \<Rightarrow> string \<Rightarrow> string \<Rightarrow> string \<Rightarrow> string" where
  "created_sentence show_bytes sz filesystem label name =
    (let filesystem_name = plan_filesystem_name filesystem;
         what = (if filesystem_name \<noteq> [] then show_bytes sz @ '' '' @ filesystem_name @ '' partition''
                 else show_bytes sz @ '' partition without a file system'');
         named = or_else label name
     in ''Create a '' @ what @ (if named \<noteq> [] then '' named '' @ curly named else []))"

fun join :: "string \<Rightarrow> string list \<Rightarrow> string" where
  "join sep [] = []"
| "join sep [x] = x"
| "join sep (x # xs) = x @ sep @ join sep xs"

definition changed_sentence :: "part \<Rightarrow> string option \<Rightarrow> string option \<Rightarrow> nat list option \<Rightarrow> string option \<Rightarrow> string" where
  "changed_sentence p type name flags label =
    ''For '' @ quoted p @ '', '' @ join '', ''
     ((if label \<noteq> None \<and> label \<noteq> Some (p_label p)
       then [if the label \<noteq> [] then ''rename it to '' @ curly (the label) else ''remove its name''] else [])
      @ (if name \<noteq> None \<and> name \<noteq> Some (p_name p)
       then [if the name \<noteq> [] then ''set its partition name to '' @ curly (the name) else ''clear its partition name''] else [])
      @ (if type \<noteq> None \<and> type \<noteq> Some (p_type p)
       then [''set its type to '' @ otherwise (type_name type) ''null''] else [])
      @ (if flags \<noteq> None then [''change its flags''] else []))"

definition erased :: "(int \<Rightarrow> string) \<Rightarrow> part \<Rightarrow> string" where
  "erased show_bytes p = ''Everything on '' @ quoted p @ '' ('' @ show_bytes (p_size p) @ '') is erased.''"

definition find_part :: "layout \<Rightarrow> string \<Rightarrow> part option" where
  "find_part lay key = List.find (\<lambda>candidate. p_key candidate = key) (l_parts lay)"

definition describe :: "(int \<Rightarrow> string) \<Rightarrow> layout \<Rightarrow> step \<Rightarrow> described" where
  "describe show_bytes lay s =
    (case (s, find_part lay (step_key s)) of
      (Create _ _ sz filesystem label _ name _, _) \<Rightarrow>
        \<lparr>ds_sentence = created_sentence show_bytes sz filesystem label name, ds_loss = None, ds_unmounts = False\<rparr>
    | (_, None) \<Rightarrow> \<lparr>ds_sentence = [], ds_loss = None, ds_unmounts = False\<rparr>
    | (Delete _, Some p) \<Rightarrow>
        \<lparr>ds_sentence = ''Delete '' @ quoted p @ '' ('' @ show_bytes (p_size p) @ '')'',
         ds_loss = (if \<not> p_pending p \<and> \<not> p_replaced p then Some (erased show_bytes p) else None),
         ds_unmounts = p_mounted p\<rparr>
    | (Format _ filesystem label, Some p) \<Rightarrow>
        \<lparr>ds_sentence = ''Format '' @ quoted p @ '' as '' @ plan_filesystem_name filesystem
           @ (if label \<noteq> [] then '' named '' @ curly label else []),
         ds_loss = (if \<not> p_pending p \<and> \<not> p_replaced p then Some (erased show_bytes p) else None),
         ds_unmounts = p_mounted p\<rparr>
    | (Place _ offset sz, Some p) \<Rightarrow>
        (let moves = (offset \<noteq> p_offset p \<and> \<not> p_system p) in
        \<lparr>ds_sentence = placement show_bytes p offset sz,
         ds_loss = (if moves \<and> \<not> p_pending p \<and> \<not> p_replaced p
           then Some (''Moving '' @ quoted p @ '' copies all of its '' @ show_bytes (min (p_size p) sz)
             @ ''. Keep the computer on and the drive connected until it'' @ apostrophe @ ''s done, or what''
             @ apostrophe @ ''s on it can be lost.'')
           else None),
         ds_unmounts = p_mounted p \<and> \<not> p_system p\<rparr>)
    | (Change _ type name flags label, Some p) \<Rightarrow>
        \<lparr>ds_sentence = changed_sentence p type name flags label, ds_loss = None, ds_unmounts = False\<rparr>)"

fun describe_plan :: "(int \<Rightarrow> string) \<Rightarrow> layout \<Rightarrow> step list \<Rightarrow> described list" where
  "describe_plan show_bytes base [] = []"
| "describe_plan show_bytes base (s # rest) =
    describe show_bytes base s # describe_plan show_bytes (apply_step base s) rest"

lemma length_describe_plan [simp]: "length (describe_plan sb base steps) = length steps"
  by (induction steps arbitrary: base) auto

section \<open>No data is lost without a warning\<close>

text \<open>A part of the drive whose data the plan has not given up yet.\<close>

definition holds_data :: "layout \<Rightarrow> string \<Rightarrow> bool" where
  "holds_data lay key \<longleftrightarrow> (\<exists>p \<in> set (l_parts lay). p_key p = key \<and> \<not> p_pending p \<and> \<not> p_replaced p)"

lemma set_sorted_parts [simp]: "set (sorted_parts ps) = set ps"
  by (simp add: sorted_parts_def)

lemma find_part_Some: "find_part lay key = Some p \<Longrightarrow> p \<in> set (l_parts lay) \<and> p_key p = key"
  by (auto simp: find_part_def dest: find_SomeD)

lemma find_part_unique:
  assumes "distinct (map p_key (l_parts lay))" "p \<in> set (l_parts lay)"
  shows "find_part lay (p_key p) = Some p"
proof -
  have "find_part lay (p_key p) \<noteq> None" using assms(2) by (auto simp: find_part_def find_None_iff)
  then obtain q where "find_part lay (p_key p) = Some q" by blast
  with find_part_Some [OF this] assms show ?thesis by (auto simp: distinct_map inj_on_def)
qed

lemma holds_data_updated:
  assumes "holds_data lay key"
    and "\<And>p. p_key (f p) = p_key p \<and> p_pending (f p) = p_pending p \<and> p_replaced (f p) = p_replaced p"
  shows "holds_data (updated lay k f) key"
proof -
  obtain p where p: "p \<in> set (l_parts lay)" "p_key p = key" "\<not> p_pending p" "\<not> p_replaced p"
    using assms(1) by (auto simp: holds_data_def)
  let ?q = "if p_key p = k then f p else p"
  have "?q \<in> set (l_parts (updated lay k f))"
    using p(1) unfolding updated_def by (simp add: image_iff) blast
  moreover have "p_key ?q = key" "\<not> p_pending ?q" "\<not> p_replaced ?q" using p assms(2) by auto
  ultimately show ?thesis unfolding holds_data_def by blast
qed

text \<open>A single step gives up a part's data only by deleting or formatting it, and both say so.\<close>

lemma step_loss:
  assumes "wf_layout lay" "holds_data lay key" "\<not> holds_data (apply_step lay s) key"
  shows "ds_loss (describe sb lay s) \<noteq> None"
proof -
  obtain p where p: "p \<in> set (l_parts lay)" "p_key p = key" "\<not> p_pending p" "\<not> p_replaced p"
    using assms(2) by (auto simp: holds_data_def)
  have f: "find_part lay key = Some p"
    using find_part_unique [OF wf_layoutD(2) [OF assms(1)] p(1)] p(2) by simp
  show ?thesis
  proof (cases s)
    case (Delete k)
    then have "k = key" using assms(3) p by (auto simp: holds_data_def)
    with Delete f p show ?thesis by (simp add: describe_def)
  next
    case (Format k fs lb)
    then have "k = key" using assms(3) p by (force simp: holds_data_def updated_def)
    with Format f p show ?thesis by (simp add: describe_def)
  next
    case Create
    with assms(3) p show ?thesis by (auto simp: holds_data_def)
  next
    case (Place k o' sz)
    then have "holds_data (apply_step lay s) key"
      using holds_data_updated [OF assms(2), of "placed_part o' sz"] by (simp add: placed_part_def)
    with assms(3) show ?thesis by blast
  next
    case (Change k ty nm fl lb)
    then have "holds_data (apply_step lay s) key"
      using holds_data_updated [OF assms(2), of "changed_part ty nm fl lb"] by (simp add: changed_part_def)
    with assms(3) show ?thesis by blast
  qed
qed

lemma plan_loss:
  assumes "wf_layout base" "admissible_plan base steps" "holds_data base key"
    and "\<not> holds_data (foldl apply_step base steps) key"
  shows "\<exists>d \<in> set (describe_plan sb base steps). ds_loss d \<noteq> None"
  using assms
proof (induction steps arbitrary: base)
  case (Cons s rest)
  show ?case
  proof (cases "holds_data (apply_step base s) key")
    case True
    with Cons show ?thesis by (simp add: apply_step_wf)
  next
    case False
    then show ?thesis using step_loss [OF Cons.prems(1,3) False] by simp
  qed
qed simp

end
