(* ===== verification/Disk_Editor.thy ===== *)
theory Disk_Editor
  imports Disk_Plan
begin

text \<open>
  The partition editor, \<^verbatim>\<open>apps/system/disks/src/lib/editor/editor.svelte.ts\<close> and \<^verbatim>\<open>edits.ts\<close>: a
  plan of steps with merging, undo and the run that sends it to the service.  The reactive fields
  (\<^verbatim>\<open>$derived\<close>) are functions of the state and of the base layout \<open>base\<close>, which comes from the
  drive.  The run awaits the service; while it does, every handler but \<^verbatim>\<open>push\<close> returns at once,
  so it is one transition here, and the service is the parameter \<open>exec\<close>: for the number of the
  call and the request, an error or the block it reports.
\<close>

section \<open>State\<close>

record draft =
  dft_key :: string
  dft_offset :: int
  dft_size :: int

record progress =
  pg_index :: nat
  pg_copied :: int
  pg_total :: int

record outcome =
  oc_sentences :: "string list"
  oc_done :: nat
  oc_error :: "string option"

record editor =
  ed_drive :: "string option"
  ed_steps :: "step list"
  ed_history :: "step list list"
  ed_selected :: "string option"
  ed_exact :: bool
  ed_draft :: "draft option"
  ed_frozen :: "(layout \<times> string list) option"
  ed_progress :: "progress option"
  ed_outcome :: "outcome option"
  ed_created :: nat

definition new_editor :: editor where
  "new_editor = \<lparr>ed_drive = None, ed_steps = [], ed_history = [], ed_selected = None, ed_exact = False,
    ed_draft = None, ed_frozen = None, ed_progress = None, ed_outcome = None, ed_created = 0\<rparr>"

definition planned :: "layout option \<Rightarrow> editor \<Rightarrow> layout option" where
  "planned base e = map_option (\<lambda>lay. foldl apply_step lay (ed_steps e)) base"

definition shown_layout :: "layout option \<Rightarrow> editor \<Rightarrow> layout option" where
  "shown_layout base e =
    (case ed_frozen e of
      Some (lay, _) \<Rightarrow> Some lay
    | None \<Rightarrow>
        (case (planned base e, ed_draft e) of
          (Some lay, Some d) \<Rightarrow> Some (apply_step lay (Place (dft_key d) (dft_offset d) (dft_size d)))
        | _ \<Rightarrow> planned base e))"

definition running :: "editor \<Rightarrow> bool" where
  "running e \<longleftrightarrow> ed_progress e \<noteq> None"

section \<open>Merging steps\<close>

definition merge_steps :: "step \<Rightarrow> step \<Rightarrow> step option" where
  "merge_steps last_step next_step =
    (if step_key last_step \<noteq> step_key next_step then None
     else case (last_step, next_step) of
       (Create k o' sz fs lb ty nm fl, Place _ o2 sz2) \<Rightarrow> Some (Create k o2 sz2 fs lb ty nm fl)
     | (Create k o' sz fs lb ty nm fl, Format _ fs2 lb2) \<Rightarrow> Some (Create k o' sz fs2 lb2 ty nm fl)
     | (Create k o' sz fs lb ty nm fl, Change _ ty2 nm2 fl2 lb2) \<Rightarrow>
         Some (Create k o' sz fs (otherwise lb2 lb) (otherwise ty2 ty) (otherwise nm2 nm) (otherwise fl2 fl))
     | (Place _ _ _, Place _ _ _) \<Rightarrow> Some next_step
     | (Format _ _ _, Format _ _ _) \<Rightarrow> Some next_step
     | (Change k ty nm fl lb, Change _ ty2 nm2 fl2 lb2) \<Rightarrow>
         Some (Change k (if ty2 = None then ty else ty2) (if nm2 = None then nm else nm2)
           (if fl2 = None then fl else fl2) (if lb2 = None then lb else lb2))
     | _ \<Rightarrow> None)"

definition changes_nothing :: "layout \<Rightarrow> step \<Rightarrow> bool" where
  "changes_nothing lay s =
    (case find_part lay (step_key s) of
      None \<Rightarrow> False
    | Some p \<Rightarrow>
        (case s of
          Place _ o' sz \<Rightarrow> o' = p_offset p \<and> sz = p_size p
        | Change _ ty nm fl lb \<Rightarrow>
            let flags = otherwise fl (p_flags p)
            in otherwise ty (p_type p) = p_type p \<and> otherwise nm (p_name p) = p_name p \<and>
               otherwise lb (p_label p) = p_label p \<and> length flags = length (p_flags p) \<and>
               list_all (\<lambda>bit. bit \<in> set (p_flags p)) flags
        | _ \<Rightarrow> False))"

section \<open>Operations\<close>

definition open_drive :: "string \<Rightarrow> string option \<Rightarrow> editor \<Rightarrow> editor" where
  "open_drive drive_id selected e =
    (if running e then e
     else if ed_drive e = Some drive_id then e\<lparr>ed_selected := (if selected = None then ed_selected e else selected)\<rparr>
     else e\<lparr>ed_drive := Some drive_id, ed_steps := [], ed_history := [], ed_selected := selected, ed_outcome := None\<rparr>)"

definition select_part :: "string \<Rightarrow> editor \<Rightarrow> editor" where
  "select_part key e = (if running e then e else e\<lparr>ed_selected := Some key, ed_outcome := None\<rparr>)"

definition close_editor :: "editor \<Rightarrow> editor" where
  "close_editor e =
    (if running e then e
     else e\<lparr>ed_drive := None, ed_steps := [], ed_history := [], ed_draft := None, ed_outcome := None\<rparr>)"

definition key_of_number :: "nat \<Rightarrow> string" where
  "key_of_number n = ''new:'' @ show_nat n"

definition new_key :: "editor \<Rightarrow> string \<times> editor" where
  "new_key e = (let n = Suc (ed_created e) in (key_of_number n, e\<lparr>ed_created := n\<rparr>))"

definition push :: "layout option \<Rightarrow> step \<Rightarrow> editor \<Rightarrow> editor" where
  "push base s e =
    (let e1 = e\<lparr>ed_history := ed_history e @ [ed_steps e], ed_outcome := None\<rparr> in
     if is_Delete s \<and> starts_with ''new:'' (step_key s)
     then e1\<lparr>ed_steps := filter (\<lambda>candidate. step_key candidate \<noteq> step_key s) (ed_steps e)\<rparr>
     else
      (let merged = (if ed_steps e = [] then None else merge_steps (last (ed_steps e)) s);
           earlier = (if merged \<noteq> None then butlast (ed_steps e) else ed_steps e);
           next_step = otherwise merged s;
           before = map_option (\<lambda>lay. foldl apply_step lay earlier) base
       in e1\<lparr>ed_steps := (if (case before of None \<Rightarrow> False | Some lay \<Rightarrow> changes_nothing lay next_step)
                         then earlier else earlier @ [next_step])\<rparr>))"

definition undo :: "layout option \<Rightarrow> editor \<Rightarrow> editor" where
  "undo base e =
    (if ed_history e = [] \<or> running e then e
     else
      (let e1 = e\<lparr>ed_steps := last (ed_history e), ed_history := butlast (ed_history e)\<rparr>;
           gone = (or_blank (ed_selected e1) \<noteq> [] \<and>
             (case shown_layout base e1 of None \<Rightarrow> True
              | Some lay \<Rightarrow> \<not> list_ex (\<lambda>p. p_key p = or_blank (ed_selected e1)) (l_parts lay)))
       in if gone then e1\<lparr>ed_selected := None\<rparr> else e1))"

section \<open>Edits\<close>

definition edit_place :: "layout option \<Rightarrow> part \<Rightarrow> int \<Rightarrow> int \<Rightarrow> editor \<Rightarrow> editor" where
  "edit_place base p offset sz e =
    (if offset = p_offset p \<and> sz = p_size p then e
     else if p_system p \<and> offset \<noteq> p_offset p
     then (case planned base e of
             Some lay \<Rightarrow>
               if offset > p_offset p then e
               else let (before, after) = neighbours lay p in push base (Place (p_key p) before (after - before)) e
           | None \<Rightarrow> e)
     else push base (Place (p_key p) offset sz) e)"

definition edit_create :: "layout option \<Rightarrow> span \<Rightarrow> string \<Rightarrow> editor \<Rightarrow> editor" where
  "edit_create base gap filesystem e =
    (let (key, e1) = new_key e;
         e2 = push base (Create key (s_offset gap) (s_size gap) filesystem [] [] [] []) e1
     in e2\<lparr>ed_selected := Some key\<rparr>)"

definition edit_remove :: "layout option \<Rightarrow> part \<Rightarrow> editor \<Rightarrow> editor" where
  "edit_remove base p e = (push base (Delete (p_key p)) e)\<lparr>ed_selected := None\<rparr>"

definition edit_format :: "layout option \<Rightarrow> part \<Rightarrow> string \<Rightarrow> editor \<Rightarrow> editor" where
  "edit_format base p filesystem e = push base (Format (p_key p) filesystem (p_label p)) e"

definition edit_rename :: "layout option \<Rightarrow> part \<Rightarrow> string \<Rightarrow> editor \<Rightarrow> editor" where
  "edit_rename base p label e =
    (if label \<noteq> p_label p then push base (Change (p_key p) None None None (Some label)) e else e)"

definition edit_retype :: "layout option \<Rightarrow> part \<Rightarrow> string \<Rightarrow> editor \<Rightarrow> editor" where
  "edit_retype base p type e =
    (if type \<noteq> p_type p then push base (Change (p_key p) (Some type) None None None) e else e)"

definition edit_rename_partition :: "layout option \<Rightarrow> part \<Rightarrow> string \<Rightarrow> editor \<Rightarrow> editor" where
  "edit_rename_partition base p name e =
    (if name \<noteq> p_name p then push base (Change (p_key p) None (Some name) None None) e else e)"

definition edit_set_flag :: "layout option \<Rightarrow> part \<Rightarrow> nat \<Rightarrow> bool \<Rightarrow> editor \<Rightarrow> editor" where
  "edit_set_flag base p number on e =
    (let flags = (if on then p_flags p @ [number] else filter (\<lambda>flag. flag \<noteq> number) (p_flags p))
     in if \<not> (length flags = length (p_flags p) \<and> list_all (\<lambda>b. b \<in> set (p_flags p)) flags)
        then push base (Change (p_key p) None None (Some flags) None) e else e)"

section \<open>Applying the plan\<close>

datatype plan_request =
    Request_create string int int string string "nat list" string string
    \<comment> \<open>table, offset, size, type, name, flags, filesystem, label\<close>
  | Request_delete (request_block: string)
  | Request_place (request_block: string) int int
  | Request_format (request_block: string) string string
  | Request_change (request_block: string) "string option" "string option" "nat list option" "string option"

definition request :: "step \<Rightarrow> (string \<rightharpoonup> string) \<Rightarrow> string \<Rightarrow> plan_request" where
  "request s blocks tab =
    (let block = otherwise (blocks (step_key s)) [] in
     case s of
       Create _ o' sz fs lb ty nm fl \<Rightarrow> Request_create tab o' sz ty nm fl fs lb
     | Delete _ \<Rightarrow> Request_delete block
     | Place _ o' sz \<Rightarrow> Request_place block o' sz
     | Format _ fs lb \<Rightarrow> Request_format block fs lb
     | Change _ ty nm fl lb \<Rightarrow> Request_change block ty nm fl lb)"

type_synonym service = "nat \<Rightarrow> plan_request \<Rightarrow> string + string option"

fun run_steps :: "service \<Rightarrow> string \<Rightarrow> (string \<rightharpoonup> string) \<Rightarrow> nat \<Rightarrow> step list \<Rightarrow> plan_request list \<times> nat \<times> string option" where
  "run_steps exec tab blocks finished [] = ([], finished, None)"
| "run_steps exec tab blocks finished (s # rest) =
    (let req = request s blocks tab in
     case exec finished req of
       Inl problem \<Rightarrow> ([req], finished, Some problem)
     | Inr result \<Rightarrow>
         let blocks' = (if or_blank result \<noteq> [] then blocks(step_key s \<mapsto> or_blank result) else blocks);
             (reqs, total, problem) = run_steps exec tab blocks' (Suc finished) rest
         in (req # reqs, total, problem))"

definition CANCELLED :: string where "CANCELLED = ''cancelled''"

definition base_blocks :: "layout \<Rightarrow> string \<rightharpoonup> string" where
  "base_blocks lay key = (if key \<in> p_key ` set (l_parts lay) then Some key else None)"

definition apply_plan :: "(int \<Rightarrow> string) \<Rightarrow> service \<Rightarrow> string option \<Rightarrow> layout option \<Rightarrow> editor \<Rightarrow> editor" where
  "apply_plan show_bytes exec drive_block base e =
    (case (drive_block, base) of
      (Some tab, Some lay) \<Rightarrow>
        if ed_steps e = [] \<or> running e then e
        else
         (let sentences = map ds_sentence (describe_plan show_bytes lay (ed_steps e));
              (reqs, finished, problem) = run_steps exec tab (base_blocks lay) 0 (ed_steps e);
              e1 = e\<lparr>ed_outcome := None, ed_progress := None, ed_frozen := None\<rparr>
          in if problem = Some CANCELLED \<and> finished = 0 then e1
             else e1\<lparr>ed_steps := [], ed_history := [], ed_selected := None,
               ed_outcome := Some \<lparr>oc_sentences = sentences, oc_done = finished, oc_error = problem\<rparr>\<rparr>)
    | _ \<Rightarrow> e)"

section \<open>Plans\<close>

lemma admissible_plan_append:
  "admissible_plan lay (xs @ ys) \<longleftrightarrow> admissible_plan lay xs \<and> admissible_plan (foldl apply_step lay xs) ys"
  by (induction xs arbitrary: lay) auto

lemma admissible_place:
  "admissible lay (Place key o' sz) \<longleftrightarrow> 0 < sz \<and> (\<exists>p. p \<in> set (l_parts lay) \<and> p_key p = key \<and>
    fst (neighbours lay p) \<le> o' \<and> o' + sz \<le> snd (neighbours lay p))"
  by (auto simp: admissible_def)

lemma apply_step_frame [simp]:
  "l_start (apply_step lay s) = l_start lay" "l_end (apply_step lay s) = l_end lay"
  "l_extended (apply_step lay s) = l_extended lay" "l_table (apply_step lay s) = l_table lay"
  by (cases s; simp add: updated_def)+

subsection \<open>Leaving a part out\<close>

definition without :: "string \<Rightarrow> layout \<Rightarrow> layout" where
  "without key lay = lay\<lparr>l_parts := filter (\<lambda>p. p_key p \<noteq> key) (l_parts lay)\<rparr>"

lemma filter_sorted_parts: "filter P (sorted_parts ps) = sorted_parts (filter P ps)"
  by (simp add: sorted_parts_def filter_sort)

lemma without_updated:
  assumes "\<And>p. p_key (f p) = p_key p"
  shows "without key (updated lay k f) = updated (without key lay) k f"
  using assms by (simp add: without_def updated_def filter_sorted_parts filter_map comp_def if_distrib cong: if_cong)

lemma without_updated_self:
  assumes "\<And>p. p_key (f p) = p_key p" "apart (l_parts lay)"
  shows "without key (updated lay key f) = without key lay"
proof -
  have "map (\<lambda>p. if p_key p = key then f p else p) (filter (\<lambda>p. p_key p \<noteq> key) (l_parts lay)) =
      filter (\<lambda>p. p_key p \<noteq> key) (l_parts lay)"
    by (rule map_idI) auto
  then have "l_parts (updated (without key lay) key f) = l_parts (without key lay)"
    using apart_filter [OF assms(2)] by (simp add: updated_def without_def)
  then show ?thesis
    unfolding without_updated [OF assms(1)] by (simp add: updated_def without_def)
qed

lemma step_keeps_key [simp]:
  "p_key (placed_part o' sz p) = p_key p" "p_key (formatted_part fs lb p) = p_key p"
  "p_key (changed_part ty nm fl lb2 p) = p_key p" "p_key (created_part ext k o' sz fs lb ty3 nm3 fl3) = k"
  by (simp_all add: placed_part_def formatted_part_def changed_part_def created_part_def)

lemma apply_without_other:
  "step_key s \<noteq> key \<Longrightarrow> apply_step (without key lay) s = without key (apply_step lay s)"
  by (cases s) (simp_all add: without_updated, simp_all add: without_def filter_sorted_parts conj_commute)

lemma apply_without_self:
  assumes "apart (l_parts lay)" "step_key s = key"
  shows "without key (apply_step lay s) = without key lay"
proof (cases s)
  case (Create k o' sz fs lb ty nm fl)
  with assms apart_filter [OF assms(1)] show ?thesis by (simp add: without_def filter_sorted_parts)
qed (use assms in \<open>simp_all add: without_updated_self\<close>, auto simp: without_def)

lemma wf_without: "wf_layout lay \<Longrightarrow> wf_layout (without key lay)"
  by (auto simp: wf_layout_def sound_layout_def without_def apart_filter distinct_map_filter)

lemma neighbours_without:
  assumes wf: "wf_layout lay" and p: "p \<in> set (l_parts lay)" "p_key p \<noteq> key"
  shows "fst (neighbours (without key lay) p) \<le> fst (neighbours lay p)"
    and "snd (neighbours lay p) \<le> snd (neighbours (without key lay) p)"
proof -
  obtain us vs where sp: "l_parts lay = us @ p # vs" using p(1) by (meson split_list)
  note wfD = wf_layoutD [OF wf]
  let ?f = "filter (\<lambda>q. p_key q \<noteq> key)"
  have sp': "l_parts (without key lay) = ?f us @ p # ?f vs" using sp p(2) by (simp add: without_def)
  have ap: "apart us" "apart vs" using wfD(3) by (simp_all add: sp apart_mid)
  have b: "(if ?f us = [] then l_start lay else align_up (part_end (last (?f us)))) \<le>
      (if us = [] then l_start lay else align_up (part_end (last us)))"
  proof -
    have "l_start lay \<le> align_up (part_end (last us))" if "us \<noteq> []"
    proof -
      have "last us \<in> set us" using that by simp
      then have "l_start lay \<le> p_offset (last us)" "0 < p_size (last us)"
        using wfD(6) ap(1) by (auto simp: sp apart_def)
      then show ?thesis using align_up_ge [of "part_end (last us)"] by (simp add: part_end_def)
    qed
    moreover have "align_up (part_end (last (?f us))) \<le> align_up (part_end (last us))" if "?f us \<noteq> []"
    proof -
      have "last (?f us) \<in> set us" using last_in_set [OF that] by simp
      then show ?thesis
        using apart_last [OF ap(1)] align_up_ge [of "part_end (last us)"] by (force simp: align_up_least)
    qed
    ultimately show ?thesis by auto
  qed
  have a: "(if vs = [] then l_end lay else p_offset (hd vs)) \<le> (if ?f vs = [] then l_end lay else p_offset (hd (?f vs)))"
  proof -
    have "p_offset (hd vs) \<le> l_end lay" if "vs \<noteq> []" using that wfD(5) [of "hd vs"] by (simp add: sp)
    moreover have "p_offset (hd vs) \<le> p_offset (hd (?f vs))" if "?f vs \<noteq> []"
      using hd_in_set [OF that] apart_hd [OF ap(2)] by simp
    ultimately show ?thesis by auto
  qed
  have fr: "l_extended (without key lay) = l_extended lay" "l_start (without key lay) = l_start lay"
    "l_end (without key lay) = l_end lay" by (simp_all add: without_def)
  note ns = neighbours_split [OF sp wfD(2)] neighbours_split [OF sp' wf_layoutD(2) [OF wf_without [OF wf]]]
  show "fst (neighbours (without key lay) p) \<le> fst (neighbours lay p)"
    unfolding ns fr Let_def using b by (auto split: option.split)
  show "snd (neighbours lay p) \<le> snd (neighbours (without key lay) p)"
    unfolding ns fr Let_def using a by (auto split: option.split)
qed

lemma admissible_without:
  assumes "wf_layout lay" "admissible lay s" "step_key s \<noteq> key"
  shows "admissible (without key lay) s"
proof (cases s)
  case (Create k o' sz fs lb ty nm fl)
  with assms show ?thesis by (auto simp: admissible_def free_span_def free_byte_def without_def)
next
  case (Place k o' sz)
  with assms obtain p where p: "p \<in> set (l_parts lay)" "p_key p = k" "k \<noteq> key" "0 < sz"
    "fst (neighbours lay p) \<le> o'" "o' + sz \<le> snd (neighbours lay p)"
    by (auto simp: admissible_def)
  have "p \<in> set (l_parts (without key lay))" using p by (simp add: without_def)
  moreover note neighbours_without [OF assms(1) p(1), of key]
  ultimately show ?thesis using p Place by (force simp: admissible_def)
qed (use assms in \<open>auto simp: admissible_def without_def\<close>)

lemma admissible_plan_drop:
  "wf_layout lay \<Longrightarrow> admissible_plan lay steps \<Longrightarrow>
    admissible_plan (without key lay) (filter (\<lambda>s. step_key s \<noteq> key) steps)"
proof (induction steps arbitrary: lay)
  case (Cons s rest)
  then have IH: "admissible_plan (without key (apply_step lay s)) (filter (\<lambda>s. step_key s \<noteq> key) rest)"
    by (simp add: apply_step_wf)
  show ?case
  proof (cases "step_key s = key")
    case True
    with IH apply_without_self [OF wf_layoutD(3) [OF Cons.prems(1)]] show ?thesis by simp
  next
    case False
    with IH Cons.prems show ?thesis by (simp add: apply_without_other admissible_without)
  qed
qed simp

subsection \<open>Merged steps stay admissible\<close>

lemma neighbours_free:
  assumes wf: "wf_layout lay" and sp: "l_parts lay = us @ p # vs" and nb: "neighbours lay p = (before, after)"
    and o: "before \<le> o'" "o' + s \<le> after" "0 < s"
  shows "free_span (lay\<lparr>l_parts := us @ vs\<rparr>) o' s"
proof -
  have p: "p \<in> set (l_parts lay)" using sp by simp
  note wfD = wf_layoutD [OF wf]
  note bt = neighbours_between [OF sp wfD(2,3) nb]
  obtain us' vs' where "l_start lay \<le> o'" "l_parts lay = us' @ p # vs'"
    using place_split [OF wf p nb o] by metis
  moreover have "o' + s \<le> l_end lay"
  proof (cases vs)
    case (Cons v vs')
    then show ?thesis using bt(2) o(2) wfD(5) [of v] sp by simp
  qed (use bt(3) o(2) in simp)
  moreover have "\<not> in_part x q" if "o' \<le> x" "x < o' + s" "q \<in> set us \<union> set vs" for x q
    using that bt(1,2) o(1,2) by (force simp: in_part_def)
  moreover have "fences_clear (fences_of (l_extended lay)) o' (o' + s)"
    using neighbours_extended [OF nb wfD(4) [OF p] o] wfD(1) o(3)
    by (auto simp: sound_layout_def fits_extended_def fences_clear_def fences_of_def inside_def part_span_def span_end_def part_end_def
        placed_part_def split: option.splits if_splits)
  ultimately show ?thesis using o(3) by (auto simp: free_span_def free_byte_def)
qed

lemma neighbours_placed:
  assumes wf: "wf_layout lay" and p: "p \<in> set (l_parts lay)" and nb: "neighbours lay p = (before, after)"
    and o: "before \<le> o'" "o' + s \<le> after" "0 < s"
  defines "lay2 \<equiv> apply_step lay (Place (p_key p) o' s)"
  shows "placed_part o' s p \<in> set (l_parts lay2)" and "neighbours lay2 (placed_part o' s p) = neighbours lay p"
proof -
  let ?q = "placed_part o' s p"
  obtain us vs where sp: "l_parts lay = us @ p # vs" and eq: "lay2 = lay\<lparr>l_parts := us @ ?q # vs\<rparr>"
    using place_split [OF wf p nb o] unfolding lay2_def by blast
  then show "?q \<in> set (l_parts lay2)" by simp
  have wf2: "wf_layout lay2" unfolding lay2_def by (rule place_wf [OF wf p nb o])
  have sp2: "l_parts lay2 = us @ ?q # vs" by (simp add: eq)
  have q: "p_logical ?q = p_logical p" "p_offset ?q = o'" by (simp_all add: placed_part_def)
  have side: "o' < s_offset ext \<longleftrightarrow> p_offset p < s_offset ext" if "l_extended lay = Some ext" "\<not> p_logical p" for ext
  proof -
    have "0 < s_size ext" using wf_layoutD(1) [OF wf] that(1) by (simp add: sound_layout_def)
    then show ?thesis
      using nb that o align_up_ge [of "span_end ext"]
      by (auto simp: neighbours_def Let_def span_end_def split: if_splits)
  qed
  show "neighbours lay2 ?q = neighbours lay p"
    unfolding neighbours_split [OF sp2 wf_layoutD(2) [OF wf2]] neighbours_split [OF sp wf_layoutD(2) [OF wf]] q
    using side by (auto simp: eq Let_def split: option.split)
qed

lemma merge_place:
  "merge_steps (Place k o1 z1) s = (if step_key s = k \<and> is_Place s then Some s else None)"
  by (cases s) (simp_all add: merge_steps_def)

lemma merged_kind:
  assumes "merge_steps s1 s2 = Some m"
  shows "step_key m = step_key s1" and "is_Create m \<longleftrightarrow> is_Create s1" and "is_Place m \<longleftrightarrow> is_Place s1"
  using assms by (cases s1; cases s2; auto simp: merge_steps_def split: if_splits)+

lemma admissible_other:
  "\<not> is_Create s \<Longrightarrow> \<not> is_Place s \<Longrightarrow> admissible lay s \<longleftrightarrow> step_key s \<in> p_key ` set (l_parts lay)"
  by (cases s) (simp_all add: admissible_def)

lemma merge_admissible:
  assumes wf: "wf_layout lay" and a: "admissible lay s1" "admissible (apply_step lay s1) s2" and m: "merge_steps s1 s2 = Some m"
  shows "admissible lay m"
proof (cases s1)
  case (Create k o1 z1 fs lb ty nm fl)
  have fs1: "free_span lay o1 z1" and k: "k \<notin> p_key ` set (l_parts lay)"
    using a(1) Create by (auto simp: admissible_def)
  show ?thesis
  proof (cases s2)
    case (Place k2 o2 z2)
    let ?c = "created_part (l_extended lay) k o1 z1 fs lb ty nm fl"
    obtain us vs where sp: "l_parts lay = us @ vs" and eq: "apply_step lay s1 = lay\<lparr>l_parts := us @ ?c # vs\<rparr>"
      using create_split [OF wf fs1] unfolding Create by metis
    have k2: "k2 = k" using m Create Place by (auto simp: merge_steps_def split: if_splits)
    obtain q where q: "q \<in> set (us @ ?c # vs)" "p_key q = k" "0 < z2"
      "fst (neighbours (apply_step lay s1) q) \<le> o2" "o2 + z2 \<le> snd (neighbours (apply_step lay s1) q)"
      using a(2) unfolding Place k2 admissible_place eq by auto
    then have "q = ?c" using k sp by (auto simp: image_iff)
    with q have "free_span (apply_step lay s1\<lparr>l_parts := us @ vs\<rparr>) o2 z2"
      by (intro neighbours_free [OF apply_step_wf [OF wf a(1)] _ prod.collapse [symmetric]]) (auto simp: eq)
    then have "free_span lay o2 z2" by (simp add: eq sp free_span_def free_byte_def)
    with k m Create Place show ?thesis by (auto simp: merge_steps_def admissible_def split: if_splits)
  qed (use m Create fs1 k in \<open>auto simp: merge_steps_def admissible_def split: if_splits\<close>)
next
  case (Place k o1 z1)
  obtain p where p: "p \<in> set (l_parts lay)" "p_key p = k" "0 < z1"
    "fst (neighbours lay p) \<le> o1" "o1 + z1 \<le> snd (neighbours lay p)"
    using a(1) unfolding Place admissible_place by blast
  note np = neighbours_placed [OF wf p(1) prod.collapse [symmetric] p(4,5,3), unfolded p(2)]
  have "m = s2" "step_key s2 = k" "is_Place s2" using m merge_place [of k o1 z1 s2] unfolding Place by (auto split: if_splits)
  then obtain o2 z2 where m2: "m = Place k o2 z2" "s2 = Place k o2 z2" by (cases s2) simp_all
  obtain q where q: "q \<in> set (l_parts (apply_step lay (Place k o1 z1)))" "p_key q = k" "0 < z2"
    "fst (neighbours (apply_step lay (Place k o1 z1)) q) \<le> o2" "o2 + z2 \<le> snd (neighbours (apply_step lay (Place k o1 z1)) q)"
    using a(2) unfolding m2(2) Place admissible_place by blast
  have "distinct (map p_key (l_parts (apply_step lay (Place k o1 z1))))"
    using wf_layoutD(2) [OF apply_step_wf [OF wf a(1)]] Place by simp
  then have "q = placed_part o1 z1 p"
    using q(1,2) np(1) p(2) by (auto simp: distinct_map inj_on_def simp del: apply_step.simps)
  with q np(2) p show ?thesis unfolding m2 admissible_place by metis
qed (use a(1) admissible_other [of m lay] admissible_other [of s1 lay] merged_kind [OF m] in \<open>simp_all\<close>)

section \<open>The invariant of the editor\<close>

text \<open>Keys of partitions the plan creates never collide with the disk's own, nor with each other.\<close>

definition own_keys :: "layout \<Rightarrow> bool" where
  "own_keys lay \<longleftrightarrow> (\<forall>p \<in> set (l_parts lay). p_key p \<noteq> [] \<and> \<not> starts_with ''new:'' (p_key p))"

definition numbered :: "nat \<Rightarrow> step list \<Rightarrow> bool" where
  "numbered n steps \<longleftrightarrow> (\<forall>s \<in> set steps. is_Create s \<longrightarrow> (\<exists>i \<le> n. step_key s = key_of_number i))"

definition editor_ok :: "layout \<Rightarrow> editor \<Rightarrow> bool" where
  "editor_ok lay e \<longleftrightarrow>
    (\<forall>steps \<in> insert (ed_steps e) (set (ed_history e)). admissible_plan lay steps \<and> numbered (ed_created e) steps)"

lemma numbered_Suc: "numbered n steps \<Longrightarrow> numbered (Suc n) steps"
  unfolding numbered_def using le_SucI by blast

lemma plan_keys:
  "p_key ` set (l_parts (foldl apply_step lay steps)) \<subseteq>
    p_key ` set (l_parts lay) \<union> step_key ` {s \<in> set steps. is_Create s}"
proof (induction steps arbitrary: lay)
  case (Cons s steps)
  have "p_key ` set (l_parts (apply_step lay s)) \<subseteq> p_key ` set (l_parts lay) \<union> (if is_Create s then {step_key s} else {})"
    by (cases s) (auto simp: updated_def sorted_parts_def)
  with Cons [of "apply_step lay s"] show ?case by (simp add: image_Un image_Collect_subsetI Collect_disj_eq conj_disj_distribR split: if_splits) blast+
qed simp

lemma without_absent: "key \<notin> p_key ` set (l_parts lay) \<Longrightarrow> without key lay = lay"
  unfolding without_def by (subst filter_True) auto

lemma if_two: "(if b then x else y) \<in> {x, y}" by simp

lemma push_steps:
  "ed_steps (push base s e) =
    (if is_Delete s \<and> starts_with ''new:'' (step_key s)
     then filter (\<lambda>candidate. step_key candidate \<noteq> step_key s) (ed_steps e)
     else
      let merged = (if ed_steps e = [] then None else merge_steps (last (ed_steps e)) s);
          earlier = (if merged \<noteq> None then butlast (ed_steps e) else ed_steps e);
          before = map_option (\<lambda>lay. foldl apply_step lay earlier) base
      in if (case before of None \<Rightarrow> False | Some lay \<Rightarrow> changes_nothing lay (otherwise merged s))
         then earlier else earlier @ [otherwise merged s])"
  by (cases "is_Delete s"; cases "starts_with ''new:'' (step_key s)"; simp add: push_def Let_def is_Delete_def)

lemma push_steps_admissible:
  assumes wf: "wf_layout lay" and own: "own_keys lay"
    and a: "admissible_plan lay (ed_steps e)" "admissible (foldl apply_step lay (ed_steps e)) s"
  shows "admissible_plan lay (ed_steps (push (Some lay) s e))"
proof (cases "is_Delete s \<and> starts_with ''new:'' (step_key s)")
  case True
  then have "step_key s \<notin> p_key ` set (l_parts lay)" using own by (auto simp: own_keys_def)
  with True admissible_plan_drop [OF wf a(1), of "step_key s"] show ?thesis
    by (auto simp: push_def without_absent is_Delete_def)
next
  case False
  let ?m = "if ed_steps e = [] then None else merge_steps (last (ed_steps e)) s"
  let ?earlier = "if ?m \<noteq> None then butlast (ed_steps e) else ed_steps e"
  have r: "ed_steps (push (Some lay) s e) \<in> {?earlier, ?earlier @ [otherwise ?m s]}"
    unfolding push_steps Let_def if_not_P [OF False] by (rule if_two)
  show ?thesis
  proof (cases ?m)
    case None
    with r a show ?thesis by (auto simp: admissible_plan_append)
  next
    case (Some m)
    then have ne: "ed_steps e \<noteq> []" and m: "merge_steps (last (ed_steps e)) s = Some m" by (auto split: if_splits)
    have b: "admissible_plan lay (butlast (ed_steps e) @ [last (ed_steps e)])"
      "admissible (foldl apply_step lay (butlast (ed_steps e) @ [last (ed_steps e)])) s" using a ne by simp_all
    let ?now = "foldl apply_step lay (butlast (ed_steps e))"
    have "admissible ?now (last (ed_steps e))" "admissible (apply_step ?now (last (ed_steps e))) s"
      "wf_layout ?now" "admissible_plan lay (butlast (ed_steps e))"
      using b plan_wf [OF wf] unfolding admissible_plan_append by simp_all
    then have "admissible_plan lay (butlast (ed_steps e) @ [m])"
      using merge_admissible m by (simp add: admissible_plan_append)
    then show ?thesis using r Some by (auto simp: admissible_plan_append)
  qed
qed

lemma push_steps_numbered:
  assumes "numbered n (ed_steps e)" "is_Create s \<Longrightarrow> \<exists>i \<le> n. step_key s = key_of_number i"
  shows "numbered n (ed_steps (push base s e))"
proof -
  have "x \<in> set (ed_steps e) \<or> x = s \<or> (\<exists>l \<in> set (ed_steps e). merge_steps l s = Some x)"
    if "x \<in> set (ed_steps (push base s e))" for x
    using that by (auto simp: push_steps Let_def split: if_splits option.splits dest: in_set_butlastD intro: last_in_set)
  then show ?thesis using assms merged_kind unfolding numbered_def by metis
qed

lemma push_frame [simp]:
  "ed_history (push base s e) = ed_history e @ [ed_steps e]" "ed_created (push base s e) = ed_created e"
  by (simp_all add: push_def Let_def)

lemma push_ok:
  assumes "wf_layout lay" "own_keys lay" "editor_ok lay e" "admissible (foldl apply_step lay (ed_steps e)) s"
    and "is_Create s \<Longrightarrow> \<exists>i \<le> ed_created e. step_key s = key_of_number i"
  shows "editor_ok lay (push (Some lay) s e)"
  using assms push_steps_admissible [OF assms(1,2)] push_steps_numbered [of "ed_created e" e s "Some lay"]
  by (auto simp: editor_ok_def)

lemma starts_with_new: "starts_with ''new:'' (key_of_number n)"
  by (simp add: key_of_number_def starts_with_def)

lemma key_of_number_own: "own_keys lay \<Longrightarrow> key_of_number n \<notin> p_key ` set (l_parts lay)"
  using starts_with_new [of n] unfolding own_keys_def by force

lemma fresh_key:
  assumes "own_keys lay" "numbered n steps"
  shows "key_of_number (Suc n) \<notin> p_key ` set (l_parts (foldl apply_step lay steps))"
proof
  assume "key_of_number (Suc n) \<in> p_key ` set (l_parts (foldl apply_step lay steps))"
  then obtain s where "s \<in> set steps" "is_Create s" "step_key s = key_of_number (Suc n)"
    using plan_keys [of lay steps] key_of_number_own [OF assms(1)]
    by (smt (verit, del_insts) Un_iff image_iff mem_Collect_eq subsetD)
  then obtain i where "i \<le> n" "key_of_number i = key_of_number (Suc n)" using assms(2) unfolding numbered_def by metis
  then show False by (simp add: key_of_number_def show_nat_inject)
qed

text \<open>
  A step of the editor open on a drive whose layout is \<open>lay\<close>: what its controls offer on the
  planned layout, the part being one it shows, a place within the limits of that part, a new
  partition within one of the gaps.
\<close>

inductive ed_step :: "layout \<Rightarrow> editor \<Rightarrow> editor \<Rightarrow> bool" for lay where
  st_open: "ed_step lay e (open_drive drive_id selected e)"
| st_select: "ed_step lay e (select_part key e)"
| st_close: "ed_step lay e (close_editor e)"
| st_draft: "ed_step lay e (e\<lparr>ed_draft := d\<rparr>)"
| st_undo: "ed_step lay e (undo (Some lay) e)"
| st_place: "\<lbrakk>planned (Some lay) e = Some now; p \<in> set (l_parts now); in_place now p; 0 < sz;
    lim_before (limits_of now p support) \<le> o'; o' + sz \<le> lim_after (limits_of now p support)\<rbrakk>
    \<Longrightarrow> ed_step lay e (edit_place (Some lay) p o' sz e)"
| st_create: "\<lbrakk>planned (Some lay) e = Some now; g \<in> set (gaps now); s_offset g \<le> s_offset gap;
    span_end gap \<le> span_end g; 0 < s_size gap\<rbrakk> \<Longrightarrow> ed_step lay e (edit_create (Some lay) gap filesystem e)"
| st_remove: "\<lbrakk>planned (Some lay) e = Some now; p \<in> set (l_parts now)\<rbrakk> \<Longrightarrow> ed_step lay e (edit_remove (Some lay) p e)"
| st_format: "\<lbrakk>planned (Some lay) e = Some now; p \<in> set (l_parts now)\<rbrakk>
    \<Longrightarrow> ed_step lay e (edit_format (Some lay) p filesystem e)"
| st_rename: "\<lbrakk>planned (Some lay) e = Some now; p \<in> set (l_parts now)\<rbrakk>
    \<Longrightarrow> ed_step lay e (edit_rename (Some lay) p label e)"
| st_retype: "\<lbrakk>planned (Some lay) e = Some now; p \<in> set (l_parts now)\<rbrakk>
    \<Longrightarrow> ed_step lay e (edit_retype (Some lay) p type e)"
| st_rename_partition: "\<lbrakk>planned (Some lay) e = Some now; p \<in> set (l_parts now)\<rbrakk>
    \<Longrightarrow> ed_step lay e (edit_rename_partition (Some lay) p name e)"
| st_set_flag: "\<lbrakk>planned (Some lay) e = Some now; p \<in> set (l_parts now)\<rbrakk>
    \<Longrightarrow> ed_step lay e (edit_set_flag (Some lay) p number on e)"
| st_apply: "ed_step lay e (apply_plan show_bytes exec block (Some lay) e)"

inductive ed_reach :: "layout \<Rightarrow> editor \<Rightarrow> bool" for lay where
  reach_new: "ed_reach lay new_editor"
| reach_step: "ed_reach lay e \<Longrightarrow> ed_step lay e e' \<Longrightarrow> ed_reach lay e'"

lemma editor_ok_same:
  "editor_ok lay e \<Longrightarrow> insert (ed_steps e') (set (ed_history e')) \<subseteq> insert (ed_steps e) (set (ed_history e)) \<Longrightarrow>
    ed_created e' = ed_created e \<Longrightarrow> editor_ok lay e'"
  unfolding editor_ok_def by auto

lemma editor_ok_nil: "editor_ok lay e \<Longrightarrow> ed_steps e' = [] \<Longrightarrow> ed_history e' = [] \<Longrightarrow> editor_ok lay e'"
  by (auto simp: editor_ok_def numbered_def)

lemma push_change_ok:
  assumes "wf_layout lay" "own_keys lay" "editor_ok lay e" "planned (Some lay) e = Some now" "p \<in> set (l_parts now)"
    and "step_key s = p_key p" "\<not> is_Create s" "\<not> is_Place s"
  shows "editor_ok lay (push (Some lay) s e)"
  using assms by (intro push_ok) (auto simp: planned_def admissible_other)

lemma edit_place_ok:
  assumes wf: "wf_layout lay" "own_keys lay" "editor_ok lay e" and now: "planned (Some lay) e = Some now"
    and p: "p \<in> set (l_parts now)" "in_place now p" "0 < sz"
    and o: "lim_before (limits_of now p support) \<le> o'" "o' + sz \<le> lim_after (limits_of now p support)"
  shows "editor_ok lay (edit_place (Some lay) p o' sz e)"
proof -
  have eq: "now = foldl apply_step lay (ed_steps e)" using now by (simp add: planned_def)
  have wfn: "wf_layout now" using wf(1,3) plan_wf [of lay "ed_steps e"] by (simp add: eq editor_ok_def)
  have pos: "0 < p_size p" using wf_layoutD(3) [OF wfn] p(1) by (auto simp: apart_def)
  have *: "editor_ok lay (push (Some lay) (Place (p_key p) a b) e)" if "admissible now (Place (p_key p) a b)" for a b
    using that wf by (intro push_ok) (simp_all add: eq)
  have "admissible now (Place (p_key p) o' sz)" by (rule limits_admissible [OF p(1-3) o])
  moreover have "admissible now (Place (p_key p) before (after - before))" if "neighbours now p = (before, after)" for before after
    using p(1,2) pos that by (auto simp: admissible_place in_place_def part_end_def intro!: exI [of _ p])
  ultimately show ?thesis using wf(3) * now by (auto simp: edit_place_def split: prod.split)
qed

lemma edit_create_ok:
  assumes wf: "wf_layout lay" "own_keys lay" "editor_ok lay e" and now: "planned (Some lay) e = Some now"
    and g: "g \<in> set (gaps now)" "s_offset g \<le> s_offset gap" "span_end gap \<le> span_end g" "0 < s_size gap"
  shows "editor_ok lay (edit_create (Some lay) gap filesystem e)"
proof -
  have eq: "now = foldl apply_step lay (ed_steps e)" using now by (simp add: planned_def)
  have "wf_layout now" using wf(1,3) plan_wf [of lay "ed_steps e"] by (simp add: eq editor_ok_def)
  then have "free_span now (s_offset gap) (s_size gap)"
    using gap_free_span [OF _ g(1,2) _ g(4)] g(3) by (simp add: wf_layout_def span_end_def)
  moreover have "key_of_number (Suc (ed_created e)) \<notin> p_key ` set (l_parts now)"
    unfolding eq using wf(3) by (intro fresh_key wf(2)) (simp add: editor_ok_def)
  ultimately have a: "admissible now (Create (key_of_number (Suc (ed_created e))) (s_offset gap) (s_size gap) filesystem [] [] [] [])"
    by (simp add: admissible_def)
  have ok: "editor_ok lay (e\<lparr>ed_created := Suc (ed_created e)\<rparr>)"
    using wf(3) by (auto simp: editor_ok_def intro: numbered_Suc)
  have "editor_ok lay (push (Some lay) (Create (key_of_number (Suc (ed_created e))) (s_offset gap) (s_size gap) filesystem [] [] [] [])
      (e\<lparr>ed_created := Suc (ed_created e)\<rparr>))"
    using a by (intro push_ok [OF wf(1,2) ok]) (auto simp: eq)
  then show ?thesis by (simp add: edit_create_def new_key_def editor_ok_def)
qed

lemma ed_step_ok:
  assumes "ed_step lay e e'" "wf_layout lay" "own_keys lay" "editor_ok lay e"
  shows "editor_ok lay e'"
  using assms
proof (induction rule: ed_step.induct)
  case (st_undo e)
  have "insert (ed_steps (undo (Some lay) e)) (set (ed_history (undo (Some lay) e))) \<subseteq> insert (ed_steps e) (set (ed_history e))"
    "ed_created (undo (Some lay) e) = ed_created e"
    by (auto simp: undo_def Let_def dest: in_set_butlastD)
  with st_undo(3) editor_ok_same show ?case by blast
next
  case (st_apply e show_bytes exec block)
  then show ?case
    by (auto simp: apply_plan_def Let_def editor_ok_def numbered_def split: option.split prod.split)
next
  case (st_open e d sel)
  then show ?case by (auto simp: open_drive_def editor_ok_def numbered_def)
next
  case (st_remove e now p)
  then have "editor_ok lay (push (Some lay) (Delete (p_key p)) e)" by (intro push_change_ok) simp_all
  then show ?case by (simp add: edit_remove_def editor_ok_def)
qed (simp_all add: edit_format_def edit_rename_def edit_retype_def edit_rename_partition_def edit_set_flag_def Let_def push_change_ok
    edit_place_ok edit_create_ok, simp_all add: select_part_def close_editor_def editor_ok_def numbered_def)

lemma ed_reach_ok: "ed_reach lay e \<Longrightarrow> wf_layout lay \<Longrightarrow> own_keys lay \<Longrightarrow> editor_ok lay e"
proof (induction rule: ed_reach.induct)
  case reach_new
  then show ?case by (simp add: editor_ok_def numbered_def new_editor_def)
qed (rule ed_step_ok)

section \<open>A merged step does what the two did\<close>

text \<open>Up to the title a part had before it was renamed, and the mount a detour would have lost.\<close>

definition plain :: "part \<Rightarrow> part" where
  "plain p = p\<lparr>p_title := [], p_mounted := False\<rparr>"

definition plain_layout :: "layout \<Rightarrow> layout" where
  "plain_layout lay = lay\<lparr>l_parts := map plain (l_parts lay)\<rparr>"

lemma plain_fields [simp]: "p_offset (plain p) = p_offset p" "p_size (plain p) = p_size p"
  by (simp_all add: plain_def)

lemma plain_layout_eqI:
  assumes "wf_layout a" "wf_layout b" "image_mset plain (mset (l_parts a)) = image_mset plain (mset (l_parts b))"
    and "l_start a = l_start b" "l_end a = l_end b" "l_table a = l_table b" "l_extended a = l_extended b"
  shows "plain_layout a = plain_layout b"
proof -
  have ap: "apart (map plain (l_parts lay))" if "wf_layout lay" for lay
    using wf_layoutD(3) [OF that] by (simp add: apart_def sorted_wrt_map part_end_def)
  have "map plain (l_parts a) = map plain (l_parts b)"
    using sorted_parts_perm [OF ap [OF assms(1)], of "map plain (l_parts b)"]
      sorted_parts_perm [OF ap [OF assms(2)], of "map plain (l_parts b)"] assms(3) by simp
  then show ?thesis using assms(4-7) by (cases a; cases b) (simp add: plain_layout_def)
qed

lemma mset_sorted_parts [simp]: "mset (sorted_parts ps) = mset ps"
  by (simp add: sorted_parts_def)

lemma mset_updated: "mset (l_parts (updated lay key f)) = image_mset (\<lambda>p. if p_key p = key then f p else p) (mset (l_parts lay))"
  by (simp add: updated_def)

lemma updated_twice_plain:
  assumes "\<And>p. p_key (f p) = p_key p" "\<And>p. plain (g (f p)) = plain (h p)"
  shows "image_mset plain (mset (l_parts (updated (updated lay key f) key g))) = image_mset plain (mset (l_parts (updated lay key h)))"
  unfolding mset_updated image_mset.compositionality by (rule image_mset_cong) (simp add: assms)

lemma updated_created_plain:
  assumes "key \<notin> p_key ` set (l_parts lay)" "p_key c = key" "plain (f c) = plain d"
  shows "image_mset plain (mset (l_parts (updated (lay\<lparr>l_parts := sorted_parts (l_parts lay @ [c])\<rparr>) key f))) =
    image_mset plain (mset (l_parts (lay\<lparr>l_parts := sorted_parts (l_parts lay @ [d])\<rparr>)))"
proof -
  have "image_mset (\<lambda>p. if p_key p = key then f p else p) (mset (l_parts lay)) = image_mset id (mset (l_parts lay))"
    using assms(1) by (intro image_mset_cong) auto
  then show ?thesis using assms(2,3) by (simp add: mset_updated)
qed

lemma updated_member:
  "p \<in> set (l_parts lay) \<Longrightarrow> p_key p = key \<Longrightarrow> f p \<in> set (l_parts (updated lay key f))"
  by (auto simp: updated_def sorted_parts_def)

lemma created_member:
  "created_part (l_extended lay) k o1 z1 fs lb ty nm fl \<in> set (l_parts (apply_step lay (Create k o1 z1 fs lb ty nm fl)))"
  by (simp add: sorted_parts_def)

text \<open>A new partition that is moved within its neighbours stays on its side of the extended partition.\<close>

lemma created_side:
  assumes wf: "wf_layout (updated (apply_step lay (Create k o1 z1 fs lb ty nm fl)) k (placed_part o2 z2))" and z: "0 < z2"
  shows "inside (l_extended lay) \<lparr>s_offset = o2, s_size = z2\<rparr> \<longleftrightarrow> inside (l_extended lay) \<lparr>s_offset = o1, s_size = z1\<rparr>"
proof -
  let ?c = "created_part (l_extended lay) k o1 z1 fs lb ty nm fl"
  have "fits_extended (l_extended lay) (placed_part o2 z2 ?c)"
    using wf_layoutD(4) [OF wf updated_member [OF created_member]] by (simp add: updated_def)
  then show ?thesis using z
    by (auto simp: fits_extended_def placed_part_def created_part_def inside_def part_span_def part_end_def span_end_def
        split: option.splits if_splits)
qed

text \<open>A step that formats, formats with a file system: the editor offers no other.\<close>

definition formats_with :: "step \<Rightarrow> bool" where
  "formats_with s = (case s of Format _ fs _ \<Rightarrow> fs \<noteq> [] | _ \<Rightarrow> True)"

lemma merge_plain_mset:
  assumes wf: "wf_layout lay" and a: "admissible lay s1" "admissible (apply_step lay s1) s2"
    and m: "merge_steps s1 s2 = Some m" and fs: "formats_with s2"
  shows "image_mset plain (mset (l_parts (apply_step (apply_step lay s1) s2))) = image_mset plain (mset (l_parts (apply_step lay m)))"
proof (cases s1)
  case (Create k o1 z1 fs1 lb ty nm fl)
  have k: "k \<notin> p_key ` set (l_parts lay)" using a(1) Create by (simp add: admissible_def)
  show ?thesis
  proof (cases s2)
    case (Place k2 o2 z2)
    have k2: "k2 = k" "m = Create k o2 z2 fs1 lb ty nm fl" using m Create Place by (auto simp: merge_steps_def split: if_splits)
    have z: "0 < z2" using a(2) unfolding Place by (simp add: admissible_def)
    have "wf_layout (apply_step (apply_step lay s1) s2)" using apply_step_wf wf a by blast
    then have side: "inside (l_extended lay) \<lparr>s_offset = o2, s_size = z2\<rparr> \<longleftrightarrow> inside (l_extended lay) \<lparr>s_offset = o1, s_size = z1\<rparr>"
      by (intro created_side [OF _ z]) (simp add: Create Place k2)
    show ?thesis unfolding Create Place k2 apply_step.simps
      by (rule updated_created_plain [OF k]) (simp_all add: plain_def placed_part_def created_part_def side)
  next
    case (Format k2 fs2 lb2)
    have k2: "k2 = k" "m = Create k o1 z1 fs2 lb2 ty nm fl" using m Create Format by (auto simp: merge_steps_def split: if_splits)
    have "fs2 \<noteq> []" using fs Format by (simp add: formats_with_def)
    then show ?thesis unfolding Create Format k2 apply_step.simps
      by (intro updated_created_plain [OF k]) (simp_all add: plain_def formatted_part_def created_part_def)
  next
    case (Change k2 ty2 nm2 fl2 lb2)
    have k2: "k2 = k" "m = Create k o1 z1 fs1 (otherwise lb2 lb) (otherwise ty2 ty) (otherwise nm2 nm) (otherwise fl2 fl)"
      using m Create Change by (auto simp: merge_steps_def split: if_splits)
    show ?thesis unfolding Create Change k2 apply_step.simps
      by (rule updated_created_plain [OF k]) (simp_all add: plain_def changed_part_def created_part_def)
  qed (use m Create in \<open>auto simp: merge_steps_def split: if_splits\<close>)
next
  case (Place k o1 z1)
  have m2: "m = s2" "step_key s2 = k" "is_Place s2" using m merge_place [of k o1 z1 s2] unfolding Place by (auto split: if_splits)
  then obtain o2 z2 where s2: "s2 = Place k o2 z2" by (cases s2) simp_all
  show ?thesis unfolding m2(1) Place s2 apply_step.simps
    by (rule updated_twice_plain) (simp_all add: plain_def placed_part_def)
next
  case (Format k fs1 lb)
  obtain fs2 lb2 where s2: "s2 = Format k fs2 lb2" and m2: "m = Format k fs2 lb2"
    using m Format by (cases s2) (simp_all add: merge_steps_def split: if_splits)
  show ?thesis unfolding m2 Format s2 apply_step.simps
    by (rule updated_twice_plain) (simp_all add: plain_def formatted_part_def)
next
  case (Change k ty nm fl lb)
  obtain ty2 nm2 fl2 lb2 where s2: "s2 = Change k ty2 nm2 fl2 lb2" and m2: "m = Change k (if ty2 = None then ty else ty2)
      (if nm2 = None then nm else nm2) (if fl2 = None then fl else fl2) (if lb2 = None then lb else lb2)"
    using m Change by (cases s2) (simp_all add: merge_steps_def split: if_splits)
  show ?thesis unfolding m2 Change s2 apply_step.simps
    by (rule updated_twice_plain) (auto simp: plain_def changed_part_def)
qed (use m in \<open>simp add: merge_steps_def split: if_splits\<close>)

lemma merge_plain:
  assumes "wf_layout lay" "admissible lay s1" "admissible (apply_step lay s1) s2" "merge_steps s1 s2 = Some m" "formats_with s2"
  shows "plain_layout (apply_step (apply_step lay s1) s2) = plain_layout (apply_step lay m)"
  by (rule plain_layout_eqI) (use assms merge_plain_mset [OF assms] merge_admissible apply_step_wf in \<open>simp_all del: apply_step.simps\<close>)

section \<open>The run\<close>

text \<open>What the service documents: creating a partition reports its block.\<close>

definition reports_blocks :: "service \<Rightarrow> bool" where
  "reports_blocks exec \<longleftrightarrow> (\<forall>n r. is_Request_create r \<longrightarrow> exec n r \<noteq> Inr None \<and> exec n r \<noteq> Inr (Some []))"

lemma run_steps_blocks:
  assumes "reports_blocks exec"
  shows "admissible_plan lay steps \<Longrightarrow> \<forall>p \<in> set (l_parts lay). otherwise (blocks (p_key p)) [] \<noteq> [] \<Longrightarrow>
    r \<in> set (fst (run_steps exec tab blocks n steps)) \<Longrightarrow> \<not> is_Request_create r \<Longrightarrow> request_block r \<noteq> []"
proof (induction steps arbitrary: lay blocks n)
  case (Cons s rest)
  let ?req = "request s blocks tab"
  have here: "is_Request_create ?req \<or> request_block ?req \<noteq> []"
  proof (cases "is_Create s")
    case True
    then show ?thesis by (cases s) (simp_all add: request_def)
  next
    case False
    then have "step_key s \<in> p_key ` set (l_parts lay)"
      using Cons.prems(1) by (cases s) (auto simp: admissible_def)
    then have "otherwise (blocks (step_key s)) [] \<noteq> []" using Cons.prems(2) by auto
    then show ?thesis by (cases s) (simp_all add: request_def Let_def)
  qed
  show ?case
  proof (cases "exec n ?req")
    case (Inl problem)
    then show ?thesis using Cons.prems(3,4) here by auto
  next
    case (Inr result)
    let ?blocks = "if or_blank result \<noteq> [] then blocks(step_key s \<mapsto> or_blank result) else blocks"
    have "is_Create s \<Longrightarrow> or_blank result \<noteq> []"
      using Inr assms unfolding reports_blocks_def
      by (cases s; cases result) (auto simp: request_def or_blank_def)
    moreover have "p_key ` set (l_parts (apply_step lay s)) \<subseteq> p_key ` set (l_parts lay) \<union> (if is_Create s then {step_key s} else {})"
      using plan_keys [of lay "[s]"] by (auto split: if_splits)
    ultimately have b: "\<forall>p \<in> set (l_parts (apply_step lay s)). otherwise (?blocks (p_key p)) [] \<noteq> []"
      using Cons.prems(2) by (fastforce split: if_splits)
    have "r = ?req \<or> r \<in> set (fst (run_steps exec tab ?blocks (Suc n) rest))"
      using Cons.prems(3) Inr by (auto simp: Let_def split: prod.splits)
    then show ?thesis using Cons.IH [OF _ b] Cons.prems(1,4) here by auto
  qed
qed simp

lemma run_steps_count:
  assumes "run_steps exec tab blocks n steps = (reqs, finished, problem)"
  shows "n \<le> finished" and "problem = None \<Longrightarrow> finished = n + length steps"
    and "length reqs = finished - n + (if problem = None then 0 else 1)"
    and "problem \<noteq> None \<Longrightarrow> finished < n + length steps"
proof -
  have "n \<le> finished \<and> (problem = None \<longrightarrow> finished = n + length steps) \<and>
      length reqs = finished - n + (if problem = None then 0 else 1) \<and> (problem \<noteq> None \<longrightarrow> finished < n + length steps)"
    using assms
  proof (induction steps arbitrary: n blocks reqs)
    case (Cons s rest)
    show ?case
    proof (cases "exec n (request s blocks tab)")
      case (Inl e)
      then show ?thesis using Cons.prems by (auto simp: Let_def)
    next
      case (Inr result)
      then obtain reqs' where "reqs = request s blocks tab # reqs'"
        "run_steps exec tab (if or_blank result \<noteq> [] then blocks(step_key s \<mapsto> or_blank result) else blocks) (Suc n) rest = (reqs', finished, problem)"
        using Cons.prems by (auto simp: Let_def split: prod.splits)
      with Cons.IH [OF this(2)] show ?thesis by auto
    qed
  qed simp
  then show "n \<le> finished" and "problem = None \<Longrightarrow> finished = n + length steps"
    and "length reqs = finished - n + (if problem = None then 0 else 1)"
    and "problem \<noteq> None \<Longrightarrow> finished < n + length steps" by blast+
qed

section \<open>Undo\<close>

lemma undo_push:
  assumes "\<not> running e"
  shows "ed_steps (undo base' (push base s e)) = ed_steps e" and "ed_history (undo base' (push base s e)) = ed_history e"
proof -
  have "ed_progress (push base s e) = ed_progress e" by (simp add: push_def Let_def)
  then have "\<not> running (push base s e)" using assms by (simp add: running_def)
  then show "ed_steps (undo base' (push base s e)) = ed_steps e" "ed_history (undo base' (push base s e)) = ed_history e"
    by (simp_all add: undo_def Let_def)
qed

end
