(* ===== verification/Disk_Properties.thy ===== *)
theory Disk_Properties
  imports Disk_Editor
begin

text \<open>
  The properties of the partition editor, each over the definitions of the \<open>Disk\<close> theories, with a
  witness on a small drive where it has hypotheses.
\<close>

section \<open>A small drive\<close>

definition sample_part :: "string \<Rightarrow> int \<Rightarrow> int \<Rightarrow> part" where
  "sample_part key offset sz =
    \<lparr>p_key = key, p_pending = False, p_number = Some 1, p_offset = offset, p_size = sz, p_type = LINUX_DATA,
     p_name = [], p_flags = [], p_label = ''Home'', p_filesystem = ''ext4'', p_usage = ''filesystem'',
     p_used = Some (8 * MiB), p_mounted = False, p_encrypted = False, p_locked = False, p_system = False,
     p_logical = False, p_replaced = False, p_title = ''Home''\<rparr>"

definition sample_layout :: layout where
  "sample_layout = \<lparr>l_table = Gpt, l_start = MiB, l_end = 4096 * MiB, l_extended = None,
    l_parts = [sample_part ''sda1'' (16 * MiB) (512 * MiB), sample_part ''sda2'' (1024 * MiB) (1024 * MiB)]\<rparr>"

lemma sample_wf: "wf_layout sample_layout"
  by (simp add: wf_layout_def sound_layout_def apart_def sample_layout_def sample_part_def part_end_def fits_extended_def)

lemma sample_own: "own_keys sample_layout"
  by (simp add: own_keys_def sample_layout_def sample_part_def starts_with_def)

lemma sample_gap: "\<lparr>s_offset = 528 * MiB, s_size = 496 * MiB\<rparr> \<in> set (gaps sample_layout)"
  by (simp add: gaps_def sample_layout_def sample_part_def part_end_def fences_of_def split_gap_def span_end_def
      align_gap_def align_up_def align_down_def MiB_def)

lemma sample_in_place: "p \<in> set (l_parts sample_layout) \<Longrightarrow> in_place sample_layout p"
  by (rule aligned_in_place [OF sample_wf])
    (auto simp: sample_layout_def sample_part_def part_end_def MiB_def)

section \<open>The editor\<close>

text \<open>C1. Whatever the user does in the editor, opening, selecting, drafting, placing within the
  limits shown, creating in a gap, removing, formatting, renaming, flags, undo and applying, the planned
  layout stays well formed: sorted, no two partitions share a byte, keys are unique, primary
  and logical partitions stay on their side of the extended partition, and the next step is
  again one the service can carry out.\<close>

theorem editor_plan_sound:
  assumes "wf_layout lay" "own_keys lay" "ed_reach lay e"
  shows "\<exists>now. planned (Some lay) e = Some now \<and> wf_layout now \<and> admissible_plan lay (ed_steps e) \<and>
    (\<forall>x p q. p \<in> set (l_parts now) \<and> in_part x p \<and> q \<in> set (l_parts now) \<and> in_part x q \<longrightarrow> p = q)"
proof -
  have a: "admissible_plan lay (ed_steps e)"
    using ed_reach_ok [OF assms(3,1,2)] by (simp add: editor_ok_def)
  then have wf: "wf_layout (foldl apply_step lay (ed_steps e))" by (rule plan_wf [OF assms(1)])
  then show ?thesis using a apart_disjoint [OF wf_layoutD(3) [OF wf]] by (auto simp: planned_def)
qed

theorem editor_plan_sound_witness:
  "\<exists>now. planned (Some sample_layout) (edit_create (Some sample_layout) \<lparr>s_offset = 528 * MiB, s_size = 496 * MiB\<rparr> ''ext4'' new_editor)
    = Some now \<and> wf_layout now"
proof -
  have "ed_step sample_layout new_editor (edit_create (Some sample_layout) \<lparr>s_offset = 528 * MiB, s_size = 496 * MiB\<rparr> ''ext4'' new_editor)"
    by (rule st_create [OF _ sample_gap]) (simp_all add: planned_def new_editor_def MiB_def)
  then have "ed_reach sample_layout (edit_create (Some sample_layout) \<lparr>s_offset = 528 * MiB, s_size = 496 * MiB\<rparr> ''ext4'' new_editor)"
    by (rule reach_step [OF reach_new])
  from editor_plan_sound [OF sample_wf sample_own this] show ?thesis by blast
qed





text \<open>C4. Applying a plan reports exactly how far it came: every step when no error stopped it, fewer
  when one did, and the service got one request per step done, and one more for the step that
  failed.  Only a run cancelled before its first step keeps the plan.\<close>

theorem apply_plan_outcome:
  assumes "ed_steps e \<noteq> []" "\<not> running e"
    and "run_steps exec tab (base_blocks lay) 0 (ed_steps e) = (reqs, finished, problem)"
  shows "length reqs = finished + (if problem = None then 0 else 1) \<and>
    (if problem = None then finished = length (ed_steps e) else finished < length (ed_steps e)) \<and>
    (if problem = Some CANCELLED \<and> finished = 0
         then ed_steps (apply_plan show_bytes exec (Some tab) (Some lay) e) = ed_steps e
         else ed_steps (apply_plan show_bytes exec (Some tab) (Some lay) e) = [] \<and>
           ed_outcome (apply_plan show_bytes exec (Some tab) (Some lay) e) =
             Some \<lparr>oc_sentences = map ds_sentence (describe_plan show_bytes lay (ed_steps e)), oc_done = finished, oc_error = problem\<rparr>)"
  using run_steps_count [OF assms(3)] assms by (auto simp: apply_plan_def split: option.splits)

theorem apply_plan_outcome_witness:
  "ed_steps (apply_plan (\<lambda>_. ''512 MB'') (\<lambda>_ _. Inl ''busy'') (Some ''sda'') (Some sample_layout)
    (new_editor\<lparr>ed_steps := [Delete ''sda1'']\<rparr>)) = []"
proof -
  let ?e = "new_editor\<lparr>ed_steps := [Delete ''sda1'']\<rparr>"
  have e: "ed_steps ?e \<noteq> []" "\<not> running ?e" by (simp_all add: running_def new_editor_def)
  have "run_steps (\<lambda>_ _. Inl ''busy'') ''sda'' (base_blocks sample_layout) 0 (ed_steps ?e) = ([Request_delete ''sda1''], 0, Some ''busy'')"
    by (simp add: request_def base_blocks_def sample_layout_def sample_part_def)
  from apply_plan_outcome [OF e this, of "\<lambda>_. ''512 MB''"] show ?thesis by (simp add: CANCELLED_def)
qed

text \<open>Undo right after an edit gives back the plan and its history as they were before it.\<close>

theorem undo_reverts_push:
  assumes "\<not> running e"
  shows "ed_steps (undo base (push base s e)) = ed_steps e \<and> ed_history (undo base (push base s e)) = ed_history e"
  using undo_push [OF assms] by blast

theorem undo_reverts_push_witness:
  "ed_steps (undo (Some sample_layout) (push (Some sample_layout) (Delete ''sda1'') new_editor)) = []"
  using undo_reverts_push [of new_editor "Some sample_layout" "Delete ''sda1''"] by (simp add: running_def new_editor_def)

section \<open>Gaps, limits and the plan\<close>

text \<open>C5. The free gaps the editor offers are exact: each is aligned, lies in bytes no partition holds and
  does not cross a border of the extended partition, and every free aligned mebibyte is in one.\<close>

theorem gaps_exact:
  assumes "sound_layout lay"
  shows "(\<forall>g \<in> set (gaps lay). MiB dvd s_offset g \<and> MiB dvd s_size g \<and> MiB \<le> s_size g \<and>
      (\<forall>x. in_span x g \<longrightarrow> free_byte lay x) \<and> fences_clear (fences_of (l_extended lay)) (s_offset g) (span_end g)) \<and>
    (\<forall>a. MiB dvd a \<and> (\<forall>x. a \<le> x \<and> x < a + MiB \<longrightarrow> free_byte lay x) \<and> fences_clear (fences_of (l_extended lay)) a (a + MiB)
      \<longrightarrow> (\<exists>g \<in> set (gaps lay). s_offset g \<le> a \<and> a + MiB \<le> span_end g))"
  using gaps_aligned [of _ lay] gaps_free [OF assms] gaps_cover [OF assms] by simp

theorem gaps_exact_witness:
  "MiB dvd s_offset \<lparr>s_offset = 528 * MiB, s_size = 496 * MiB\<rparr> \<and> free_byte sample_layout (600 * MiB)"
  using gaps_exact [of sample_layout] sample_gap sample_wf by (force simp: wf_layout_def in_span_def span_end_def MiB_def)

text \<open>C6. Any place within the limits shown for a partition keeps the layout well formed, and the limits
  leave the partition room to stay as it is.\<close>

theorem limits_safe:
  assumes "wf_layout lay" "p \<in> set (l_parts lay)" "in_place lay p" "0 < sz"
    and "lim_before (limits_of lay p support) \<le> o'" "o' + sz \<le> lim_after (limits_of lay p support)"
  shows "wf_layout (apply_step lay (Place (p_key p) o' sz)) \<and>
    lim_before (limits_of lay p support) \<le> p_offset p \<and> part_end p \<le> lim_after (limits_of lay p support)"
  using apply_step_wf [OF assms(1) limits_admissible [OF assms(2-6)]] limits_within_neighbours [OF assms(3), of support] by simp

theorem limits_safe_witness:
  "wf_layout (apply_step sample_layout (Place ''sda1'' (100 * MiB) (924 * MiB)))"
proof -
  let ?p = "sample_part ''sda1'' (16 * MiB) (512 * MiB)"
  have p: "?p \<in> set (l_parts sample_layout)" by (simp add: sample_layout_def)
  have l: "neighbours sample_layout ?p = (MiB, 1024 * MiB)"
    by (simp add: neighbours_def sample_layout_def sample_part_def nth_opt_def)
  have "wf_layout (apply_step sample_layout (Place (p_key ?p) (100 * MiB) (924 * MiB)))"
    using limits_safe [OF sample_wf p sample_in_place [OF p], of "924 * MiB" "\<lambda>_. None" "100 * MiB"]
    by (simp add: limits_of_def l Let_def) (simp add: sample_part_def MiB_def)
  then show ?thesis by (simp add: sample_part_def)
qed

text \<open>The smallest size offered for a file system that can shrink holds everything on it.\<close>

theorem shrink_keeps_used:
  assumes "can_shrink (resizing p support)" "p_usage p = ''filesystem''" "\<not> p_pending p" "\<not> (p_replaced p \<and> p_filesystem p = [])"
    and "p_used p = Some used" "0 \<le> used" "used \<le> p_size p"
  shows "used \<le> min_size (resizing p support)"
  by (rule resizing_keeps_data [OF assms])

theorem shrink_keeps_used_witness:
  "8 * MiB \<le> min_size (resizing (sample_part ''sda1'' (16 * MiB) (512 * MiB)) (\<lambda>_. Some 2))"
  by (rule shrink_keeps_used)
    (simp_all add: resizing_def sample_part_def headroom_for_def Let_def OFFLINE_SHRINK_def ONLINE_SHRINK_def MiB_def)

text \<open>Creating a partition where the editor allows it never exceeds what the partition table
  holds: 128 entries, or four primaries.\<close>

theorem creatable_fits_table:
  assumes "within_table lay" "creatable lay g = None" "s_offset g \<le> o'" "o' + s \<le> span_end g"
  shows "within_table (apply_step lay (Create key o' s filesystem label type name flags))"
  by (rule create_within_table [OF assms])

theorem creatable_fits_table_witness:
  "within_table (apply_step sample_layout (Create ''new:1'' (528 * MiB) (496 * MiB) ''ext4'' [] [] [] []))"
  by (rule creatable_fits_table [of _ "\<lparr>s_offset = 528 * MiB, s_size = 496 * MiB\<rparr>"])
    (simp_all add: within_table_def creatable_def sample_layout_def GPT_ENTRIES_def span_end_def)

text \<open>C7. No data goes without a warning: when the planned layout no longer keeps a partition's data,
  some sentence of the plan says what is lost.\<close>

theorem plan_warns_of_loss:
  assumes "wf_layout base" "admissible_plan base steps" "holds_data base key" "\<not> holds_data (foldl apply_step base steps) key"
  shows "\<exists>d \<in> set (describe_plan show_bytes base steps). ds_loss d \<noteq> None"
  by (rule plan_loss [OF assms])

theorem plan_warns_of_loss_witness:
  "\<exists>d \<in> set (describe_plan (\<lambda>_. ''512 MB'') sample_layout [Delete ''sda1'']). ds_loss d \<noteq> None"
  by (rule plan_warns_of_loss [OF sample_wf, of _ "''sda1''"])
    (auto simp: admissible_def holds_data_def sample_layout_def sample_part_def)

text \<open>The editable area of a drive starts and ends on a mebibyte inside the drive, leaves the backup
  table of a GPT drive alone and stays below what an MBR table can address; every part in it
  is a numbered volume of the drive with its data kept.\<close>

theorem layout_of_drive:
  assumes "layout_of drv = Some lay"
  shows "l_start lay = MiB \<and> MiB dvd l_end lay \<and> l_end lay \<le> dr_size drv \<and>
    (if l_table lay = Gpt then l_end lay + MiB \<le> dr_size drv else l_end lay \<le> DOS_LIMIT) \<and>
    (\<forall>p \<in> set (l_parts lay). \<not> p_pending p \<and> \<not> p_replaced p \<and> p_number p \<noteq> None)"
  using layout_of_bounds [OF assms] layout_of_parts [OF assms] by (cases "l_table lay") auto

theorem layout_of_drive_witness:
  "l_start \<lparr>l_table = Gpt, l_start = MiB, l_end = 99 * MiB, l_extended = None, l_parts = []\<rparr> = MiB \<and>
   MiB dvd l_end \<lparr>l_table = Gpt, l_start = MiB, l_end = 99 * MiB, l_extended = None, l_parts = []\<rparr> \<and>
   l_end \<lparr>l_table = Gpt, l_start = MiB, l_end = 99 * MiB, l_extended = None, l_parts = []\<rparr> \<le> 100 * MiB"
  using layout_of_drive [of "\<lparr>dr_id = ''d'', dr_block = ''sda'', dr_size = 100 * MiB, dr_table = Some Gpt, dr_extended = None, dr_segments = []\<rparr>"]
  by (simp add: layout_of_def align_down_def)

end
