(* ===== verification/Tiling_Geometry.thy ===== *)
theory Tiling_Geometry
  imports Prelude
begin

text \<open>
  Boxes of the tiling desktop, \<^verbatim>\<open>kestrel/ui/src/desktop/tiling/layouts/geometry.ts\<close> and
  \<^verbatim>\<open>scrolling/parking.ts\<close>: splitting a box in two and dividing it by weights, the neighbour of a
  box in a direction, and the spot a window off the view is parked at.  A \<^verbatim>\<open>Map\<close> from windows to
  boxes is an association list in insertion order.
\<close>

section \<open>Boxes and directions\<close>

record box =
  b_x :: number
  b_y :: number
  b_w :: number
  b_h :: number

datatype direction = DLeft | DRight | DUp | DDown
datatype axis = Horizontal | Vertical

definition DIRECTIONS :: "direction list" where
  "DIRECTIONS = [DLeft, DRight, DUp, DDown]"

definition MIN_RATIO :: number where "MIN_RATIO = 1 / 10"

definition axis_of :: "direction \<Rightarrow> axis" where
  "axis_of d = (if d = DLeft \<or> d = DRight then Horizontal else Vertical)"

definition forward :: "direction \<Rightarrow> bool" where
  "forward d \<longleftrightarrow> d = DRight \<or> d = DDown"

definition clamp_ratio :: "number \<Rightarrow> number" where
  "clamp_ratio ratio = min (1 - MIN_RATIO) (max MIN_RATIO ratio)"

definition inset :: "box \<Rightarrow> number \<Rightarrow> box" where
  "inset b amount = \<lparr>b_x = b_x b + amount, b_y = b_y b + amount, b_w = max 1 (b_w b - 2 * amount), b_h = max 1 (b_h b - 2 * amount)\<rparr>"

definition box_length :: "box \<Rightarrow> axis \<Rightarrow> number" where
  "box_length b a = (if a = Horizontal then b_w b else b_h b)"

definition box_start :: "box \<Rightarrow> axis \<Rightarrow> number" where
  "box_start b a = (if a = Horizontal then b_x b else b_y b)"

definition math_round :: "number \<Rightarrow> number" where
  "math_round v = of_int (round v)"

section \<open>Splitting and dividing\<close>

definition split_box :: "box \<Rightarrow> axis \<Rightarrow> number \<Rightarrow> number \<Rightarrow> box \<times> box" where
  "split_box b a ratio gap =
    (let usable = max 0 (box_length b a - gap);
         first = math_round (usable * ratio)
     in if a = Horizontal
        then (b\<lparr>b_w := first\<rparr>, b\<lparr>b_x := b_x b + first + gap, b_w := usable - first\<rparr>)
        else (b\<lparr>b_h := first\<rparr>, b\<lparr>b_y := b_y b + first + gap, b_h := usable - first\<rparr>))"

text \<open>The callback of \<^verbatim>\<open>divide\<close>'s \<^verbatim>\<open>map\<close>, with the offset and the length used so far.\<close>

definition part_box :: "box \<Rightarrow> axis \<Rightarrow> number \<Rightarrow> number \<Rightarrow> box" where
  "part_box b a offset sz = (if a = Horizontal then b\<lparr>b_x := offset, b_w := sz\<rparr> else b\<lparr>b_y := offset, b_h := sz\<rparr>)"

fun divide_from :: "box \<Rightarrow> axis \<Rightarrow> number \<Rightarrow> number \<Rightarrow> number \<Rightarrow> number \<Rightarrow> number \<Rightarrow> number list \<Rightarrow> box list" where
  "divide_from b a usable whole gap offset used [] = []"
| "divide_from b a usable whole gap offset used (weight # rest) =
    (let sz = (if rest = [] then usable - used else math_round (usable * weight / whole))
     in part_box b a offset sz # divide_from b a usable whole gap (offset + sz + gap) (used + sz) rest)"

definition divide :: "box \<Rightarrow> axis \<Rightarrow> number list \<Rightarrow> number \<Rightarrow> box list" where
  "divide b a weights gap =
    divide_from b a (max 0 (box_length b a - gap * (of_nat (length weights) - 1))) (sum_list weights) gap (box_start b a) 0 weights"

definition same_box :: "box \<Rightarrow> box \<Rightarrow> bool" where
  "same_box a b \<longleftrightarrow> b_x a = b_x b \<and> b_y a = b_y b \<and> b_w a = b_w b \<and> b_h a = b_h b"

definition contains :: "box \<Rightarrow> number \<Rightarrow> number \<Rightarrow> bool" where
  "contains b x y \<longleftrightarrow> b_x b \<le> x \<and> x < b_x b + b_w b \<and> b_y b \<le> y \<and> y < b_y b + b_h b"

section \<open>Neighbours\<close>

definition overlap :: "number \<Rightarrow> number \<Rightarrow> number \<Rightarrow> number \<Rightarrow> number" where
  "overlap a0 a1 b0 b1 = max 0 (min a1 b1 - max a0 b0)"

definition score :: "box \<Rightarrow> box \<Rightarrow> direction \<Rightarrow> number option" where
  "score from to d =
    (let horizontal = (axis_of d = Horizontal);
         sign = (if forward d then 1 else -1);
         from_center = (if horizontal then b_x from + b_w from / 2 else b_y from + b_h from / 2);
         to_center = (if horizontal then b_x to + b_w to / 2 else b_y to + b_h to / 2)
     in if (to_center - from_center) * sign \<le> 0 then None
        else
         (let from_edge = (if horizontal then (if sign > 0 then b_x from + b_w from else b_x from)
                           else (if sign > 0 then b_y from + b_h from else b_y from));
              to_edge = (if horizontal then (if sign > 0 then b_x to else b_x to + b_w to)
                         else (if sign > 0 then b_y to else b_y to + b_h to));
              distance = max 0 ((to_edge - from_edge) * sign);
              shared = (if horizontal then overlap (b_y from) (b_y from + b_h from) (b_y to) (b_y to + b_h to)
                        else overlap (b_x from) (b_x from + b_w from) (b_x to) (b_x to + b_w to));
              across = (if horizontal then \<bar>b_y from + b_h from / 2 - (b_y to + b_h to / 2)\<bar>
                        else \<bar>b_x from + b_w from / 2 - (b_x to + b_w to / 2)\<bar>)
          in Some ((if shared > 0 then 0 else 1000000) + distance * 4 + across)))"

text \<open>The loop of \<^verbatim>\<open>neighbor\<close>; the pair is \<^verbatim>\<open>best\<close> and \<^verbatim>\<open>bestScore\<close>, \<open>None\<close> for null and infinity.\<close>

definition better :: "box \<Rightarrow> direction \<Rightarrow> ('w \<times> number) option \<Rightarrow> 'w \<times> box \<Rightarrow> ('w \<times> number) option" where
  "better from d best candidate =
    (case score from (snd candidate) d of
      None \<Rightarrow> best
    | Some v \<Rightarrow> (case best of None \<Rightarrow> Some (fst candidate, v)
                | Some (_, s) \<Rightarrow> if v < s then Some (fst candidate, v) else best))"

definition neighbor :: "box \<Rightarrow> ('w \<times> box) list \<Rightarrow> direction \<Rightarrow> 'w option" where
  "neighbor from candidates d = map_option fst (foldl (better from d) None candidates)"

section \<open>Parking\<close>

definition SLIVER :: number where "SLIVER = 1"

definition intersects :: "box \<Rightarrow> box \<Rightarrow> bool" where
  "intersects a b \<longleftrightarrow> b_x a < b_x b + b_w b \<and> b_x b < b_x a + b_w a \<and> b_y a < b_y b + b_h b \<and> b_y b < b_y a + b_h a"

definition spots :: "box \<Rightarrow> box \<Rightarrow> box list" where
  "spots b home =
    [\<lparr>b_x = b_x home, b_y = b_y home - b_h b + SLIVER, b_w = b_w b, b_h = b_h b\<rparr>,
     \<lparr>b_x = b_x home, b_y = b_y home + b_h home - SLIVER, b_w = b_w b, b_h = b_h b\<rparr>,
     \<lparr>b_x = b_x home + b_w home - SLIVER, b_y = b_y home, b_w = b_w b, b_h = b_h b\<rparr>,
     \<lparr>b_x = b_x home - b_w b + SLIVER, b_y = b_y home, b_w = b_w b, b_h = b_h b\<rparr>]"

definition parking_spot :: "box \<Rightarrow> box \<Rightarrow> box \<Rightarrow> box list \<Rightarrow> box" where
  "parking_spot b view home others =
    (if intersects b view \<and> \<not> list_ex (intersects b) others then b
     else otherwise (List.find (\<lambda>spot. \<not> list_ex (intersects spot) others) (spots b home)) b)"

section \<open>Disjoint boxes\<close>

definition boxes_apart :: "box \<Rightarrow> box \<Rightarrow> bool" where
  "boxes_apart a b \<longleftrightarrow> (\<forall>x y. \<not> (contains a x y \<and> contains b x y))"

definition inside_box :: "box \<Rightarrow> box \<Rightarrow> bool" where
  "inside_box a b \<longleftrightarrow> (\<forall>x y. contains a x y \<longrightarrow> contains b x y)"

lemma inside_box_refl [simp]: "inside_box b b" by (simp add: inside_box_def)

lemma inside_box_trans: "inside_box a b \<Longrightarrow> inside_box b c \<Longrightarrow> inside_box a c" by (simp add: inside_box_def)

lemma boxes_apart_inside: "boxes_apart a b \<Longrightarrow> inside_box a' a \<Longrightarrow> inside_box b' b \<Longrightarrow> boxes_apart a' b'"
  unfolding boxes_apart_def inside_box_def by blast

lemma boxes_apart_sym: "boxes_apart a b \<Longrightarrow> boxes_apart b a"
  unfolding boxes_apart_def by blast

lemma apart_iff_intersects:
  assumes "0 < b_w a" "0 < b_h a" "0 < b_w b" "0 < b_h b"
  shows "boxes_apart a b \<longleftrightarrow> \<not> intersects a b"
proof
  assume "boxes_apart a b"
  then have "\<not> (contains a (max (b_x a) (b_x b)) (max (b_y a) (b_y b)) \<and> contains b (max (b_x a) (b_x b)) (max (b_y a) (b_y b)))"
    unfolding boxes_apart_def by blast
  then show "\<not> intersects a b" using assms by (auto simp: contains_def intersects_def)
next
  assume "\<not> intersects a b"
  then show "boxes_apart a b" by (force simp: boxes_apart_def contains_def intersects_def)
qed

subsection \<open>Splitting\<close>

lemma math_round_bounds: "math_round v \<le> v + 1/2" "v - 1/2 < math_round v"
  unfolding math_round_def by (rule round_bounds)+

lemma math_round_mono: "v \<le> w \<Longrightarrow> math_round v \<le> math_round w"
  by (simp add: math_round_def round_mono)

lemma math_round_of_int [simp]: "math_round (of_int n) = of_int n"
  by (simp add: math_round_def)

lemma math_round_nonneg: "0 \<le> v \<Longrightarrow> 0 \<le> math_round v"
  using math_round_mono [of 0 v] by (simp add: math_round_def)

lemma math_round_le: "v \<in> \<int> \<Longrightarrow> w \<le> v \<Longrightarrow> math_round w \<le> v"
  by (metis Ints_cases math_round_mono math_round_of_int)

text \<open>A box the split does not empty keeps its room: the two halves and the gap are its length.\<close>

lemma split_box_sum:
  "split_box b a ratio gap = (p, q) \<Longrightarrow> gap \<le> box_length b a \<Longrightarrow> box_length p a + gap + box_length q a = box_length b a"
  by (auto simp: split_box_def box_length_def Let_def split: if_splits)

lemma split_box_inside:
  assumes "split_box b a ratio gap = (p, q)" "0 \<le> gap" "0 \<le> ratio" "ratio \<le> 1" "box_length b a \<in> \<int>" "gap \<in> \<int>"
  shows "inside_box p b" and "inside_box q b" and "boxes_apart p q"
proof -
  define u where "u = max 0 (box_length b a - gap)"
  define f where "f = math_round (u * ratio)"
  have u: "0 \<le> u" "u \<in> \<int>" using assms(5,6) by (auto simp: u_def max_def)
  have f: "0 \<le> f" "f \<le> u"
    unfolding f_def using u assms(3,4) mult_left_mono [of ratio 1 u] by (auto intro: math_round_nonneg math_round_le)
  have eq: "p = (if a = Horizontal then b\<lparr>b_w := f\<rparr> else b\<lparr>b_h := f\<rparr>)"
    "q = (if a = Horizontal then b\<lparr>b_x := b_x b + f + gap, b_w := u - f\<rparr> else b\<lparr>b_y := b_y b + f + gap, b_h := u - f\<rparr>)"
    using assms(1) by (auto simp: split_box_def Let_def u_def f_def split: if_splits)
  have *: "u = 0 \<or> u = box_length b a - gap" unfolding u_def by linarith
  show "inside_box p b" using f * assms(2) unfolding eq by (auto simp: inside_box_def contains_def box_length_def split: if_splits)
  show "inside_box q b" using f * assms(2) unfolding eq by (auto simp: inside_box_def contains_def box_length_def split: if_splits)
  show "boxes_apart p q" using f assms(2) unfolding eq by (auto simp: boxes_apart_def contains_def split: if_splits)
qed

subsection \<open>Dividing\<close>

lemma box_part [simp]:
  "box_length (part_box b a offset sz) a = sz" "box_start (part_box b a offset sz) a = offset"
  by (simp_all add: part_box_def box_length_def box_start_def)

lemma length_divide_from [simp]: "length (divide_from b a usable whole gap offset used ws) = length ws"
  by (induction ws arbitrary: offset used) (simp_all add: Let_def)

lemma length_divide [simp]: "length (divide b a ws gap) = length ws"
  by (simp add: divide_def)

definition divisible :: "box \<Rightarrow> axis \<Rightarrow> nat \<Rightarrow> number \<Rightarrow> number" where
  "divisible b a n gap = max 0 (box_length b a - gap * (of_nat n - 1))"

lemma divide_from_sum:
  "ws \<noteq> [] \<Longrightarrow> sum_list (map (\<lambda>p. box_length p a) (divide_from b a usable whole gap offset used ws)) = usable - used"
  by (induction ws arbitrary: offset used) (auto simp: Let_def)

lemma divide_sum:
  "ws \<noteq> [] \<Longrightarrow> sum_list (map (\<lambda>p. box_length p a) (divide b a ws gap)) = divisible b a (length ws) gap"
  by (simp add: divide_def divide_from_sum divisible_def)

text \<open>The parts follow each other, a gap apart.\<close>

definition after_gap :: "axis \<Rightarrow> number \<Rightarrow> box \<Rightarrow> box \<Rightarrow> bool" where
  "after_gap a gap p q \<longleftrightarrow> box_start p a + box_length p a + gap \<le> box_start q a"

lemma divide_from_starts:
  assumes "0 \<le> usable" "0 \<le> whole" "0 \<le> gap" "\<forall>w \<in> set ws. 0 \<le> w"
  shows "sorted_wrt (after_gap a gap) (divide_from b a usable whole gap offset used ws) \<and>
    (\<forall>p \<in> set (divide_from b a usable whole gap offset used ws). offset \<le> box_start p a)"
  using assms(4)
proof (induction ws arbitrary: offset used)
  case (Cons w ws)
  show ?case
  proof (cases "ws = []")
    case False
    let ?size = "math_round (usable * w / whole)"
    have "0 \<le> ?size" using assms(1,2) Cons.prems by (auto intro!: math_round_nonneg divide_nonneg_nonneg)
    with False Cons.IH [of "offset + ?size + gap" "used + ?size"] Cons.prems assms(3) show ?thesis
      by (force simp: Let_def after_gap_def)
  qed simp
qed simp

lemma sum_list_weights: "\<forall>w \<in> set ws. 0 \<le> w \<Longrightarrow> 0 \<le> sum_list (ws :: number list)"
  by (induction ws) auto

lemma divide_starts:
  assumes "0 \<le> gap" "\<forall>w \<in> set ws. 0 \<le> w"
  shows "sorted_wrt (after_gap a gap) (divide b a ws gap)" and "\<forall>p \<in> set (divide b a ws gap). box_start b a \<le> box_start p a"
  using divide_from_starts [OF _ sum_list_weights [OF assms(2)] assms, of "divisible b a (length ws) gap" a b "box_start b a" 0]
  by (simp_all add: divide_def divisible_def)

lemma divide_from_part:
  "p \<in> set (divide_from b a usable whole gap offset used ws) \<Longrightarrow> p = part_box b a (box_start p a) (box_length p a)"
  by (induction ws arbitrary: offset used) (auto simp: Let_def)

lemma divide_part: "p \<in> set (divide b a ws gap) \<Longrightarrow> p = part_box b a (box_start p a) (box_length p a)"
  unfolding divide_def by (rule divide_from_part)

lemma after_gap_apart: "after_gap a gap p q \<Longrightarrow> 0 \<le> gap \<Longrightarrow> boxes_apart p q"
  by (cases a) (auto simp: after_gap_def boxes_apart_def contains_def box_start_def box_length_def)

lemma divide_apart:
  assumes "0 \<le> gap" "\<forall>w \<in> set ws. 0 \<le> w"
  shows "sorted_wrt boxes_apart (divide b a ws gap)"
  using sorted_wrt_mono_rel [OF _ divide_starts(1) [OF assms]] after_gap_apart assms(1) by blast

text \<open>Every part is within half a pixel of its share; the last one makes up for the others.\<close>

lemma abs_shift:
  "\<bar>l - (u - (n + s) - r)\<bar> \<le> e \<Longrightarrow> \<bar>s - x\<bar> \<le> 1 / 2 \<Longrightarrow> \<bar>l - (u - n - (x + r))\<bar> \<le> (e + 1 / 2 :: number)"
  by linarith

lemma divide_from_shares:
  assumes "i < length ws"
  shows "\<bar>box_length (divide_from b a usable whole gap offset used ws ! i) a -
      (if Suc i = length ws then usable - used - usable * sum_list (butlast ws) / whole else usable * (ws ! i) / whole)\<bar>
    \<le> (if Suc i = length ws then of_nat i / 2 else 1 / 2)"
  using assms
proof (induction ws arbitrary: i offset used)
  case (Cons w ws)
  show ?case
  proof (cases "ws = []")
    case False
    let ?s = "math_round (usable * w / whole)"
    have r: "\<bar>?s - usable * w / whole\<bar> \<le> 1 / 2" using math_round_bounds [of "usable * w / whole"] by linarith
    show ?thesis
    proof (cases i)
      case 0
      with False r show ?thesis by (simp add: Let_def)
    next
      case (Suc j)
      note IH = Cons.IH [of j "offset + ?s + gap" "used + ?s"]
      show ?thesis
      proof (cases "Suc j = length ws")
        case True
        then have "\<bar>box_length (divide_from b a usable whole gap (offset + ?s + gap) (used + ?s) ws ! j) a -
            (usable - (used + ?s) - usable * sum_list (butlast ws) / whole)\<bar> \<le> of_nat j / 2"
          using IH by simp
        from abs_shift [OF this r]
        show ?thesis using True False Suc by (simp add: Let_def add_divide_distrib distrib_left flip: True)
      next
        case no: False
        with IH Cons.prems False Suc show ?thesis by (simp add: Let_def)
      qed
    qed
  qed (use Cons.prems in simp)
qed simp

lemma sum_butlast_last: "ws \<noteq> [] \<Longrightarrow> sum_list (butlast ws) = sum_list ws - (last ws :: number)"
  by (induction ws) auto

lemma divide_shares:
  assumes "i < length ws" "sum_list ws \<noteq> 0"
  shows "\<bar>box_length (divide b a ws gap ! i) a - divisible b a (length ws) gap * (ws ! i) / sum_list ws\<bar>
    \<le> (if Suc i = length ws then of_nat i / 2 else 1 / 2)"
proof (cases "Suc i = length ws")
  case True
  then have "ws \<noteq> []" by auto
  moreover have "ws ! i = last ws" using True calculation by (metis diff_Suc_1 last_conv_nth)
  ultimately show ?thesis
    using divide_from_shares [OF assms(1), of b a "divisible b a (length ws) gap" "sum_list ws" gap "box_start b a" 0] assms(2) True
    by (simp add: divide_def divisible_def sum_butlast_last right_diff_distrib diff_divide_distrib)
next
  case False
  then show ?thesis
    using divide_from_shares [OF assms(1), of b a "divisible b a (length ws) gap" "sum_list ws" gap "box_start b a" 0]
    by (simp add: divide_def divisible_def)
qed

subsection \<open>The neighbour is the best candidate\<close>

lemma neighbor_fold:
  assumes "foldl (better from d) best cs = Some (w, v)"
  shows "best = Some (w, v) \<or> (\<exists>b. (w, b) \<in> set cs \<and> score from b d = Some v)"
    and "(w', b') \<in> set cs \<Longrightarrow> score from b' d = Some v' \<Longrightarrow> v \<le> v'"
    and "best = Some (w'', v'') \<Longrightarrow> v \<le> v''"
proof -
  have "(best = Some (w, v) \<or> (\<exists>b. (w, b) \<in> set cs \<and> score from b d = Some v)) \<and>
      (\<forall>w' b' v'. (w', b') \<in> set cs \<longrightarrow> score from b' d = Some v' \<longrightarrow> v \<le> v') \<and>
      (\<forall>w'' v''. best = Some (w'', v'') \<longrightarrow> v \<le> v'')"
    using assms
  proof (induction cs arbitrary: best)
    case (Cons c cs)
    obtain wc bc where c: "c = (wc, bc)" by fastforce
    show ?case
    proof (cases "score from bc d")
      case None
      then have "better from d best c = best" by (simp add: better_def c)
      with Cons.prems have "foldl (better from d) best cs = Some (w, v)" by simp
      from Cons.IH [OF this] None show ?thesis by (auto simp: c)
    next
      case (Some vc)
      then have b: "better from d best c = (case best of None \<Rightarrow> Some (wc, vc) | Some (_, s) \<Rightarrow> if vc < s then Some (wc, vc) else best)"
        by (auto simp: better_def c split: option.split)
      from Cons.prems have "foldl (better from d) (better from d best c) cs = Some (w, v)" by simp
      note IH = Cons.IH [OF this]
      show ?thesis
      proof (cases best)
        case None
        then have "v \<le> vc" using IH b by simp
        with IH None b Some c show ?thesis by fastforce
      next
        case (Some p)
        then obtain w0 s where p: "best = Some (w0, s)" by (cases p) auto
        show ?thesis
        proof (cases "vc < s")
          case True
          then have "v \<le> vc" using IH b p by simp
          with IH True b p \<open>score from bc d = Some vc\<close> c show ?thesis by fastforce
        next
          case False
          then have "v \<le> s" "s \<le> vc" using IH b p by simp_all
          with IH False b p \<open>score from bc d = Some vc\<close> c show ?thesis by fastforce
        qed
      qed
    qed
  qed simp
  then show "best = Some (w, v) \<or> (\<exists>b. (w, b) \<in> set cs \<and> score from b d = Some v)"
    and "(w', b') \<in> set cs \<Longrightarrow> score from b' d = Some v' \<Longrightarrow> v \<le> v'"
    and "best = Some (w'', v'') \<Longrightarrow> v \<le> v''" by blast+
qed

lemma neighbor_best:
  assumes "neighbor from cs d = Some w"
  obtains b v where "(w, b) \<in> set cs" "score from b d = Some v"
    and "\<And>w' b' v'. (w', b') \<in> set cs \<Longrightarrow> score from b' d = Some v' \<Longrightarrow> v \<le> v'"
proof -
  obtain v where v: "foldl (better from d) None cs = Some (w, v)" using assms by (auto simp: neighbor_def)
  show ?thesis using neighbor_fold(1,2) [OF v] that by blast
qed

lemma neighbor_fold_None: "foldl (better from d) best cs = None \<longleftrightarrow> best = None \<and> (\<forall>c \<in> set cs. score from (snd c) d = None)"
  by (induction cs arbitrary: best) (auto simp: better_def split: option.split if_splits)

lemma neighbor_None: "neighbor from cs d = None \<longleftrightarrow> (\<forall>c \<in> set cs. score from (snd c) d = None)"
  by (simp add: neighbor_def neighbor_fold_None)

lemma neighbor_mem: "neighbor from cs d = Some w \<Longrightarrow> w \<in> fst ` set cs"
  by (elim neighbor_best) force

subsection \<open>Parking\<close>

lemma parking_spot_size: "b_w (parking_spot b view home others) = b_w b" "b_h (parking_spot b view home others) = b_h b"
  by (auto simp: parking_spot_def otherwise_def spots_def split: option.split dest!: find_SomeD)

lemma parking_spot_clear:
  assumes "s \<in> set (spots b home)" "\<not> list_ex (intersects s) others"
  shows "\<not> list_ex (intersects (parking_spot b view home others)) others"
proof (cases "intersects b view \<and> \<not> list_ex (intersects b) others")
  case False
  obtain t where "List.find (\<lambda>spot. \<not> list_ex (intersects spot) others) (spots b home) = Some t"
    using assms by (cases "List.find (\<lambda>spot. \<not> list_ex (intersects spot) others) (spots b home)") (auto simp: find_None_iff)
  with False find_SomeD [OF this] show ?thesis by (auto simp: parking_spot_def)
qed (simp add: parking_spot_def)

lemma spots_touch_home:
  assumes "s \<in> set (spots b home)" "1 \<le> b_w b" "1 \<le> b_h b" "1 \<le> b_w home" "1 \<le> b_h home"
  shows "intersects s home"
  using assms by (auto simp: spots_def intersects_def SLIVER_def)

subsection \<open>Shifting the boundary of a pair\<close>

text \<open>
  The arithmetic two layouts share: the boundary between two boxes of a pair moves, each keeps at
  least fifteen hundredths of the pair, and the pair keeps its weight.
\<close>

lemma shared_pair:
  fixes pair up h w :: number
  assumes "pair \<noteq> 0" and h: "h = min (pair - pair * (15 / 100)) (max (pair * (15 / 100)) up)" and w: "0 < w"
  shows "0 < w * h / pair" and "0 < w * (pair - h) / pair" and "w * h / pair + w * (pair - h) / pair = w"
    and "15 / 100 * w \<le> w * h / pair" and "15 / 100 * w \<le> w * (pair - h) / pair"
proof -
  have "(pair > 0 \<and> pair * (15 / 100) \<le> h \<and> h \<le> pair - pair * (15 / 100)) \<or> (pair < 0 \<and> h = pair - pair * (15 / 100))"
    using assms(1) h by linarith
  then have hp: "15 / 100 \<le> h / pair" "15 / 100 \<le> (pair - h) / pair" by (auto simp: field_simps)
  then have "0 < h / pair" "0 < (pair - h) / pair" by linarith+
  then show "0 < w * h / pair" "0 < w * (pair - h) / pair"
    unfolding times_divide_eq_right [symmetric] using w by (simp_all only: mult_pos_pos)
  show "w * h / pair + w * (pair - h) / pair = w" using assms(1) by (simp add: field_simps)
  show "15 / 100 * w \<le> w * h / pair" "15 / 100 * w \<le> w * (pair - h) / pair"
    using mult_left_mono [OF hp(1), of w] mult_left_mono [OF hp(2), of w] w by (simp_all add: mult.commute)
qed

end
