(* ===== verification/Tiling_Layout.thy ===== *)
theory Tiling_Layout
  imports Tiling_Geometry
begin

text \<open>
  The interface of a tiled layout, \<^verbatim>\<open>kestrel/ui/src/desktop/tiling/layouts/layout.ts\<close>: a record of
  the operations and a locale with the laws the tiled space relies on.  Resizing can make weights
  that are not numbers (zero divided by zero): that is \<open>None\<close>.
\<close>

record ('s, 'w) tiled_layout =
  tl_windows :: "'s \<Rightarrow> 'w list"
  tl_has :: "'s \<Rightarrow> 'w \<Rightarrow> bool"
  tl_insert :: "'w \<Rightarrow> 'w option \<Rightarrow> 's \<Rightarrow> 's"
  tl_remove :: "'w \<Rightarrow> 's \<Rightarrow> 's"
  tl_swap :: "'w \<Rightarrow> 'w \<Rightarrow> 's \<Rightarrow> 's"
  tl_arrange :: "box \<Rightarrow> number \<Rightarrow> 's \<Rightarrow> ('w \<times> box) list \<times> 's"
  tl_resize :: "'w \<Rightarrow> direction \<Rightarrow> number \<Rightarrow> 's \<Rightarrow> 's option"
  tl_move_edge :: "'w \<Rightarrow> direction \<Rightarrow> number \<Rightarrow> 's \<Rightarrow> 's option"

fun insert_after :: "'w \<Rightarrow> 'w \<Rightarrow> 'w list \<Rightarrow> 'w list" where
  "insert_after x w [] = [w]"
| "insert_after x w (y # ys) = (if y = x then y # w # ys else y # insert_after x w ys)"

definition placed_beside :: "'w \<Rightarrow> 'w option \<Rightarrow> 'w list \<Rightarrow> 'w list" where
  "placed_beside w beside ws = (case beside of None \<Rightarrow> ws @ [w] | Some x \<Rightarrow> insert_after x w ws)"

definition swapped :: "'w \<Rightarrow> 'w \<Rightarrow> 'w \<Rightarrow> 'w" where
  "swapped a b w = (if w = a then b else if w = b then a else w)"

definition whole_box :: "box \<Rightarrow> bool" where
  "whole_box b \<longleftrightarrow> b_x b \<in> \<int> \<and> b_y b \<in> \<int> \<and> b_w b \<in> \<int> \<and> b_h b \<in> \<int>"

definition tiles_apart :: "('w \<times> box) list \<Rightarrow> bool" where
  "tiles_apart tiles \<longleftrightarrow> sorted_wrt boxes_apart (map snd tiles)"

lemma mset_insert_after [simp]: "mset (insert_after x w ys) = add_mset w (mset ys)"
  by (induction ys) auto

lemma mset_placed_beside [simp]: "mset (placed_beside w b ws) = add_mset w (mset ws)"
  by (simp add: placed_beside_def split: option.split)

lemma set_placed_beside [simp]: "set (placed_beside w b ws) = insert w (set ws)"
  by (metis mset_placed_beside set_mset_add_mset_insert set_mset_mset)

lemma distinct_placed_beside [simp]: "distinct (placed_beside w b ws) \<longleftrightarrow> w \<notin> set ws \<and> distinct ws"
  by (metis distinct.simps(2) mset.simps(2) mset_eq_imp_distinct_iff mset_placed_beside)

lemma insert_after_absent: "x \<notin> set ys \<Longrightarrow> insert_after x w ys = ys @ [w]"
  by (induction ys) auto

lemma insert_after_last: "distinct ys \<Longrightarrow> ys \<noteq> [] \<Longrightarrow> insert_after (last ys) w ys = ys @ [w]"
  by (induction ys) auto

lemma insert_after_append:
  "insert_after x w (us @ vs) = (if x \<in> set us then insert_after x w us @ vs else us @ insert_after x w vs)"
  by (induction us) auto

lemma insert_after_splice:
  "index_of x ys = Some i \<Longrightarrow> insert_after x w ys = splice_in (Suc i) w ys"
  by (induction ys arbitrary: i) (auto simp: splice_in_def split: if_splits)

lemma swapped_inj: "inj (swapped a b)"
  by (auto simp: inj_def swapped_def split: if_splits)

lemma swapped_swapped: "swapped a b \<circ> swapped a b = id"
  by (auto simp: swapped_def)

lemma swapped_image: "a \<in> A \<Longrightarrow> b \<in> A \<Longrightarrow> swapped a b ` A = A"
  by (auto simp: swapped_def image_iff)

lemma map_swapped_update:
  assumes "distinct ws" "index_of a ws = Some i" "index_of b ws = Some j"
  shows "map (swapped a b) ws = ws[i := b, j := a]"
proof (rule nth_equalityI)
  note i = index_of_Some [OF assms(2)] and j = index_of_Some [OF assms(3)]
  fix k assume "k < length (map (swapped a b) ws)"
  then show "map (swapped a b) ws ! k = ws[i := b, j := a] ! k"
    using i j assms(1) by (auto simp: swapped_def nth_list_update nth_eq_iff_index_eq)
qed simp

locale layout_laws =
  fixes L :: "('s, 'w) tiled_layout" and ok :: "'s \<Rightarrow> bool"
  assumes windows_distinct: "ok s \<Longrightarrow> distinct (tl_windows L s)"
    and has_windows: "ok s \<Longrightarrow> tl_has L s w \<longleftrightarrow> w \<in> set (tl_windows L s)"
    and insert_ok: "ok s \<Longrightarrow> w \<notin> set (tl_windows L s) \<Longrightarrow> ok (tl_insert L w beside s)"
    and insert_windows: "ok s \<Longrightarrow> w \<notin> set (tl_windows L s) \<Longrightarrow>
      tl_windows L (tl_insert L w beside s) = placed_beside w beside (tl_windows L s)"
    and remove_ok: "ok s \<Longrightarrow> ok (tl_remove L w s)"
    and remove_windows: "ok s \<Longrightarrow> tl_windows L (tl_remove L w s) = filter (\<lambda>v. v \<noteq> w) (tl_windows L s)"
    and swap_ok: "ok s \<Longrightarrow> ok (tl_swap L a b s)"
    and swap_windows: "ok s \<Longrightarrow> a \<in> set (tl_windows L s) \<Longrightarrow> b \<in> set (tl_windows L s) \<Longrightarrow>
      tl_windows L (tl_swap L a b s) = map (swapped a b) (tl_windows L s)"
    and swap_absent: "ok s \<Longrightarrow> a \<notin> set (tl_windows L s) \<or> b \<notin> set (tl_windows L s) \<Longrightarrow> tl_swap L a b s = s"
    and arrange_ok: "ok s \<Longrightarrow> ok (snd (tl_arrange L area gap s))"
    and arrange_windows: "ok s \<Longrightarrow> tl_windows L (snd (tl_arrange L area gap s)) = tl_windows L s"
    and arrange_tiles: "ok s \<Longrightarrow> map fst (fst (tl_arrange L area gap s)) = tl_windows L s"
    and arrange_apart: "ok s \<Longrightarrow> whole_box area \<Longrightarrow> gap \<in> \<int> \<Longrightarrow> 0 \<le> gap \<Longrightarrow> tiles_apart (fst (tl_arrange L area gap s))"
    and resize_ok: "ok s \<Longrightarrow> tl_resize L w d n s = Some t \<Longrightarrow> ok t \<and> tl_windows L t = tl_windows L s"
    and move_edge_ok: "ok s \<Longrightarrow> tl_move_edge L w d n s = Some t \<Longrightarrow> ok t \<and> tl_windows L t = tl_windows L s"
begin

lemma insert_set: "ok s \<Longrightarrow> w \<notin> set (tl_windows L s) \<Longrightarrow> set (tl_windows L (tl_insert L w beside s)) = insert w (set (tl_windows L s))"
  by (simp add: insert_windows)

lemma remove_set: "ok s \<Longrightarrow> set (tl_windows L (tl_remove L w s)) = set (tl_windows L s) - {w}"
  by (auto simp: remove_windows)

lemma swap_set: "ok s \<Longrightarrow> set (tl_windows L (tl_swap L a b s)) = set (tl_windows L s)"
  using swap_windows [of s a b] swap_absent [of s a b] swapped_image [of a "set (tl_windows L s)" b] by (metis list.set_map)

lemma swap_swap_windows: "ok s \<Longrightarrow> tl_windows L (tl_swap L a b (tl_swap L a b s)) = tl_windows L s"
proof (cases "a \<in> set (tl_windows L s) \<and> b \<in> set (tl_windows L s)")
  case True
  assume "ok s"
  then have "tl_windows L (tl_swap L a b (tl_swap L a b s)) = map (swapped a b) (map (swapped a b) (tl_windows L s))"
    using True swap_set [of s a b] by (simp add: swap_windows swap_ok)
  also have "\<dots> = tl_windows L s" by (simp add: swapped_swapped)
  finally show ?thesis by simp
qed (auto simp: swap_absent)

end

end
