(* ===== verification/Tiling_Dwindle.thy ===== *)
theory Tiling_Dwindle
  imports Tiling_Layout
begin

text \<open>
  \<^verbatim>\<open>kestrel/ui/src/desktop/tiling/layouts/dwindle.ts\<close>: a binary tree of splits.  The source's nodes
  have parent pointers, a map \<^verbatim>\<open>leaves\<close> from windows to their leaf and a map \<^verbatim>\<open>boxes\<close> from nodes to
  the box they last had; here the tree is a datatype whose nodes carry their box, a window's leaf
  is the one that holds it (windows occur once) and an operation walks down to it.
\<close>

datatype 'w dnode =
    Leaf "box option" 'w
  | Split "box option" axis number "'w dnode" "'w dnode"

record 'w dwindle =
  dw_root :: "'w dnode option"
  dw_gap :: number

definition EVEN :: number where "EVEN = 1 / 2"

definition new_dwindle :: "'w dwindle" where
  "new_dwindle = \<lparr>dw_root = None, dw_gap = 0\<rparr>"

fun dnode_windows :: "'w dnode \<Rightarrow> 'w list" where
  "dnode_windows (Leaf b w) = [w]"
| "dnode_windows (Split b a ratio first second) = dnode_windows first @ dnode_windows second"

definition dwindle_windows :: "'w dwindle \<Rightarrow> 'w list" where
  "dwindle_windows d = (case dw_root d of None \<Rightarrow> [] | Some node \<Rightarrow> dnode_windows node)"

definition dwindle_has :: "'w dwindle \<Rightarrow> 'w \<Rightarrow> bool" where
  "dwindle_has d w \<longleftrightarrow> w \<in> set (dwindle_windows d)"

fun last_leaf :: "'w dnode \<Rightarrow> 'w" where
  "last_leaf (Leaf b w) = w"
| "last_leaf (Split b a ratio first second) = last_leaf second"

fun split_leaf :: "'w \<Rightarrow> 'w \<Rightarrow> 'w dnode \<Rightarrow> 'w dnode" where
  "split_leaf target window (Leaf b w) =
    (if w = target
     then Split b (case b of None \<Rightarrow> Horizontal | Some v \<Rightarrow> if b_w v \<ge> b_h v then Horizontal else Vertical) EVEN
       (Leaf b w) (Leaf None window)
     else Leaf b w)"
| "split_leaf target window (Split b a ratio first second) =
    Split b a ratio (split_leaf target window first) (split_leaf target window second)"

definition dwindle_insert :: "'w \<Rightarrow> 'w option \<Rightarrow> 'w dwindle \<Rightarrow> 'w dwindle" where
  "dwindle_insert window beside d =
    (case dw_root d of
      None \<Rightarrow> d\<lparr>dw_root := Some (Leaf None window)\<rparr>
    | Some node \<Rightarrow>
        let target = (case beside of None \<Rightarrow> last_leaf node | Some b \<Rightarrow> if dwindle_has d b then b else last_leaf node)
        in d\<lparr>dw_root := Some (split_leaf target window node)\<rparr>)"

fun remove_leaf :: "'w \<Rightarrow> 'w dnode \<Rightarrow> 'w dnode option" where
  "remove_leaf window (Leaf b w) = (if w = window then None else Some (Leaf b w))"
| "remove_leaf window (Split b a ratio first second) =
    (case remove_leaf window first of
      None \<Rightarrow> Some second
    | Some first' \<Rightarrow>
        (case remove_leaf window second of
          None \<Rightarrow> Some first'
        | Some second' \<Rightarrow> Some (Split b a ratio first' second')))"

definition dwindle_remove :: "'w \<Rightarrow> 'w dwindle \<Rightarrow> 'w dwindle" where
  "dwindle_remove window d =
    (if dwindle_has d window then d\<lparr>dw_root := Option.bind (dw_root d) (remove_leaf window)\<rparr> else d)"

fun relabel :: "('w \<Rightarrow> 'w) \<Rightarrow> 'w dnode \<Rightarrow> 'w dnode" where
  "relabel f (Leaf b w) = Leaf b (f w)"
| "relabel f (Split b a ratio first second) = Split b a ratio (relabel f first) (relabel f second)"

definition dwindle_swap :: "'w \<Rightarrow> 'w \<Rightarrow> 'w dwindle \<Rightarrow> 'w dwindle" where
  "dwindle_swap a b d =
    (if dwindle_has d a \<and> dwindle_has d b then d\<lparr>dw_root := map_option (relabel (swapped a b)) (dw_root d)\<rparr> else d)"

fun visit :: "number \<Rightarrow> 'w dnode \<Rightarrow> box \<Rightarrow> ('w \<times> box) list \<times> 'w dnode" where
  "visit gap (Leaf b w) place = ([(w, place)], Leaf (Some place) w)"
| "visit gap (Split b a ratio first second) place =
    (let (p, q) = split_box place a ratio gap;
         (placed, first') = visit gap first p;
         (placed', second') = visit gap second q
     in (placed @ placed', Split (Some place) a ratio first' second'))"

definition dwindle_arrange :: "box \<Rightarrow> number \<Rightarrow> 'w dwindle \<Rightarrow> ('w \<times> box) list \<times> 'w dwindle" where
  "dwindle_arrange area gap d =
    (case dw_root d of
      None \<Rightarrow> ([], d\<lparr>dw_gap := gap\<rparr>)
    | Some node \<Rightarrow> let (placed, node') = visit gap node area in (placed, d\<lparr>dw_root := Some node', dw_gap := gap\<rparr>))"

text \<open>
  \<^verbatim>\<open>ancestor\<close> climbs from the window's leaf to the first split that matches; \<open>tune\<close> does so on the
  way back from the leaf and gives the split its new ratio.
\<close>

datatype climb = Absent | Climbing | Arrived

definition tuned :: "(axis \<Rightarrow> bool \<Rightarrow> bool) \<Rightarrow> (box \<Rightarrow> number \<Rightarrow> number) \<Rightarrow> box option \<Rightarrow> axis \<Rightarrow> number \<Rightarrow> bool
    \<Rightarrow> climb \<Rightarrow> number \<times> climb" where
  "tuned fits change b a ratio is_first c =
    (if c = Climbing \<and> fits a is_first
     then ((case b of None \<Rightarrow> ratio | Some v \<Rightarrow> change v ratio), Arrived) else (ratio, c))"

fun tune :: "'w \<Rightarrow> (axis \<Rightarrow> bool \<Rightarrow> bool) \<Rightarrow> (box \<Rightarrow> number \<Rightarrow> number) \<Rightarrow> 'w dnode \<Rightarrow> 'w dnode \<times> climb" where
  "tune window fits change (Leaf b w) = (Leaf b w, if w = window then Climbing else Absent)"
| "tune window fits change (Split b a ratio first second) =
    (let (first', c) = tune window fits change first in
     if c \<noteq> Absent
     then (let (ratio', c') = tuned fits change b a ratio True c in (Split b a ratio' first' second, c'))
     else
      (let (second', c) = tune window fits change second;
           (ratio', c') = tuned fits change b a ratio False c
       in (Split b a ratio' first second', c')))"

definition dwindle_resize :: "'w \<Rightarrow> direction \<Rightarrow> number \<Rightarrow> 'w dwindle \<Rightarrow> 'w dwindle" where
  "dwindle_resize window d step s =
    (let a = axis_of d;
         change = (\<lambda>b ratio. let usable = max 1 (box_length b a - dw_gap s)
           in clamp_ratio (ratio + (if forward d then step else - step) / usable))
     in s\<lparr>dw_root := map_option (\<lambda>node. fst (tune window (\<lambda>b _. b = a) change node)) (dw_root s)\<rparr>)"

definition dwindle_move_edge :: "'w \<Rightarrow> direction \<Rightarrow> number \<Rightarrow> 'w dwindle \<Rightarrow> 'w dwindle" where
  "dwindle_move_edge window side coordinate s =
    (let a = axis_of side;
         trailing = forward side;
         change = (\<lambda>b ratio. let usable = max 1 (box_length b a - dw_gap s)
           in clamp_ratio ((coordinate - box_start b a - (if trailing then 0 else dw_gap s)) / usable))
     in s\<lparr>dw_root := map_option (\<lambda>node. fst (tune window (\<lambda>b is_first. b = a \<and> is_first = trailing) change node)) (dw_root s)\<rparr>)"

definition dwindle_layout :: "('w dwindle, 'w) tiled_layout" where
  "dwindle_layout = \<lparr>tl_windows = dwindle_windows, tl_has = dwindle_has, tl_insert = dwindle_insert,
    tl_remove = dwindle_remove, tl_swap = dwindle_swap, tl_arrange = dwindle_arrange,
    tl_resize = (\<lambda>w d n s. Some (dwindle_resize w d n s)), tl_move_edge = (\<lambda>w d n s. Some (dwindle_move_edge w d n s))\<rparr>"

section \<open>The invariant\<close>

definition fair :: "number \<Rightarrow> bool" where
  "fair ratio \<longleftrightarrow> MIN_RATIO \<le> ratio \<and> ratio \<le> 1 - MIN_RATIO"

fun ratios_fair :: "'w dnode \<Rightarrow> bool" where
  "ratios_fair (Leaf b w) = True"
| "ratios_fair (Split b a ratio first second) = (fair ratio \<and> ratios_fair first \<and> ratios_fair second)"

definition dwindle_ok :: "'w dwindle \<Rightarrow> bool" where
  "dwindle_ok d \<longleftrightarrow> distinct (dwindle_windows d) \<and> (case dw_root d of None \<Rightarrow> True | Some node \<Rightarrow> ratios_fair node)"

lemma fair_clamp [simp]: "fair (clamp_ratio v)"
  by (auto simp: fair_def clamp_ratio_def MIN_RATIO_def)

lemma fair_even [simp]: "fair EVEN"
  by (simp add: fair_def EVEN_def MIN_RATIO_def)

lemma fairD: "fair r \<Longrightarrow> 0 \<le> r \<and> r \<le> 1"
  by (simp add: fair_def MIN_RATIO_def)

lemma last_leaf_last: "last_leaf n = last (dnode_windows n) \<and> dnode_windows n \<noteq> []"
  by (induction n) auto

lemma split_leaf_absent: "t \<notin> set (dnode_windows n) \<Longrightarrow> split_leaf t w n = n"
  by (induction n) auto

lemma split_leaf_windows:
  "distinct (dnode_windows n) \<Longrightarrow> t \<in> set (dnode_windows n) \<Longrightarrow> dnode_windows (split_leaf t w n) = insert_after t w (dnode_windows n)"
  by (induction n) (auto simp: insert_after_append split_leaf_absent disjoint_iff)

lemma split_leaf_fair: "ratios_fair n \<Longrightarrow> ratios_fair (split_leaf t w n)"
  by (induction n) auto

lemma remove_leaf_absent: "w \<notin> set (dnode_windows n) \<Longrightarrow> remove_leaf w n = Some n"
  by (induction n) auto

lemma filter_absent: "w \<notin> set ws \<Longrightarrow> filter (\<lambda>v. v \<noteq> w) ws = ws"
  by (induction ws) auto

lemma remove_leaf_windows:
  "distinct (dnode_windows n) \<Longrightarrow>
    (case remove_leaf w n of None \<Rightarrow> [] | Some m \<Rightarrow> dnode_windows m) = filter (\<lambda>v. v \<noteq> w) (dnode_windows n)"
proof (induction n)
  case (Split b a r n1 n2)
  show ?case
  proof (cases "w \<in> set (dnode_windows n1)")
    case True
    then have "w \<notin> set (dnode_windows n2)" using Split.prems by auto
    then have "remove_leaf w n2 = Some n2" "filter (\<lambda>v. v \<noteq> w) (dnode_windows n2) = dnode_windows n2"
      by (rule remove_leaf_absent, rule filter_absent)
    then show ?thesis using Split by (cases "remove_leaf w n1") simp_all
  next
    case False
    then have "remove_leaf w n1 = Some n1" "filter (\<lambda>v. v \<noteq> w) (dnode_windows n1) = dnode_windows n1"
      by (rule remove_leaf_absent, rule filter_absent)
    then show ?thesis using Split by (cases "remove_leaf w n2") simp_all
  qed
qed simp

lemma remove_leaf_fair: "ratios_fair n \<Longrightarrow> remove_leaf w n = Some m \<Longrightarrow> ratios_fair m"
proof (induction n arbitrary: m)
  case (Split b a r n1 n2)
  have fair: "fair r" "ratios_fair n1" "ratios_fair n2" using Split.prems(1) by simp_all
  show ?case
  proof (cases "remove_leaf w n1")
    case None
    with Split.prems(2) fair show ?thesis by simp
  next
    case (Some n1')
    with Split.prems(2) fair Split.IH(1) [of n1'] Split.IH(2) show ?thesis
      by (cases "remove_leaf w n2") auto
  qed
qed (auto split: if_splits)

lemma relabel_windows [simp]: "dnode_windows (relabel f n) = map f (dnode_windows n)"
  by (induction n) auto

lemma relabel_fair [simp]: "ratios_fair (relabel f n) = ratios_fair n"
  by (induction n) auto

lemma tune_windows [simp]: "dnode_windows (fst (tune w fits change n)) = dnode_windows n"
  by (induction n) (auto simp: Let_def case_prod_unfold)

lemma tuned_fair: "fair r \<Longrightarrow> (\<And>b r. fair (change b r)) \<Longrightarrow> fair (fst (tuned fits change b a r is_first c))"
  by (auto simp: tuned_def split: option.split)

lemma tune_fair: "ratios_fair n \<Longrightarrow> (\<And>b r. fair (change b r)) \<Longrightarrow> ratios_fair (fst (tune w fits change n))"
  by (induction n) (auto simp: Let_def case_prod_unfold tuned_fair)

lemma visit_windows [simp]: "map fst (fst (visit gap n b)) = dnode_windows n" "dnode_windows (snd (visit gap n b)) = dnode_windows n"
  by (induction n arbitrary: b) (auto simp: Let_def case_prod_unfold)

lemma visit_fair [simp]: "ratios_fair (snd (visit gap n b)) = ratios_fair n"
  by (induction n arbitrary: b) (auto simp: Let_def case_prod_unfold)

lemma split_box_whole:
  assumes "split_box b a r gap = (p, q)" "whole_box b" "gap \<in> \<int>"
  shows "whole_box p" "whole_box q"
  using assms by (auto simp: split_box_def whole_box_def math_round_def box_length_def max_def Let_def split: if_splits)

lemma visit_boxes:
  assumes "ratios_fair n" "whole_box b" "gap \<in> \<int>" "0 \<le> gap"
  shows "tiles_apart (fst (visit gap n b)) \<and> (\<forall>t \<in> set (fst (visit gap n b)). inside_box (snd t) b)"
  using assms(1,2)
proof (induction n arbitrary: b)
  case (Split b' a r n1 n2)
  obtain p q where pq: "split_box b a r gap = (p, q)" by fastforce
  have r: "0 \<le> r" "r \<le> 1" using Split.prems(1) fairD by auto
  have l: "box_length b a \<in> \<int>" using Split.prems(2) by (simp add: whole_box_def box_length_def)
  note sb = split_box_inside [OF pq assms(4) r l assms(3)]
  note IH1 = Split.IH(1) [OF _ split_box_whole(1) [OF pq Split.prems(2) assms(3)]]
  note IH2 = Split.IH(2) [OF _ split_box_whole(2) [OF pq Split.prems(2) assms(3)]]
  have "\<forall>s \<in> set (fst (visit gap n1 p)). \<forall>t \<in> set (fst (visit gap n2 q)). boxes_apart (snd s) (snd t)"
    using IH1 IH2 Split.prems(1) boxes_apart_inside [OF sb(3)] by auto
  then show ?case using IH1 IH2 Split.prems(1) sb(1,2)
    by (auto simp: Let_def case_prod_unfold pq tiles_apart_def sorted_wrt_append intro: inside_box_trans)
qed (simp add: tiles_apart_def)

lemma dwindle_insert_windows:
  assumes "dwindle_ok d"
  shows "dwindle_windows (dwindle_insert w b d) = placed_beside w b (dwindle_windows d)"
proof (cases "dw_root d")
  case None
  then show ?thesis by (simp add: dwindle_windows_def dwindle_insert_def placed_beside_def split: option.split)
next
  case (Some n)
  have dist: "distinct (dnode_windows n)" using assms Some by (simp add: dwindle_ok_def dwindle_windows_def)
  have "insert_after (last_leaf n) w (dnode_windows n) = dnode_windows n @ [w]"
    using last_leaf_last [of n] dist by (simp add: insert_after_last)
  moreover have "last_leaf n \<in> set (dnode_windows n)" using last_leaf_last [of n] by auto
  ultimately show ?thesis using Some dist
    by (auto simp: dwindle_windows_def dwindle_insert_def dwindle_has_def placed_beside_def split_leaf_windows
        insert_after_absent Let_def split: option.split)
qed

section \<open>The laws of a layout\<close>

interpretation dwindle: layout_laws dwindle_layout dwindle_ok
proof (unfold_locales, goal_cases)
  case (3 s w beside)
  then have "distinct (dwindle_windows (dwindle_insert w beside s))"
    by (simp add: dwindle_layout_def dwindle_insert_windows dwindle_ok_def)
  with 3 show ?case
    by (auto simp: dwindle_layout_def dwindle_ok_def dwindle_insert_def split_leaf_fair Let_def split: option.split)
next
  case (4 s w beside)
  then show ?case by (simp add: dwindle_layout_def dwindle_insert_windows)
next
  case (5 s w)
  then show ?case
    using remove_leaf_windows [of _ w] remove_leaf_fair [of _ w]
    by (force simp: dwindle_layout_def dwindle_ok_def dwindle_windows_def dwindle_remove_def split: option.splits)
next
  case (6 s w)
  then show ?case
    using remove_leaf_windows [of _ w]
    by (force simp: dwindle_layout_def dwindle_ok_def dwindle_windows_def dwindle_remove_def dwindle_has_def filter_absent
        split: option.splits)
next
  case (7 s a b)
  then show ?case using inj_on_subset [OF swapped_inj]
    by (auto simp: dwindle_layout_def dwindle_ok_def dwindle_windows_def dwindle_swap_def distinct_map split: option.splits)
next
  case (13 s area gap)
  then show ?case using visit_boxes
    by (force simp: dwindle_layout_def dwindle_ok_def dwindle_arrange_def tiles_apart_def case_prod_unfold Let_def split: option.splits)
qed (auto simp: dwindle_layout_def dwindle_ok_def dwindle_has_def dwindle_insert_windows dwindle_windows_def dwindle_swap_def
    dwindle_arrange_def dwindle_resize_def dwindle_move_edge_def case_prod_unfold Let_def tune_fair split: option.splits)

end
