(* ===== verification/Tiling_Master.thy ===== *)
theory Tiling_Master
  imports Tiling_Layout
begin

text \<open>
  \<^verbatim>\<open>kestrel/ui/src/desktop/tiling/layouts/master.ts\<close>: one window beside a stack of the others,
  which share the height by weights.  \<^verbatim>\<open>shiftBoundary\<close> divides by the height of a pair of windows;
  when that is zero the source writes \<^verbatim>\<open>NaN\<close> weights, which is \<open>None\<close> here.
\<close>

record 'w master =
  ms_order :: "'w list"
  ms_weights :: "'w \<rightharpoonup> number"
  ms_ratio :: number
  ms_area :: "box option"
  ms_gap :: number
  ms_boxes :: "('w \<times> box) list"

definition MASTER_RATIO :: number where "MASTER_RATIO = 55 / 100"
definition MIN_WEIGHT :: number where "MIN_WEIGHT = 15 / 100"

definition new_master :: "'w master" where
  "new_master = \<lparr>ms_order = [], ms_weights = Map.empty, ms_ratio = MASTER_RATIO, ms_area = None, ms_gap = 0, ms_boxes = []\<rparr>"

definition master_has :: "'w master \<Rightarrow> 'w \<Rightarrow> bool" where
  "master_has m w \<longleftrightarrow> ms_weights m w \<noteq> None"

definition master_insert :: "'w \<Rightarrow> 'w option \<Rightarrow> 'w master \<Rightarrow> 'w master" where
  "master_insert window beside m =
    (let index = Option.bind beside (\<lambda>b. index_of b (ms_order m))
     in m\<lparr>ms_order := (case index of None \<Rightarrow> ms_order m @ [window] | Some i \<Rightarrow> splice_in (i + 1) window (ms_order m)),
          ms_weights := (ms_weights m)(window \<mapsto> 1)\<rparr>)"

definition master_remove :: "'w \<Rightarrow> 'w master \<Rightarrow> 'w master" where
  "master_remove window m =
    m\<lparr>ms_order := filter (\<lambda>other. other \<noteq> window) (ms_order m), ms_weights := (ms_weights m)(window := None),
      ms_boxes := filter (\<lambda>entry. fst entry \<noteq> window) (ms_boxes m)\<rparr>"

definition master_swap :: "'w \<Rightarrow> 'w \<Rightarrow> 'w master \<Rightarrow> 'w master" where
  "master_swap a b m =
    (case (index_of a (ms_order m), index_of b (ms_order m)) of
      (Some i, Some j) \<Rightarrow> m\<lparr>ms_order := (ms_order m)[i := b, j := a]\<rparr>
    | _ \<Rightarrow> m)"

definition weight_of :: "'w master \<Rightarrow> 'w \<Rightarrow> number" where
  "weight_of m w = otherwise (ms_weights m w) 1"

definition master_boxes :: "box \<Rightarrow> number \<Rightarrow> 'w master \<Rightarrow> ('w \<times> box) list" where
  "master_boxes area gap m =
    (case ms_order m of
      [] \<Rightarrow> []
    | [w] \<Rightarrow> [(w, area)]
    | w # stack \<Rightarrow>
        let (left, right) = split_box area Horizontal (ms_ratio m) gap
        in (w, left) # zip stack (divide right Vertical (map (weight_of m) stack) gap))"

definition master_arrange :: "box \<Rightarrow> number \<Rightarrow> 'w master \<Rightarrow> ('w \<times> box) list \<times> 'w master" where
  "master_arrange area gap m =
    (let boxes = master_boxes area gap m in (boxes, m\<lparr>ms_area := Some area, ms_gap := gap, ms_boxes := boxes\<rparr>))"

definition shift_boundary :: "'w list \<Rightarrow> nat \<Rightarrow> number \<Rightarrow> 'w master \<Rightarrow> 'w master option" where
  "shift_boundary stack upper_at pixels m =
    (case (map_of (ms_boxes m) (stack ! upper_at), map_of (ms_boxes m) (stack ! (upper_at + 1))) of
      (Some upper, Some lower) \<Rightarrow>
        let pair = b_h upper + b_h lower;
            minimum = pair * MIN_WEIGHT;
            height = min (pair - minimum) (max minimum (b_h upper + pixels));
            weight = weight_of m (stack ! upper_at) + weight_of m (stack ! (upper_at + 1))
        in if pair = 0 then None
           else Some (m\<lparr>ms_weights := (ms_weights m)(stack ! upper_at \<mapsto> weight * height / pair,
             stack ! (upper_at + 1) \<mapsto> weight * (pair - height) / pair)\<rparr>)
    | _ \<Rightarrow> Some m)"

definition master_resize :: "'w \<Rightarrow> direction \<Rightarrow> number \<Rightarrow> 'w master \<Rightarrow> 'w master option" where
  "master_resize window d step m =
    (let signed = (if forward d then step else - step) in
     if axis_of d = Horizontal
     then Some (case ms_area m of None \<Rightarrow> m
       | Some area \<Rightarrow> m\<lparr>ms_ratio := clamp_ratio (ms_ratio m + signed / max 1 (b_w area - ms_gap m))\<rparr>)
     else
      (let stack = drop 1 (ms_order m) in
       case index_of window stack of
         None \<Rightarrow> Some m
       | Some index \<Rightarrow>
           if length stack < 2 then Some m
           else shift_boundary stack (if index = length stack - 1 then index - 1 else index) signed m))"

definition master_move_edge :: "'w \<Rightarrow> direction \<Rightarrow> number \<Rightarrow> 'w master \<Rightarrow> 'w master option" where
  "master_move_edge window side coordinate m =
    (case (map_of (ms_boxes m) window, ms_area m) of
      (Some b, Some area) \<Rightarrow>
        if axis_of side = Horizontal
        then
         (let is_master = (nth_opt (ms_order m) 0 = Some window) in
          if is_master \<noteq> (side = DRight) then Some m
          else
           (let first = coordinate - b_x area - (if is_master then 0 else ms_gap m)
            in Some (m\<lparr>ms_ratio := clamp_ratio (first / max 1 (b_w area - ms_gap m))\<rparr>)))
        else
         (let stack = drop 1 (ms_order m) in
          case index_of window stack of
            None \<Rightarrow> Some m
          | Some index \<Rightarrow>
              let upper_at = (if side = DDown then int index else int index - 1)
              in if upper_at < 0 \<or> upper_at \<ge> int (length stack) - 1 then Some m
                 else
                  (let edge = (if side = DDown then b_y b + b_h b else b_y b)
                   in shift_boundary stack (nat upper_at) (coordinate - edge) m))
    | _ \<Rightarrow> Some m)"

definition master_layout :: "('w master, 'w) tiled_layout" where
  "master_layout = \<lparr>tl_windows = ms_order, tl_has = master_has, tl_insert = master_insert,
    tl_remove = master_remove, tl_swap = master_swap, tl_arrange = master_arrange,
    tl_resize = master_resize, tl_move_edge = master_move_edge\<rparr>"

section \<open>The invariant\<close>

definition master_ok :: "'w master \<Rightarrow> bool" where
  "master_ok m \<longleftrightarrow> distinct (ms_order m) \<and> dom (ms_weights m) = set (ms_order m) \<and>
    (\<forall>w v. ms_weights m w = Some v \<longrightarrow> 0 < v) \<and> MIN_RATIO \<le> ms_ratio m \<and> ms_ratio m \<le> 1 - MIN_RATIO"

lemma clamp_ratio_range: "MIN_RATIO \<le> clamp_ratio v" "clamp_ratio v \<le> 1 - MIN_RATIO"
  by (auto simp: clamp_ratio_def MIN_RATIO_def)

lemma master_ok_ratio: "master_ok m \<Longrightarrow> master_ok (m\<lparr>ms_ratio := clamp_ratio v\<rparr>)"
  by (simp add: master_ok_def clamp_ratio_range)

lemma weight_pos: "master_ok m \<Longrightarrow> 0 < weight_of m w"
  by (auto simp: master_ok_def weight_of_def otherwise_def split: option.split)

lemma shift_boundary_absent:
  "map_of (ms_boxes m) (stack ! upper_at) = None \<or> map_of (ms_boxes m) (stack ! (upper_at + 1)) = None \<Longrightarrow>
    shift_boundary stack upper_at px m = Some m"
  by (auto simp: shift_boundary_def split: option.split)

lemma shift_boundary_Some:
  assumes "shift_boundary stack upper_at px m = Some t" "master_ok m"
    and "stack ! upper_at \<in> set (ms_order m)" "stack ! (upper_at + 1) \<in> set (ms_order m)" "stack ! upper_at \<noteq> stack ! (upper_at + 1)"
  shows "ms_order t = ms_order m" and "master_ok t"
    and "weight_of t (stack ! upper_at) + weight_of t (stack ! (upper_at + 1)) = weight_of m (stack ! upper_at) + weight_of m (stack ! (upper_at + 1))"
    and "\<And>w. w \<noteq> stack ! upper_at \<Longrightarrow> w \<noteq> stack ! (upper_at + 1) \<Longrightarrow> weight_of t w = weight_of m w"
proof -
  let ?w = "weight_of m (stack ! upper_at) + weight_of m (stack ! (upper_at + 1))"
  have w: "0 < ?w" using weight_pos [OF assms(2)] by (simp add: add_pos_pos)
  have none: "t = m" if "map_of (ms_boxes m) (stack ! upper_at) = None \<or> map_of (ms_boxes m) (stack ! (upper_at + 1)) = None"
    using assms(1) unfolding shift_boundary_absent [OF that] option.inject by (rule sym)
  consider "t = m" | a b where "0 < a" "0 < b" "a + b = ?w"
      "t = m\<lparr>ms_weights := (ms_weights m)(stack ! upper_at \<mapsto> a, stack ! (upper_at + 1) \<mapsto> b)\<rparr>"
  proof (cases "map_of (ms_boxes m) (stack ! upper_at)"; cases "map_of (ms_boxes m) (stack ! (upper_at + 1))")
    fix upper lower
    assume b: "map_of (ms_boxes m) (stack ! upper_at) = Some upper" "map_of (ms_boxes m) (stack ! (upper_at + 1)) = Some lower"
    let ?pair = "b_h upper + b_h lower"
    let ?h = "min (?pair - ?pair * MIN_WEIGHT) (max (?pair * MIN_WEIGHT) (b_h upper + px))"
    have t: "?pair \<noteq> 0" "t = m\<lparr>ms_weights := (ms_weights m)(stack ! upper_at \<mapsto> ?w * ?h / ?pair,
        stack ! (upper_at + 1) \<mapsto> ?w * (?pair - ?h) / ?pair)\<rparr>"
      using assms(1) unfolding shift_boundary_def b by (simp_all add: Let_def split: if_splits)
    show ?thesis by (rule that(2) [OF _ _ _ t(2)]; rule shared_pair [OF t(1) _ w]; simp add: MIN_WEIGHT_def)
  qed (blast intro: that(1) none)+
  then have "ms_order t = ms_order m \<and> master_ok t \<and>
      weight_of t (stack ! upper_at) + weight_of t (stack ! (upper_at + 1)) = ?w \<and>
      (\<forall>w. w \<noteq> stack ! upper_at \<and> w \<noteq> stack ! (upper_at + 1) \<longrightarrow> weight_of t w = weight_of m w)"
  proof cases
    case 2
    then show ?thesis using assms(2-5) by (auto simp: master_ok_def weight_of_def)
  qed (use assms(2) in simp)
  then show "ms_order t = ms_order m" and "master_ok t"
    and "weight_of t (stack ! upper_at) + weight_of t (stack ! (upper_at + 1)) = ?w"
    and "\<And>w. w \<noteq> stack ! upper_at \<Longrightarrow> w \<noteq> stack ! (upper_at + 1) \<Longrightarrow> weight_of t w = weight_of m w" by blast+
qed

lemma stack_pair:
  assumes "distinct order" "Suc upper_at < length (drop 1 order)"
  shows "drop 1 order ! upper_at \<in> set order" "drop 1 order ! (upper_at + 1) \<in> set order"
    and "drop 1 order ! upper_at \<noteq> drop 1 order ! (upper_at + 1)"
proof -
  show "drop 1 order ! upper_at \<in> set order" "drop 1 order ! (upper_at + 1) \<in> set order"
    using assms(2) in_set_dropD [of _ 1 order] by (metis Suc_eq_plus1 Suc_lessD nth_mem)+
  show "drop 1 order ! upper_at \<noteq> drop 1 order ! (upper_at + 1)"
    using assms by (simp add: nth_eq_iff_index_eq)
qed

lemma master_shift:
  assumes "master_ok m" "Suc upper_at < length (drop 1 (ms_order m))" "shift_boundary (drop 1 (ms_order m)) upper_at px m = Some t"
  shows "master_ok t \<and> ms_order t = ms_order m"
  using shift_boundary_Some(1,2) [OF assms(3,1)] stack_pair [OF _ assms(2)] assms(1) by (simp add: master_ok_def)

section \<open>The laws of a layout\<close>

lemma master_insert_order:
  "ms_order (master_insert w beside m) = placed_beside w beside (ms_order m)"
  by (auto simp: master_insert_def placed_beside_def Let_def insert_after_absent insert_after_splice split: option.split)

lemma master_resize_ok:
  assumes "master_ok m" "master_resize w d n m = Some t"
  shows "master_ok t \<and> ms_order t = ms_order m"
proof (cases "axis_of d = Horizontal")
  case True
  with assms show ?thesis by (auto simp: master_resize_def Let_def master_ok_ratio split: option.splits)
next
  case False
  let ?stack = "drop 1 (ms_order m)"
  show ?thesis
  proof (cases "index_of w ?stack")
    case (Some i)
    show ?thesis
    proof (cases "length ?stack < 2")
      case no: False
      let ?upper_at = "if i = length ?stack - 1 then i - 1 else i"
      have "Suc ?upper_at < length ?stack" using no index_of_Some [OF Some] by auto
      moreover have "shift_boundary ?stack ?upper_at (if forward d then n else - n) m = Some t"
        using assms(2) False Some no by (simp add: master_resize_def Let_def)
      ultimately show ?thesis using master_shift [OF assms(1)] by blast
    qed (use assms False Some in \<open>simp add: master_resize_def Let_def\<close>)
  qed (use assms False in \<open>simp add: master_resize_def Let_def\<close>)
qed

lemma master_move_edge_ok:
  assumes "master_ok m" "master_move_edge w d n m = Some t"
  shows "master_ok t \<and> ms_order t = ms_order m"
proof (cases "map_of (ms_boxes m) w"; cases "ms_area m")
  fix b area assume b: "map_of (ms_boxes m) w = Some b" "ms_area m = Some area"
  let ?stack = "drop 1 (ms_order m)"
  show ?thesis
  proof (cases "axis_of d = Horizontal")
    case True
    with assms b show ?thesis by (auto simp: master_move_edge_def Let_def master_ok_ratio split: if_splits)
  next
    case False
    show ?thesis
    proof (cases "index_of w ?stack")
      case None
      with assms b False show ?thesis by (simp add: master_move_edge_def Let_def)
    next
      case (Some i)
      let ?upper_at = "if d = DDown then int i else int i - 1"
      show ?thesis
      proof (cases "?upper_at < 0 \<or> ?upper_at \<ge> int (length ?stack) - 1")
        case True
        with assms b False Some show ?thesis by (simp add: master_move_edge_def Let_def split: if_splits)
      next
        case no: False
        then have "Suc (nat ?upper_at) < length ?stack" by linarith
        moreover have "\<exists>px. shift_boundary ?stack (nat ?upper_at) px m = Some t"
          using assms(2) b False Some no by (auto simp: master_move_edge_def Let_def)
        ultimately show ?thesis using master_shift [OF assms(1)] by blast
      qed
    qed
  qed
qed (use assms in \<open>simp_all add: master_move_edge_def\<close>)

lemma master_boxes_windows: "map fst (master_boxes area gap m) = ms_order m"
  by (auto simp: master_boxes_def case_prod_unfold Let_def split: list.split)

lemma master_boxes_apart:
  assumes ok: "master_ok m" and area: "whole_box area" "gap \<in> \<int>" "0 \<le> gap"
  shows "tiles_apart (master_boxes area gap m)"
proof (cases "ms_order m")
  case (Cons w stack)
  show ?thesis
  proof (cases "stack = []")
    case False
    obtain left right where lr: "split_box area Horizontal (ms_ratio m) gap = (left, right)" by fastforce
    let ?parts = "divide right Vertical (map (weight_of m) stack) gap"
    have eq: "master_boxes area gap m = (w, left) # zip stack ?parts"
      using Cons False by (cases stack) (simp_all add: master_boxes_def lr Let_def)
    have r: "0 \<le> ms_ratio m" "ms_ratio m \<le> 1" using ok by (auto simp: master_ok_def MIN_RATIO_def)
    have len: "box_length area Horizontal \<in> \<int>" using area(1) by (simp add: whole_box_def box_length_def)
    note sp = split_box_inside [OF lr area(3) r len area(2)]
    have "0 \<le> max 0 (b_w area - gap) * ms_ratio m" using r(1) by simp
    then have x: "b_x left + b_w left \<le> b_x right"
      using lr area(3) by (auto simp: split_box_def Let_def box_length_def)
    have "boxes_apart left p" if "p \<in> set ?parts" for p
    proof -
      have "b_x p = b_x right" using divide_part [OF that] by (metis axis.distinct(1) part_box_def box.simps(1) box.update_convs(2,4) box.select_convs(1) box.surjective)
      then show ?thesis using x by (auto simp: boxes_apart_def contains_def)
    qed
    moreover have "sorted_wrt boxes_apart ?parts"
      by (rule divide_apart [OF area(3)]) (auto intro: less_imp_le weight_pos [OF ok])
    ultimately show ?thesis unfolding eq tiles_apart_def by simp
  qed (use Cons in \<open>simp add: master_boxes_def tiles_apart_def\<close>)
qed (simp add: master_boxes_def tiles_apart_def)

interpretation master: layout_laws master_layout master_ok
proof (unfold_locales, goal_cases)
  case (3 s w beside)
  then show ?case
    using master_insert_order [of w beside s]
    by (auto simp: master_layout_def master_ok_def master_insert_def Let_def split: if_splits)
next
  case (7 s a b)
  show ?case
  proof (cases "index_of a (ms_order s)"; cases "index_of b (ms_order s)")
    fix i j assume ij: "index_of a (ms_order s) = Some i" "index_of b (ms_order s) = Some j"
    have d: "distinct (ms_order s)" using 7 by (simp add: master_ok_def)
    have "a \<in> set (ms_order s)" "b \<in> set (ms_order s)" using ij index_of_Some by fastforce+
    then have "set (map (swapped a b) (ms_order s)) = set (ms_order s)" by (simp add: swapped_image)
    moreover have "distinct (map (swapped a b) (ms_order s))"
      using d inj_on_subset [OF swapped_inj] by (auto simp: distinct_map)
    ultimately show ?thesis using 7 ij map_swapped_update [OF d ij]
      by (simp add: master_layout_def master_swap_def master_ok_def)
  qed (use 7 in \<open>auto simp: master_layout_def master_swap_def split: option.split\<close>)
next
  case (8 s a b)
  then obtain i j where "index_of a (ms_order s) = Some i" "index_of b (ms_order s) = Some j"
    by (cases "index_of a (ms_order s)"; cases "index_of b (ms_order s)") (auto simp: master_layout_def)
  moreover have "distinct (ms_order s)" using 8 by (simp add: master_ok_def)
  ultimately show ?case using map_swapped_update [of "ms_order s" a i b j] by (simp add: master_layout_def master_swap_def)
next
  case (9 s a b)
  then show ?case by (auto simp: master_layout_def master_swap_def split: option.split)
next
  case (10 s area gap)
  then show ?case by (simp add: master_layout_def master_arrange_def Let_def master_ok_def)
next
  case (14 s w d n t)
  then show ?case using master_resize_ok by (simp add: master_layout_def)
next
  case (15 s w d n t)
  then show ?case using master_move_edge_ok by (simp add: master_layout_def)
next
  case (2 s w)
  then show ?case by (auto simp: master_layout_def master_ok_def master_has_def)
next
  case (5 s w)
  then show ?case by (auto simp: master_layout_def master_ok_def master_remove_def split: if_splits)
qed (simp_all add: master_layout_def master_insert_order master_arrange_def Let_def master_boxes_windows master_boxes_apart
    master_remove_def, simp add: master_ok_def)

end
