(* ===== verification/Tiling_Space.thy ===== *)
theory Tiling_Space
  imports Tiling_Dwindle Tiling_Master
begin

text \<open>
  A tiled space of one monitor, \<^verbatim>\<open>layouts/tiledSpace.ts\<close> over the interface of \<^theory_text>\<open>Tiling_Layout\<close>, and
  \<^verbatim>\<open>placement.ts\<close>.  What the host and the compositor answer (\<^verbatim>\<open>SpaceHost\<close>, the frames of windows)
  is a record of functions; the calls they are told, in order, are results.  \<open>None\<close> is a layout
  whose weights are not numbers any more.
\<close>

section \<open>Host and placement\<close>

record 'w space_host =
  sh_work_area :: "nat \<Rightarrow> box"
  sh_monitor_box :: "nat \<Rightarrow> box"
  sh_monitor_count :: nat
  sh_gap :: number
  sh_beside_focused :: bool
  sh_ready :: "'w \<Rightarrow> bool"
  sh_shown :: "'w \<Rightarrow> bool"
  sh_stretched :: "'w \<Rightarrow> bool"
  sh_target :: "'w \<Rightarrow> box"
  sh_frame :: "'w \<Rightarrow> box"

datatype 'w frame_call =
    Set_unconstrained 'w bool
  | Morph 'w
  | Set_edges_tiled 'w bool
  | Move_resize 'w box

definition place :: "('w, 'z) space_host_scheme \<Rightarrow> 'w \<Rightarrow> box \<Rightarrow> bool \<Rightarrow> 'w frame_call list" where
  "place h window b animate =
    (if \<not> sh_ready h window then []
     else if sh_stretched h window then [Set_unconstrained window True]
     else
      (let moving = \<not> same_box (sh_target h window) b
       in [Set_unconstrained window True]
          @ (if moving \<and> animate \<and> sh_shown h window then [Morph window] else [])
          @ [Set_edges_tiled window (sh_gap h = 0)]
          @ (if moving then [Move_resize window b] else [])))"

definition edges_moved :: "box \<Rightarrow> box \<Rightarrow> (direction \<times> number) list" where
  "edges_moved before after =
    (let near = (\<lambda>a b. \<bar>a - b\<bar> \<le> (1::number)) in
     (if \<not> near (b_x before) (b_x after) then [(DLeft, b_x after)] else [])
     @ (if \<not> near (b_x before + b_w before) (b_x after + b_w after) then [(DRight, b_x after + b_w after)] else [])
     @ (if \<not> near (b_y before) (b_y after) then [(DUp, b_y after)] else [])
     @ (if \<not> near (b_y before + b_h before) (b_y after + b_h after) then [(DDown, b_y after + b_h after)] else []))"

section \<open>The tiled space\<close>

record ('s, 'w) tspace =
  ts_monitor :: nat
  ts_layout :: 's
  ts_boxes :: "('w \<times> box) list"

definition RESIZE_SHARE :: number where "RESIZE_SHARE = 5 / 100"

definition ts_windows :: "('s, 'w) tiled_layout \<Rightarrow> ('s, 'w) tspace \<Rightarrow> 'w list" where
  "ts_windows L sp = tl_windows L (ts_layout sp)"

definition ts_has :: "('s, 'w) tiled_layout \<Rightarrow> ('s, 'w) tspace \<Rightarrow> 'w \<Rightarrow> bool" where
  "ts_has L sp w = tl_has L (ts_layout sp) w"

definition ts_add :: "('s, 'w) tiled_layout \<Rightarrow> ('w, 'z) space_host_scheme \<Rightarrow> 'w \<Rightarrow> 'w option \<Rightarrow> ('s, 'w) tspace \<Rightarrow> ('s, 'w) tspace" where
  "ts_add L h window focus sp =
    sp\<lparr>ts_layout := tl_insert L window
      (if sh_beside_focused h \<and> (case focus of None \<Rightarrow> False | Some f \<Rightarrow> tl_has L (ts_layout sp) f) then focus else None)
      (ts_layout sp)\<rparr>"

definition ts_remove :: "('s, 'w) tiled_layout \<Rightarrow> 'w \<Rightarrow> ('s, 'w) tspace \<Rightarrow> ('s, 'w) tspace" where
  "ts_remove L window sp =
    sp\<lparr>ts_layout := tl_remove L window (ts_layout sp), ts_boxes := filter (\<lambda>entry. fst entry \<noteq> window) (ts_boxes sp)\<rparr>"

definition ts_arrange :: "('s, 'w) tiled_layout \<Rightarrow> ('w, 'z) space_host_scheme \<Rightarrow> bool \<Rightarrow> 'w option \<Rightarrow> ('s, 'w) tspace
    \<Rightarrow> 'w frame_call list \<times> ('s, 'w) tspace" where
  "ts_arrange L h animate held sp =
    (let gap = sh_gap h;
         (boxes, layout) = tl_arrange L (inset (sh_work_area h (ts_monitor sp)) gap) gap (ts_layout sp)
     in (concat (map (\<lambda>(window, b). if Some window \<noteq> held then place h window b animate else []) boxes),
         sp\<lparr>ts_layout := layout, ts_boxes := boxes\<rparr>))"

definition ts_box_of :: "('s, 'w) tspace \<Rightarrow> 'w \<Rightarrow> box option" where
  "ts_box_of sp w = map_of (ts_boxes sp) w"

definition ts_neighbor :: "'w \<Rightarrow> direction \<Rightarrow> ('s, 'w) tspace \<Rightarrow> 'w option" where
  "ts_neighbor window d sp =
    (case map_of (ts_boxes sp) window of
      None \<Rightarrow> None
    | Some from \<Rightarrow> neighbor from (filter (\<lambda>entry. fst entry \<noteq> window) (ts_boxes sp)) d)"

definition ts_move :: "('s, 'w) tiled_layout \<Rightarrow> ('w, 'z) space_host_scheme \<Rightarrow> 'w \<Rightarrow> direction \<Rightarrow> ('s, 'w) tspace
    \<Rightarrow> bool \<times> 'w frame_call list \<times> ('s, 'w) tspace" where
  "ts_move L h window d sp =
    (case ts_neighbor window d sp of
      None \<Rightarrow> (False, [], sp)
    | Some other \<Rightarrow> (True, ts_arrange L h True None (sp\<lparr>ts_layout := tl_swap L window other (ts_layout sp)\<rparr>)))"

definition ts_resize :: "('s, 'w) tiled_layout \<Rightarrow> ('w, 'z) space_host_scheme \<Rightarrow> 'w \<Rightarrow> direction \<Rightarrow> ('s, 'w) tspace
    \<Rightarrow> ('w frame_call list \<times> ('s, 'w) tspace) option" where
  "ts_resize L h window d sp =
    (let area = sh_work_area h (ts_monitor sp)
     in map_option (\<lambda>layout. ts_arrange L h True None (sp\<lparr>ts_layout := layout\<rparr>))
       (tl_resize L window d (math_round (box_length area (axis_of d) * RESIZE_SHARE)) (ts_layout sp)))"

fun move_edges :: "('s, 'w) tiled_layout \<Rightarrow> 'w \<Rightarrow> (direction \<times> number) list \<Rightarrow> 's \<Rightarrow> 's option" where
  "move_edges L window [] s = Some s"
| "move_edges L window ((side, coordinate) # rest) s =
    Option.bind (tl_move_edge L window side coordinate s) (move_edges L window rest)"

definition ts_resized :: "('s, 'w) tiled_layout \<Rightarrow> ('w, 'z) space_host_scheme \<Rightarrow> 'w \<Rightarrow> box \<Rightarrow> ('s, 'w) tspace
    \<Rightarrow> ('w frame_call list \<times> ('s, 'w) tspace) option" where
  "ts_resized L h window frame sp =
    (case map_of (ts_boxes sp) window of
      None \<Rightarrow> Some ([], sp)
    | Some before \<Rightarrow>
        map_option (\<lambda>layout. ts_arrange L h False (Some window) (sp\<lparr>ts_layout := layout\<rparr>))
          (move_edges L window (edges_moved before frame) (ts_layout sp)))"

definition ts_drop :: "('s, 'w) tiled_layout \<Rightarrow> ('w, 'z) space_host_scheme \<Rightarrow> 'w \<Rightarrow> 'w \<Rightarrow> ('s, 'w) tspace
    \<Rightarrow> 'w frame_call list \<times> ('s, 'w) tspace" where
  "ts_drop L h window onto sp = ts_arrange L h True None (sp\<lparr>ts_layout := tl_swap L window onto (ts_layout sp)\<rparr>)"

definition ts_release :: "('s, 'w) tiled_layout \<Rightarrow> 'w \<Rightarrow> ('s, 'w) tspace \<Rightarrow> ('s, 'w) tspace" where
  "ts_release L window sp = ts_remove L window sp"

section \<open>Placement\<close>

definition frame_window :: "'w frame_call \<Rightarrow> 'w" where
  "frame_window c = (case c of Set_unconstrained w _ \<Rightarrow> w | Morph w \<Rightarrow> w | Set_edges_tiled w _ \<Rightarrow> w | Move_resize w _ \<Rightarrow> w)"

lemma place_window: "c \<in> set (place h w b animate) \<Longrightarrow> frame_window c = w"
  by (auto simp: place_def frame_window_def Let_def split: if_splits)

lemma place_moves: "Move_resize w b' \<in> set (place h w b animate) \<longleftrightarrow>
    b' = b \<and> sh_ready h w \<and> \<not> sh_stretched h w \<and> \<not> same_box (sh_target h w) b"
  by (auto simp: place_def Let_def)

lemma place_morphs: "Morph w \<in> set (place h w b animate) \<Longrightarrow> animate \<and> sh_shown h w \<and> Move_resize w b \<in> set (place h w b animate)"
  by (auto simp: place_def Let_def split: if_splits)

lemma edges_moved_same: "edges_moved b b = []"
  by (simp add: edges_moved_def)

lemma edges_moved_mem:
  "(d, c) \<in> set (edges_moved before after) \<Longrightarrow>
    c = (if d = DLeft then b_x after else if d = DRight then b_x after + b_w after
         else if d = DUp then b_y after else b_y after + b_h after)"
  by (auto simp: edges_moved_def Let_def split: if_splits)

section \<open>What a space keeps\<close>

definition space_ok :: "('s, 'w) tiled_layout \<Rightarrow> ('s \<Rightarrow> bool) \<Rightarrow> ('s, 'w) tspace \<Rightarrow> bool" where
  "space_ok L ok sp \<longleftrightarrow> ok (ts_layout sp) \<and> distinct (map fst (ts_boxes sp)) \<and> fst ` set (ts_boxes sp) \<subseteq> set (ts_windows L sp)"

context layout_laws
begin

lemma ts_add_windows:
  assumes "space_ok L ok sp" "w \<notin> set (ts_windows L sp)"
  shows "ts_windows L (ts_add L h w focus sp) =
    placed_beside w (if sh_beside_focused h \<and> (\<exists>f. focus = Some f \<and> f \<in> set (ts_windows L sp)) then focus else None) (ts_windows L sp)"
  using assms by (auto simp: space_ok_def ts_add_def ts_windows_def insert_windows has_windows split: option.split)

lemma ts_add_ok:
  assumes "space_ok L ok sp" "w \<notin> set (ts_windows L sp)"
  shows "space_ok L ok (ts_add L h w focus sp)"
  using assms ts_add_windows [OF assms, of h focus] by (auto simp: space_ok_def ts_add_def ts_windows_def insert_ok)

lemma ts_remove_ok:
  assumes "space_ok L ok sp"
  shows "space_ok L ok (ts_remove L w sp)" and "ts_windows L (ts_remove L w sp) = filter (\<lambda>v. v \<noteq> w) (ts_windows L sp)"
  using assms by (auto simp: space_ok_def ts_remove_def ts_windows_def remove_ok remove_windows distinct_map_filter)

lemma ts_arrange_sound:
  assumes "ok (ts_layout sp)"
  shows "space_ok L ok (snd (ts_arrange L h animate held sp))"
    and "ts_windows L (snd (ts_arrange L h animate held sp)) = ts_windows L sp"
    and "map fst (ts_boxes (snd (ts_arrange L h animate held sp))) = ts_windows L sp"
proof -
  let ?r = "tl_arrange L (inset (sh_work_area h (ts_monitor sp)) (sh_gap h)) (sh_gap h) (ts_layout sp)"
  have eq: "snd (ts_arrange L h animate held sp) = sp\<lparr>ts_layout := snd ?r, ts_boxes := fst ?r\<rparr>"
    by (simp add: ts_arrange_def case_prod_unfold Let_def)
  show "ts_windows L (snd (ts_arrange L h animate held sp)) = ts_windows L sp"
    unfolding eq using assms by (simp add: ts_windows_def arrange_windows)
  show "map fst (ts_boxes (snd (ts_arrange L h animate held sp))) = ts_windows L sp"
    unfolding eq using assms by (simp add: ts_windows_def arrange_tiles)
  then show "space_ok L ok (snd (ts_arrange L h animate held sp))"
    unfolding eq using assms
    by (simp add: space_ok_def ts_windows_def arrange_windows arrange_tiles arrange_ok windows_distinct flip: set_map)
qed

lemma whole_inset: "whole_box b \<Longrightarrow> g \<in> \<int> \<Longrightarrow> whole_box (inset b g)"
  by (simp add: whole_box_def inset_def max_def)

lemma ts_arrange_apart:
  assumes "ok (ts_layout sp)" "whole_box (sh_work_area h (ts_monitor sp))" "sh_gap h \<in> \<int>" "0 \<le> sh_gap h"
  shows "tiles_apart (ts_boxes (snd (ts_arrange L h animate held sp)))"
  using arrange_apart [OF assms(1) whole_inset [OF assms(2,3)] assms(3,4)]
  by (simp add: ts_arrange_def case_prod_unfold Let_def)

lemma ts_arrange_calls:
  assumes "c \<in> set (fst (ts_arrange L h animate held sp))" "ok (ts_layout sp)"
  shows "frame_window c \<in> set (ts_windows L sp)" and "Some (frame_window c) \<noteq> held"
proof -
  let ?r = "tl_arrange L (inset (sh_work_area h (ts_monitor sp)) (sh_gap h)) (sh_gap h) (ts_layout sp)"
  obtain w b where "(w, b) \<in> set (fst ?r)" "c \<in> set (place h w b animate)" "Some w \<noteq> held"
    using assms(1) by (auto simp: ts_arrange_def case_prod_unfold Let_def split: if_splits)
  then show "frame_window c \<in> set (ts_windows L sp)" "Some (frame_window c) \<noteq> held"
    using place_window [of c h w b animate] arrange_tiles [OF assms(2)]
    by (metis fst_conv image_eqI set_map ts_windows_def)+
qed

lemma ts_neighbor_window:
  assumes "space_ok L ok sp" "ts_neighbor w d sp = Some v"
  shows "v \<in> set (ts_windows L sp)" and "v \<noteq> w" and "w \<in> set (ts_windows L sp)"
proof -
  obtain fb where f: "map_of (ts_boxes sp) w = Some fb" "neighbor fb (filter (\<lambda>e. fst e \<noteq> w) (ts_boxes sp)) d = Some v"
    using assms(2) by (auto simp: ts_neighbor_def split: option.splits)
  show "v \<in> set (ts_windows L sp)" "v \<noteq> w"
    using neighbor_mem [OF f(2)] assms(1) by (auto simp: space_ok_def)
  show "w \<in> set (ts_windows L sp)"
    using map_of_SomeD [OF f(1)] assms(1) by (force simp: space_ok_def)
qed

text \<open>Moving a window swaps it with the neighbour, which is a window of the space.\<close>

lemma ts_move_swaps:
  assumes "space_ok L ok sp" "ts_move L h w d sp = (moved, calls, sp')"
  shows "space_ok L ok sp'" and "moved \<longleftrightarrow> ts_neighbor w d sp \<noteq> None"
    and "ts_neighbor w d sp = Some v \<Longrightarrow> ts_windows L sp' = map (swapped w v) (ts_windows L sp)"
    and "ts_neighbor w d sp = None \<Longrightarrow> sp' = sp"
proof -
  show "moved \<longleftrightarrow> ts_neighbor w d sp \<noteq> None" "ts_neighbor w d sp = None \<Longrightarrow> sp' = sp"
    using assms(2) by (auto simp: ts_move_def split: option.splits)
  have *: "ok (ts_layout sp)" using assms(1) by (simp add: space_ok_def)
  show "ts_windows L sp' = map (swapped w v) (ts_windows L sp)" if "ts_neighbor w d sp = Some v"
  proof -
    let ?sp = "sp\<lparr>ts_layout := tl_swap L w v (ts_layout sp)\<rparr>"
    have "sp' = snd (ts_arrange L h True None ?sp)"
      using assms(2) that by (simp add: ts_move_def)
    then have "ts_windows L sp' = ts_windows L ?sp" by (simp add: ts_arrange_sound(2) swap_ok *)
    then show ?thesis using ts_neighbor_window [OF assms(1) that] * by (simp add: ts_windows_def swap_windows)
  qed
  show "space_ok L ok sp'"
  proof (cases "ts_neighbor w d sp")
    case None
    with assms show ?thesis by (simp add: ts_move_def)
  next
    case (Some v)
    then have "sp' = snd (ts_arrange L h True None (sp\<lparr>ts_layout := tl_swap L w v (ts_layout sp)\<rparr>))"
      using assms(2) by (simp add: ts_move_def)
    then show ?thesis by (simp add: ts_arrange_sound(1) swap_ok *)
  qed
qed

lemma move_edges_ok: "ok s \<Longrightarrow> move_edges L w es s = Some t \<Longrightarrow> ok t \<and> tl_windows L t = tl_windows L s"
proof (induction es arbitrary: s)
  case (Cons e es)
  obtain d c where e: "e = (d, c)" by fastforce
  with Cons.prems obtain u where "tl_move_edge L w d c s = Some u" "move_edges L w es u = Some t"
    by (auto simp: bind_eq_Some_conv)
  with Cons.IH [of u] move_edge_ok [OF Cons.prems(1)] show ?case by metis
qed simp

lemma ts_resized_ok:
  assumes "space_ok L ok sp" "ts_resized L h w frame sp = Some (calls, sp')"
  shows "space_ok L ok sp'" and "ts_windows L sp' = ts_windows L sp"
    and "c \<in> set calls \<Longrightarrow> frame_window c \<noteq> w"
proof -
  have *: "ok (ts_layout sp)" using assms(1) by (simp add: space_ok_def)
  have "sp' = sp \<and> calls = [] \<or> (\<exists>layout. ok layout \<and> tl_windows L layout = tl_windows L (ts_layout sp) \<and>
      ts_arrange L h False (Some w) (sp\<lparr>ts_layout := layout\<rparr>) = (calls, sp'))"
    using assms(2) move_edges_ok [OF *] by (fastforce simp: ts_resized_def split: option.splits)
  then have "space_ok L ok sp' \<and> ts_windows L sp' = ts_windows L sp \<and> (\<forall>c \<in> set calls. frame_window c \<noteq> w)"
  proof (elim disjE exE conjE)
    fix layout
    let ?sp = "sp\<lparr>ts_layout := layout\<rparr>"
    assume l: "ok layout" "tl_windows L layout = tl_windows L (ts_layout sp)" "ts_arrange L h False (Some w) ?sp = (calls, sp')"
    then have "ok (ts_layout ?sp)" by simp
    from ts_arrange_sound(1,2) [OF this, of h False "Some w"] ts_arrange_calls(2) [OF _ this, of _ h False "Some w"] l(2,3)
    show ?thesis by (auto simp: ts_windows_def)
  qed (use assms(1) in simp)
  then show "space_ok L ok sp'" "ts_windows L sp' = ts_windows L sp" "c \<in> set calls \<Longrightarrow> frame_window c \<noteq> w" by blast+
qed

lemma ts_resize_ok:
  assumes "space_ok L ok sp" "ts_resize L h w d sp = Some (calls, sp')"
  shows "space_ok L ok sp'" and "ts_windows L sp' = ts_windows L sp"
proof -
  have *: "ok (ts_layout sp)" using assms(1) by (simp add: space_ok_def)
  obtain layout where l: "tl_resize L w d (math_round (box_length (sh_work_area h (ts_monitor sp)) (axis_of d) * RESIZE_SHARE)) (ts_layout sp) = Some layout"
    "ts_arrange L h True None (sp\<lparr>ts_layout := layout\<rparr>) = (calls, sp')"
    using assms(2) by (auto simp: ts_resize_def Let_def)
  let ?sp = "sp\<lparr>ts_layout := layout\<rparr>"
  have "ok (ts_layout ?sp)" "tl_windows L layout = tl_windows L (ts_layout sp)" using resize_ok [OF * l(1)] by simp_all
  from ts_arrange_sound(1,2) [OF this(1), of h True None] this(2) l(2)
  show "space_ok L ok sp'" "ts_windows L sp' = ts_windows L sp" by (simp_all add: ts_windows_def)
qed

lemma ts_drop_ok:
  assumes "space_ok L ok sp"
  shows "space_ok L ok (snd (ts_drop L h w onto sp))"
    and "set (ts_windows L (snd (ts_drop L h w onto sp))) = set (ts_windows L sp)"
proof -
  have *: "ok (ts_layout (sp\<lparr>ts_layout := tl_swap L w onto (ts_layout sp)\<rparr>))" "ok (ts_layout sp)"
    using assms by (simp_all add: space_ok_def swap_ok)
  from ts_arrange_sound(1,2) [OF *(1), of h True None] swap_set [OF *(2), of w onto]
  show "space_ok L ok (snd (ts_drop L h w onto sp))"
    "set (ts_windows L (snd (ts_drop L h w onto sp))) = set (ts_windows L sp)"
    by (simp_all add: ts_drop_def ts_windows_def)
qed

end

end
