(* ===== verification/Tiling_Strip.thy ===== *)
theory Tiling_Strip
  imports Tiling_Geometry
begin

text \<open>
  The scrolling strip, \<^verbatim>\<open>kestrel/ui/src/desktop/tiling/scrolling/strip.ts\<close>: columns of windows side
  by side, each with its width as a share of the view, its windows sharing the height by weights.
  The source changes columns in place; a column is in one place of the strip, so an operation
  returns the strip with that column updated.  The row of a column whose last window leaves is not
  kept, since the source drops the column at once.  \<^verbatim>\<open>shiftRows\<close> divides by the height of a pair of
  rows: when that is zero the weights are \<^verbatim>\<open>NaN\<close> in the source and the result is \<open>None\<close> here.
\<close>

record 'w column =
  cl_windows :: "'w list"
  cl_weights :: "number list"
  cl_width :: number
  cl_row :: nat
  cl_restore :: "number option"

record 'w strip =
  st_columns :: "'w column list"
  st_focused :: nat
  st_offset :: number
  st_view :: box
  st_gap :: number

record snap =
  sn_offset :: number
  sn_column :: nat

definition PRESET_WIDTHS :: "number list" where "PRESET_WIDTHS = [1 / 3, 1 / 2, 2 / 3, 1]"
definition DEFAULT_WIDTH :: number where "DEFAULT_WIDTH = 1 / 2"
definition WIDTH_STEP :: number where "WIDTH_STEP = 1 / 10"
definition MIN_WIDTH :: number where "MIN_WIDTH = 1 / 10"
definition MIN_ROW_SHARE :: number where "MIN_ROW_SHARE = 15 / 100"
definition PRESET_TOLERANCE :: number where "PRESET_TOLERANCE = 1 / 100"

definition new_strip :: "'w strip" where
  "new_strip = \<lparr>st_columns = [], st_focused = 0, st_offset = 0,
    st_view = \<lparr>b_x = 0, b_y = 0, b_w = 1, b_h = 1\<rparr>, st_gap = 0\<rparr>"

section \<open>Reading the strip\<close>

definition column_at_index :: "'w strip \<Rightarrow> int \<Rightarrow> 'w column option" where
  "column_at_index s i = nth_opt (st_columns s) i"

definition strip_windows :: "'w strip \<Rightarrow> 'w list" where
  "strip_windows s = concat (map cl_windows (st_columns s))"

definition row_window :: "'w column \<Rightarrow> int \<Rightarrow> 'w option" where
  "row_window c i = nth_opt (cl_windows c) i"

definition focused_window :: "'w strip \<Rightarrow> 'w option" where
  "focused_window s = Option.bind (column_at_index s (int (st_focused s))) (\<lambda>c. row_window c (int (cl_row c)))"

definition view_width :: "'w strip \<Rightarrow> number" where
  "view_width s = max 1 (b_w (st_view s) - 2 * st_gap s)"

definition column_width :: "'w strip \<Rightarrow> 'w column \<Rightarrow> number" where
  "column_width s c = max 1 (math_round (cl_width c * (b_w (st_view s) - st_gap s)) - st_gap s)"

definition total_width :: "'w strip \<Rightarrow> number" where
  "total_width s = sum_list (map (column_width s) (st_columns s)) + st_gap s * of_nat (length (st_columns s) - 1)"

definition set_view :: "box \<Rightarrow> number \<Rightarrow> 'w strip \<Rightarrow> 'w strip" where
  "set_view view gap s = s\<lparr>st_view := view, st_gap := gap\<rparr>"

fun locate_in :: "'w \<Rightarrow> 'w column list \<Rightarrow> (nat \<times> nat) option" where
  "locate_in w [] = None"
| "locate_in w (c # cs) =
    (case index_of w (cl_windows c) of
      Some row \<Rightarrow> Some (0, row)
    | None \<Rightarrow> map_option (\<lambda>(i, row). (Suc i, row)) (locate_in w cs))"

definition locate :: "'w strip \<Rightarrow> 'w \<Rightarrow> (nat \<times> nat) option" where
  "locate s w = locate_in w (st_columns s)"

definition strip_has :: "'w strip \<Rightarrow> 'w \<Rightarrow> bool" where
  "strip_has s w \<longleftrightarrow> locate s w \<noteq> None"

definition column_start :: "'w strip \<Rightarrow> nat \<Rightarrow> number" where
  "column_start s index = sum_list (map (\<lambda>c. column_width s c + st_gap s) (take index (st_columns s)))"

definition column_at :: "int \<Rightarrow> 'w strip \<Rightarrow> 'w option" where
  "column_at d s = Option.bind (column_at_index s (int (st_focused s) + d)) (\<lambda>c. row_window c (int (cl_row c)))"

definition row_at :: "int \<Rightarrow> 'w strip \<Rightarrow> 'w option" where
  "row_at d s = Option.bind (column_at_index s (int (st_focused s))) (\<lambda>c. row_window c (int (cl_row c) + d))"

definition edge :: "bool \<Rightarrow> 'w strip \<Rightarrow> 'w option" where
  "edge at_end s = Option.bind (column_at_index s (if at_end then int (length (st_columns s)) - 1 else 0))
    (\<lambda>c. row_window c (int (cl_row c)))"

section \<open>Changing it\<close>

definition with_column :: "nat \<Rightarrow> ('w column \<Rightarrow> 'w column) \<Rightarrow> 'w strip \<Rightarrow> 'w strip" where
  "with_column i f s = s\<lparr>st_columns := (st_columns s)[i := f (st_columns s ! i)]\<rparr>"

definition clamp_offset :: "'w strip \<Rightarrow> 'w strip" where
  "clamp_offset s = s\<lparr>st_offset := min (st_offset s) (max 0 (total_width s - view_width s))\<rparr>"

definition single :: "'w \<Rightarrow> number \<Rightarrow> 'w column" where
  "single window width = \<lparr>cl_windows = [window], cl_weights = [1], cl_width = width, cl_row = 0, cl_restore = None\<rparr>"

definition strip_add :: "'w \<Rightarrow> bool \<Rightarrow> 'w strip \<Rightarrow> 'w strip" where
  "strip_add window beside_focused s =
    (let index = (if beside_focused \<and> st_columns s \<noteq> [] then st_focused s + 1 else length (st_columns s))
     in s\<lparr>st_columns := splice_in index (single window DEFAULT_WIDTH) (st_columns s), st_focused := index\<rparr>)"

definition without_row :: "nat \<Rightarrow> 'w column \<Rightarrow> 'w column" where
  "without_row row c = c\<lparr>cl_windows := splice_out row (cl_windows c), cl_weights := splice_out row (cl_weights c),
    cl_row := min (cl_row c) (length (cl_windows c) - 2)\<rparr>"

definition strip_remove :: "'w \<Rightarrow> 'w strip \<Rightarrow> 'w strip" where
  "strip_remove window s =
    (case locate s window of
      None \<Rightarrow> s
    | Some (index, row) \<Rightarrow>
        let s1 = with_column index (without_row row) s in
        if cl_windows (st_columns s1 ! index) \<noteq> [] then s1
        else
         (let s2 = s1\<lparr>st_columns := splice_out index (st_columns s1)\<rparr>;
              s3 = (if st_focused s2 > index \<or> st_focused s2 \<ge> length (st_columns s2)
                    then s2\<lparr>st_focused := st_focused s2 - 1\<rparr> else s2)
          in clamp_offset s3))"

definition strip_focus :: "'w \<Rightarrow> 'w strip \<Rightarrow> bool \<times> 'w strip" where
  "strip_focus window s =
    (case locate s window of
      None \<Rightarrow> (False, s)
    | Some (index, row) \<Rightarrow> (True, with_column index (\<lambda>c. c\<lparr>cl_row := row\<rparr>) (s\<lparr>st_focused := index\<rparr>)))"

definition swap_at :: "nat \<Rightarrow> nat \<Rightarrow> 'a list \<Rightarrow> 'a list" where
  "swap_at i j xs = xs[i := xs ! j, j := xs ! i]"

definition move_column :: "int \<Rightarrow> 'w strip \<Rightarrow> bool \<times> 'w strip" where
  "move_column d s =
    (let target = int (st_focused s) + d in
     if target < 0 \<or> target \<ge> int (length (st_columns s)) then (False, s)
     else (True, s\<lparr>st_columns := swap_at (st_focused s) (nat target) (st_columns s), st_focused := nat target\<rparr>))"

definition move_row :: "int \<Rightarrow> 'w strip \<Rightarrow> bool \<times> 'w strip" where
  "move_row d s =
    (case column_at_index s (int (st_focused s)) of
      None \<Rightarrow> (False, s)
    | Some c \<Rightarrow>
        let target = int (cl_row c) + d in
        if target < 0 \<or> target \<ge> int (length (cl_windows c)) then (False, s)
        else (True, with_column (st_focused s)
          (\<lambda>c. c\<lparr>cl_windows := swap_at (cl_row c) (nat target) (cl_windows c),
                  cl_weights := swap_at (cl_row c) (nat target) (cl_weights c), cl_row := nat target\<rparr>) s))"

definition push_window :: "'w \<Rightarrow> 'w column \<Rightarrow> 'w column" where
  "push_window window c = c\<lparr>cl_windows := cl_windows c @ [window], cl_weights := cl_weights c @ [1], cl_row := length (cl_windows c)\<rparr>"

definition strip_stack :: "int \<Rightarrow> 'w strip \<Rightarrow> bool \<times> 'w strip" where
  "strip_stack d s =
    (case (column_at_index s (int (st_focused s)), focused_window s) of
      (Some c, Some window) \<Rightarrow>
        if length (cl_windows c) > 1
        then
         (let index = (if d > 0 then st_focused s + 1 else st_focused s);
              s1 = with_column (st_focused s) (without_row (cl_row c)) s
          in (True, s1\<lparr>st_columns := splice_in index (single window (cl_width c)) (st_columns s1), st_focused := index\<rparr>))
        else
         (let spot = int (st_focused s) + d in
          case column_at_index s spot of
            None \<Rightarrow> (False, s)
          | Some _ \<Rightarrow>
              let s1 = with_column (nat spot) (push_window window) s;
                  s2 = s1\<lparr>st_columns := splice_out (st_focused s) (st_columns s1),
                          st_focused := (if st_focused s < nat spot then nat spot - 1 else nat spot)\<rparr>
              in (True, clamp_offset s2))
    | _ \<Rightarrow> (False, s))"

definition focused_column :: "('w column \<Rightarrow> 'w column) \<Rightarrow> 'w strip \<Rightarrow> 'w strip" where
  "focused_column f s = (case column_at_index s (int (st_focused s)) of None \<Rightarrow> s | Some _ \<Rightarrow> with_column (st_focused s) f s)"

definition next_preset :: "number \<Rightarrow> number" where
  "next_preset width = otherwise (List.find (\<lambda>preset. preset > width + PRESET_TOLERANCE) PRESET_WIDTHS) (hd PRESET_WIDTHS)"

definition cycle_width :: "'w strip \<Rightarrow> 'w strip" where
  "cycle_width s = focused_column (\<lambda>c. c\<lparr>cl_restore := None, cl_width := next_preset (cl_width c)\<rparr>) s"

definition maximized :: "'w column \<Rightarrow> 'w column" where
  "maximized c =
    (if cl_width c \<ge> 1 - PRESET_TOLERANCE
     then c\<lparr>cl_width := otherwise (cl_restore c) DEFAULT_WIDTH, cl_restore := None\<rparr>
     else c\<lparr>cl_restore := Some (cl_width c), cl_width := 1\<rparr>)"

definition maximize :: "'w strip \<Rightarrow> 'w strip" where
  "maximize s = focused_column maximized s"

definition width_for :: "'w strip \<Rightarrow> number \<Rightarrow> number" where
  "width_for s pixels = min 1 (max MIN_WIDTH ((pixels + st_gap s) / max 1 (b_w (st_view s) - st_gap s)))"

definition fully_shown :: "'w strip \<Rightarrow> nat \<Rightarrow> bool" where
  "fully_shown s index \<longleftrightarrow>
    (let left = column_start s index
     in left \<ge> st_offset s - 1 \<and>
        left + column_width s (st_columns s ! index) \<le> st_offset s + view_width s + 1)"

definition shown_beside :: "'w strip \<Rightarrow> nat list" where
  "shown_beside s = filter (\<lambda>index. index \<noteq> st_focused s \<and> fully_shown s index) [0 ..< length (st_columns s)]"

definition expand :: "'w strip \<Rightarrow> 'w strip" where
  "expand s =
    (case column_at_index s (int (st_focused s)) of
      None \<Rightarrow> s
    | Some _ \<Rightarrow>
        let shown = shown_beside s;
            taken = sum_list (map (\<lambda>index. column_width s (st_columns s ! index) + st_gap s) shown);
            s1 = with_column (st_focused s) (\<lambda>c. c\<lparr>cl_restore := None, cl_width := width_for s (view_width s - taken)\<rparr>) s
        in s1\<lparr>st_offset := column_start s1 (foldl min (st_focused s) shown)\<rparr>)"

definition move_column_to_edge :: "bool \<Rightarrow> 'w strip \<Rightarrow> bool \<times> 'w strip" where
  "move_column_to_edge at_end s =
    (let target = (if at_end then length (st_columns s) - 1 else 0) in
     if st_columns s = [] \<or> target = st_focused s then (False, s)
     else (True, s\<lparr>st_columns := splice_in target (st_columns s ! st_focused s) (splice_out (st_focused s) (st_columns s)),
                   st_focused := target\<rparr>))"

definition resize_width :: "int \<Rightarrow> 'w strip \<Rightarrow> 'w strip" where
  "resize_width d s = focused_column
    (\<lambda>c. c\<lparr>cl_restore := None, cl_width := min 1 (max MIN_WIDTH (cl_width c + of_int d * WIDTH_STEP))\<rparr>) s"

definition row_boxes :: "'w strip \<Rightarrow> 'w column \<Rightarrow> box list" where
  "row_boxes s c =
    (let height = max 1 (b_h (st_view s) - 2 * st_gap s)
     in divide \<lparr>b_x = 0, b_y = b_y (st_view s) + st_gap s, b_w = 1, b_h = height\<rparr> Vertical (cl_weights c) (st_gap s))"

definition shift_rows :: "'w strip \<Rightarrow> 'w column \<Rightarrow> nat \<Rightarrow> number \<Rightarrow> 'w column option" where
  "shift_rows s c upper_at pixels =
    (let boxes = row_boxes s c;
         pair = b_h (boxes ! upper_at) + b_h (boxes ! (upper_at + 1));
         minimum = pair * MIN_ROW_SHARE;
         height = min (pair - minimum) (max minimum (b_h (boxes ! upper_at) + pixels));
         weight = cl_weights c ! upper_at + cl_weights c ! (upper_at + 1)
     in if pair = 0 then None
        else Some (c\<lparr>cl_weights := (cl_weights c)[upper_at := weight * height / pair,
          upper_at + 1 := weight * (pair - height) / pair]\<rparr>))"

definition resize_row :: "int \<Rightarrow> 'w strip \<Rightarrow> 'w strip option" where
  "resize_row d s =
    (case column_at_index s (int (st_focused s)) of
      None \<Rightarrow> Some s
    | Some c \<Rightarrow>
        if length (cl_windows c) < 2 then Some s
        else
         (let upper_at = (if cl_row c = length (cl_windows c) - 1 then cl_row c - 1 else cl_row c);
              boxes = row_boxes s c
          in map_option (\<lambda>c'. with_column (st_focused s) (\<lambda>_. c') s)
            (shift_rows s c upper_at (of_int d * WIDTH_STEP * (b_h (boxes ! upper_at) + b_h (boxes ! (upper_at + 1)))))))"

definition set_width :: "'w \<Rightarrow> number \<Rightarrow> 'w strip \<Rightarrow> 'w strip" where
  "set_width window pixels s =
    (case locate s window of
      None \<Rightarrow> s
    | Some (index, _) \<Rightarrow> with_column index (\<lambda>c. c\<lparr>cl_width := width_for s pixels\<rparr>) s)"

definition move_row_edge :: "'w \<Rightarrow> bool \<Rightarrow> number \<Rightarrow> 'w strip \<Rightarrow> 'w strip option" where
  "move_row_edge window bottom coordinate s =
    (case locate s window of
      None \<Rightarrow> Some s
    | Some (index, row) \<Rightarrow>
        let c = st_columns s ! index;
            upper_at = (if bottom then int row else int row - 1)
        in if upper_at < 0 \<or> upper_at \<ge> int (length (cl_windows c)) - 1 then Some s
           else
            (let boxes = row_boxes s c;
                 spot = (if bottom then b_y (boxes ! nat upper_at) + b_h (boxes ! nat upper_at) else b_y (boxes ! (nat upper_at + 1)))
             in map_option (\<lambda>c'. with_column index (\<lambda>_. c') s) (shift_rows s c (nat upper_at) (coordinate - spot))))"

definition reveal :: "nat \<Rightarrow> 'w strip \<Rightarrow> 'w strip" where
  "reveal index s =
    (case column_at_index s (int index) of
      None \<Rightarrow> s
    | Some c \<Rightarrow>
        let left = column_start s index;
            right = left + column_width s c
        in if right - left > view_width s \<or> left < st_offset s then s\<lparr>st_offset := left\<rparr>
           else if right > st_offset s + view_width s then s\<lparr>st_offset := right - view_width s\<rparr>
           else s)"

definition center :: "nat \<Rightarrow> 'w strip \<Rightarrow> 'w strip" where
  "center index s =
    (case column_at_index s (int index) of
      None \<Rightarrow> s
    | Some c \<Rightarrow> s\<lparr>st_offset := math_round (column_start s index + column_width s c / 2 - view_width s / 2)\<rparr>)"

section \<open>Snapping and layout\<close>

definition furthest :: "'w strip \<Rightarrow> number" where
  "furthest s = max 0 (total_width s - view_width s)"

definition snap_candidate :: "'w strip \<Rightarrow> number \<Rightarrow> nat \<Rightarrow> snap \<Rightarrow> number \<Rightarrow> snap" where
  "snap_candidate s offset index best candidate =
    (let distance = \<bar>candidate - offset\<bar> - \<bar>sn_offset best - offset\<bar>
     in if distance < 0 \<or> (distance = 0 \<and> candidate = furthest s \<and> furthest s > 0)
        then \<lparr>sn_offset = candidate, sn_column = index\<rparr> else best)"

definition snap_candidates :: "'w strip \<Rightarrow> nat \<Rightarrow> number list" where
  "snap_candidates s index =
    (let left = column_start s index;
         right = left + column_width s (st_columns s ! index) - view_width s
     in [min (furthest s) (max 0 left), min (furthest s) (max 0 right)])"

definition strip_snap :: "number \<Rightarrow> 'w strip \<Rightarrow> snap" where
  "strip_snap offset s =
    foldl (\<lambda>best index. foldl (snap_candidate s offset index) best (snap_candidates s index))
      \<lparr>sn_offset = 0, sn_column = 0\<rparr> [0 ..< length (st_columns s)]"

fun layout_from :: "'w strip \<Rightarrow> number \<Rightarrow> 'w column list \<Rightarrow> ('w \<times> box) list" where
  "layout_from s x [] = []"
| "layout_from s x (c # cs) =
    (let width = column_width s c
     in zip (cl_windows c) (map (\<lambda>b. b\<lparr>b_x := x, b_w := width\<rparr>) (row_boxes s c)) @
        layout_from s (x + (width + st_gap s)) cs)"

definition strip_layout :: "number \<Rightarrow> 'w strip \<Rightarrow> ('w \<times> box) list" where
  "strip_layout offset s = layout_from s (b_x (st_view s) + st_gap s - offset) (st_columns s)"

end
