(* ===== verification/Tiling_Strip_Facts.thy ===== *)
theory Tiling_Strip_Facts
  imports Tiling_Strip
begin

text \<open>
  The strip's invariant and what each operation of \<open>Tiling_Strip\<close> does to its windows and to the
  focused window.
\<close>

section \<open>The invariant\<close>

definition width_ok :: "number \<Rightarrow> bool" where
  "width_ok w \<longleftrightarrow> MIN_WIDTH \<le> w \<and> w \<le> 1"

definition column_ok :: "'w column \<Rightarrow> bool" where
  "column_ok c \<longleftrightarrow> cl_windows c \<noteq> [] \<and> length (cl_weights c) = length (cl_windows c) \<and> (\<forall>v \<in> set (cl_weights c). 0 < v) \<and>
    cl_row c < length (cl_windows c) \<and> width_ok (cl_width c) \<and> (case cl_restore c of None \<Rightarrow> True | Some w \<Rightarrow> width_ok w)"

definition strip_ok :: "'w strip \<Rightarrow> bool" where
  "strip_ok s \<longleftrightarrow> (\<forall>c \<in> set (st_columns s). column_ok c) \<and> distinct (strip_windows s) \<and>
    (if st_columns s = [] then st_focused s = 0 else st_focused s < length (st_columns s))"

lemma strip_okD:
  assumes "strip_ok s"
  shows "\<And>c. c \<in> set (st_columns s) \<Longrightarrow> column_ok c" and "distinct (strip_windows s)"
    and "st_columns s \<noteq> [] \<Longrightarrow> st_focused s < length (st_columns s)"
  using assms by (auto simp: strip_ok_def)

lemma strip_ok_new: "strip_ok new_strip"
  by (simp add: strip_ok_def new_strip_def strip_windows_def)

lemma width_ok_simps [simp]: "width_ok DEFAULT_WIDTH" "width_ok (width_for s px)" "width_ok 1" "width_ok (min 1 (max MIN_WIDTH v))"
  by (auto simp: width_ok_def DEFAULT_WIDTH_def MIN_WIDTH_def width_for_def)

lemma width_ok_preset [simp]: "width_ok (next_preset v)"
proof -
  have "\<forall>p \<in> set PRESET_WIDTHS. width_ok p" by (simp add: PRESET_WIDTHS_def width_ok_def MIN_WIDTH_def)
  moreover have "next_preset v \<in> set PRESET_WIDTHS"
    by (auto simp: next_preset_def otherwise_def PRESET_WIDTHS_def split: option.split dest!: find_SomeD)
  ultimately show ?thesis by blast
qed

lemma column_ok_single [simp]: "column_ok (single w v) \<longleftrightarrow> width_ok v"
  by (simp add: column_ok_def single_def)

lemma cl_windows_single [simp]: "cl_windows (single w v) = [w]"
  by (simp add: single_def)

section \<open>Columns in the strip\<close>

lemma locate_in_Some:
  "locate_in w cs = Some (i, r) \<Longrightarrow> i < length cs \<and> r < length (cl_windows (cs ! i)) \<and> cl_windows (cs ! i) ! r = w"
  by (induction cs arbitrary: i) (auto split: option.splits dest: index_of_Some)

lemma locate_in_None: "locate_in w cs = None \<longleftrightarrow> w \<notin> set (concat (map cl_windows cs))"
  by (induction cs) (auto split: option.splits dest: index_of_Some)

lemma locate_Some: "locate s w = Some (i, r) \<Longrightarrow>
    i < length (st_columns s) \<and> r < length (cl_windows (st_columns s ! i)) \<and> cl_windows (st_columns s ! i) ! r = w"
  by (simp add: locate_def locate_in_Some)

lemma locate_None: "locate s w = None \<longleftrightarrow> w \<notin> set (strip_windows s)"
  by (simp add: locate_def locate_in_None strip_windows_def)

lemma strip_has_windows: "strip_has s w \<longleftrightarrow> w \<in> set (strip_windows s)"
  by (simp add: strip_has_def locate_None)

lemma strip_split:
  assumes "i < length (st_columns s)"
  obtains us vs where "st_columns s = us @ st_columns s ! i # vs" and "length us = i"
    and "\<And>f. st_columns (with_column i f s) = us @ f (st_columns s ! i) # vs"
proof
  show "st_columns s = take i (st_columns s) @ st_columns s ! i # drop (Suc i) (st_columns s)"
    using assms by (rule id_take_nth_drop)
  show "length (take i (st_columns s)) = i" using assms by simp
  show "st_columns (with_column i f s) = take i (st_columns s) @ f (st_columns s ! i) # drop (Suc i) (st_columns s)" for f
    using assms by (simp add: with_column_def upd_conv_take_nth_drop)
qed

lemma with_column_frame [simp]:
  "st_focused (with_column i f s) = st_focused s" "st_offset (with_column i f s) = st_offset s"
  "st_view (with_column i f s) = st_view s" "st_gap (with_column i f s) = st_gap s"
  "length (st_columns (with_column i f s)) = length (st_columns s)"
  by (simp_all add: with_column_def)

lemma with_column_nth: "i < length (st_columns s) \<Longrightarrow>
    st_columns (with_column i f s) ! j = (if j = i then f (st_columns s ! i) else st_columns s ! j)"
  by (simp add: with_column_def nth_list_update)

lemma column_at_index_focused: "strip_ok s \<Longrightarrow>
    column_at_index s (int (st_focused s)) = (if st_columns s = [] then None else Some (st_columns s ! st_focused s))"
  by (simp add: column_at_index_def nth_opt_def strip_ok_def)

lemma row_window_row: "column_ok c \<Longrightarrow> row_window c (int (cl_row c)) = Some (cl_windows c ! cl_row c)"
  by (simp add: row_window_def column_ok_def)

lemma focused_window_ok: "strip_ok s \<Longrightarrow>
    focused_window s = (if st_columns s = [] then None
      else Some (cl_windows (st_columns s ! st_focused s) ! cl_row (st_columns s ! st_focused s)))"
  using strip_okD [of s] by (simp add: focused_window_def column_at_index_focused row_window_row)

lemma column_window: "c \<in> set (st_columns s) \<Longrightarrow> w \<in> set (cl_windows c) \<Longrightarrow> w \<in> set (strip_windows s)"
  by (auto simp: strip_windows_def)

lemma focused_window_mem:
  assumes "strip_ok s" "focused_window s = Some w"
  shows "w \<in> set (strip_windows s)"
proof -
  let ?c = "st_columns s ! st_focused s"
  have ne: "st_columns s \<noteq> []" and w: "w = cl_windows ?c ! cl_row ?c"
    using assms by (auto simp: focused_window_ok split: if_splits)
  have c: "?c \<in> set (st_columns s)" using strip_okD(3) [OF assms(1) ne] by simp
  then have "column_ok ?c" by (rule strip_okD(1) [OF assms(1)])
  then show ?thesis using column_window [OF c] w by (simp add: column_ok_def)
qed

lemma focused_window_None:
  assumes "strip_ok s"
  shows "focused_window s = None \<longleftrightarrow> strip_windows s = []"
proof
  assume "focused_window s = None"
  then have "st_columns s = []" using assms by (simp add: focused_window_ok split: if_splits)
  then show "strip_windows s = []" by (simp add: strip_windows_def)
next
  assume "strip_windows s = []"
  then show "focused_window s = None" using focused_window_mem [OF assms] by (cases "focused_window s") auto
qed

text \<open>Changing a column in a way that keeps its windows keeps those of the strip.\<close>

lemma with_column_windows:
  assumes "i < length (st_columns s)"
  shows "\<exists>us vs. strip_windows s = us @ cl_windows (st_columns s ! i) @ vs \<and>
    (\<forall>f. strip_windows (with_column i f s) = us @ cl_windows (f (st_columns s ! i)) @ vs)"
proof -
  obtain us vs where u: "st_columns s = us @ st_columns s ! i # vs" "\<And>f. st_columns (with_column i f s) = us @ f (st_columns s ! i) # vs"
    using strip_split [OF assms] by metis
  have "strip_windows s = concat (map cl_windows us) @ cl_windows (st_columns s ! i) @ concat (map cl_windows vs)"
    unfolding strip_windows_def by (subst u(1)) simp
  moreover have "strip_windows (with_column i f s) = concat (map cl_windows us) @ cl_windows (f (st_columns s ! i)) @ concat (map cl_windows vs)" for f
    unfolding strip_windows_def u(2) by simp
  ultimately show ?thesis by blast
qed

lemma with_column_keeps:
  assumes "strip_ok s" "i < length (st_columns s)" "cl_windows (f (st_columns s ! i)) = cl_windows (st_columns s ! i)"
    and "column_ok (f (st_columns s ! i))"
  shows "strip_ok (with_column i f s)" and "strip_windows (with_column i f s) = strip_windows s"
proof -
  show w: "strip_windows (with_column i f s) = strip_windows s"
    using with_column_windows [OF assms(2)] assms(3) by metis
  have "set (st_columns (with_column i f s)) \<subseteq> insert (f (st_columns s ! i)) (set (st_columns s))"
    by (simp add: with_column_def set_update_subset_insert)
  then have "\<forall>c \<in> set (st_columns (with_column i f s)). column_ok c" using assms(1,4) strip_okD(1) by blast
  moreover have "st_columns (with_column i f s) = [] \<longleftrightarrow> st_columns s = []" by (simp add: with_column_def)
  ultimately show "strip_ok (with_column i f s)" using assms(1) unfolding strip_ok_def w by (simp split: if_splits)
qed

lemma focused_column_keeps:
  assumes "strip_ok s" "\<And>c. column_ok c \<Longrightarrow> column_ok (f c) \<and> cl_windows (f c) = cl_windows c \<and> cl_row (f c) = cl_row c"
  shows "strip_ok (focused_column f s)" and "strip_windows (focused_column f s) = strip_windows s"
    and "focused_window (focused_column f s) = focused_window s"
proof -
  have "strip_ok (focused_column f s) \<and> strip_windows (focused_column f s) = strip_windows s \<and>
      focused_window (focused_column f s) = focused_window s"
  proof (cases "st_columns s = []")
    case False
    let ?c = "st_columns s ! st_focused s"
    have i: "st_focused s < length (st_columns s)" using strip_okD(3) [OF assms(1) False] .
    have ok: "column_ok ?c" using strip_okD(1) [OF assms(1)] i by simp
    have eq: "focused_column f s = with_column (st_focused s) f s"
      using False by (simp add: focused_column_def column_at_index_focused [OF assms(1)])
    note k = with_column_keeps [OF assms(1) i, of f] and f = assms(2) [OF ok]
    have "focused_window (with_column (st_focused s) f s) = focused_window s"
      using k f False by (simp add: focused_window_ok assms(1) with_column_nth [OF i] del: length_greater_0_conv)
        (metis list.size(3) with_column_frame(5) length_0_conv)
    then show ?thesis using k f by (simp add: eq)
  qed (use assms(1) in \<open>simp add: focused_column_def column_at_index_focused\<close>)
  then show "strip_ok (focused_column f s)" and "strip_windows (focused_column f s) = strip_windows s"
    and "focused_window (focused_column f s) = focused_window s" by blast+
qed

section \<open>Operations that keep the windows where they are\<close>

lemma focus_ok:
  assumes "strip_ok s"
  shows "strip_ok (snd (strip_focus w s))" and "strip_windows (snd (strip_focus w s)) = strip_windows s"
    and "fst (strip_focus w s) \<longleftrightarrow> w \<in> set (strip_windows s)"
    and "w \<in> set (strip_windows s) \<Longrightarrow> focused_window (snd (strip_focus w s)) = Some w"
proof -
  show "fst (strip_focus w s) \<longleftrightarrow> w \<in> set (strip_windows s)"
    using locate_None [of s w] by (auto simp: strip_focus_def split: option.splits)
  have "strip_ok (snd (strip_focus w s)) \<and> strip_windows (snd (strip_focus w s)) = strip_windows s \<and>
      (w \<in> set (strip_windows s) \<longrightarrow> focused_window (snd (strip_focus w s)) = Some w)"
  proof (cases "locate s w")
    case None
    then show ?thesis using assms locate_None [of s w] by (simp add: strip_focus_def)
  next
    case (Some p)
    then obtain i r where p: "locate s w = Some (i, r)" by (cases p) auto
    note l = locate_Some [OF p]
    have s1: "strip_ok (s\<lparr>st_focused := i\<rparr>)" using assms l by (auto simp: strip_ok_def strip_windows_def)
    have c: "column_ok (st_columns s ! i)" using strip_okD(1) [OF assms] l by simp
    let ?f = "\<lambda>c. c\<lparr>cl_row := r\<rparr>"
    have eq: "snd (strip_focus w s) = with_column i ?f (s\<lparr>st_focused := i\<rparr>)" by (simp add: strip_focus_def p)
    have k: "strip_ok (snd (strip_focus w s))" "strip_windows (snd (strip_focus w s)) = strip_windows (s\<lparr>st_focused := i\<rparr>)"
      unfolding eq by (rule with_column_keeps [OF s1]; use l c in \<open>simp add: column_ok_def\<close>)+
    have "st_columns (snd (strip_focus w s)) ! i = (st_columns s ! i)\<lparr>cl_row := r\<rparr>" "st_focused (snd (strip_focus w s)) = i"
      "st_columns (snd (strip_focus w s)) \<noteq> []"
      unfolding eq using l by (auto simp: with_column_def)
    then have "focused_window (snd (strip_focus w s)) = Some w" using l by (simp add: focused_window_ok [OF k(1)])
    with k show ?thesis by (simp add: strip_windows_def)
  qed
  then show "strip_ok (snd (strip_focus w s))" "strip_windows (snd (strip_focus w s)) = strip_windows s"
    "w \<in> set (strip_windows s) \<Longrightarrow> focused_window (snd (strip_focus w s)) = Some w" by blast+
qed

lemma cycle_width_ok:
  assumes "strip_ok s"
  shows "strip_ok (cycle_width s)" "strip_windows (cycle_width s) = strip_windows s" "focused_window (cycle_width s) = focused_window s"
  unfolding cycle_width_def by (rule focused_column_keeps [OF assms]; simp add: column_ok_def)+

lemma column_ok_maximized: "column_ok c \<Longrightarrow> column_ok (maximized c)"
  by (auto simp: column_ok_def maximized_def otherwise_def split: option.splits)

lemma maximize_ok:
  assumes "strip_ok s"
  shows "strip_ok (maximize s)" "strip_windows (maximize s) = strip_windows s" "focused_window (maximize s) = focused_window s"
  unfolding maximize_def by (rule focused_column_keeps [OF assms]; auto simp: column_ok_maximized, auto simp: maximized_def)+

lemma resize_width_ok:
  assumes "strip_ok s"
  shows "strip_ok (resize_width d s)" "strip_windows (resize_width d s) = strip_windows s"
    "focused_window (resize_width d s) = focused_window s"
  unfolding resize_width_def by (rule focused_column_keeps [OF assms]; simp add: column_ok_def)+

lemma strip_ok_scroll: "strip_ok (s\<lparr>st_offset := v\<rparr>) = strip_ok s" "strip_windows (s\<lparr>st_offset := v\<rparr>) = strip_windows s"
  "focused_window (s\<lparr>st_offset := v\<rparr>) = focused_window s"
  by (simp_all add: strip_ok_def strip_windows_def focused_window_def column_at_index_def)

lemma strip_ok_view: "strip_ok (set_view v g s) = strip_ok s" "strip_windows (set_view v g s) = strip_windows s"
  "focused_window (set_view v g s) = focused_window s"
  by (simp_all add: strip_ok_def strip_windows_def focused_window_def column_at_index_def set_view_def)

lemma expand_ok:
  assumes "strip_ok s"
  shows "strip_ok (expand s)" "strip_windows (expand s) = strip_windows s" "focused_window (expand s) = focused_window s"
proof -
  let ?f = "\<lambda>c. c\<lparr>cl_restore := None, cl_width := width_for s (view_width s -
    sum_list (map (\<lambda>index. column_width s (st_columns s ! index) + st_gap s) (shown_beside s)))\<rparr>"
  have eq: "\<exists>v. expand s = (focused_column ?f s)\<lparr>st_offset := v\<rparr> \<or> expand s = s"
    using assms by (auto simp: expand_def focused_column_def column_at_index_focused Let_def)
  have "strip_ok (focused_column ?f s) \<and> strip_windows (focused_column ?f s) = strip_windows s \<and>
      focused_window (focused_column ?f s) = focused_window s"
    using focused_column_keeps [OF assms, of ?f] by (simp add: column_ok_def)
  then show "strip_ok (expand s)" "strip_windows (expand s) = strip_windows s" "focused_window (expand s) = focused_window s"
    using eq assms strip_ok_scroll by metis+
qed

lemma set_width_ok:
  assumes "strip_ok s"
  shows "strip_ok (set_width w px s)" "strip_windows (set_width w px s) = strip_windows s"
proof -
  have "strip_ok (set_width w px s) \<and> strip_windows (set_width w px s) = strip_windows s"
  proof (cases "locate s w")
    case (Some p)
    then obtain i r where p: "locate s w = Some (i, r)" by (cases p) auto
    have c: "column_ok (st_columns s ! i)" using strip_okD(1) [OF assms] locate_Some [OF p] by simp
    show ?thesis unfolding set_width_def p
      using with_column_keeps [OF assms, of i "\<lambda>c. c\<lparr>cl_width := width_for s px\<rparr>"] locate_Some [OF p] c by (simp add: column_ok_def)
  qed (use assms in \<open>simp add: set_width_def\<close>)
  then show "strip_ok (set_width w px s)" "strip_windows (set_width w px s) = strip_windows s" by blast+
qed

lemma reveal_scrolls: "\<exists>v. reveal i s = s\<lparr>st_offset := v\<rparr>"
proof -
  have "\<exists>v. s = s\<lparr>st_offset := v\<rparr>" by (rule exI [of _ "st_offset s"]) simp
  then show ?thesis unfolding reveal_def Let_def by (auto split: option.split)
qed

lemma center_scrolls: "\<exists>v. center i s = s\<lparr>st_offset := v\<rparr>"
proof -
  have "\<exists>v. s = s\<lparr>st_offset := v\<rparr>" by (rule exI [of _ "st_offset s"]) simp
  then show ?thesis unfolding center_def by (auto split: option.split)
qed

lemma clamp_offset_keeps: "strip_ok (clamp_offset s) = strip_ok s" "strip_windows (clamp_offset s) = strip_windows s"
  "focused_window (clamp_offset s) = focused_window s"
  by (simp_all add: clamp_offset_def strip_ok_scroll)

end
