(* ===== verification/Tiling_Strip_Moves.thy ===== *)
theory Tiling_Strip_Moves
  imports Tiling_Strip_Facts
begin

text \<open>
  The operations of the strip that move windows: adding, removing, moving and stacking columns and
  rows.  Each keeps the invariant, changes the windows as it should and, where it moves the focused
  window, keeps the focus on it.
\<close>

section \<open>The windows as a multiset\<close>

lemma mset_strip_windows: "mset (strip_windows s) = (\<Sum>c \<in># mset (st_columns s). mset (cl_windows c))"
proof -
  have "mset (concat (map cl_windows cs)) = (\<Sum>c \<in># mset cs. mset (cl_windows c))" for cs :: "'a column list"
    by (induction cs) auto
  then show ?thesis by (simp add: strip_windows_def)
qed

lemma strip_ok_mset:
  assumes "strip_ok s" "mset (st_columns t) = mset (st_columns s)" "st_columns s \<noteq> [] \<Longrightarrow> st_focused t < length (st_columns s)"
    and "st_columns s = [] \<Longrightarrow> st_focused t = 0"
  shows "strip_ok t" and "mset (strip_windows t) = mset (strip_windows s)"
proof -
  show w: "mset (strip_windows t) = mset (strip_windows s)" by (simp add: mset_strip_windows assms(2))
  have "set (st_columns t) = set (st_columns s)" "length (st_columns t) = length (st_columns s)"
    using assms(2) by (metis set_mset_mset, metis size_mset)
  moreover have "distinct (strip_windows t)" using strip_okD(2) [OF assms(1)] mset_eq_imp_distinct_iff [OF w] by simp
  ultimately show "strip_ok t" using assms(1,3,4) unfolding strip_ok_def by (metis length_0_conv)
qed

lemma mset_swap_at: "i < length xs \<Longrightarrow> j < length xs \<Longrightarrow> mset (swap_at i j xs) = mset xs"
  unfolding swap_at_def by (rule mset_swap)

lemma swap_at_nth: "i < length xs \<Longrightarrow> j < length xs \<Longrightarrow> swap_at i j xs ! j = xs ! i"
  by (simp add: swap_at_def)

lemma length_swap_at [simp]: "length (swap_at i j xs) = length xs"
  by (simp add: swap_at_def)

section \<open>Adding\<close>

lemma strip_add_ok:
  assumes "strip_ok s" "w \<notin> set (strip_windows s)"
  shows "strip_ok (strip_add w b s)" and "set (strip_windows (strip_add w b s)) = insert w (set (strip_windows s))"
    and "focused_window (strip_add w b s) = Some w"
proof -
  let ?i = "if b \<and> st_columns s \<noteq> [] then st_focused s + 1 else length (st_columns s)"
  have i: "?i \<le> length (st_columns s)" using strip_okD(3) [OF assms(1)] by auto
  have eq: "st_columns (strip_add w b s) = splice_in ?i (single w DEFAULT_WIDTH) (st_columns s)" "st_focused (strip_add w b s) = ?i"
    by (simp_all add: strip_add_def Let_def)
  have m: "mset (strip_windows (strip_add w b s)) = add_mset w (mset (strip_windows s))"
    by (simp add: mset_strip_windows eq(1))
  then show ws: "set (strip_windows (strip_add w b s)) = insert w (set (strip_windows s))"
    by (metis set_mset_add_mset_insert set_mset_mset)
  have d: "distinct (strip_windows (strip_add w b s))"
    using assms strip_okD(2) [OF assms(1)] m by (metis distinct.simps(2) mset.simps(2) mset_eq_imp_distinct_iff)
  have "\<forall>c \<in> set (st_columns (strip_add w b s)). column_ok c" using strip_okD(1) [OF assms(1)] by (auto simp: eq(1))
  with d i show ok: "strip_ok (strip_add w b s)" by (auto simp: strip_ok_def eq splice_in_def)
  have "st_columns (strip_add w b s) ! ?i = single w DEFAULT_WIDTH" using i by (simp add: eq(1) nth_splice_in)
  moreover have "st_columns (strip_add w b s) \<noteq> []" by (simp add: eq(1) splice_in_def)
  ultimately show "focused_window (strip_add w b s) = Some w"
    by (simp add: focused_window_ok [OF ok] eq(2) single_def)
qed

section \<open>Removing\<close>

lemma without_row_ok:
  assumes "column_ok c" "row < length (cl_windows c)" "length (cl_windows c) > 1"
  shows "column_ok (without_row row c)"
proof -
  have "set (splice_out row (cl_weights c)) \<subseteq> set (cl_weights c)" by (rule set_splice_out_subset)
  moreover have "splice_out row (cl_windows c) \<noteq> []" using assms by (metis One_nat_def length_greater_0_conv length_splice_out zero_less_diff)
  ultimately show ?thesis using assms by (auto simp: column_ok_def without_row_def min_def)
qed

lemma filter_absent_id: "w \<notin> set ws \<Longrightarrow> filter (\<lambda>v. v \<noteq> w) ws = ws"
  by (induction ws) auto

lemma splice_out_filter:
  "distinct xs \<Longrightarrow> i < length xs \<Longrightarrow> splice_out i xs = filter (\<lambda>x. x \<noteq> xs ! i) xs"
proof -
  assume d: "distinct xs" and i: "i < length xs"
  have x: "xs = take i xs @ xs ! i # drop (Suc i) xs" using i by (rule id_take_nth_drop)
  then have "xs ! i \<notin> set (take i xs)" "xs ! i \<notin> set (drop (Suc i) xs)" using d by (metis distinct_append distinct.simps(2) disjoint_iff list.set_intros(1))+
  then have "filter (\<lambda>v. v \<noteq> xs ! i) (take i xs @ xs ! i # drop (Suc i) xs) = take i xs @ drop (Suc i) xs"
    by (simp add: filter_absent_id)
  then show ?thesis unfolding splice_out_def using x by metis
qed

lemma without_row_windows:
  assumes "strip_ok s" "locate s w = Some (i, r)"
  shows "strip_windows (with_column i (without_row r) s) = filter (\<lambda>v. v \<noteq> w) (strip_windows s)"
proof -
  note l = locate_Some [OF assms(2)]
  obtain us vs where u: "strip_windows s = us @ cl_windows (st_columns s ! i) @ vs"
    "\<And>f. strip_windows (with_column i f s) = us @ cl_windows (f (st_columns s ! i)) @ vs"
    using with_column_windows [of i s] l by blast
  have d: "distinct (cl_windows (st_columns s ! i))" "w \<notin> set us" "w \<notin> set vs"
    using strip_okD(2) [OF assms(1)] l unfolding u(1) by (auto dest: nth_mem)
  have "splice_out r (cl_windows (st_columns s ! i)) = filter (\<lambda>v. v \<noteq> w) (cl_windows (st_columns s ! i))"
    using splice_out_filter [OF d(1), of r] l by simp
  then show ?thesis by (simp add: u(2)) (simp add: u(1) without_row_def filter_absent_id d)
qed

text \<open>What \<open>strip_remove\<close> leaves of a column with one window, and of one with more.\<close>

lemma strip_remove_cases:
  assumes "strip_ok s" "locate s w = Some (i, r)"
  shows "length (cl_windows (st_columns s ! i)) > 1 \<Longrightarrow> strip_remove w s = with_column i (without_row r) s"
    and "length (cl_windows (st_columns s ! i)) \<le> 1 \<Longrightarrow> \<exists>v. strip_remove w s =
      s\<lparr>st_columns := splice_out i (st_columns s),
        st_focused := (if i < st_focused s \<or> st_focused s = length (st_columns s) - 1 then st_focused s - 1 else st_focused s),
        st_offset := v\<rparr>"
proof -
  note l = locate_Some [OF assms(2)]
  let ?c = "st_columns s ! i"
  let ?s1 = "with_column i (without_row r) s"
  have c1: "cl_windows (st_columns ?s1 ! i) = splice_out r (cl_windows ?c)"
    using l by (simp add: with_column_nth without_row_def)
  have len: "length (cl_windows (st_columns ?s1 ! i)) = length (cl_windows ?c) - 1" unfolding c1 using l by simp
  have f: "st_focused s < length (st_columns s)" using strip_okD(3) [OF assms(1)] l by fastforce
  {
    assume "length (cl_windows ?c) > 1"
    then have "cl_windows (st_columns ?s1 ! i) \<noteq> []" using len by auto
    then show "strip_remove w s = ?s1" using assms(2) by (simp add: strip_remove_def)
  next
    assume "length (cl_windows ?c) \<le> 1"
    then have e: "cl_windows (st_columns ?s1 ! i) = []" using len by simp
    have "splice_out i (st_columns ?s1) = splice_out i (st_columns s)"
      using l by (simp add: splice_out_def with_column_def)
    moreover have "length (splice_out i (st_columns s)) = length (st_columns s) - 1" using l by simp
    moreover have "length (st_columns s) - 1 \<le> st_focused s \<longleftrightarrow> st_focused s = length (st_columns s) - 1" using f by linarith
    ultimately show "\<exists>v. strip_remove w s = s\<lparr>st_columns := splice_out i (st_columns s),
        st_focused := (if i < st_focused s \<or> st_focused s = length (st_columns s) - 1 then st_focused s - 1 else st_focused s),
        st_offset := v\<rparr>"
      using assms(2) e by (auto simp: strip_remove_def Let_def clamp_offset_def with_column_def)
  }
qed

lemma strip_remove_ok:
  assumes "strip_ok s"
  shows "strip_ok (strip_remove w s)" and "strip_windows (strip_remove w s) = filter (\<lambda>v. v \<noteq> w) (strip_windows s)"
proof -
  have "strip_ok (strip_remove w s) \<and> strip_windows (strip_remove w s) = filter (\<lambda>v. v \<noteq> w) (strip_windows s)"
  proof (cases "locate s w")
    case None
    then show ?thesis using assms locate_None [of s w] by (simp add: strip_remove_def filter_absent_id)
  next
    case (Some p)
    then obtain i r where p: "locate s w = Some (i, r)" by (cases p) auto
    note l = locate_Some [OF p] and ww = without_row_windows [OF assms p]
    let ?c = "st_columns s ! i"
    have c: "column_ok ?c" using strip_okD(1) [OF assms] l by simp
    have d: "distinct (filter (\<lambda>v. v \<noteq> w) (strip_windows s))" using strip_okD(2) [OF assms] by simp
    show ?thesis
    proof (cases "length (cl_windows ?c) > 1")
      case True
      have "set (st_columns (with_column i (without_row r) s)) \<subseteq> insert (without_row r ?c) (set (st_columns s))"
        by (simp add: with_column_def set_update_subset_insert)
      then have "\<forall>c \<in> set (st_columns (with_column i (without_row r) s)). column_ok c"
        using strip_okD(1) [OF assms] without_row_ok [OF c _ True] l by blast
      moreover have "st_columns (with_column i (without_row r) s) \<noteq> []" "st_columns s \<noteq> []" using l by (auto simp: with_column_def)
      ultimately have "strip_ok (with_column i (without_row r) s)"
        using d strip_okD(3) [OF assms] unfolding strip_ok_def ww by simp
      then show ?thesis using ww by (simp add: strip_remove_cases(1) [OF assms p True])
    next
      case False
      obtain v where v: "strip_remove w s = s\<lparr>st_columns := splice_out i (st_columns s),
          st_focused := (if i < st_focused s \<or> st_focused s = length (st_columns s) - 1 then st_focused s - 1 else st_focused s),
          st_offset := v\<rparr>"
        using strip_remove_cases(2) [OF assms p] False by auto
      have w: "cl_windows (without_row r ?c) = []" using False l by (simp add: without_row_def splice_out_def)
      have "strip_windows (with_column i (without_row r) s) = concat (map cl_windows (splice_out i (st_columns s)))"
        unfolding strip_windows_def with_column_def using l w by (simp add: upd_conv_take_nth_drop splice_out_def)
      then have ws: "strip_windows (strip_remove w s) = filter (\<lambda>v. v \<noteq> w) (strip_windows s)"
        unfolding v ww [symmetric] by (simp add: strip_windows_def)
      have "st_focused s < length (st_columns s)" using strip_okD(3) [OF assms] l by fastforce
      then have "strip_ok (strip_remove w s)"
        using d strip_okD(1) [OF assms] set_splice_out_subset [of i "st_columns s"] l
        unfolding strip_ok_def ws unfolding v by (auto simp del: length_0_conv simp: length_0_conv [symmetric])
      with ws show ?thesis by blast
    qed
  qed
  then show "strip_ok (strip_remove w s)" "strip_windows (strip_remove w s) = filter (\<lambda>v. v \<noteq> w) (strip_windows s)" by blast+
qed

text \<open>
  The focus stays where it is when another window leaves, unless that window is above the focused
  one in its column: the source keeps the row's number.
\<close>

lemma strip_remove_focus:
  assumes ok: "strip_ok s" and f: "focused_window s = Some f" "f \<noteq> w"
    and below: "\<And>r. locate s w = Some (st_focused s, r) \<Longrightarrow> cl_row (st_columns s ! st_focused s) < r"
  shows "focused_window (strip_remove w s) = Some f"
proof (cases "locate s w")
  case None
  then show ?thesis using f by (simp add: strip_remove_def)
next
  case (Some p)
  then obtain i r where p: "locate s w = Some (i, r)" by (cases p) auto
  note l = locate_Some [OF p]
  let ?k = "st_focused s"
  have ne: "st_columns s \<noteq> []" using l by auto
  have k: "?k < length (st_columns s)" and fw: "f = cl_windows (st_columns s ! ?k) ! cl_row (st_columns s ! ?k)"
    using strip_okD(3) [OF ok ne] f(1) ne by (simp_all add: focused_window_ok [OF ok])
  have c: "column_ok (st_columns s ! ?k)" using strip_okD(1) [OF ok] k by simp
  show ?thesis
  proof (cases "length (cl_windows (st_columns s ! i)) > 1")
    case True
    have ok2: "strip_ok (with_column i (without_row r) s)"
      using strip_remove_ok(1) [OF ok, of w] strip_remove_cases(1) [OF ok p True] by simp
    have ne2: "st_columns (with_column i (without_row r) s) \<noteq> []" using ne by (simp add: with_column_def)
    have "focused_window (with_column i (without_row r) s) = Some f"
    proof (cases "i = ?k")
      case False
      then show ?thesis using ne2 l by (simp add: focused_window_ok [OF ok2] with_column_nth fw)
    next
      case same: True
      then have "cl_row (st_columns s ! ?k) < r" using below p by simp
      then have "min (cl_row (st_columns s ! ?k)) (length (cl_windows (st_columns s ! ?k)) - 2) = cl_row (st_columns s ! ?k)"
        "cl_row (st_columns s ! ?k) < length (cl_windows (st_columns s ! ?k)) - 1" using l same by auto
      then show ?thesis using ne2 l same \<open>cl_row (st_columns s ! ?k) < r\<close>
        by (simp add: focused_window_ok [OF ok2 [unfolded same]] with_column_nth fw without_row_def nth_splice_out)
    qed
    then show ?thesis by (simp add: strip_remove_cases(1) [OF ok p True])
  next
    case False
    obtain v where v: "strip_remove w s = s\<lparr>st_columns := splice_out i (st_columns s),
        st_focused := (if i < st_focused s \<or> st_focused s = length (st_columns s) - 1 then st_focused s - 1 else st_focused s),
        st_offset := v\<rparr>"
      using strip_remove_cases(2) [OF ok p] False by auto
    have "i \<noteq> ?k" using False below [of r] l p by auto
    then have "focused_window (s\<lparr>st_columns := splice_out i (st_columns s),
        st_focused := (if i < st_focused s \<or> st_focused s = length (st_columns s) - 1 then st_focused s - 1 else st_focused s),
        st_offset := v\<rparr>) = focused_window s"
      using k l ne c unfolding focused_window_def column_at_index_def
      by (auto simp: nth_opt_def nth_splice_out of_nat_diff)
    with f(1) v show ?thesis by simp
  qed
qed

section \<open>Moving columns and rows\<close>

lemma move_column_ok:
  assumes "strip_ok s" "move_column d s = (moved, t)"
  shows "strip_ok t" and "mset (strip_windows t) = mset (strip_windows s)" and "focused_window t = focused_window s"
    and "moved \<longleftrightarrow> column_at_index s (int (st_focused s) + d) \<noteq> None"
proof -
  let ?target = "int (st_focused s) + d"
  show "moved \<longleftrightarrow> column_at_index s ?target \<noteq> None"
    using assms(2) by (auto simp: move_column_def Let_def column_at_index_def nth_opt_def split: if_splits)
  have "strip_ok t \<and> mset (strip_windows t) = mset (strip_windows s) \<and> focused_window t = focused_window s"
  proof (cases "?target < 0 \<or> ?target \<ge> int (length (st_columns s))")
    case False
    then obtain j where tj: "?target = int j" by (metis nonneg_int_cases not_less)
    have t: "t = s\<lparr>st_columns := swap_at (st_focused s) j (st_columns s), st_focused := j\<rparr>"
      and j: "j < length (st_columns s)" using assms(2) False unfolding move_column_def tj by (simp_all add: Let_def)
    then have i: "st_focused s < length (st_columns s)" using strip_okD(3) [OF assms(1)] by (cases "st_columns s") auto
    have "strip_ok t" "mset (strip_windows t) = mset (strip_windows s)"
      by (rule strip_ok_mset [OF assms(1)]; use i j in \<open>auto simp: t mset_swap_at\<close>)+
    moreover have "focused_window t = focused_window s"
      using i j by (simp add: t focused_window_def column_at_index_def swap_at_nth)
    ultimately show ?thesis by blast
  qed (use assms in \<open>auto simp: move_column_def Let_def\<close>)
  then show "strip_ok t" "mset (strip_windows t) = mset (strip_windows s)" "focused_window t = focused_window s" by blast+
qed

lemma move_column_to_edge_ok:
  assumes "strip_ok s" "move_column_to_edge at_end s = (moved, t)"
  shows "strip_ok t" and "mset (strip_windows t) = mset (strip_windows s)" and "focused_window t = focused_window s"
    and "st_columns s \<noteq> [] \<Longrightarrow> edge at_end t = focused_window s"
proof -
  let ?target = "if at_end then length (st_columns s) - 1 else 0"
  have "strip_ok t \<and> mset (strip_windows t) = mset (strip_windows s) \<and> focused_window t = focused_window s \<and>
      (st_columns s \<noteq> [] \<longrightarrow> st_focused t = ?target \<and> length (st_columns t) = length (st_columns s))"
  proof (cases "st_columns s = [] \<or> ?target = st_focused s")
    case False
    let ?c = "st_columns s ! st_focused s"
    have t: "t = s\<lparr>st_columns := splice_in ?target ?c (splice_out (st_focused s) (st_columns s)), st_focused := ?target\<rparr>"
      using assms(2) False by (auto simp: move_column_to_edge_def Let_def split: if_splits)
    have i: "st_focused s < length (st_columns s)" using strip_okD(3) [OF assms(1)] False by simp
    have m: "mset (st_columns t) = mset (st_columns s)" using mset_splice_out [OF i] by (simp add: t)
    have len: "length (st_columns t) = length (st_columns s)" using mset_eq_length [OF m] .
    have "strip_ok t" "mset (strip_windows t) = mset (strip_windows s)"
      by (rule strip_ok_mset [OF assms(1) m]; use False in \<open>simp add: t\<close>)+
    moreover have "st_columns t ! ?target = ?c" using i by (simp add: t nth_splice_in)
    then have "column_at_index t (int ?target) = Some ?c" using False len by (simp add: column_at_index_def nth_opt_def)
    then have "focused_window t = focused_window s"
      using i by (simp add: focused_window_def t column_at_index_def)
    ultimately show ?thesis using len by (simp add: t)
  qed (use assms in \<open>auto simp: move_column_to_edge_def Let_def\<close>)
  then show "strip_ok t" "mset (strip_windows t) = mset (strip_windows s)" "focused_window t = focused_window s"
    and "st_columns s \<noteq> [] \<Longrightarrow> edge at_end t = focused_window s"
    by (auto simp: edge_def focused_window_def of_nat_diff Suc_le_eq split: if_splits)
qed

lemma mset_columns_update:
  assumes "i < length (st_columns s)" "mset (cl_windows (f (st_columns s ! i))) = mset (cl_windows (st_columns s ! i))"
  shows "mset (strip_windows (with_column i f s)) = mset (strip_windows s)"
  using with_column_windows [OF assms(1)] assms(2) by fastforce

lemma with_column_permuted:
  assumes "strip_ok s" "i < length (st_columns s)" "mset (cl_windows (f (st_columns s ! i))) = mset (cl_windows (st_columns s ! i))"
    and "column_ok (f (st_columns s ! i))"
  shows "strip_ok (with_column i f s)" and "mset (strip_windows (with_column i f s)) = mset (strip_windows s)"
proof -
  show w: "mset (strip_windows (with_column i f s)) = mset (strip_windows s)" by (rule mset_columns_update [where f = f, OF assms(2,3)])
  have "set (st_columns (with_column i f s)) \<subseteq> insert (f (st_columns s ! i)) (set (st_columns s))"
    by (simp add: with_column_def set_update_subset_insert)
  then have "\<forall>c \<in> set (st_columns (with_column i f s)). column_ok c" using assms(1,4) strip_okD(1) by blast
  moreover have "st_columns (with_column i f s) = [] \<longleftrightarrow> st_columns s = []" by (simp add: with_column_def)
  moreover have "distinct (strip_windows (with_column i f s))"
    using strip_okD(2) [OF assms(1)] mset_eq_imp_distinct_iff [OF w] by simp
  ultimately show "strip_ok (with_column i f s)" using assms(1) unfolding strip_ok_def by (simp split: if_splits)
qed

lemma move_row_ok:
  assumes "strip_ok s" "move_row d s = (moved, t)"
  shows "strip_ok t" and "mset (strip_windows t) = mset (strip_windows s)" and "focused_window t = focused_window s"
    and "map (mset \<circ> cl_windows) (st_columns t) = map (mset \<circ> cl_windows) (st_columns s)"
proof -
  have "strip_ok t \<and> mset (strip_windows t) = mset (strip_windows s) \<and> focused_window t = focused_window s \<and>
      map (mset \<circ> cl_windows) (st_columns t) = map (mset \<circ> cl_windows) (st_columns s)"
  proof (cases "moved")
    case True
    then have ne: "st_columns s \<noteq> []" using assms by (auto simp: move_row_def column_at_index_focused)
    let ?c = "st_columns s ! st_focused s"
    let ?j = "nat (int (cl_row ?c) + d)"
    let ?f = "\<lambda>c. c\<lparr>cl_windows := swap_at (cl_row c) ?j (cl_windows c), cl_weights := swap_at (cl_row c) ?j (cl_weights c), cl_row := ?j\<rparr>"
    have i: "st_focused s < length (st_columns s)" using strip_okD(3) [OF assms(1) ne] .
    have c: "column_ok ?c" using strip_okD(1) [OF assms(1)] i by simp
    have t: "t = with_column (st_focused s) ?f s" and j: "?j < length (cl_windows ?c)"
      using assms True ne by (auto simp: move_row_def column_at_index_focused Let_def with_column_def split: if_splits)
    have r: "cl_row ?c < length (cl_windows ?c)" "length (cl_weights ?c) = length (cl_windows ?c)" using c by (simp_all add: column_ok_def)
    have m: "mset (cl_windows (?f ?c)) = mset (cl_windows ?c)" using r j by (simp add: mset_swap_at)
    have "set (swap_at (cl_row ?c) ?j (cl_weights ?c)) = set (cl_weights ?c)"
      using mset_swap_at [of "cl_row ?c" "cl_weights ?c" ?j] r j by (metis set_mset_mset)
    then have ok: "column_ok (?f ?c)" using c j by (simp add: column_ok_def) (metis length_0_conv length_swap_at)
    note p = with_column_permuted [where f = ?f, OF assms(1) i m ok]
    have "focused_window t = focused_window s"
      using p(1) ne r j by (simp add: focused_window_ok [OF assms(1)] t focused_window_ok with_column_nth [OF i] swap_at_nth)
        (simp add: with_column_def)
    moreover have "map (mset \<circ> cl_windows) (st_columns t) = map (mset \<circ> cl_windows) (st_columns s)"
      unfolding t with_column_def using i m by (simp add: map_update) (metis (no_types, lifting) comp_apply list_update_id map_update nth_map)
    ultimately show ?thesis using p by (simp add: t)
  qed (use assms in \<open>auto simp: move_row_def Let_def split: option.splits if_splits\<close>)
  then show "strip_ok t" "mset (strip_windows t) = mset (strip_windows s)" "focused_window t = focused_window s"
    "map (mset \<circ> cl_windows) (st_columns t) = map (mset \<circ> cl_windows) (st_columns s)" by blast+
qed

section \<open>Stacking\<close>

lemma strip_stack_split_ok:
  assumes "strip_ok s" "i < length (st_columns s)" "length (cl_windows (st_columns s ! i)) > 1" "r < length (cl_windows (st_columns s ! i))"
    and k: "k \<le> length (st_columns s)" and w: "w = cl_windows (st_columns s ! i) ! r"
  defines "t \<equiv> (with_column i (without_row r) s)\<lparr>st_columns := splice_in k (single w (cl_width (st_columns s ! i)))
    (st_columns (with_column i (without_row r) s)), st_focused := k\<rparr>"
  shows "strip_ok t" and "mset (strip_windows t) = mset (strip_windows s)" and "focused_window t = Some w"
proof -
  let ?c = "st_columns s ! i"
  let ?s1 = "with_column i (without_row r) s"
  have c: "column_ok ?c" using strip_okD(1) [OF assms(1)] assms(2) by simp
  have wc: "width_ok (cl_width ?c)" using c by (simp add: column_ok_def)
  have t: "st_columns t = splice_in k (single w (cl_width ?c)) (st_columns ?s1)" "st_focused t = k" by (simp_all add: t_def)
  obtain us vs where u: "strip_windows s = us @ cl_windows ?c @ vs" "\<And>f. strip_windows (with_column i f s) = us @ cl_windows (f ?c) @ vs"
    using with_column_windows [OF assms(2)] by blast
  have "add_mset w (mset (cl_windows (without_row r ?c))) = mset (cl_windows ?c)"
    using mset_splice_out [OF assms(4)] by (simp add: without_row_def w)
  then have m1: "add_mset w (mset (strip_windows ?s1)) = mset (strip_windows s)" by (simp add: u)
  show m: "mset (strip_windows t) = mset (strip_windows s)"
    unfolding mset_strip_windows [of t] t(1) using m1 by (simp add: mset_strip_windows [of ?s1])
  have d: "distinct (strip_windows t)" using strip_okD(2) [OF assms(1)] mset_eq_imp_distinct_iff [OF m] by simp
  have "set (st_columns ?s1) \<subseteq> insert (without_row r ?c) (set (st_columns s))"
    by (simp add: with_column_def set_update_subset_insert)
  then have "\<forall>c \<in> set (st_columns t). column_ok c"
    using strip_okD(1) [OF assms(1)] without_row_ok [OF c assms(4,3)] wc unfolding t(1) by auto
  moreover have "st_columns t \<noteq> []" "k < length (st_columns t)" using k unfolding t(1) by (simp_all add: splice_in_def)
  ultimately show ok: "strip_ok t" using d by (simp add: strip_ok_def t(2))
  have "st_columns t ! k = single w (cl_width ?c)" using k unfolding t(1) by (simp add: nth_splice_in)
  with \<open>st_columns t \<noteq> []\<close> show "focused_window t = Some w" by (simp add: focused_window_ok [OF ok] t(2) single_def)
qed

lemma push_window_ok: "column_ok c \<Longrightarrow> column_ok (push_window w c)"
  by (auto simp: column_ok_def push_window_def)

lemma strip_stack_join_ok:
  assumes "strip_ok s" "i < length (st_columns s)" "cl_windows (st_columns s ! i) = [w]"
    and j: "j < length (st_columns s)" "j \<noteq> i"
  defines "s1 \<equiv> with_column j (push_window w) s"
  defines "t \<equiv> s1\<lparr>st_columns := splice_out i (st_columns s1), st_focused := (if i < j then j - 1 else j)\<rparr>"
  shows "strip_ok t" and "mset (strip_windows t) = mset (strip_windows s)" and "focused_window t = Some w"
proof -
  let ?k = "if i < j then j - 1 else j"
  have t: "st_columns t = splice_out i (st_columns s1)" "st_focused t = ?k" by (simp_all add: t_def)
  have len: "length (st_columns s1) = length (st_columns s)" "i < length (st_columns s1)" using assms(2) by (simp_all add: s1_def)
  have ci: "st_columns s1 ! i = st_columns s ! i" "st_columns s1 ! j = push_window w (st_columns s ! j)"
    using j by (simp_all add: s1_def with_column_nth)
  obtain us vs where u: "strip_windows s = us @ cl_windows (st_columns s ! j) @ vs" "\<And>f. strip_windows (with_column j f s) = us @ cl_windows (f (st_columns s ! j)) @ vs"
    using with_column_windows [OF j(1)] by blast
  have m1: "mset (strip_windows s1) = add_mset w (mset (strip_windows s))" by (simp add: s1_def u push_window_def)
  have "add_mset (st_columns s1 ! i) (mset (st_columns t)) = mset (st_columns s1)"
    unfolding t(1) by (rule mset_splice_out [OF len(2)])
  then have "mset (strip_windows s1) = mset (cl_windows (st_columns s ! i)) + mset (strip_windows t)"
    unfolding mset_strip_windows ci(1) [symmetric] by (metis image_mset_add_mset sum_mset.insert)
  then show m: "mset (strip_windows t) = mset (strip_windows s)" using m1 assms(3) by simp
  have d: "distinct (strip_windows t)" using strip_okD(2) [OF assms(1)] mset_eq_imp_distinct_iff [OF m] by simp
  have "set (st_columns s1) \<subseteq> insert (push_window w (st_columns s ! j)) (set (st_columns s))"
    unfolding s1_def by (simp add: with_column_def set_update_subset_insert)
  then have ok1: "\<forall>c \<in> set (st_columns s1). column_ok c" using strip_okD(1) [OF assms(1)] push_window_ok j(1) by (metis insert_iff nth_mem subsetD)
  have k: "?k < length (st_columns t)" using assms(2) j len unfolding t(1) by auto
  then have ne: "st_columns t \<noteq> []" by auto
  have "\<forall>c \<in> set (st_columns t). column_ok c" using ok1 set_splice_out_subset [of i "st_columns s1"] unfolding t(1) by blast
  with d k ne show ok: "strip_ok t" by (simp add: strip_ok_def t(2))
  have "st_columns t ! ?k = push_window w (st_columns s ! j)"
    using assms(2) j len ci(2) unfolding t(1) by (auto simp: nth_splice_out)
  then show "focused_window t = Some w" using ne by (simp add: focused_window_ok [OF ok] t(2) push_window_def)
qed

lemma strip_stack_ok:
  assumes "strip_ok s" "strip_stack d s = (moved, t)" "d \<noteq> 0"
  shows "strip_ok t" and "mset (strip_windows t) = mset (strip_windows s)" and "focused_window t = focused_window s"
proof -
  have "strip_ok t \<and> mset (strip_windows t) = mset (strip_windows s) \<and> focused_window t = focused_window s"
  proof (cases "st_columns s = []")
    case True
    then show ?thesis using assms by (simp add: strip_stack_def column_at_index_focused)
  next
    case False
    let ?i = "st_focused s"
    let ?c = "st_columns s ! ?i"
    have i: "?i < length (st_columns s)" using strip_okD(3) [OF assms(1) False] .
    have c: "column_ok ?c" using strip_okD(1) [OF assms(1)] i by simp
    have r: "cl_row ?c < length (cl_windows ?c)" using c by (simp add: column_ok_def)
    have fw: "focused_window s = Some (cl_windows ?c ! cl_row ?c)" using False by (simp add: focused_window_ok [OF assms(1)])
    have ca: "column_at_index s (int ?i) = Some ?c" using False by (simp add: column_at_index_focused [OF assms(1)])
    show ?thesis
    proof (cases "length (cl_windows ?c) > 1")
      case True
      let ?k = "if d > 0 then ?i + 1 else ?i"
      have k: "?k \<le> length (st_columns s)" using i by simp
      from strip_stack_split_ok [OF assms(1) i True r k refl] show ?thesis
        using assms(2) True unfolding strip_stack_def ca fw by (auto simp: Let_def)
    next
      case one: False
      then have w: "cl_windows ?c = [cl_windows ?c ! cl_row ?c]" using r by (cases "cl_windows ?c") auto
      show ?thesis
      proof (cases "column_at_index s (int ?i + d)")
        case None
        then have "t = s" using assms(2) one unfolding strip_stack_def ca fw by (simp add: Let_def)
        then show ?thesis using assms(1) by simp
      next
        case (Some n)
        then obtain j where j: "int ?i + d = int j" "j < length (st_columns s)"
          unfolding column_at_index_def nth_opt_def by (metis nat_0_le nat_less_iff option.distinct(1))
        then have ji: "j \<noteq> ?i" using assms(3) by auto
        note jo = strip_stack_join_ok [OF assms(1) i w j(2) ji]
        have "t = clamp_offset ((with_column j (push_window (cl_windows ?c ! cl_row ?c)) s)
            \<lparr>st_columns := splice_out ?i (st_columns (with_column j (push_window (cl_windows ?c ! cl_row ?c)) s)),
             st_focused := (if ?i < j then j - 1 else j)\<rparr>)"
          using assms(2) one Some unfolding strip_stack_def ca fw j(1) by (auto simp: Let_def)
        then show ?thesis using jo fw by (simp add: clamp_offset_keeps)
      qed
    qed
  qed
  then show "strip_ok t" "mset (strip_windows t) = mset (strip_windows s)" "focused_window t = focused_window s" by blast+
qed

section \<open>Resizing rows\<close>

lemma length_row_boxes [simp]: "length (row_boxes s c) = length (cl_weights c)"
  by (simp add: row_boxes_def Let_def)

lemma sum_list_replace: "k < length xs \<Longrightarrow> sum_list (xs[k := v]) = sum_list xs + v - (xs ! k :: number)"
proof (induction xs arbitrary: k)
  case (Cons x xs)
  then show ?case by (cases k) simp_all
qed simp

lemma shift_rows_ok:
  assumes "column_ok c" "upper_at + 1 < length (cl_windows c)" "shift_rows s c upper_at px = Some c'"
  shows "column_ok c'" and "cl_windows c' = cl_windows c" and "cl_row c' = cl_row c" and "cl_width c' = cl_width c"
    and "sum_list (cl_weights c') = sum_list (cl_weights c)"
proof -
  let ?w = "cl_weights c ! upper_at + cl_weights c ! (upper_at + 1)"
  have l: "upper_at + 1 < length (cl_weights c)" using assms(1,2) by (simp add: column_ok_def)
  have w: "0 < ?w" using assms(1) l by (simp add: column_ok_def add_pos_pos)
  let ?pair = "b_h (row_boxes s c ! upper_at) + b_h (row_boxes s c ! (upper_at + 1))"
  let ?h = "min (?pair - ?pair * MIN_ROW_SHARE) (max (?pair * MIN_ROW_SHARE) (b_h (row_boxes s c ! upper_at) + px))"
  define a where "a = ?w * ?h / ?pair"
  define b where "b = ?w * (?pair - ?h) / ?pair"
  have p: "?pair \<noteq> 0" and c': "c' = c\<lparr>cl_weights := (cl_weights c)[upper_at := a, upper_at + 1 := b]\<rparr>"
    using assms(3) unfolding shift_rows_def a_def b_def by (simp_all add: Let_def split: if_splits)
  have ab: "0 < a" "0 < b" "a + b = ?w"
    unfolding a_def b_def by (rule shared_pair [OF p _ w]; simp add: MIN_ROW_SHARE_def)+
  have "set ((cl_weights c)[upper_at := a, upper_at + 1 := b]) \<subseteq> insert b (insert a (set (cl_weights c)))"
    using set_update_subset_insert [of "(cl_weights c)[upper_at := a]" "upper_at + 1" b]
      set_update_subset_insert [of "cl_weights c" upper_at a] by blast
  with ab assms(1) show "column_ok c'" by (auto simp: c' column_ok_def)
  show "cl_windows c' = cl_windows c" "cl_row c' = cl_row c" "cl_width c' = cl_width c" by (simp_all add: c')
  have "sum_list ((cl_weights c)[upper_at := a, upper_at + 1 := b]) = sum_list (cl_weights c)"
    using l ab(3) by (simp add: sum_list_replace)
  then show "sum_list (cl_weights c') = sum_list (cl_weights c)" by (simp add: c')
qed

lemma with_column_const: "i < length (st_columns s) \<Longrightarrow> with_column i (\<lambda>_. c') s = with_column i (\<lambda>c. if c = st_columns s ! i then c' else c) s"
  by (simp add: with_column_def)

lemma resize_row_ok:
  assumes "strip_ok s" "resize_row d s = Some t"
  shows "strip_ok t" and "strip_windows t = strip_windows s" and "focused_window t = focused_window s"
proof -
  have "strip_ok t \<and> strip_windows t = strip_windows s \<and> focused_window t = focused_window s"
  proof (cases "st_columns s = [] \<or> length (cl_windows (st_columns s ! st_focused s)) < 2")
    case True
    then show ?thesis using assms by (auto simp: resize_row_def column_at_index_focused split: if_splits)
  next
    case False
    let ?c = "st_columns s ! st_focused s"
    have i: "st_focused s < length (st_columns s)" using strip_okD(3) [OF assms(1)] False by simp
    have c: "column_ok ?c" using strip_okD(1) [OF assms(1)] i by simp
    let ?u = "if cl_row ?c = length (cl_windows ?c) - 1 then cl_row ?c - 1 else cl_row ?c"
    have u: "?u + 1 < length (cl_windows ?c)" using c False by (auto simp: column_ok_def)
    obtain c' px where c': "shift_rows s ?c ?u px = Some c'" "t = with_column (st_focused s) (\<lambda>_. c') s"
      using assms False by (auto simp: resize_row_def column_at_index_focused Let_def)
    note sr = shift_rows_ok [OF c u c'(1)]
    have k: "strip_ok t" "strip_windows t = strip_windows s"
      unfolding c'(2) by (rule with_column_keeps [OF assms(1) i]; use sr in simp)+
    have "st_columns t ! st_focused t = c'" "st_columns t \<noteq> []" using i by (auto simp: c'(2) with_column_def)
    then show ?thesis using k sr False by (simp add: focused_window_ok assms(1))
  qed
  then show "strip_ok t" "strip_windows t = strip_windows s" "focused_window t = focused_window s" by blast+
qed

lemma move_row_edge_ok:
  assumes "strip_ok s" "move_row_edge w bottom coordinate s = Some t"
  shows "strip_ok t" and "strip_windows t = strip_windows s"
proof -
  have "strip_ok t \<and> strip_windows t = strip_windows s"
  proof (cases "locate s w")
    case None
    then show ?thesis using assms by (simp add: move_row_edge_def)
  next
    case (Some p)
    then obtain i r where p: "locate s w = Some (i, r)" by (cases p) auto
    let ?c = "st_columns s ! i"
    let ?u = "if bottom then int r else int r - 1"
    have i: "i < length (st_columns s)" using locate_Some [OF p] by simp
    have c: "column_ok ?c" using strip_okD(1) [OF assms(1)] i by simp
    show ?thesis
    proof (cases "?u < 0 \<or> ?u \<ge> int (length (cl_windows ?c)) - 1")
      case True
      then have "move_row_edge w bottom coordinate s = Some s" unfolding move_row_edge_def p by (simp add: Let_def)
      with assms show ?thesis by simp
    next
      case False
      then have u: "nat ?u + 1 < length (cl_windows ?c)" by linarith
      obtain c' px where c': "shift_rows s ?c (nat ?u) px = Some c'" "t = with_column i (\<lambda>_. c') s"
        using assms(2) False unfolding move_row_edge_def p by (auto simp: Let_def)
      note sr = shift_rows_ok [OF c u c'(1)]
      show ?thesis
        unfolding c'(2) by (rule conjI; rule with_column_keeps [OF assms(1) i]; use sr in simp)
    qed
  qed
  then show "strip_ok t" "strip_windows t = strip_windows s" by blast+
qed

end
