(* ===== verification/Tiling_Strip_View.thy ===== *)
theory Tiling_Strip_View
  imports Tiling_Strip_Facts Tiling_Layout
begin

text \<open>
  Where the strip puts its columns: revealing and snapping, the layout, and the widths maximizing and
  expanding give.
\<close>

section \<open>Widths and starts\<close>

lemma column_width_ge [simp]: "1 \<le> column_width s c"
  by (simp add: column_width_def)

lemma column_width_pos: "0 < column_width s c"
  using column_width_ge [of s c] by linarith

lemma view_width_ge [simp]: "1 \<le> view_width s"
  by (simp add: view_width_def)

lemma column_start_Suc:
  "i < length (st_columns s) \<Longrightarrow> column_start s (Suc i) = column_start s i + column_width s (st_columns s ! i) + st_gap s"
  by (simp add: column_start_def take_Suc_conv_app_nth)

lemma column_start_nonneg: "0 \<le> st_gap s \<Longrightarrow> 0 \<le> column_start s i"
  unfolding column_start_def by (rule sum_list_nonneg) (auto intro: add_nonneg_nonneg less_imp_le column_width_pos)

lemma column_start_end:
  assumes "i < length (st_columns s)" "0 \<le> st_gap s"
  shows "column_start s i + column_width s (st_columns s ! i) \<le> total_width s"
proof -
  let ?w = "map (column_width s) (st_columns s)"
  have start: "column_start s i = sum_list (take i ?w) + st_gap s * of_nat i"
    using assms(1) by (simp add: column_start_def sum_list_addf sum_list_triv take_map)
  have "?w = take i ?w @ ?w ! i # drop (Suc i) ?w" using assms(1) by (intro id_take_nth_drop) simp
  then have "sum_list ?w = sum_list (take i ?w) + (column_width s (st_columns s ! i) + sum_list (drop (Suc i) ?w))"
    using assms(1) by (metis length_map nth_map sum_list.append sum_list.Cons)
  moreover have "0 \<le> sum_list (drop (Suc i) ?w)"
    by (rule sum_list_nonneg) (auto simp: drop_map intro: less_imp_le column_width_pos)
  moreover have "st_gap s * of_nat i \<le> st_gap s * of_nat (length (st_columns s) - 1)"
    using assms by (intro mult_left_mono) (auto intro: of_nat_mono)
  ultimately show ?thesis unfolding start total_width_def by linarith
qed

section \<open>Revealing\<close>

lemma reveal_shows:
  assumes "column_at_index s (int i) = Some c"
  shows "st_offset (reveal i s) \<le> column_start s i"
    and "column_width s c \<le> view_width s \<Longrightarrow> column_start s i + column_width s c \<le> st_offset (reveal i s) + view_width s"
    and "column_width s c > view_width s \<Longrightarrow> st_offset (reveal i s) = column_start s i"
  using assms by (auto simp: reveal_def Let_def)

lemma reveal_settled:
  assumes "column_at_index s (int i) = Some c" "column_width s c \<le> view_width s"
    and "st_offset s \<le> column_start s i" "column_start s i + column_width s c \<le> st_offset s + view_width s"
  shows "reveal i s = s"
  using assms by (simp add: reveal_def Let_def)

lemma clamp_offset_furthest: "st_offset (clamp_offset s) \<le> furthest s"
  by (simp add: clamp_offset_def furthest_def)

section \<open>Snapping\<close>

definition snap_edges :: "'w strip \<Rightarrow> (nat \<times> number) list" where
  "snap_edges s = concat (map (\<lambda>index. map (Pair index) (snap_candidates s index)) [0 ..< length (st_columns s)])"

lemma strip_snap_edges:
  "strip_snap offset s = foldl (\<lambda>best (index, candidate). snap_candidate s offset index best candidate)
    \<lparr>sn_offset = 0, sn_column = 0\<rparr> (snap_edges s)"
proof -
  have "foldl (\<lambda>best index. foldl (snap_candidate s offset index) best (snap_candidates s index)) best is =
      foldl (\<lambda>best (index, candidate). snap_candidate s offset index best candidate) best
        (concat (map (\<lambda>index. map (Pair index) (snap_candidates s index)) is))" for best and "is" :: "nat list"
    by (induction "is" arbitrary: best) (simp_all add: foldl_map)
  then show ?thesis by (simp add: strip_snap_def snap_edges_def)
qed

lemma snap_candidate_cases:
  "snap_candidate s offset i best c = best \<and> \<bar>sn_offset best - offset\<bar> \<le> \<bar>c - offset\<bar> \<or>
    snap_candidate s offset i best c = \<lparr>sn_offset = c, sn_column = i\<rparr> \<and> \<bar>c - offset\<bar> \<le> \<bar>sn_offset best - offset\<bar>"
  by (auto simp: snap_candidate_def Let_def)

lemma snap_fold:
  fixes s :: "'w strip" and offset :: number and best :: snap and edges :: "(nat \<times> number) list"
  defines "r \<equiv> foldl (\<lambda>best (index, candidate). snap_candidate s offset index best candidate) best edges"
  shows "(r = best \<or> (sn_column r, sn_offset r) \<in> set edges) \<and> \<bar>sn_offset r - offset\<bar> \<le> \<bar>sn_offset best - offset\<bar> \<and>
    (\<forall>(i, c) \<in> set edges. \<bar>sn_offset r - offset\<bar> \<le> \<bar>c - offset\<bar>)"
  unfolding r_def
proof (induction edges arbitrary: best)
  case (Cons e edges)
  obtain i c where e: "e = (i, c)" by fastforce
  let ?b = "snap_candidate s offset i best c"
  note IH = Cons.IH [of ?b]
  from snap_candidate_cases [of s offset i best c] show ?case
  proof
    assume "?b = best \<and> \<bar>sn_offset best - offset\<bar> \<le> \<bar>c - offset\<bar>"
    with IH show ?thesis unfolding e by (auto intro: order_trans)
  next
    assume "?b = \<lparr>sn_offset = c, sn_column = i\<rparr> \<and> \<bar>c - offset\<bar> \<le> \<bar>sn_offset best - offset\<bar>"
    with IH show ?thesis unfolding e by (auto intro: order_trans)
  qed
qed simp

lemma furthest_nonneg [simp]: "0 \<le> furthest s"
  by (simp add: furthest_def)

lemma snap_edges_range: "(i, c) \<in> set (snap_edges s) \<Longrightarrow> i < length (st_columns s) \<and> 0 \<le> c \<and> c \<le> furthest s"
  by (auto simp: snap_edges_def snap_candidates_def Let_def)

text \<open>The snap lies on the strip, is an edge of a column, and no other edge is nearer.\<close>

lemma strip_snap_nearest:
  shows "0 \<le> sn_offset (strip_snap offset s)" and "sn_offset (strip_snap offset s) \<le> furthest s"
    and "st_columns s \<noteq> [] \<Longrightarrow> sn_column (strip_snap offset s) < length (st_columns s)"
    and "(i, c) \<in> set (snap_edges s) \<Longrightarrow> \<bar>sn_offset (strip_snap offset s) - offset\<bar> \<le> \<bar>c - offset\<bar>"
    and "strip_snap offset s = \<lparr>sn_offset = 0, sn_column = 0\<rparr> \<or>
      (sn_column (strip_snap offset s), sn_offset (strip_snap offset s)) \<in> set (snap_edges s)"
proof -
  let ?r = "strip_snap offset s"
  note f = snap_fold [of s offset "\<lparr>sn_offset = 0, sn_column = 0\<rparr>" "snap_edges s", folded strip_snap_edges]
  show e: "?r = \<lparr>sn_offset = 0, sn_column = 0\<rparr> \<or> (sn_column ?r, sn_offset ?r) \<in> set (snap_edges s)" using f by simp
  then show "0 \<le> sn_offset ?r" "sn_offset ?r \<le> furthest s" using snap_edges_range by fastforce+
  show "st_columns s \<noteq> [] \<Longrightarrow> sn_column ?r < length (st_columns s)" using e snap_edges_range by fastforce
  show "(i, c) \<in> set (snap_edges s) \<Longrightarrow> \<bar>sn_offset ?r - offset\<bar> \<le> \<bar>c - offset\<bar>" using f by fastforce
qed

section \<open>Layout\<close>

lemma layout_from_windows:
  "\<forall>c \<in> set cs. length (cl_weights c) = length (cl_windows c) \<Longrightarrow> map fst (layout_from s x cs) = concat (map cl_windows cs)"
  by (induction cs arbitrary: x) (simp_all add: Let_def row_boxes_def)

lemma layout_windows: "strip_ok s \<Longrightarrow> map fst (strip_layout offset s) = strip_windows s"
  unfolding strip_layout_def strip_windows_def
  by (rule layout_from_windows) (auto dest: strip_okD(1) simp: column_ok_def)

lemma layout_from_starts:
  assumes "0 \<le> st_gap s"
  shows "\<forall>t \<in> set (layout_from s x cs). x \<le> b_x (snd t)"
  using assms
proof (induction cs arbitrary: x)
  case (Cons c cs)
  have "x \<le> x + (column_width s c + st_gap s)" using assms column_width_pos [of s c] by simp
  with Cons.IH [of "x + (column_width s c + st_gap s)"] assms show ?case
    by (fastforce simp: Let_def dest: set_zip_rightD)
qed simp

lemma row_boxes_apart:
  assumes "0 \<le> st_gap s" "column_ok c"
  shows "sorted_wrt boxes_apart (map (\<lambda>b. b\<lparr>b_x := x, b_w := w\<rparr>) (row_boxes s c))"
proof -
  have g: "sorted_wrt (after_gap Vertical (st_gap s)) (row_boxes s c)"
    unfolding row_boxes_def Let_def using assms by (intro divide_starts) (auto simp: column_ok_def)
  have "after_gap Vertical (st_gap s) p q \<Longrightarrow> boxes_apart (p\<lparr>b_x := x, b_w := w\<rparr>) (q\<lparr>b_x := x, b_w := w\<rparr>)" for p q
    using assms(1) by (auto simp: after_gap_def boxes_apart_def contains_def box_start_def box_length_def)
  with g show ?thesis unfolding sorted_wrt_map by (rule sorted_wrt_mono_rel [rotated])
qed

lemma sorted_wrt_zip: "sorted_wrt R bs \<Longrightarrow> sorted_wrt R (map snd (zip ws bs))"
  by (simp add: map_snd_zip_take sorted_wrt_take)

lemma layout_from_apart:
  assumes "0 \<le> st_gap s" "\<forall>c \<in> set cs. column_ok c"
  shows "tiles_apart (layout_from s x cs)"
  using assms(2)
proof (induction cs arbitrary: x)
  case (Cons c cs)
  let ?w = "column_width s c"
  let ?here = "zip (cl_windows c) (map (\<lambda>b. b\<lparr>b_x := x, b_w := ?w\<rparr>) (row_boxes s c))"
  have here: "sorted_wrt boxes_apart (map snd ?here)"
    by (rule sorted_wrt_zip, rule row_boxes_apart) (use assms Cons.prems in auto)
  have "boxes_apart (snd t) (snd u)" if "t \<in> set ?here" "u \<in> set (layout_from s (x + (?w + st_gap s)) cs)" for t u
  proof -
    have "snd t \<in> set (map (\<lambda>b. b\<lparr>b_x := x, b_w := ?w\<rparr>) (row_boxes s c))"
      using that(1) by (metis prod.collapse set_zip_rightD)
    then have "b_x (snd t) = x" "b_w (snd t) = ?w" by auto
    moreover have "x + ?w \<le> b_x (snd u)" using layout_from_starts [OF assms(1)] that(2) assms(1) by fastforce
    ultimately show ?thesis by (auto simp: boxes_apart_def contains_def)
  qed
  with here Cons show ?case by (auto simp: Let_def tiles_apart_def sorted_wrt_append)
qed (simp add: tiles_apart_def)

lemma layout_apart: "strip_ok s \<Longrightarrow> 0 \<le> st_gap s \<Longrightarrow> tiles_apart (strip_layout offset s)"
  unfolding strip_layout_def by (rule layout_from_apart) (auto dest: strip_okD(1))

section \<open>Maximizing and expanding\<close>

lemma column_width_full:
  assumes "cl_width c = 1" "b_w (st_view s) - st_gap s \<in> \<int>"
  shows "column_width s c = view_width s"
proof -
  obtain n where "b_w (st_view s) - st_gap s = of_int n" using assms(2) by (auto elim: Ints_cases)
  then show ?thesis using assms(1) by (simp add: column_width_def view_width_def)
qed

lemma maximized_twice:
  assumes "cl_width c < 1 - PRESET_TOLERANCE" "cl_restore c = None"
  shows "cl_width (maximized c) = 1" and "maximized (maximized c) = c"
  using assms by (simp_all add: maximized_def PRESET_TOLERANCE_def)

lemma column_width_for:
  assumes "px \<in> \<int>" "1 \<le> px" "b_w (st_view s) \<in> \<int>" "st_gap s \<in> \<int>" "1 \<le> b_w (st_view s) - st_gap s"
    and "MIN_WIDTH * (b_w (st_view s) - st_gap s) \<le> px + st_gap s" "px + st_gap s \<le> b_w (st_view s) - st_gap s"
    and "cl_width c = width_for s px"
  shows "column_width s c = px"
proof -
  let ?v = "b_w (st_view s) - st_gap s"
  have v: "0 < ?v" using assms(5) by linarith
  have "max 1 ?v = ?v" using assms(5) by simp
  moreover have "MIN_WIDTH \<le> (px + st_gap s) / ?v" "(px + st_gap s) / ?v \<le> 1"
    using assms(6,7) v by (simp_all add: le_divide_eq divide_le_eq)
  ultimately have "width_for s px = (px + st_gap s) / ?v" by (simp add: width_for_def)
  then have "cl_width c * ?v = px + st_gap s" using assms(8) v by simp
  moreover have "px + st_gap s \<in> \<int>" using assms(1,4) by simp
  ultimately show ?thesis using assms(2) by (auto simp: column_width_def elim!: Ints_cases)
qed

lemma column_width_whole: "st_gap s \<in> \<int> \<Longrightarrow> column_width s c \<in> \<int>"
  by (auto simp: column_width_def max_def math_round_def)

lemma sum_list_whole: "\<forall>x \<in> set xs. f x \<in> (\<int> :: number set) \<Longrightarrow> sum_list (map f xs) \<in> \<int>"
  by (induction xs) auto

text \<open>The expanded column fills what the other columns fully in view leave of it.\<close>

lemma expand_fills:
  assumes ok: "strip_ok s" "st_columns s \<noteq> []" and whole: "b_w (st_view s) \<in> \<int>" "st_gap s \<in> \<int>" "1 \<le> b_w (st_view s) - 2 * st_gap s" "0 \<le> st_gap s"
  defines "taken \<equiv> sum_list (map (\<lambda>index. column_width s (st_columns s ! index) + st_gap s) (shown_beside s))"
  assumes room: "1 \<le> view_width s - taken" "MIN_WIDTH * (b_w (st_view s) - st_gap s) \<le> view_width s - taken + st_gap s"
  shows "column_width s (st_columns (expand s) ! st_focused s) + taken = view_width s"
proof -
  let ?px = "view_width s - taken"
  have i: "st_focused s < length (st_columns s)" using strip_okD(3) [OF ok] .
  have vw: "view_width s = b_w (st_view s) - 2 * st_gap s" using whole(3) by (simp add: view_width_def)
  have "taken \<in> \<int>" unfolding taken_def using whole(2) column_width_whole [OF whole(2)] by (intro sum_list_whole) auto
  then have px: "?px \<in> \<int>" using whole vw by simp
  have "0 \<le> taken" unfolding taken_def
    by (rule sum_list_nonneg) (use whole(4) in \<open>auto intro: add_nonneg_nonneg less_imp_le column_width_pos\<close>)
  then have hi: "?px + st_gap s \<le> b_w (st_view s) - st_gap s" using vw by linarith
  have "cl_width (st_columns (expand s) ! st_focused s) = width_for s ?px"
    using ok(2) i by (simp add: expand_def column_at_index_focused [OF ok(1)] Let_def with_column_nth taken_def)
  from column_width_for [OF px room(1) whole(1,2) _ room(2) hi this] show ?thesis using whole(3,4) by simp
qed

end
