(* ===== verification/Tiling_Properties.thy ===== *)
theory Tiling_Properties
  imports Tiling_Space Tiling_Strip_Moves Tiling_Strip_View
begin

text \<open>
  The properties of the tiled and the scrolling layouts, over the definitions of the \<open>Tiling\<close>
  theories, with witnesses on small screens.
\<close>

section \<open>Runs of the strip\<close>

inductive strip_step :: "'w strip \<Rightarrow> 'w strip \<Rightarrow> bool" where
  sp_view: "strip_step s (set_view v g s)"
| sp_add: "w \<notin> set (strip_windows s) \<Longrightarrow> strip_step s (strip_add w beside s)"
| sp_remove: "strip_step s (strip_remove w s)"
| sp_focus: "strip_step s (snd (strip_focus w s))"
| sp_move_column: "d = 1 \<or> d = -1 \<Longrightarrow> strip_step s (snd (move_column d s))"
| sp_move_row: "d = 1 \<or> d = -1 \<Longrightarrow> strip_step s (snd (move_row d s))"
| sp_stack: "d = 1 \<or> d = -1 \<Longrightarrow> strip_step s (snd (strip_stack d s))"
| sp_edge: "strip_step s (snd (move_column_to_edge at_end s))"
| sp_cycle: "strip_step s (cycle_width s)"
| sp_maximize: "strip_step s (maximize s)"
| sp_expand: "strip_step s (expand s)"
| sp_resize_width: "d = 1 \<or> d = -1 \<Longrightarrow> strip_step s (resize_width d s)"
| sp_set_width: "strip_step s (set_width w px s)"
| sp_resize_row: "resize_row d s = Some t \<Longrightarrow> strip_step s t"
| sp_move_row_edge: "move_row_edge w bottom coordinate s = Some t \<Longrightarrow> strip_step s t"
| sp_reveal: "strip_step s (reveal i s)"
| sp_center: "strip_step s (center i s)"
| sp_scroll: "strip_step s (s\<lparr>st_offset := v\<rparr>)"
| sp_clamp: "strip_step s (clamp_offset s)"
| sp_snap: "st_columns s \<noteq> [] \<Longrightarrow>
    strip_step s (s\<lparr>st_offset := sn_offset (strip_snap v s), st_focused := sn_column (strip_snap v s)\<rparr>)"

inductive strip_reach :: "'w strip \<Rightarrow> bool" where
  strip_reach_new: "strip_reach new_strip"
| strip_reach_step: "strip_reach s \<Longrightarrow> strip_step s t \<Longrightarrow> strip_reach t"

lemma strip_step_ok: "strip_step s t \<Longrightarrow> strip_ok s \<Longrightarrow> strip_ok t"
proof (induction rule: strip_step.induct)
  case (sp_reveal s i)
  then show ?case using reveal_scrolls [of i s] strip_ok_scroll(1) by metis
next
  case (sp_center s i)
  then show ?case using center_scrolls [of i s] strip_ok_scroll(1) by metis
next
  case (sp_snap s v)
  then show ?case using strip_snap_nearest(3) [OF sp_snap(1), of v] by (simp add: strip_ok_def strip_windows_def)
next
  case (sp_resize_row d s t)
  then show ?case by (blast intro: resize_row_ok(1))
next
  case (sp_move_row_edge w bottom coordinate s t)
  then show ?case by (blast intro: move_row_edge_ok(1))
next
  case (sp_stack d s)
  then show ?case using strip_stack_ok(1) [OF _ prod.collapse [symmetric], of s d] by fastforce
qed (simp_all add: strip_ok_view strip_ok_scroll clamp_offset_keeps strip_add_ok strip_remove_ok focus_ok cycle_width_ok
    maximize_ok expand_ok resize_width_ok set_width_ok move_column_ok [OF _ prod.collapse [symmetric]]
    move_row_ok [OF _ prod.collapse [symmetric]] move_column_to_edge_ok [OF _ prod.collapse [symmetric]])

lemma strip_reach_ok: "strip_reach s \<Longrightarrow> strip_ok s"
  by (induction rule: strip_reach.induct) (auto intro: strip_ok_new strip_step_ok)

section \<open>Tiled layouts\<close>

definition sample_host :: "nat space_host" where
  "sample_host = \<lparr>sh_work_area = (\<lambda>_. \<lparr>b_x = 0, b_y = 0, b_w = 1000, b_h = 600\<rparr>),
    sh_monitor_box = (\<lambda>_. \<lparr>b_x = 0, b_y = 0, b_w = 1000, b_h = 600\<rparr>), sh_monitor_count = 1, sh_gap = 10,
    sh_beside_focused = True, sh_ready = (\<lambda>_. True), sh_shown = (\<lambda>_. True), sh_stretched = (\<lambda>_. False),
    sh_target = (\<lambda>_. \<lparr>b_x = 0, b_y = 0, b_w = 1, b_h = 1\<rparr>), sh_frame = (\<lambda>_. \<lparr>b_x = 0, b_y = 0, b_w = 1, b_h = 1\<rparr>)\<rparr>"

definition sample_dwindle :: "(nat dwindle, nat) tspace" where
  "sample_dwindle = \<lparr>ts_monitor = 0, ts_layout = dwindle_insert 2 (Some 1) (dwindle_insert 1 None new_dwindle), ts_boxes = []\<rparr>"

definition sample_master :: "(nat master, nat) tspace" where
  "sample_master = \<lparr>ts_monitor = 0, ts_layout = master_insert 3 None (master_insert 2 None (master_insert 1 None new_master)), ts_boxes = []\<rparr>"

lemma sample_dwindle_ok: "dwindle_ok (ts_layout sample_dwindle)"
  by (simp add: sample_dwindle_def dwindle_ok_def dwindle_windows_def dwindle_insert_def dwindle_has_def new_dwindle_def)

lemma sample_master_ok: "master_ok (ts_layout sample_master)"
  by (auto simp: sample_master_def master_ok_def master_insert_def new_master_def MASTER_RATIO_def MIN_RATIO_def split: if_splits)

lemma sample_area: "whole_box (sh_work_area sample_host m)" "sh_gap sample_host \<in> \<int>" "0 \<le> sh_gap sample_host"
  by (simp_all add: sample_host_def whole_box_def)

text \<open>C8. A tiled space, with either layout, gives every window of it exactly one tile, in the
  layout's order, and no two tiles share a point of the screen, however often it was split and
  resized; the frames it moves are those of its windows, never that of the held one.\<close>

theorem tiles_never_overlap:
  assumes "whole_box (sh_work_area h (ts_monitor sp))" "whole_box (sh_work_area h (ts_monitor sq))"
    and "sh_gap h \<in> \<int>" "0 \<le> sh_gap h" "dwindle_ok (ts_layout sp)" "master_ok (ts_layout sq)"
  shows "map fst (ts_boxes (snd (ts_arrange dwindle_layout h animate held sp))) = dwindle_windows (ts_layout sp) \<and>
    tiles_apart (ts_boxes (snd (ts_arrange dwindle_layout h animate held sp))) \<and>
    map fst (ts_boxes (snd (ts_arrange master_layout h animate held sq))) = ms_order (ts_layout sq) \<and>
    tiles_apart (ts_boxes (snd (ts_arrange master_layout h animate held sq))) \<and>
    (\<forall>c \<in> set (fst (ts_arrange dwindle_layout h animate held sp)). Some (frame_window c) \<noteq> held) \<and>
    (\<forall>c \<in> set (fst (ts_arrange master_layout h animate held sq)). Some (frame_window c) \<noteq> held)"
  using dwindle.ts_arrange_sound(3) [OF assms(5), of h animate held] dwindle.ts_arrange_apart [OF assms(5,1,3,4), of animate held]
    master.ts_arrange_sound(3) [OF assms(6), of h animate held] master.ts_arrange_apart [OF assms(6,2,3,4), of animate held]
    dwindle.ts_arrange_calls(2) [OF _ assms(5), of _ h animate held] master.ts_arrange_calls(2) [OF _ assms(6), of _ h animate held]
  by (auto simp: ts_windows_def dwindle_layout_def master_layout_def)

theorem tiles_never_overlap_witness:
  "tiles_apart (ts_boxes (snd (ts_arrange dwindle_layout sample_host True None sample_dwindle))) \<and>
   tiles_apart (ts_boxes (snd (ts_arrange master_layout sample_host True None sample_master)))"
  using tiles_never_overlap [OF sample_area(1,1,2,3) sample_dwindle_ok sample_master_ok] by blast

text \<open>Moving a window in a tiled space swaps it with the neighbour in that direction: the
  neighbour is another window of the space whose centre lies that way, no window that way
  scores better, and when there is none the space is left alone.\<close>

theorem tiled_move_swaps_neighbour:
  assumes "space_ok dwindle_layout dwindle_ok sp" "ts_move dwindle_layout h w d sp = (moved, calls, sp')"
  shows "space_ok dwindle_layout dwindle_ok sp' \<and>
    (case ts_neighbor w d sp of
       None \<Rightarrow> \<not> moved \<and> sp' = sp
     | Some v \<Rightarrow> moved \<and> v \<noteq> w \<and> v \<in> set (dwindle_windows (ts_layout sp)) \<and>
         dwindle_windows (ts_layout sp') = map (swapped w v) (dwindle_windows (ts_layout sp)) \<and>
         (\<exists>from to s. map_of (ts_boxes sp) w = Some from \<and> (v, to) \<in> set (ts_boxes sp) \<and> score from to d = Some s \<and>
            (\<forall>u b t. (u, b) \<in> set (ts_boxes sp) \<and> u \<noteq> w \<and> score from b d = Some t \<longrightarrow> s \<le> t)))"
proof -
  note m = dwindle.ts_move_swaps [OF assms]
  show ?thesis
  proof (cases "ts_neighbor w d sp")
    case None
    with m(1,2,4) show ?thesis by simp
  next
    case (Some v)
    then obtain fb where f: "map_of (ts_boxes sp) w = Some fb" "neighbor fb (filter (\<lambda>e. fst e \<noteq> w) (ts_boxes sp)) d = Some v"
      by (auto simp: ts_neighbor_def split: option.splits)
    obtain b s where b: "(v, b) \<in> set (filter (\<lambda>e. fst e \<noteq> w) (ts_boxes sp))" "score fb b d = Some s"
      "\<And>u b' t. (u, b') \<in> set (filter (\<lambda>e. fst e \<noteq> w) (ts_boxes sp)) \<Longrightarrow> score fb b' d = Some t \<Longrightarrow> s \<le> t"
      by (rule neighbor_best [OF f(2)]) blast
    show ?thesis
      using Some m(1,2) m(3) [OF Some] dwindle.ts_neighbor_window(1,2) [OF assms(1) Some] f(1) b
      by (auto simp: ts_windows_def dwindle_layout_def intro!: exI [of _ b])
  qed
qed

theorem tiled_move_swaps_neighbour_witness:
  "space_ok dwindle_layout dwindle_ok (snd (snd (ts_move dwindle_layout sample_host 1 DRight
     (snd (ts_arrange dwindle_layout sample_host True None sample_dwindle)))))"
proof -
  let ?sp = "snd (ts_arrange dwindle_layout sample_host True None sample_dwindle)"
  obtain moved calls sp' where m: "ts_move dwindle_layout sample_host 1 DRight ?sp = (moved, calls, sp')"
    by (cases "ts_move dwindle_layout sample_host 1 DRight ?sp")
  show ?thesis
    unfolding m snd_conv
    by (rule conjunct1 [OF tiled_move_swaps_neighbour [OF dwindle.ts_arrange_sound(1) [OF sample_dwindle_ok] m]])
qed

text \<open>Dividing a box by weights uses it up: the parts and the gaps add up to its length, they follow
  each other in order, and each part is within half a pixel of its share, the last within half a
  pixel for each part before it.\<close>

theorem divide_shares_box:
  assumes "ws \<noteq> []" "\<forall>w \<in> set ws. 0 < w" "0 \<le> gap"
  shows "sum_list (map (\<lambda>p. box_length p a) (divide b a ws gap)) = max 0 (box_length b a - gap * (of_nat (length ws) - 1)) \<and>
    sorted_wrt (after_gap a gap) (divide b a ws gap) \<and>
    (\<forall>i < length ws. \<bar>box_length (divide b a ws gap ! i) a -
        max 0 (box_length b a - gap * (of_nat (length ws) - 1)) * (ws ! i) / sum_list ws\<bar>
      \<le> (if Suc i = length ws then of_nat i / 2 else 1 / 2))"
proof -
  have pos: "0 < sum_list ws"
  proof (cases ws)
    case (Cons v vs)
    have "0 \<le> sum_list vs" using assms(2) Cons by (intro sum_list_nonneg) (auto intro: less_imp_le)
    then show ?thesis using assms(2) Cons by (simp add: add_pos_nonneg)
  qed (use assms(1) in simp)
  show ?thesis
    using divide_sum [OF assms(1), of a b gap] divide_starts(1) [of gap ws a b] divide_shares [of _ ws b a gap] assms pos
    by (auto simp: divisible_def intro: less_imp_le)
qed

theorem divide_shares_box_witness:
  "sum_list (map (\<lambda>p. box_length p Vertical) (divide \<lparr>b_x = 0, b_y = 0, b_w = 100, b_h = 100\<rparr> Vertical [1, 1, 2] 10)) = 80"
  using divide_shares_box [of "[1, 1, 2]" 10 Vertical "\<lparr>b_x = 0, b_y = 0, b_w = 100, b_h = 100\<rparr>"] by (simp add: box_length_def)

text \<open>Shifting the boundary between two windows of the master layout's stack keeps their joint
  weight and every other window's, leaves each of the two a positive weight, and keeps the
  order of windows.\<close>

theorem master_resize_conserves:
  assumes "master_ok m" "Suc i < length (drop 1 (ms_order m))" "shift_boundary (drop 1 (ms_order m)) i px m = Some t"
  shows "master_ok t \<and> ms_order t = ms_order m \<and>
    weight_of t (drop 1 (ms_order m) ! i) + weight_of t (drop 1 (ms_order m) ! Suc i) =
      weight_of m (drop 1 (ms_order m) ! i) + weight_of m (drop 1 (ms_order m) ! Suc i) \<and>
    (\<forall>w. w \<noteq> drop 1 (ms_order m) ! i \<and> w \<noteq> drop 1 (ms_order m) ! Suc i \<longrightarrow> weight_of t w = weight_of m w)"
  using shift_boundary_Some [OF assms(3,1)] stack_pair [OF _ assms(2)] assms(1) by (simp add: master_ok_def)

theorem master_resize_conserves_witness:
  "\<exists>t. shift_boundary [2, 3] 0 60 (snd (master_arrange \<lparr>b_x = 0, b_y = 0, b_w = 1000, b_h = 610\<rparr> 10 (ts_layout sample_master))) = Some t \<and>
    weight_of t 2 + weight_of t 3 = 2"
proof -
  let ?m = "snd (master_arrange \<lparr>b_x = 0, b_y = 0, b_w = 1000, b_h = 610\<rparr> 10 (ts_layout sample_master))"
  have ok: "master_ok ?m" using master.arrange_ok [OF sample_master_ok] by (simp add: master_layout_def)
  have o: "ms_order ?m = [1, 2, 3]"
    by (simp add: master_arrange_def sample_master_def master_insert_def new_master_def Let_def)
  have b: "map_of (ms_boxes ?m) 2 = Some \<lparr>b_x = 555, b_y = 0, b_w = 445, b_h = 300\<rparr>"
    "map_of (ms_boxes ?m) 3 = Some \<lparr>b_x = 555, b_y = 310, b_w = 445, b_h = 300\<rparr>"
    by (simp_all add: master_arrange_def master_boxes_def sample_master_def master_insert_def new_master_def split_box_def
        box_length_def box_start_def divide_def part_box_def weight_of_def MASTER_RATIO_def math_round_def round_def floor_eq_iff Let_def)
  then obtain t where t: "shift_boundary [2, 3] 0 60 ?m = Some t" by (simp add: shift_boundary_def Let_def)
  have "weight_of ?m 2 + weight_of ?m 3 = 2"
    by (simp add: master_arrange_def sample_master_def master_insert_def new_master_def weight_of_def Let_def)
  then show ?thesis using master_resize_conserves [OF ok, of 0 60 t] t o by simp
qed

text \<open>A window parked off the view shows on no other monitor as long as one of the four spots
  is clear, keeps its size, and every spot still touches its own monitor.\<close>

theorem parked_window_stays_home:
  assumes "s \<in> set (spots b home)" "\<not> list_ex (intersects s) others" "1 \<le> b_w b" "1 \<le> b_h b" "1 \<le> b_w home" "1 \<le> b_h home"
  shows "\<not> list_ex (intersects (parking_spot b view home others)) others \<and> intersects s home \<and>
    b_w (parking_spot b view home others) = b_w b \<and> b_h (parking_spot b view home others) = b_h b"
  using parking_spot_clear [OF assms(1,2), of view] spots_touch_home [OF assms(1,3-6)] parking_spot_size [of b view home others] by simp

theorem parked_window_stays_home_witness:
  "\<not> list_ex (intersects (parking_spot \<lparr>b_x = 900, b_y = 0, b_w = 500, b_h = 600\<rparr> \<lparr>b_x = 0, b_y = 0, b_w = 1000, b_h = 600\<rparr>
    \<lparr>b_x = 0, b_y = 0, b_w = 1000, b_h = 600\<rparr> [\<lparr>b_x = 1000, b_y = 0, b_w = 1000, b_h = 600\<rparr>])) [\<lparr>b_x = 1000, b_y = 0, b_w = 1000, b_h = 600\<rparr>]"
  by (rule conjunct1 [OF parked_window_stays_home [where s = "\<lparr>b_x = 0, b_y = -599, b_w = 500, b_h = 600\<rparr>"]])
    (simp_all add: spots_def SLIVER_def intersects_def)

section \<open>The scrolling strip\<close>

text \<open>C9. Whatever is done to a strip, no column is empty, every window has one weight, the focused
  column and its row exist, no window is in it twice, and laid out, each window has one box and
  no two boxes share a point.\<close>

theorem strip_stays_sound:
  assumes "strip_reach s" "0 \<le> st_gap s"
  shows "strip_ok s \<and> map fst (strip_layout offset s) = strip_windows s \<and> tiles_apart (strip_layout offset s) \<and>
    (focused_window s = None \<longleftrightarrow> strip_windows s = [])"
  using strip_reach_ok [OF assms(1)] layout_windows layout_apart assms(2) focused_window_None by blast

definition sample_strip :: "nat strip" where
  "sample_strip = strip_add 2 True (strip_add 1 True (set_view \<lparr>b_x = 0, b_y = 0, b_w = 1000, b_h = 600\<rparr> 10 new_strip))"

lemma sample_strip_reach: "strip_reach sample_strip"
  unfolding sample_strip_def
  by (intro strip_reach_step [OF _ sp_add] strip_reach_step [OF strip_reach_new sp_view])
    (simp_all add: strip_add_def set_view_def new_strip_def strip_windows_def splice_in_def single_def Let_def)

lemma sample_strip_state: "st_columns sample_strip = [single 1 DEFAULT_WIDTH, single 2 DEFAULT_WIDTH]" "st_focused sample_strip = 1"
  "st_gap sample_strip = 10" "b_w (st_view sample_strip) = 1000" "st_offset sample_strip = 0"
  by (simp_all add: sample_strip_def strip_add_def set_view_def new_strip_def splice_in_def Let_def)

theorem strip_stays_sound_witness: "tiles_apart (strip_layout 0 sample_strip)"
  using strip_stays_sound [OF sample_strip_reach, of 0] by (simp add: sample_strip_state)

text \<open>Moving a column, a row, a column to an end, and stacking a window onto the column beside it or
  out of its own, all keep the same windows in the strip and the focus on the window that moved.\<close>

theorem moves_keep_focus:
  assumes "strip_ok s" "d = 1 \<or> d = -1"
    and "t \<in> {snd (move_column d s), snd (move_row d s), snd (strip_stack d s), snd (move_column_to_edge at_end s)}"
  shows "mset (strip_windows t) = mset (strip_windows s) \<and> focused_window t = focused_window s \<and> strip_ok t"
proof -
  have "d \<noteq> 0" using assms(2) by auto
  then show ?thesis
    using assms(3) move_column_ok [OF assms(1) prod.collapse [symmetric], of d] move_row_ok [OF assms(1) prod.collapse [symmetric], of d]
      strip_stack_ok [OF assms(1) prod.collapse [symmetric], of d] move_column_to_edge_ok [OF assms(1) prod.collapse [symmetric], of at_end]
    by auto
qed

theorem moves_keep_focus_witness: "focused_window (snd (strip_stack (-1) sample_strip)) = focused_window sample_strip"
  using moves_keep_focus [OF strip_reach_ok [OF sample_strip_reach], of "-1" "snd (strip_stack (-1) sample_strip)"] by blast

text \<open>Removing a window takes exactly it out of the strip, in place, and when another window has the focus
  it keeps it, unless the removed one was above it in its column.\<close>

theorem remove_takes_only_window:
  assumes "strip_ok s"
  shows "strip_ok (strip_remove w s) \<and> strip_windows (strip_remove w s) = filter (\<lambda>v. v \<noteq> w) (strip_windows s) \<and>
    (\<forall>f. focused_window s = Some f \<and> f \<noteq> w \<and>
        \<not> (\<exists>r. locate s w = Some (st_focused s, r) \<and> r < cl_row (st_columns s ! st_focused s))
      \<longrightarrow> focused_window (strip_remove w s) = Some f)"
proof -
  have "focused_window (strip_remove w s) = Some f"
    if "focused_window s = Some f" "f \<noteq> w" "\<not> (\<exists>r. locate s w = Some (st_focused s, r) \<and> r < cl_row (st_columns s ! st_focused s))" for f
  proof (rule strip_remove_focus [OF assms that(1,2)])
    fix r assume r: "locate s w = Some (st_focused s, r)"
    have "r \<noteq> cl_row (st_columns s ! st_focused s)"
      using locate_Some [OF r] that(1,2) by (auto simp: focused_window_ok [OF assms] split: if_splits)
    then show "cl_row (st_columns s ! st_focused s) < r" using that(3) r by (meson linorder_neqE_nat)
  qed
  with strip_remove_ok [OF assms] show ?thesis by blast
qed

theorem remove_takes_only_window_witness: "focused_window (strip_remove 1 sample_strip) = Some 2"
  using remove_takes_only_window [OF strip_reach_ok [OF sample_strip_reach], of 1]
  by (simp add: focused_window_def column_at_index_def row_window_def nth_opt_def locate_def sample_strip_state single_def)

text \<open>The exception is real: in a column of three windows with the focus on the second, removing the
  first leaves the focus on the third.\<close>

theorem remove_above_moves_focus:
  "focused_window (strip_remove (1 :: nat) (new_strip\<lparr>st_columns := [\<lparr>cl_windows = [1, 2, 3], cl_weights = [1, 1, 1],
      cl_width = DEFAULT_WIDTH, cl_row = 1, cl_restore = None\<rparr>]\<rparr>)) = Some 3 \<and>
   focused_window (new_strip\<lparr>st_columns := [\<lparr>cl_windows = [1 :: nat, 2, 3], cl_weights = [1, 1, 1],
      cl_width = DEFAULT_WIDTH, cl_row = 1, cl_restore = None\<rparr>]\<rparr>) = Some 2"
  by (simp add: strip_remove_def locate_def with_column_def without_row_def splice_out_def focused_window_def
      column_at_index_def row_window_def nth_opt_def new_strip_def Let_def)



text \<open>Expanding the focused column fills the view: it and the other columns fully in view, with the gaps
  between them, are exactly as wide as the view.\<close>

theorem expand_fills_view:
  assumes "strip_ok s" "st_columns s \<noteq> []" "b_w (st_view s) \<in> \<int>" "st_gap s \<in> \<int>" "1 \<le> b_w (st_view s) - 2 * st_gap s" "0 \<le> st_gap s"
    and "1 \<le> view_width s - sum_list (map (\<lambda>index. column_width s (st_columns s ! index) + st_gap s) (shown_beside s))"
    and "MIN_WIDTH * (b_w (st_view s) - st_gap s) \<le>
      view_width s - sum_list (map (\<lambda>index. column_width s (st_columns s ! index) + st_gap s) (shown_beside s)) + st_gap s"
  shows "column_width s (st_columns (expand s) ! st_focused s) +
      sum_list (map (\<lambda>index. column_width s (st_columns s ! index) + st_gap s) (shown_beside s)) = view_width s \<and>
    strip_windows (expand s) = strip_windows s \<and> focused_window (expand s) = focused_window s"
  using expand_fills [OF assms(1-8)] expand_ok [OF assms(1)] by blast

theorem expand_fills_view_witness: "column_width sample_strip (st_columns (expand sample_strip) ! 1) + 495 = 980"
proof -
  have cw: "column_width sample_strip (single n DEFAULT_WIDTH) = 485" for n
    by (simp add: column_width_def sample_strip_state single_def DEFAULT_WIDTH_def math_round_def round_def floor_eq_iff)
  have vw: "view_width sample_strip = 980" by (simp add: view_width_def sample_strip_state)
  have sh: "shown_beside sample_strip = [0]"
    by (simp add: shown_beside_def fully_shown_def sample_strip_state column_start_def cw vw upt_rec)
  show ?thesis
    using expand_fills_view [OF strip_reach_ok [OF sample_strip_reach]]
    by (simp add: sample_strip_state sh cw vw MIN_WIDTH_def)
qed

text \<open>Maximizing a column makes it exactly as wide as the view, and maximizing it again gives back the
  column it was.\<close>

theorem maximize_round_trip:
  assumes "cl_width c < 1 - PRESET_TOLERANCE" "cl_restore c = None" "b_w (st_view s) - st_gap s \<in> \<int>"
  shows "column_width s (maximized c) = view_width s \<and> maximized (maximized c) = c"
  using maximized_twice [OF assms(1,2)] column_width_full [OF _ assms(3)] by blast

theorem maximize_round_trip_witness: "maximized (maximized (single (1::nat) DEFAULT_WIDTH)) = single 1 DEFAULT_WIDTH"
  using maximize_round_trip [of "single (1::nat) DEFAULT_WIDTH" sample_strip]
  by (simp add: sample_strip_state single_def DEFAULT_WIDTH_def PRESET_TOLERANCE_def)

text \<open>Revealing a column brings it into view: all of it when it fits, from its start when it does not;
  and a column fully in view is left where it is.\<close>

theorem reveal_brings_into_view:
  assumes "column_at_index s (int i) = Some c"
  shows "st_offset (reveal i s) \<le> column_start s i \<and>
    (if column_width s c \<le> view_width s then column_start s i + column_width s c \<le> st_offset (reveal i s) + view_width s
     else st_offset (reveal i s) = column_start s i) \<and>
    (column_width s c \<le> view_width s \<and> st_offset s \<le> column_start s i \<and>
       column_start s i + column_width s c \<le> st_offset s + view_width s \<longrightarrow> reveal i s = s)"
  using reveal_shows [OF assms] reveal_settled [OF assms] by auto

theorem reveal_brings_into_view_witness: "st_offset (reveal 0 sample_strip) \<le> column_start sample_strip 0"
  using reveal_brings_into_view [of sample_strip 0 "single 1 DEFAULT_WIDTH"]
  by (simp add: column_at_index_def nth_opt_def sample_strip_state)

end
