(* ===== verification/Tiling_Scene.thy ===== *)
theory Tiling_Scene
  imports Tiling_Space
begin

text \<open>
  How a scrolling space shows its strip, \<^verbatim>\<open>scrolling/scene.ts\<close>: the real frame of a window is parked at
  a spot off the other monitors when its box leaves the view, and its actor is translated so that
  it is drawn at its box.  What the compositor answers about frames and actors is a record that
  extends the host's; the calls on windows and actors are results, in order.
\<close>

section \<open>Actors and calls\<close>

text \<open>An actor: its allocation, translation and scale, whether it is clipped, and the transition of its
  translation, with its velocity.\<close>

record actor =
  ac_box :: box
  ac_x :: number
  ac_y :: number
  ac_scale :: number
  ac_clipped :: bool
  ac_gliding :: bool
  ac_speed_x :: number
  ac_speed_y :: number

text \<open>\<open>sg_settled w b\<close> is what \<^verbatim>\<open>get_frame_rect\<close> answers, and where the actor is, once \<open>w\<close> was told to move
  to \<open>b\<close>.\<close>

record 'w stage = "'w space_host" +
  sg_actor :: "'w \<Rightarrow> actor option"
  sg_buffer :: "'w \<Rightarrow> box"
  sg_settled :: "'w \<Rightarrow> box \<Rightarrow> box \<times> box"

datatype 'w scene_call =
    Frame "'w frame_call"
  | Stop_transforms 'w
  | Stop_translation 'w
  | Set_translation 'w number number
  | Set_scale 'w number
  | Glide 'w number number number number
  | Zoom_to 'w number number number
  | Unscale 'w
  | Set_clip 'w box
  | Remove_clip 'w

section \<open>The scene\<close>

record shown =
  sn_intended :: "box option"
  sn_frame_x :: number
  sn_frame_y :: number

type_synonym 'w scene = "('w \<times> shown) list"

text \<open>The entry of a window: the one there is, or a new one at its frame.\<close>

definition entry_of :: "'w stage \<Rightarrow> 'w \<Rightarrow> 'w scene \<Rightarrow> shown" where
  "entry_of h w scene =
    (case map_of scene w of
      Some entry \<Rightarrow> entry
    | None \<Rightarrow> \<lparr>sn_intended = None, sn_frame_x = b_x (sh_frame h w), sn_frame_y = b_y (sh_frame h w)\<rparr>)"

definition other_monitors :: "'w stage \<Rightarrow> nat \<Rightarrow> box list" where
  "other_monitors h monitor = map (sh_monitor_box h) (filter (\<lambda>index. index \<noteq> monitor) [0 ..< sh_monitor_count h])"

definition clip_calls :: "'w stage \<Rightarrow> nat \<Rightarrow> 'w \<Rightarrow> bool \<Rightarrow> box \<Rightarrow> number \<Rightarrow> number \<Rightarrow> number \<Rightarrow> 'w scene_call list" where
  "clip_calls h monitor w clipped b x y scale =
    (let unclip = (if clipped then [Remove_clip w] else []) in
     if sh_monitor_count h < 2 then unclip
     else
      (let home = sh_monitor_box h monitor; left = b_x b + x; top = b_y b + y in
       if left \<ge> b_x home \<and> top \<ge> b_y home \<and> left + b_w b * scale \<le> b_x home + b_w home \<and>
          top + b_h b * scale \<le> b_y home + b_h home
       then unclip
       else [Set_clip w \<lparr>b_x = (b_x home - left) / scale, b_y = (b_y home - top) / scale,
          b_w = b_w home / scale, b_h = b_h home / scale\<rparr>]))"

text \<open>\<^verbatim>\<open>real === box\<close>: the spot of a window is its own box, because it is in view or no spot is clear.\<close>

definition unparked :: "box \<Rightarrow> box \<Rightarrow> box \<Rightarrow> box list \<Rightarrow> bool" where
  "unparked b view home others \<longleftrightarrow>
    intersects b view \<and> \<not> list_ex (intersects b) others \<or> list_all (\<lambda>spot. list_ex (intersects spot) others) (spots b home)"

text \<open>One round of the loop of \<^verbatim>\<open>apply\<close>.\<close>

definition apply_one :: "'w stage \<Rightarrow> nat \<Rightarrow> bool \<Rightarrow> number \<Rightarrow> 'w \<times> box \<Rightarrow> 'w scene \<Rightarrow> 'w scene_call list \<times> 'w scene" where
  "apply_one h monitor animate velocity = (\<lambda>(w, b) scene.
    if \<not> sh_ready h w then ([], scene)
    else
     (let ready = [Frame (Set_unconstrained w True), Frame (Set_edges_tiled w (sh_gap h = 0))];
          home = sh_monitor_box h monitor; view = sh_work_area h monitor; others = other_monitors h monitor;
          real = parking_spot b view home others;
          frame = sh_frame h w; target = sh_target h w;
          resizes = (b_w target \<noteq> b_w b \<or> b_h target \<noteq> b_h b);
          move = (if \<not> same_box target real then [Frame (Move_resize w real)] else [])
      in if sh_stretched h w then (ready, scene)
      else case sg_actor h w of
        None \<Rightarrow> (ready @ move, scene)
      | Some actor \<Rightarrow>
         (let glides = (animate \<and> sh_shown h w) in
          if resizes \<and> glides \<and> unparked b view home others \<and> same_box frame target \<and> ac_x actor = 0 \<and> ac_y actor = 0
          then (ready @ [Stop_transforms w, Frame (Morph w), Frame (Move_resize w b)],
                map_put w ((entry_of h w scene)\<lparr>sn_intended := None\<rparr>) scene)
          else
           (let (placed, allocated) = (if same_box target real then (frame, ac_box actor) else sg_settled h w real);
                scene' = map_put w \<lparr>sn_intended = Some b, sn_frame_x = b_x placed, sn_frame_y = b_y placed\<rparr> scene;
                x = b_x b - b_x placed; y = b_y b - b_y placed
            in if glides \<and> \<not> resizes
            then
             (let start_x = b_x frame + ac_x actor - b_x placed; start_y = b_y frame + ac_y actor - b_y placed
              in (ready @ move @
                  [Stop_translation w, Set_translation w start_x start_y,
                   Glide w x y (if velocity \<noteq> 0 then velocity else ac_speed_x actor) (ac_speed_y actor)] @
                  clip_calls h monitor w (ac_clipped actor) allocated start_x start_y (ac_scale actor), scene'))
            else (ready @ move @ [Stop_transforms w, Set_scale w 1, Set_translation w x y] @
                  clip_calls h monitor w (ac_clipped actor) allocated x y 1, scene')))))"

fun each_window :: "('e \<Rightarrow> 's \<Rightarrow> 'c list \<times> 's) \<Rightarrow> 'e list \<Rightarrow> 's \<Rightarrow> 'c list \<times> 's" where
  "each_window f [] scene = ([], scene)"
| "each_window f (e # es) scene =
    (let (calls, scene') = f e scene; (later, scene'') = each_window f es scene' in (calls @ later, scene''))"

definition scene_apply :: "'w stage \<Rightarrow> nat \<Rightarrow> ('w \<times> box) list \<Rightarrow> bool \<Rightarrow> number \<Rightarrow> 'w scene \<Rightarrow> 'w scene_call list \<times> 'w scene" where
  "scene_apply h monitor boxes animate velocity scene = each_window (apply_one h monitor animate velocity) boxes scene"

definition scene_hold :: "'w \<Rightarrow> 'w scene \<Rightarrow> 'w scene" where
  "scene_hold w scene =
    (case map_of scene w of None \<Rightarrow> scene | Some entry \<Rightarrow> map_put w (entry\<lparr>sn_intended := None\<rparr>) scene)"

definition preview_one :: "'w stage \<Rightarrow> nat \<Rightarrow> 'w \<times> box \<Rightarrow> 'w scene \<Rightarrow> 'w scene_call list \<times> 'w scene" where
  "preview_one h monitor = (\<lambda>(w, b) scene.
    case sg_actor h w of
      None \<Rightarrow> ([], scene)
    | Some actor \<Rightarrow>
        if sh_stretched h w then ([], scene)
        else
         (let frame = sh_frame h w; x = b_x b - b_x frame; y = b_y b - b_y frame
          in ([Stop_transforms w, Set_translation w x y] @ clip_calls h monitor w (ac_clipped actor) (ac_box actor) x y (ac_scale actor),
              map_put w \<lparr>sn_intended = Some b, sn_frame_x = b_x frame, sn_frame_y = b_y frame\<rparr> scene)))"

definition scene_preview :: "'w stage \<Rightarrow> nat \<Rightarrow> ('w \<times> box) list \<Rightarrow> 'w scene \<Rightarrow> 'w scene_call list \<times> 'w scene" where
  "scene_preview h monitor boxes scene = each_window (preview_one h monitor) boxes scene"

definition zoom_one :: "'w stage \<Rightarrow> number \<Rightarrow> 'w \<times> box \<Rightarrow> 'w scene \<Rightarrow> 'w scene_call list \<times> 'w scene" where
  "zoom_one h scale = (\<lambda>(w, b) scene.
    case sg_actor h w of
      None \<Rightarrow> ([], scene)
    | Some actor \<Rightarrow>
        if sh_stretched h w then ([], scene)
        else
         (let frame = sh_frame h w; buffer = sg_buffer h w
          in ([Zoom_to w scale (b_x b - (b_x frame - b_x buffer) * scale - b_x buffer)
                 (b_y b - (b_y frame - b_y buffer) * scale - b_y buffer)],
              map_put w ((entry_of h w scene)\<lparr>sn_intended := None\<rparr>) scene)))"

definition scene_zoom :: "'w stage \<Rightarrow> ('w \<times> box) list \<Rightarrow> number \<Rightarrow> 'w scene \<Rightarrow> 'w scene_call list \<times> 'w scene" where
  "scene_zoom h boxes scale scene = each_window (zoom_one h scale) boxes scene"

definition scene_unzoom :: "'w stage \<Rightarrow> nat \<Rightarrow> ('w \<times> box) list \<Rightarrow> 'w scene \<Rightarrow> 'w scene_call list \<times> 'w scene" where
  "scene_unzoom h monitor boxes scene =
    (let unscaled = concat (map (\<lambda>(w, b). if sg_actor h w = None then [] else [Unscale w]) boxes);
         (calls, scene') = scene_apply h monitor boxes True 0 scene
     in (unscaled @ calls, scene'))"

definition scene_release :: "'w \<Rightarrow> 'w scene \<Rightarrow> 'w scene_call list \<times> 'w scene" where
  "scene_release w scene =
    (case map_of scene w of
      None \<Rightarrow> ([], scene)
    | Some entry \<Rightarrow> ([Stop_transforms w, Set_translation w 0 0, Set_scale w 1, Remove_clip w], map_drop w scene))"

definition scene_destroy :: "'w scene \<Rightarrow> 'w scene_call list \<times> 'w scene" where
  "scene_destroy scene = each_window scene_release (map fst scene) scene"

text \<open>The frame of a window moved, as the handler of \<^verbatim>\<open>position-changed\<close> sees it.\<close>

definition scene_follow :: "'w stage \<Rightarrow> 'w \<Rightarrow> 'w scene \<Rightarrow> 'w scene_call list \<times> 'w scene" where
  "scene_follow h w scene =
    (case (map_of scene w, sg_actor h w) of
      (Some entry, Some actor) \<Rightarrow>
        (let frame = sh_frame h w; dx = b_x frame - sn_frame_x entry; dy = b_y frame - sn_frame_y entry;
             scene' = map_put w (entry\<lparr>sn_frame_x := b_x frame, sn_frame_y := b_y frame\<rparr>) scene
         in case sn_intended entry of
           None \<Rightarrow> ([], scene')
         | Some goal \<Rightarrow>
            if dx = 0 \<and> dy = 0 then ([], scene')
            else if \<not> ac_gliding actor
            then ([Set_translation w (b_x goal - b_x frame) (b_y goal - b_y frame)], scene')
            else ([Stop_translation w, Set_translation w (ac_x actor - dx) (ac_y actor - dy),
                   Glide w (b_x goal - b_x frame) (b_y goal - b_y frame) (ac_speed_x actor) (ac_speed_y actor)], scene'))
    | _ \<Rightarrow> ([], scene))"

section \<open>Facts about the scene\<close>

text \<open>What a loop over windows keeps, if each round does.\<close>

lemma each_window_keeps:
  assumes "\<And>e t. e \<in> set es \<Longrightarrow> P t \<Longrightarrow> P (snd (f e t)) \<and> (\<forall>c \<in> set (fst (f e t)). Q c)" "P s"
  shows "P (snd (each_window f es s)) \<and> (\<forall>c \<in> set (fst (each_window f es s)). Q c)"
  using assms
proof (induction es arbitrary: s)
  case (Cons e es)
  have step: "P (snd (f e s)) \<and> (\<forall>c \<in> set (fst (f e s)). Q c)" using Cons.prems(1) [of e s] Cons.prems(2) by simp
  have "P (snd (each_window f es (snd (f e s)))) \<and> (\<forall>c \<in> set (fst (each_window f es (snd (f e s)))). Q c)"
    by (rule Cons.IH) (meson Cons.prems(1) list.set_intros(2), simp add: step)
  with step show ?case by (auto simp: case_prod_unfold Let_def)
qed simp

text \<open>The window a call of the scene is about.\<close>

definition scene_window :: "'w scene_call \<Rightarrow> 'w" where
  "scene_window c = (case c of Frame f \<Rightarrow> frame_window f | Stop_transforms w \<Rightarrow> w | Stop_translation w \<Rightarrow> w
    | Set_translation w _ _ \<Rightarrow> w | Set_scale w _ \<Rightarrow> w | Glide w _ _ _ _ \<Rightarrow> w | Zoom_to w _ _ _ \<Rightarrow> w | Unscale w \<Rightarrow> w
    | Set_clip w _ \<Rightarrow> w | Remove_clip w \<Rightarrow> w)"

lemma clip_calls_mem: "c \<in> set (clip_calls h monitor w clipped b x y scale) \<Longrightarrow> c = Remove_clip w \<or> (\<exists>k. c = Set_clip w k)"
  by (auto simp: clip_calls_def Let_def split: if_splits)

lemma apply_one_calls:
  assumes "c \<in> set (fst (apply_one h monitor animate velocity (w, b) scene))"
  shows "scene_window c = w" and "c = Frame (Move_resize v k) \<Longrightarrow> k = parking_spot b (sh_work_area h monitor) (sh_monitor_box h monitor) (other_monitors h monitor)"
proof -
  show "scene_window c = w"
    using assms by (auto simp: apply_one_def Let_def case_prod_unfold scene_window_def frame_window_def
        dest!: clip_calls_mem split: if_splits option.splits)
  assume "c = Frame (Move_resize v k)"
  moreover have "unparked b view home others \<Longrightarrow> parking_spot b view home others = b" for view home others
    by (auto simp: unparked_def parking_spot_def otherwise_def find_None_iff list_all_iff split: option.split dest!: find_SomeD)
  ultimately show "k = parking_spot b (sh_work_area h monitor) (sh_monitor_box h monitor) (other_monitors h monitor)"
    using assms by (auto simp: apply_one_def Let_def case_prod_unfold dest!: clip_calls_mem split: if_splits option.splits)
qed

text \<open>The place a run of calls leaves a window translated to, now or at the end of its glide.\<close>

fun translated :: "'w \<Rightarrow> 'w scene_call list \<Rightarrow> (number \<times> number) option \<Rightarrow> (number \<times> number) option" where
  "translated w [] at0 = at0"
| "translated w (Set_translation v x y # cs) at0 = translated w cs (if v = w then Some (x, y) else at0)"
| "translated w (Glide v x y dx dy # cs) at0 = translated w cs (if v = w then Some (x, y) else at0)"
| "translated w (c # cs) at0 = translated w cs at0"

lemma translated_append: "translated w (xs @ ys) at0 = translated w ys (translated w xs at0)"
  by (induction w xs at0 rule: translated.induct) simp_all

lemma translated_clip: "translated w (clip_calls h monitor v clipped b x y scale) at0 = at0"
  by (simp add: clip_calls_def Let_def)

lemma apply_one_draws:
  assumes "sh_ready h w" "\<not> sh_stretched h w" "sg_actor h w = Some actor"
    and "map_of (snd (apply_one h monitor animate velocity (w, b) scene)) w = Some entry"
  shows "sn_intended entry = Some b \<and>
      translated w (fst (apply_one h monitor animate velocity (w, b) scene)) None = Some (b_x b - sn_frame_x entry, b_y b - sn_frame_y entry)
    \<or> sn_intended entry = None \<and> Frame (Move_resize w b) \<in> set (fst (apply_one h monitor animate velocity (w, b) scene))"
  using assms
  by (auto simp: apply_one_def Let_def case_prod_unfold translated_append translated_clip split: if_splits)

lemma apply_one_put:
  assumes "sh_ready h w" "\<not> sh_stretched h w" "sg_actor h w = Some actor"
  shows "\<exists>entry. snd (apply_one h monitor animate velocity (w, b) scene) = map_put w entry scene"
  using assms by (simp add: apply_one_def Let_def case_prod_unfold) (metis snd_conv)

lemma apply_one_keys:
  "fst ` set (snd (apply_one h monitor animate velocity e scene)) \<subseteq> insert (fst e) (fst ` set scene)"
  by (auto simp: apply_one_def Let_def case_prod_unfold keys_put split: option.splits)

lemma preview_one_keys: "fst ` set (snd (preview_one h monitor e scene)) \<subseteq> insert (fst e) (fst ` set scene)"
  by (auto simp: preview_one_def Let_def case_prod_unfold keys_put split: option.splits)

lemma zoom_one_keys: "fst ` set (snd (zoom_one h scale e scene)) \<subseteq> insert (fst e) (fst ` set scene)"
  by (auto simp: zoom_one_def Let_def case_prod_unfold keys_put split: option.splits)

lemma each_window_keys:
  assumes "\<And>e t. fst ` set (snd (f e t)) \<subseteq> insert (fst e) (fst ` set t)"
  shows "fst ` set (snd (each_window f es s)) \<subseteq> fst ` set es \<union> fst ` set s"
proof (induction es arbitrary: s)
  case (Cons e es)
  show ?case using Cons.IH [of "snd (f e s)"] assms [of e s] by (auto simp: case_prod_unfold Let_def)
qed simp

lemma scene_apply_keys: "fst ` set (snd (scene_apply h monitor boxes animate velocity scene)) \<subseteq> fst ` set boxes \<union> fst ` set scene"
  unfolding scene_apply_def by (rule each_window_keys) (rule apply_one_keys)

lemma scene_preview_keys: "fst ` set (snd (scene_preview h monitor boxes scene)) \<subseteq> fst ` set boxes \<union> fst ` set scene"
  unfolding scene_preview_def by (rule each_window_keys) (rule preview_one_keys)

lemma scene_zoom_keys: "fst ` set (snd (scene_zoom h boxes scale scene)) \<subseteq> fst ` set boxes \<union> fst ` set scene"
  unfolding scene_zoom_def by (rule each_window_keys) (rule zoom_one_keys)

lemma scene_unzoom_keys: "fst ` set (snd (scene_unzoom h monitor boxes scene)) \<subseteq> fst ` set boxes \<union> fst ` set scene"
  using scene_apply_keys [of h monitor boxes True 0 scene] by (simp add: scene_unzoom_def case_prod_unfold Let_def)

lemma scene_hold_keys [simp]: "fst ` set (scene_hold w scene) = fst ` set scene"
  by (force simp: scene_hold_def keys_put split: option.split dest: map_of_SomeD)

lemma scene_release_keys: "fst ` set (snd (scene_release w scene)) = fst ` set scene - {w}"
  by (auto simp: scene_release_def keys_drop map_of_eq_None_iff split: option.split)

lemma each_release: "set ws \<supseteq> fst ` set scene \<Longrightarrow> snd (each_window scene_release ws scene) = []"
proof (induction ws arbitrary: scene)
  case (Cons w ws)
  then have "fst ` set (snd (scene_release w scene)) \<subseteq> set ws" by (auto simp: scene_release_keys)
  with Cons.IH show ?case by (simp add: case_prod_unfold Let_def)
qed simp

lemma scene_destroy_empty: "snd (scene_destroy scene) = []"
  unfolding scene_destroy_def by (rule each_release) simp

text \<open>Following a frame: what was drawn stays where it was, and comes to rest at its box.\<close>

lemma scene_follow_continuous:
  assumes "map_of scene w = Some entry" "sg_actor h w = Some actor" "sn_intended entry = Some goal"
    and "b_x (sh_frame h w) \<noteq> sn_frame_x entry \<or> b_y (sh_frame h w) \<noteq> sn_frame_y entry"
  shows "translated w (fst (scene_follow h w scene)) None = Some (b_x goal - b_x (sh_frame h w), b_y goal - b_y (sh_frame h w))"
    and "ac_gliding actor \<Longrightarrow> \<exists>x y. Set_translation w x y \<in> set (fst (scene_follow h w scene)) \<and>
      b_x (sh_frame h w) + x = sn_frame_x entry + ac_x actor \<and> b_y (sh_frame h w) + y = sn_frame_y entry + ac_y actor"
    and "map_of (snd (scene_follow h w scene)) w = Some \<lparr>sn_intended = Some goal, sn_frame_x = b_x (sh_frame h w), sn_frame_y = b_y (sh_frame h w)\<rparr>"
  using assms by (auto simp: scene_follow_def Let_def)

text \<open>A whole round of the scene: each window is drawn by its own calls alone.\<close>

lemma translated_other: "\<forall>c \<in> set cs. scene_window c \<noteq> w \<Longrightarrow> translated w cs at0 = at0"
  by (induction w cs at0 rule: translated.induct) (simp_all add: scene_window_def)

lemma apply_one_other: "v \<noteq> w \<Longrightarrow> map_of (snd (apply_one h monitor animate velocity (v, b) scene)) w = map_of scene w"
  by (auto simp: apply_one_def Let_def case_prod_unfold split: option.splits)

lemma scene_apply_other:
  assumes "w \<notin> fst ` set boxes"
  shows "map_of (snd (scene_apply h monitor boxes animate velocity scene)) w = map_of scene w"
    and "translated w (fst (scene_apply h monitor boxes animate velocity scene)) at0 = at0"
proof -
  have "map_of (snd (scene_apply h monitor boxes animate velocity scene)) w = map_of scene w \<and>
      (\<forall>c \<in> set (fst (scene_apply h monitor boxes animate velocity scene)). scene_window c \<noteq> w)"
    unfolding scene_apply_def
  proof (rule each_window_keeps)
    fix e t assume e: "e \<in> set boxes" and t: "map_of t w = map_of scene w"
    obtain v b where vb: "e = (v, b)" by fastforce
    then have "v \<noteq> w" using e assms by force
    with vb t show "map_of (snd (apply_one h monitor animate velocity e t)) w = map_of scene w \<and>
        (\<forall>c \<in> set (fst (apply_one h monitor animate velocity e t)). scene_window c \<noteq> w)"
      using apply_one_calls(1) [of _ h monitor animate velocity v b t] by (auto simp: apply_one_other)
  qed simp
  then show "map_of (snd (scene_apply h monitor boxes animate velocity scene)) w = map_of scene w"
    "translated w (fst (scene_apply h monitor boxes animate velocity scene)) at0 = at0" by (simp_all add: translated_other)
qed

lemma scene_apply_draws:
  assumes "distinct (map fst boxes)" "(w, b) \<in> set boxes" "sh_ready h w" "\<not> sh_stretched h w" "sg_actor h w = Some actor"
  shows "\<exists>entry. map_of (snd (scene_apply h monitor boxes animate velocity scene)) w = Some entry \<and>
    (sn_intended entry = Some b \<and>
      translated w (fst (scene_apply h monitor boxes animate velocity scene)) None = Some (b_x b - sn_frame_x entry, b_y b - sn_frame_y entry)
    \<or> sn_intended entry = None \<and> Frame (Move_resize w b) \<in> set (fst (scene_apply h monitor boxes animate velocity scene)))"
  using assms(1,2)
proof (induction boxes arbitrary: scene)
  case (Cons e boxes)
  have split: "scene_apply h monitor (e # boxes) animate velocity scene =
      (fst (apply_one h monitor animate velocity e scene) @ fst (scene_apply h monitor boxes animate velocity (snd (apply_one h monitor animate velocity e scene))),
       snd (scene_apply h monitor boxes animate velocity (snd (apply_one h monitor animate velocity e scene))))"
    by (simp add: scene_apply_def case_prod_unfold Let_def)
  show ?case
  proof (cases "e = (w, b)")
    case True
    then have out: "w \<notin> fst ` set boxes" using Cons.prems(1) by simp
    obtain entry where entry: "map_of (snd (apply_one h monitor animate velocity (w, b) scene)) w = Some entry"
      using apply_one_put [OF assms(3-5), of monitor animate velocity b scene] by auto
    from apply_one_draws [OF assms(3-5) entry] show ?thesis
      unfolding True split [unfolded True] by (auto simp: entry scene_apply_other [OF out] translated_append)
  next
    case False
    then have "(w, b) \<in> set boxes" "fst e \<noteq> w" using Cons.prems by (auto simp: image_iff)
    then have "translated w (fst (apply_one h monitor animate velocity e scene)) None = None"
      using apply_one_calls(1) [of _ h monitor animate velocity "fst e" "snd e" scene] by (auto intro: translated_other)
    with Cons.IH [OF _ \<open>(w, b) \<in> set boxes\<close>, of "snd (apply_one h monitor animate velocity e scene)"] Cons.prems(1) show ?thesis
      unfolding split by (auto simp: translated_append)
  qed
qed simp

end
