(* ===== verification/Tiling_Scroll.thy ===== *)
theory Tiling_Scroll
  imports Tiling_Scene Tiling_Strip_Moves Tiling_Strip_View
begin

text \<open>
  A scrolling space, \<^verbatim>\<open>scrolling/scrollingSpace.ts\<close>: a strip and the scene that shows it, with the
  swipe in progress and the overview.  An operation that can break the weights of a row returns
  an option, as the strip's does.  The overview's scale is only used on the windows of the strip;
  a strip without columns leaves it at the height's.
\<close>

section \<open>Gestures\<close>

text \<open>\<^verbatim>\<open>packages/web/motion\<close>, with the values of its \<^verbatim>\<open>tokens.json\<close>.\<close>

definition RUBBERBAND :: number where "RUBBERBAND = 55 / 100"
definition DECELERATION :: number where "DECELERATION = 997 / 1000"

definition rubberband :: "number \<Rightarrow> number \<Rightarrow> number" where
  "rubberband overshoot dimension = sgn overshoot * (1 - 1 / (\<bar>overshoot\<bar> * RUBBERBAND / dimension + 1)) * dimension"

definition projection :: "number \<Rightarrow> number" where
  "projection velocity = velocity / 1000 * DECELERATION / (1 - DECELERATION)"

section \<open>The space\<close>

definition OVERVIEW_MARGIN :: number where "OVERVIEW_MARGIN = 48"

record 'w scroll_space =
  ss_monitor :: nat
  ss_strip :: "'w strip"
  ss_scene :: "'w scene"
  ss_boxes :: "('w \<times> box) list"
  ss_swipe :: "number option"
  ss_zoomed :: bool

definition new_scroll_space :: "nat \<Rightarrow> 'w scroll_space" where
  "new_scroll_space monitor =
    \<lparr>ss_monitor = monitor, ss_strip = new_strip, ss_scene = [], ss_boxes = [], ss_swipe = None, ss_zoomed = False\<rparr>"

definition direction_step :: "direction \<Rightarrow> int" where
  "direction_step d = (if forward d then 1 else -1)"

definition ss_windows :: "'w scroll_space \<Rightarrow> 'w list" where
  "ss_windows sp = strip_windows (ss_strip sp)"

definition ss_has :: "'w scroll_space \<Rightarrow> 'w \<Rightarrow> bool" where
  "ss_has sp w = strip_has (ss_strip sp) w"

definition ss_focused_window :: "'w scroll_space \<Rightarrow> 'w option" where
  "ss_focused_window sp = focused_window (ss_strip sp)"

definition ss_sync :: "'w stage \<Rightarrow> 'w scroll_space \<Rightarrow> 'w scroll_space" where
  "ss_sync h sp = sp\<lparr>ss_strip := set_view (sh_work_area h (ss_monitor sp)) (sh_gap h) (ss_strip sp)\<rparr>"

definition overview_scale :: "'w stage \<Rightarrow> 'w scroll_space \<Rightarrow> number" where
  "overview_scale h sp =
    (let area = sh_work_area h (ss_monitor sp);
         whole = total_width (ss_strip sp) + 2 * sh_gap h;
         tall = (b_h area - 2 * OVERVIEW_MARGIN) / b_h area
     in min 1 (if whole = 0 then tall else min ((b_w area - 2 * OVERVIEW_MARGIN) / whole) tall))"

definition overview_boxes :: "'w stage \<Rightarrow> 'w scroll_space \<Rightarrow> ('w \<times> box) list" where
  "overview_boxes h sp =
    (let area = sh_work_area h (ss_monitor sp); scale = overview_scale h sp;
         left = b_x area + (b_w area - (total_width (ss_strip sp) + 2 * sh_gap h) * scale) / 2;
         top = b_y area + (b_h area - b_h area * scale) / 2
     in map (\<lambda>(w, b). (w, \<lparr>b_x = math_round (left + (b_x b - b_x area) * scale),
          b_y = math_round (top + (b_y b - b_y area) * scale),
          b_w = math_round (b_w b * scale), b_h = math_round (b_h b * scale)\<rparr>)) (strip_layout 0 (ss_strip sp)))"

definition ss_layout :: "'w scroll_space \<Rightarrow> ('w \<times> box) list" where
  "ss_layout sp = strip_layout (st_offset (ss_strip sp)) (ss_strip sp)"

definition ss_arrange :: "'w stage \<Rightarrow> bool \<Rightarrow> 'w option \<Rightarrow> number \<Rightarrow> 'w scroll_space \<Rightarrow> 'w scene_call list \<times> 'w scroll_space" where
  "ss_arrange h animate held velocity sp =
    (let sp1 = ss_sync h sp;
         sp2 = (if ss_swipe sp1 = None then sp1\<lparr>ss_strip := reveal (st_focused (ss_strip sp1)) (ss_strip sp1)\<rparr> else sp1);
         sp3 = sp2\<lparr>ss_boxes := ss_layout sp2\<rparr>;
         placed = (case held of None \<Rightarrow> ss_boxes sp3 | Some w \<Rightarrow> map_drop w (ss_boxes sp3));
         scene = (case held of None \<Rightarrow> ss_scene sp3 | Some w \<Rightarrow> scene_hold w (ss_scene sp3));
         (calls, scene') =
           (if ss_zoomed sp3 then scene_zoom h (overview_boxes h sp3) (overview_scale h sp3) scene
            else scene_apply h (ss_monitor sp3) placed animate velocity scene)
     in (calls, sp3\<lparr>ss_scene := scene'\<rparr>))"

definition ss_box_of :: "'w scroll_space \<Rightarrow> 'w \<Rightarrow> box option" where
  "ss_box_of sp w = map_of (ss_boxes sp) w"

definition ss_add :: "'w stage \<Rightarrow> 'w \<Rightarrow> 'w option \<Rightarrow> 'w scroll_space \<Rightarrow> 'w scroll_space" where
  "ss_add h window focus sp =
    (let strip = (case focus of None \<Rightarrow> ss_strip sp | Some f \<Rightarrow> snd (strip_focus f (ss_strip sp)))
     in sp\<lparr>ss_strip := strip_add window (sh_beside_focused h) strip\<rparr>)"

definition ss_remove :: "'w \<Rightarrow> 'w scroll_space \<Rightarrow> 'w scene_call list \<times> 'w scroll_space" where
  "ss_remove window sp =
    (let (calls, scene) = scene_release window (ss_scene sp)
     in (calls, sp\<lparr>ss_strip := strip_remove window (ss_strip sp), ss_boxes := map_drop window (ss_boxes sp), ss_scene := scene\<rparr>))"

text \<open>What an operation does once its window has the strip's focus, if the strip has it.\<close>

definition ss_focus :: "'w \<Rightarrow> 'w scroll_space \<Rightarrow> bool \<times> 'w scroll_space" where
  "ss_focus window sp = (let (found, strip) = strip_focus window (ss_strip sp) in (found, sp\<lparr>ss_strip := strip\<rparr>))"

definition ss_neighbor :: "'w \<Rightarrow> direction \<Rightarrow> 'w scroll_space \<Rightarrow> 'w option \<times> 'w scroll_space" where
  "ss_neighbor window d sp =
    (case ss_focus window sp of
      (False, sp') \<Rightarrow> (None, sp')
    | (True, sp') \<Rightarrow>
        (if axis_of d = Horizontal then column_at (direction_step d) (ss_strip sp') else row_at (direction_step d) (ss_strip sp'), sp'))"

definition ss_move :: "'w stage \<Rightarrow> 'w \<Rightarrow> direction \<Rightarrow> 'w scroll_space \<Rightarrow> bool \<times> 'w scene_call list \<times> 'w scroll_space" where
  "ss_move h window d sp =
    (case ss_focus window sp of
      (False, sp') \<Rightarrow> (False, [], sp')
    | (True, sp') \<Rightarrow>
        (let (moved, strip) = (if axis_of d = Horizontal then move_column (direction_step d) (ss_strip sp')
               else move_row (direction_step d) (ss_strip sp'));
             sp'' = sp'\<lparr>ss_strip := strip\<rparr>
         in if moved then (True, ss_arrange h True None 0 sp'') else (False, [], sp'')))"

definition ss_resize :: "'w stage \<Rightarrow> 'w \<Rightarrow> direction \<Rightarrow> 'w scroll_space \<Rightarrow> ('w scene_call list \<times> 'w scroll_space) option" where
  "ss_resize h window d sp =
    (case ss_focus window sp of
      (False, sp') \<Rightarrow> Some ([], sp')
    | (True, sp') \<Rightarrow>
        map_option (\<lambda>strip. ss_arrange h True None 0 (sp'\<lparr>ss_strip := strip\<rparr>))
          (if axis_of d = Horizontal then Some (resize_width (direction_step d) (ss_strip sp'))
           else resize_row (direction_step d) (ss_strip sp')))"

fun strip_edges :: "'w \<Rightarrow> number \<Rightarrow> (direction \<times> number) list \<Rightarrow> 'w strip \<Rightarrow> 'w strip option" where
  "strip_edges window width [] s = Some s"
| "strip_edges window width ((side, coordinate) # rest) s =
    Option.bind (if side = DLeft \<or> side = DRight then Some (set_width window width s)
                 else move_row_edge window (side = DDown) coordinate s)
      (strip_edges window width rest)"

definition ss_resized :: "'w stage \<Rightarrow> 'w \<Rightarrow> box \<Rightarrow> 'w scroll_space \<Rightarrow> ('w scene_call list \<times> 'w scroll_space) option" where
  "ss_resized h window frame sp =
    (case map_of (ss_boxes sp) window of
      None \<Rightarrow> Some ([], sp)
    | Some before \<Rightarrow>
        map_option (\<lambda>strip. ss_arrange h False (Some window) 0 (sp\<lparr>ss_strip := strip\<rparr>))
          (strip_edges window (b_w frame) (edges_moved before frame) (ss_strip sp)))"

definition ss_widen :: "'w stage \<Rightarrow> 'w \<Rightarrow> 'w scroll_space \<Rightarrow> bool \<times> 'w scroll_space" where
  "ss_widen h window sp =
    (case map_of (ss_boxes sp) window of
      None \<Rightarrow> (False, sp)
    | Some b \<Rightarrow>
        if b_w (sh_frame h window) \<le> b_w b + 1 then (False, sp)
        else (True, sp\<lparr>ss_strip := set_width window (b_w (sh_frame h window)) (ss_strip sp)\<rparr>))"

definition ss_widened :: "'w stage \<Rightarrow> 'w \<Rightarrow> 'w scroll_space \<Rightarrow> 'w scene_call list \<times> 'w scroll_space" where
  "ss_widened h window sp =
    (if ss_swipe sp \<noteq> None \<or> ss_zoomed sp then ([], sp)
     else case ss_widen h window sp of
       (False, sp') \<Rightarrow> ([], sp')
     | (True, sp') \<Rightarrow> ss_arrange h True None 0 sp')"

fun widen_each :: "'w stage \<Rightarrow> 'w list \<Rightarrow> 'w scroll_space \<Rightarrow> bool \<times> 'w scroll_space" where
  "widen_each h [] sp = (False, sp)"
| "widen_each h (w # ws) sp =
    (let (wide, sp') = ss_widen h w sp; (others, sp'') = widen_each h ws sp' in (wide \<or> others, sp''))"

definition widen_all :: "'w stage \<Rightarrow> 'w scroll_space \<Rightarrow> 'w scene_call list \<times> 'w scroll_space" where
  "widen_all h sp =
    (case widen_each h (ss_windows sp) sp of
      (False, sp') \<Rightarrow> ([], sp')
    | (True, sp') \<Rightarrow> ss_arrange h True None 0 sp')"

definition ss_drop :: "'w stage \<Rightarrow> 'w \<Rightarrow> 'w \<Rightarrow> 'w scroll_space \<Rightarrow> 'w scene_call list \<times> 'w scroll_space" where
  "ss_drop h window onto sp =
    ss_arrange h True None 0
      (sp\<lparr>ss_strip := strip_add window True (snd (strip_focus onto (strip_remove window (ss_strip sp))))\<rparr>)"

definition ss_focused :: "'w stage \<Rightarrow> 'w \<Rightarrow> 'w scroll_space \<Rightarrow> 'w scene_call list \<times> 'w scroll_space" where
  "ss_focused h window sp =
    (case ss_focus window sp of (False, sp') \<Rightarrow> ([], sp') | (True, sp') \<Rightarrow> ss_arrange h True None 0 sp')"

text \<open>The commands that change the focused column and arrange: cycling its width and maximizing it.\<close>

definition ss_change :: "('w strip \<Rightarrow> 'w strip) \<Rightarrow> 'w stage \<Rightarrow> 'w \<Rightarrow> 'w scroll_space \<Rightarrow> 'w scene_call list \<times> 'w scroll_space" where
  "ss_change f h window sp =
    (case ss_focus window sp of
      (False, sp') \<Rightarrow> ([], sp')
    | (True, sp') \<Rightarrow> ss_arrange h True None 0 (sp'\<lparr>ss_strip := f (ss_strip sp')\<rparr>))"

definition ss_cycle_width :: "'w stage \<Rightarrow> 'w \<Rightarrow> 'w scroll_space \<Rightarrow> 'w scene_call list \<times> 'w scroll_space" where
  "ss_cycle_width = ss_change cycle_width"

definition ss_maximize :: "'w stage \<Rightarrow> 'w \<Rightarrow> 'w scroll_space \<Rightarrow> 'w scene_call list \<times> 'w scroll_space" where
  "ss_maximize = ss_change maximize"

definition ss_expand :: "'w stage \<Rightarrow> 'w \<Rightarrow> 'w scroll_space \<Rightarrow> 'w scene_call list \<times> 'w scroll_space" where
  "ss_expand h window sp =
    (case ss_focus window sp of
      (False, sp') \<Rightarrow> ([], sp')
    | (True, sp') \<Rightarrow>
        (let sp'' = ss_sync h sp' in ss_arrange h True None 0 (sp''\<lparr>ss_strip := expand (ss_strip sp'')\<rparr>)))"

definition ss_move_to_edge :: "'w stage \<Rightarrow> 'w \<Rightarrow> bool \<Rightarrow> 'w scroll_space \<Rightarrow> 'w scene_call list \<times> 'w scroll_space" where
  "ss_move_to_edge h window at_end sp =
    (case ss_focus window sp of
      (False, sp') \<Rightarrow> ([], sp')
    | (True, sp') \<Rightarrow>
        (let (moved, strip) = move_column_to_edge at_end (ss_strip sp'); sp'' = sp'\<lparr>ss_strip := strip\<rparr>
         in if moved then ss_arrange h True None 0 sp'' else ([], sp'')))"

definition ss_stack :: "'w stage \<Rightarrow> 'w \<Rightarrow> int \<Rightarrow> 'w scroll_space \<Rightarrow> 'w scene_call list \<times> 'w scroll_space" where
  "ss_stack h window d sp =
    (case ss_focus window sp of
      (False, sp') \<Rightarrow> ([], sp')
    | (True, sp') \<Rightarrow>
        (let (moved, strip) = strip_stack d (ss_strip sp'); sp'' = sp'\<lparr>ss_strip := strip\<rparr>
         in if moved then ss_arrange h True None 0 sp'' else ([], sp'')))"

definition ss_center :: "'w stage \<Rightarrow> 'w \<Rightarrow> 'w scroll_space \<Rightarrow> 'w scene_call list \<times> 'w scroll_space" where
  "ss_center h window sp =
    (case ss_focus window sp of
      (False, sp') \<Rightarrow> ([], sp')
    | (True, sp') \<Rightarrow>
        (let sp1 = ss_sync h sp';
             sp2 = sp1\<lparr>ss_strip := center (st_focused (ss_strip sp1)) (ss_strip sp1)\<rparr>;
             sp3 = sp2\<lparr>ss_boxes := ss_layout sp2\<rparr>;
             (calls, scene) = scene_apply h (ss_monitor sp3) (ss_boxes sp3) True 0 (ss_scene sp3)
         in (calls, sp3\<lparr>ss_scene := scene\<rparr>)))"

section \<open>Swipes and the overview\<close>

definition begin_swipe :: "'w stage \<Rightarrow> 'w scroll_space \<Rightarrow> 'w scroll_space" where
  "begin_swipe h sp = (let sp' = ss_sync h sp in sp'\<lparr>ss_swipe := Some (st_offset (ss_strip sp'))\<rparr>)"

definition swipe :: "'w stage \<Rightarrow> number \<Rightarrow> 'w scroll_space \<Rightarrow> 'w scene_call list \<times> 'w scroll_space" where
  "swipe h distance sp =
    (case ss_swipe sp of
      None \<Rightarrow> ([], sp)
    | Some start \<Rightarrow>
        (let wanted = start - distance; far = furthest (ss_strip sp);
             overshoot = (if wanted < 0 then wanted else if wanted > far then wanted - far else 0);
             strip = (ss_strip sp)\<lparr>st_offset := wanted - overshoot + rubberband overshoot (view_width (ss_strip sp))\<rparr>;
             (calls, scene) = scene_preview h (ss_monitor sp) (strip_layout (st_offset strip) strip) (ss_scene sp)
         in (calls, sp\<lparr>ss_strip := strip, ss_scene := scene\<rparr>)))"

definition end_swipe :: "'w stage \<Rightarrow> number \<Rightarrow> 'w scroll_space \<Rightarrow> 'w option \<times> 'w scene_call list \<times> 'w scroll_space" where
  "end_swipe h velocity sp =
    (case ss_swipe sp of
      None \<Rightarrow> (None, [], sp)
    | Some start \<Rightarrow>
        (let snapped = strip_snap (st_offset (ss_strip sp) - projection velocity) (ss_strip sp);
             strip = (ss_strip sp)\<lparr>st_offset := sn_offset snapped, st_focused := sn_column snapped\<rparr>;
             (calls, sp1) = ss_arrange h True None velocity (sp\<lparr>ss_swipe := None, ss_strip := strip\<rparr>);
             (wide, sp2) = widen_all h sp1
         in (focused_window (ss_strip sp2), calls @ wide, sp2)))"

definition ss_zoom :: "'w stage \<Rightarrow> bool \<Rightarrow> 'w scroll_space \<Rightarrow> 'w scene_call list \<times> 'w scroll_space" where
  "ss_zoom h zoomed sp =
    (if ss_zoomed sp = zoomed then ([], sp)
     else
      (let sp1 = ss_sync h (sp\<lparr>ss_zoomed := zoomed\<rparr>);
           sp2 = sp1\<lparr>ss_boxes := ss_layout sp1\<rparr>
       in if zoomed
          then (let (calls, scene) = scene_zoom h (overview_boxes h sp2) (overview_scale h sp2) (ss_scene sp2)
                in (calls, sp2\<lparr>ss_scene := scene\<rparr>))
          else (let (calls, scene) = scene_unzoom h (ss_monitor sp2) (ss_boxes sp2) (ss_scene sp2);
                    (wide, sp3) = widen_all h (sp2\<lparr>ss_scene := scene\<rparr>)
                in (calls @ wide, sp3))))"

definition window_at :: "'w stage \<Rightarrow> number \<Rightarrow> number \<Rightarrow> 'w scroll_space \<Rightarrow> 'w option" where
  "window_at h x y sp =
    map_option fst (List.find (\<lambda>(w, b). x \<ge> b_x b \<and> x < b_x b + b_w b \<and> y \<ge> b_y b \<and> y < b_y b + b_h b)
      (if ss_zoomed sp then overview_boxes h sp else ss_boxes sp))"

definition ss_suspend :: "'w scroll_space \<Rightarrow> 'w scene_call list \<times> 'w scroll_space" where
  "ss_suspend sp = (let (calls, scene) = scene_destroy (ss_scene sp) in (calls, sp\<lparr>ss_scene := scene\<rparr>))"

section \<open>What a scrolling space keeps\<close>

definition scroll_ok :: "'w scroll_space \<Rightarrow> bool" where
  "scroll_ok sp \<longleftrightarrow> strip_ok (ss_strip sp) \<and> distinct (map fst (ss_boxes sp)) \<and>
    fst ` set (ss_boxes sp) \<subseteq> set (ss_windows sp) \<and> fst ` set (ss_scene sp) \<subseteq> set (ss_windows sp)"

lemma scroll_ok_new: "scroll_ok (new_scroll_space m)"
  by (simp add: scroll_ok_def new_scroll_space_def strip_ok_new)

lemma focused_window_scroll [simp]: "focused_window (s\<lparr>st_offset := v\<rparr>) = focused_window s"
  "focused_window (set_view b g s) = focused_window s"
  by (simp_all add: focused_window_def column_at_index_def set_view_def)

lemma ss_windows_frame [simp]:
  "ss_windows (sp\<lparr>ss_scene := scene\<rparr>) = ss_windows sp" "ss_windows (sp\<lparr>ss_boxes := bs\<rparr>) = ss_windows sp"
  "ss_windows (sp\<lparr>ss_swipe := v\<rparr>) = ss_windows sp" "ss_windows (sp\<lparr>ss_zoomed := z\<rparr>) = ss_windows sp"
  "ss_windows (sp\<lparr>ss_strip := s\<rparr>) = strip_windows s"
  by (simp_all add: ss_windows_def)

lemma ss_sync_keeps [simp]: "strip_ok (ss_strip (ss_sync h sp)) = strip_ok (ss_strip sp)" "ss_windows (ss_sync h sp) = ss_windows sp"
  "ss_scene (ss_sync h sp) = ss_scene sp" "ss_swipe (ss_sync h sp) = ss_swipe sp" "ss_boxes (ss_sync h sp) = ss_boxes sp"
  "focused_window (ss_strip (ss_sync h sp)) = focused_window (ss_strip sp)"
  by (simp_all add: ss_sync_def ss_windows_def strip_ok_view)

lemma st_focused_sync [simp]: "st_focused (ss_strip (ss_sync h sp)) = st_focused (ss_strip sp)"
  by (simp add: ss_sync_def set_view_def)

lemma ss_arrange_strip:
  "ss_strip (snd (ss_arrange h animate held v sp)) =
    (if ss_swipe sp = None then reveal (st_focused (ss_strip sp)) (ss_strip (ss_sync h sp)) else ss_strip (ss_sync h sp))"
  by (simp add: ss_arrange_def Let_def case_prod_unfold)

lemma overview_keys: "fst ` set (overview_boxes h sp) = fst ` set (strip_layout 0 (ss_strip sp))"
  by (force simp: overview_boxes_def Let_def)

lemma overview_frame [simp]:
  "overview_scale h (sp\<lparr>ss_scene := scene\<rparr>) = overview_scale h sp" "overview_boxes h (sp\<lparr>ss_scene := scene\<rparr>) = overview_boxes h sp"
  by (simp_all add: overview_scale_def overview_boxes_def)

lemma layout_from_keys: "fst ` set (layout_from s x cs) \<subseteq> set (concat (map cl_windows cs))"
  by (induction cs arbitrary: x) (fastforce simp: Let_def dest: set_zip_leftD)+

lemma strip_layout_keys: "fst ` set (strip_layout v s) \<subseteq> set (strip_windows s)"
  unfolding strip_layout_def strip_windows_def by (rule layout_from_keys)

lemma ss_arrange_scene:
  "fst ` set (ss_scene (snd (ss_arrange h animate held v sp))) \<subseteq>
    set (ss_windows (snd (ss_arrange h animate held v sp))) \<union> fst ` set (ss_scene sp)"
proof -
  define sp3 where "sp3 = (snd (ss_arrange h animate held v sp))\<lparr>ss_scene := ss_scene sp\<rparr>"
  define placed where "placed = (case held of None \<Rightarrow> ss_boxes sp3 | Some w \<Rightarrow> map_drop w (ss_boxes sp3))"
  define scene where "scene = (case held of None \<Rightarrow> ss_scene sp | Some w \<Rightarrow> scene_hold w (ss_scene sp))"
  have r: "ss_scene (snd (ss_arrange h animate held v sp)) =
      snd (if ss_zoomed sp3 then scene_zoom h (overview_boxes h sp3) (overview_scale h sp3) scene
           else scene_apply h (ss_monitor sp3) placed animate v scene)"
    unfolding sp3_def placed_def scene_def ss_arrange_def Let_def case_prod_unfold
    by (cases "ss_swipe sp = None"; cases held; simp)
  have "ss_boxes sp3 = strip_layout (st_offset (ss_strip sp3)) (ss_strip sp3)"
    by (simp add: sp3_def ss_arrange_def Let_def case_prod_unfold ss_layout_def)
  then have k1: "fst ` set placed \<subseteq> set (ss_windows sp3)"
    using strip_layout_keys [of "st_offset (ss_strip sp3)" "ss_strip sp3"]
    by (auto simp: placed_def keys_drop ss_windows_def split: option.split)
  have k2: "fst ` set (overview_boxes h sp3) \<subseteq> set (ss_windows sp3)"
    unfolding overview_keys using strip_layout_keys by (simp add: ss_windows_def)
  have k3: "fst ` set scene = fst ` set (ss_scene sp)" by (auto simp: scene_def split: option.split)
  have "fst ` set (ss_scene (snd (ss_arrange h animate held v sp))) \<subseteq> set (ss_windows sp3) \<union> fst ` set (ss_scene sp)"
  proof (cases "ss_zoomed sp3")
    case True
    show ?thesis unfolding r if_P [OF True]
      by (rule subset_trans [OF scene_zoom_keys]) (use k2 k3 in blast)
  next
    case False
    show ?thesis unfolding r if_not_P [OF False]
      by (rule subset_trans [OF scene_apply_keys]) (use k1 k3 in blast)
  qed
  then show ?thesis by (simp add: sp3_def)
qed

text \<open>Arranging gives every window its box, and the scene no window but the strip's.\<close>

lemma ss_arrange_sound:
  assumes "strip_ok (ss_strip sp)" "fst ` set (ss_scene sp) \<subseteq> set (ss_windows sp)"
  shows "scroll_ok (snd (ss_arrange h animate held v sp))"
    and "ss_windows (snd (ss_arrange h animate held v sp)) = ss_windows sp"
    and "map fst (ss_boxes (snd (ss_arrange h animate held v sp))) = ss_windows sp"
    and "ss_focused_window (snd (ss_arrange h animate held v sp)) = ss_focused_window sp"
proof -
  let ?t = "snd (ss_arrange h animate held v sp)"
  have "\<exists>u. ss_strip ?t = (ss_strip (ss_sync h sp))\<lparr>st_offset := u\<rparr>"
    using reveal_scrolls [of "st_focused (ss_strip sp)" "ss_strip (ss_sync h sp)"]
    unfolding ss_arrange_strip by (cases "ss_swipe sp = None") (auto intro: exI [of _ "st_offset (ss_strip (ss_sync h sp))"])
  then obtain u where u: "ss_strip ?t = (ss_strip (ss_sync h sp))\<lparr>st_offset := u\<rparr>" by blast
  have ok: "strip_ok (ss_strip ?t)" unfolding u using assms(1) by (simp add: strip_ok_scroll)
  show w: "ss_windows ?t = ss_windows sp"
    using ss_sync_keeps(2) [of h sp] by (simp add: u strip_ok_scroll ss_windows_def)
  show "ss_focused_window ?t = ss_focused_window sp" by (simp add: ss_focused_window_def u)
  have "ss_boxes ?t = strip_layout (st_offset (ss_strip ?t)) (ss_strip ?t)"
    by (simp add: ss_arrange_def Let_def case_prod_unfold ss_layout_def)
  then show b: "map fst (ss_boxes ?t) = ss_windows sp"
    using layout_windows [OF ok] w by (simp add: ss_windows_def)
  have "fst ` set (ss_scene ?t) \<subseteq> set (ss_windows sp)"
    using ss_arrange_scene [of h animate held v sp] assms(2) layout_windows [OF ok] w by (auto simp: ss_windows_def simp flip: set_map)
  then show "scroll_ok ?t"
    using ok b w strip_okD(2) [OF assms(1)] by (auto simp: scroll_ok_def simp flip: ss_windows_def set_map)
qed

text \<open>The same after the strip changed but kept its windows.\<close>

lemma arrange_changed:
  assumes "scroll_ok sp" "strip_ok s" "set (strip_windows s) = set (ss_windows sp)"
  shows "scroll_ok (snd (ss_arrange h animate held v (sp\<lparr>ss_strip := s\<rparr>)))"
    and "ss_windows (snd (ss_arrange h animate held v (sp\<lparr>ss_strip := s\<rparr>))) = strip_windows s"
    and "map fst (ss_boxes (snd (ss_arrange h animate held v (sp\<lparr>ss_strip := s\<rparr>)))) = strip_windows s"
    and "ss_focused_window (snd (ss_arrange h animate held v (sp\<lparr>ss_strip := s\<rparr>))) = focused_window s"
proof -
  have *: "strip_ok (ss_strip (sp\<lparr>ss_strip := s\<rparr>))" "fst ` set (ss_scene (sp\<lparr>ss_strip := s\<rparr>)) \<subseteq> set (ss_windows (sp\<lparr>ss_strip := s\<rparr>))"
    using assms by (auto simp: scroll_ok_def)
  show "scroll_ok (snd (ss_arrange h animate held v (sp\<lparr>ss_strip := s\<rparr>)))"
    "ss_windows (snd (ss_arrange h animate held v (sp\<lparr>ss_strip := s\<rparr>))) = strip_windows s"
    "map fst (ss_boxes (snd (ss_arrange h animate held v (sp\<lparr>ss_strip := s\<rparr>)))) = strip_windows s"
    "ss_focused_window (snd (ss_arrange h animate held v (sp\<lparr>ss_strip := s\<rparr>))) = focused_window s"
    using ss_arrange_sound [OF *, of h animate held v] by (simp_all add: ss_focused_window_def)
qed

lemma scroll_okD: "scroll_ok sp \<Longrightarrow> strip_ok (ss_strip sp)" "scroll_ok sp \<Longrightarrow> distinct (ss_windows sp)"
  by (auto simp: scroll_ok_def ss_windows_def strip_okD)

lemma scroll_ok_strip: "scroll_ok sp \<Longrightarrow> strip_ok s \<Longrightarrow> set (strip_windows s) = set (ss_windows sp) \<Longrightarrow> scroll_ok (sp\<lparr>ss_strip := s\<rparr>)"
  by (auto simp: scroll_ok_def)

lemma ss_focus_ok:
  assumes "scroll_ok sp" "ss_focus w sp = (found, sp')"
  shows "scroll_ok sp'" and "ss_windows sp' = ss_windows sp" and "found \<longleftrightarrow> w \<in> set (ss_windows sp)"
    and "found \<Longrightarrow> ss_focused_window sp' = Some w" and "\<not> found \<Longrightarrow> sp' = sp"
proof -
  have sp': "sp' = sp\<lparr>ss_strip := snd (strip_focus w (ss_strip sp))\<rparr>" "found = fst (strip_focus w (ss_strip sp))"
    using assms(2) by (auto simp: ss_focus_def case_prod_unfold Let_def)
  note f = focus_ok [OF scroll_okD(1) [OF assms(1)], of w]
  show "scroll_ok sp'" using f(1,2) by (simp add: sp' scroll_ok_strip [OF assms(1)] ss_windows_def)
  show "ss_windows sp' = ss_windows sp" by (simp add: sp' f(2)) (simp add: ss_windows_def)
  show "found \<longleftrightarrow> w \<in> set (ss_windows sp)" by (simp add: sp' f(3) ss_windows_def)
  show "found \<Longrightarrow> ss_focused_window sp' = Some w" using f(3,4) by (simp add: sp' ss_focused_window_def)
  show "\<not> found \<Longrightarrow> sp' = sp" by (cases "locate (ss_strip sp) w") (auto simp: sp' strip_focus_def)
qed

text \<open>A space after a call of an operation: sound, with the same windows.\<close>

definition keeps_windows :: "'w scroll_space \<Rightarrow> 'w scroll_space \<Rightarrow> bool" where
  "keeps_windows sp t \<longleftrightarrow> scroll_ok t \<and> set (ss_windows t) = set (ss_windows sp)"

lemma keeps_arranged:
  "scroll_ok sp \<Longrightarrow> strip_ok s \<Longrightarrow> set (strip_windows s) = set (ss_windows sp) \<Longrightarrow>
    keeps_windows sp (snd (ss_arrange h animate held v (sp\<lparr>ss_strip := s\<rparr>)))"
  by (simp add: keeps_windows_def arrange_changed)

lemma keeps_trans: "keeps_windows a b \<Longrightarrow> keeps_windows b c \<Longrightarrow> keeps_windows a c"
  by (simp add: keeps_windows_def)

lemma keeps_refl: "scroll_ok sp \<Longrightarrow> keeps_windows sp sp"
  by (simp add: keeps_windows_def)

lemma keeps_arrange: "scroll_ok sp \<Longrightarrow> keeps_windows sp (snd (ss_arrange h animate held v sp))"
  using keeps_arranged [of sp "ss_strip sp" h animate held v] by (simp add: scroll_okD ss_windows_def)

lemma keeps_focus: "scroll_ok sp \<Longrightarrow> ss_focus w sp = (found, sp') \<Longrightarrow> keeps_windows sp sp'"
  by (simp add: keeps_windows_def ss_focus_ok)

lemma keeps_strip: "scroll_ok sp \<Longrightarrow> strip_ok s \<Longrightarrow> set (strip_windows s) = set (ss_windows sp) \<Longrightarrow> keeps_windows sp (sp\<lparr>ss_strip := s\<rparr>)"
  by (simp add: keeps_windows_def scroll_ok_strip)

lemma keeps_then_arrange: "keeps_windows sp t \<Longrightarrow> keeps_windows sp (snd (ss_arrange h animate held v t))"
  by (meson keeps_arrange keeps_trans keeps_windows_def)

lemma keeps_ok: "keeps_windows sp t \<Longrightarrow> scroll_ok t" by (simp add: keeps_windows_def)

lemma ss_add_ok:
  assumes "scroll_ok sp" "w \<notin> set (ss_windows sp)"
  shows "scroll_ok (ss_add h w focus sp)" and "set (ss_windows (ss_add h w focus sp)) = insert w (set (ss_windows sp))"
    and "ss_focused_window (ss_add h w focus sp) = Some w"
proof -
  define s where "s = (case focus of None \<Rightarrow> ss_strip sp | Some f \<Rightarrow> snd (strip_focus f (ss_strip sp)))"
  have s: "strip_ok s" "strip_windows s = ss_windows sp"
    using focus_ok(1,2) [OF scroll_okD(1) [OF assms(1)]] scroll_okD(1) [OF assms(1)]
    by (auto simp: s_def ss_windows_def split: option.split)
  have eq: "ss_add h w focus sp = sp\<lparr>ss_strip := strip_add w (sh_beside_focused h) s\<rparr>" by (simp add: ss_add_def s_def Let_def)
  note a = strip_add_ok [OF s(1), of w "sh_beside_focused h", unfolded s(2), OF assms(2)]
  show "set (ss_windows (ss_add h w focus sp)) = insert w (set (ss_windows sp))" by (simp add: eq a(2))
  then show "scroll_ok (ss_add h w focus sp)" using assms(1) a(1,2) by (auto simp: scroll_ok_def eq)
  show "ss_focused_window (ss_add h w focus sp) = Some w" by (simp add: eq ss_focused_window_def a(3))
qed

lemma ss_remove_ok:
  assumes "scroll_ok sp"
  shows "scroll_ok (snd (ss_remove w sp))" and "ss_windows (snd (ss_remove w sp)) = filter (\<lambda>v. v \<noteq> w) (ss_windows sp)"
    and "map_of (ss_scene (snd (ss_remove w sp))) w = None"
proof -
  note r = strip_remove_ok [OF scroll_okD(1) [OF assms], of w]
  show w: "ss_windows (snd (ss_remove w sp)) = filter (\<lambda>v. v \<noteq> w) (ss_windows sp)"
    using r(2) by (simp add: ss_remove_def case_prod_unfold Let_def ss_windows_def)
  have "fst ` set (ss_scene (snd (ss_remove w sp))) = fst ` set (ss_scene sp) - {w}"
    by (simp add: ss_remove_def case_prod_unfold Let_def scene_release_keys)
  with assms r(1) w show "scroll_ok (snd (ss_remove w sp))" "map_of (ss_scene (snd (ss_remove w sp))) w = None"
    by (auto simp: scroll_ok_def ss_remove_def case_prod_unfold Let_def keys_drop distinct_drop map_of_eq_None_iff)
qed

text \<open>An operation on the focused column, whatever it does, as long as it keeps the strip sound.\<close>

lemma ss_change_keeps:
  assumes "scroll_ok sp" "\<And>s. strip_ok s \<Longrightarrow> strip_ok (f s) \<and> set (strip_windows (f s)) = set (strip_windows s)"
  shows "keeps_windows sp (snd (ss_change f h w sp))"
proof (cases "ss_focus w sp")
  case (Pair found sp')
  note k = keeps_focus [OF assms(1) Pair]
  have "keeps_windows sp' (snd (ss_arrange h True None 0 (sp'\<lparr>ss_strip := f (ss_strip sp')\<rparr>)))"
    using assms(2) [OF scroll_okD(1) [OF keeps_ok [OF k]]] by (intro keeps_arranged [OF keeps_ok [OF k]]) (simp_all add: ss_windows_def)
  with k Pair show ?thesis by (cases found) (auto simp: ss_change_def intro: keeps_trans)
qed

lemma ss_cycle_width_keeps: "scroll_ok sp \<Longrightarrow> keeps_windows sp (snd (ss_cycle_width h w sp))"
  unfolding ss_cycle_width_def by (rule ss_change_keeps) (simp_all add: cycle_width_ok)

lemma ss_maximize_keeps: "scroll_ok sp \<Longrightarrow> keeps_windows sp (snd (ss_maximize h w sp))"
  unfolding ss_maximize_def by (rule ss_change_keeps) (simp_all add: maximize_ok)

lemma ss_sync_ok: "scroll_ok (ss_sync h sp) = scroll_ok sp"
  by (simp add: scroll_ok_def)

lemma ss_focused_keeps: "scroll_ok sp \<Longrightarrow> keeps_windows sp (snd (ss_focused h w sp))"
  using ss_change_keeps [of sp "\<lambda>s. s" h w]
  by (cases "ss_focus w sp"; cases "fst (ss_focus w sp)") (simp_all add: ss_change_def ss_focused_def)

lemma ss_expand_keeps:
  assumes "scroll_ok sp"
  shows "keeps_windows sp (snd (ss_expand h w sp))"
proof (cases "ss_focus w sp")
  case (Pair found sp')
  note k = keeps_focus [OF assms Pair]
  have s: "scroll_ok (ss_sync h sp')" "ss_windows (ss_sync h sp') = ss_windows sp'" using k by (simp_all add: ss_sync_ok keeps_windows_def)
  have "keeps_windows (ss_sync h sp') (snd (ss_arrange h True None 0 ((ss_sync h sp')\<lparr>ss_strip := expand (ss_strip (ss_sync h sp'))\<rparr>)))"
    using expand_ok [OF scroll_okD(1) [OF s(1)]] by (intro keeps_arranged [OF s(1)]) (simp_all add: ss_windows_def)
  with k s(2) Pair show ?thesis by (cases found) (auto simp: ss_expand_def Let_def keeps_windows_def)
qed

lemma ss_center_keeps:
  assumes "scroll_ok sp"
  shows "keeps_windows sp (snd (ss_center h w sp))"
proof (cases "ss_focus w sp")
  case (Pair found sp')
  note k = keeps_focus [OF assms Pair]
  define sp1 where "sp1 = ss_sync h sp'"
  define sp2 where "sp2 = sp1\<lparr>ss_strip := center (st_focused (ss_strip sp1)) (ss_strip sp1)\<rparr>"
  have s: "scroll_ok sp1" "ss_windows sp1 = ss_windows sp'" using k by (simp_all add: sp1_def ss_sync_ok keeps_windows_def)
  obtain u where u: "ss_strip sp2 = (ss_strip sp1)\<lparr>st_offset := u\<rparr>"
    using center_scrolls [of "st_focused (ss_strip sp1)" "ss_strip sp1"] by (auto simp: sp2_def)
  have w: "ss_windows sp2 = ss_windows sp1" by (simp add: ss_windows_def u strip_ok_scroll)
  have ok: "strip_ok (ss_strip sp2)" using scroll_okD(1) [OF s(1)] by (simp add: u strip_ok_scroll)
  have fr: "ss_monitor sp2 = ss_monitor sp1" "ss_scene sp2 = ss_scene sp1" by (simp_all add: sp2_def)
  have b: "map fst (ss_layout sp2) = ss_windows sp2" unfolding ss_layout_def ss_windows_def by (rule layout_windows [OF ok])
  have "fst ` set (ss_layout sp2) = set (ss_windows sp2)" unfolding b [symmetric] by simp
  then have "fst ` set (snd (scene_apply h (ss_monitor sp2) (ss_layout sp2) True 0 (ss_scene sp2))) \<subseteq> set (ss_windows sp2)"
    using s(1) w by (intro subset_trans [OF scene_apply_keys]) (simp add: scroll_ok_def sp2_def)
  then have "keeps_windows sp' (snd (ss_center h w sp))" if found
    using that ok b w s fr scroll_okD(2) [OF s(1)] Pair
    by (auto simp: ss_center_def Let_def case_prod_unfold keeps_windows_def scroll_ok_def simp flip: sp1_def sp2_def set_map)
  with k Pair show ?thesis by (cases found) (auto simp: ss_center_def intro: keeps_trans)
qed

lemma direction_step_cases: "direction_step d = 1 \<or> direction_step d = -1"
  by (simp add: direction_step_def)

text \<open>Moves: the windows stay, the moved one keeps the focus, and a move refused changes no more than the focus.\<close>

lemma ss_move_ok:
  assumes "scroll_ok sp" "ss_move h w d sp = (moved, calls, t)"
  shows "keeps_windows sp t" and "w \<in> set (ss_windows sp) \<Longrightarrow> ss_focused_window t = Some w"
proof -
  obtain found sp' where f: "ss_focus w sp = (found, sp')" by fastforce
  note k = keeps_focus [OF assms(1) f] and fo = ss_focus_ok [OF assms(1) f]
  note ok = scroll_okD(1) [OF fo(1)]
  define r where "r = (if axis_of d = Horizontal then move_column (direction_step d) (ss_strip sp') else move_row (direction_step d) (ss_strip sp'))"
  have r: "strip_ok (snd r) \<and> mset (strip_windows (snd r)) = mset (strip_windows (ss_strip sp')) \<and> focused_window (snd r) = focused_window (ss_strip sp')"
    using move_column_ok [OF ok prod.collapse [symmetric], of "direction_step d"]
      move_row_ok [OF ok prod.collapse [symmetric], of "direction_step d"] by (simp add: r_def)
  then have s: "set (strip_windows (snd r)) = set (ss_windows sp')" by (metis set_mset_mset ss_windows_def)
  have t: "t = (if \<not> found then sp' else if fst r then snd (ss_arrange h True None 0 (sp'\<lparr>ss_strip := snd r\<rparr>)) else sp'\<lparr>ss_strip := snd r\<rparr>)"
    using assms(2) f by (auto simp: ss_move_def case_prod_unfold Let_def r_def split: if_splits bool.splits)
  have "keeps_windows sp' t"
    unfolding t using keeps_arranged [OF fo(1) _ s] keeps_strip [OF fo(1) _ s] keeps_refl [OF fo(1)] r by simp
  then show "keeps_windows sp t" by (rule keeps_trans [OF k])
  assume "w \<in> set (ss_windows sp)"
  then show "ss_focused_window t = Some w"
    using fo(3,4) r arrange_changed(4) [OF fo(1) _ s] by (auto simp: t ss_focused_window_def)
qed

lemma ss_move_to_edge_keeps:
  assumes "scroll_ok sp"
  shows "keeps_windows sp (snd (ss_move_to_edge h w at_end sp))"
proof (cases "ss_focus w sp")
  case (Pair found sp')
  note k = keeps_focus [OF assms Pair]
  note r = move_column_to_edge_ok [OF scroll_okD(1) [OF keeps_ok [OF k]] prod.collapse [symmetric], of at_end]
  have s: "set (strip_windows (snd (move_column_to_edge at_end (ss_strip sp')))) = set (ss_windows sp')"
    using r(2) by (metis set_mset_mset ss_windows_def)
  with k Pair keeps_arranged [OF keeps_ok [OF k] r(1) s] keeps_strip [OF keeps_ok [OF k] r(1) s] show ?thesis
    by (cases found) (auto simp: ss_move_to_edge_def case_prod_unfold Let_def intro: keeps_trans)
qed

lemma ss_stack_keeps:
  assumes "scroll_ok sp" "d \<noteq> 0"
  shows "keeps_windows sp (snd (ss_stack h w d sp))"
proof (cases "ss_focus w sp")
  case (Pair found sp')
  note k = keeps_focus [OF assms(1) Pair]
  note r = strip_stack_ok [OF scroll_okD(1) [OF keeps_ok [OF k]] prod.collapse [symmetric] assms(2)]
  have s: "set (strip_windows (snd (strip_stack d (ss_strip sp')))) = set (ss_windows sp')"
    using r(2) by (metis set_mset_mset ss_windows_def)
  with k Pair keeps_arranged [OF keeps_ok [OF k] r(1) s] keeps_strip [OF keeps_ok [OF k] r(1) s] show ?thesis
    by (cases found) (auto simp: ss_stack_def case_prod_unfold Let_def intro: keeps_trans)
qed

lemma ss_resize_keeps:
  assumes "scroll_ok sp" "ss_resize h w d sp = Some (calls, t)"
  shows "keeps_windows sp t"
proof (cases "ss_focus w sp")
  case (Pair found sp')
  note k = keeps_focus [OF assms(1) Pair]
  note ok = scroll_okD(1) [OF keeps_ok [OF k]]
  show ?thesis
  proof (cases found)
    case True
    then obtain s where s: "(if axis_of d = Horizontal then Some (resize_width (direction_step d) (ss_strip sp'))
        else resize_row (direction_step d) (ss_strip sp')) = Some s"
      "ss_arrange h True None 0 (sp'\<lparr>ss_strip := s\<rparr>) = (calls, t)"
      using assms(2) Pair by (auto simp: ss_resize_def)
    have "strip_ok s \<and> strip_windows s = ss_windows sp'"
      using s(1) resize_width_ok [OF ok, of "direction_step d"] resize_row_ok [OF ok, of "direction_step d" s]
      by (auto simp: ss_windows_def split: if_splits)
    then show ?thesis using keeps_arranged [OF keeps_ok [OF k], of s h True None 0] s(2) k by (auto intro: keeps_trans)
  qed (use assms(2) Pair k in \<open>simp add: ss_resize_def\<close>)
qed

lemma strip_edges_ok: "strip_edges w px es s = Some t \<Longrightarrow> strip_ok s \<Longrightarrow> strip_ok t \<and> strip_windows t = strip_windows s"
proof (induction es arbitrary: s)
  case (Cons e es)
  obtain d c where e: "e = (d, c)" by fastforce
  with Cons.prems obtain u where u: "(if d = DLeft \<or> d = DRight then Some (set_width w px s) else move_row_edge w (d = DDown) c s) = Some u"
    "strip_edges w px es u = Some t" by (auto simp: bind_eq_Some_conv split: if_splits)
  have "strip_ok u \<and> strip_windows u = strip_windows s"
    using u(1) set_width_ok [OF Cons.prems(2)] move_row_edge_ok [OF Cons.prems(2)] by (auto split: if_splits)
  with Cons.IH [OF u(2)] show ?case by simp
qed simp

lemma ss_resized_keeps:
  assumes "scroll_ok sp" "ss_resized h w frame sp = Some (calls, t)"
  shows "keeps_windows sp t"
proof (cases "map_of (ss_boxes sp) w")
  case (Some before)
  then obtain s where s: "strip_edges w (b_w frame) (edges_moved before frame) (ss_strip sp) = Some s"
    "ss_arrange h False (Some w) 0 (sp\<lparr>ss_strip := s\<rparr>) = (calls, t)"
    using assms(2) by (auto simp: ss_resized_def)
  from keeps_arranged [OF assms(1), of s h False "Some w" 0] strip_edges_ok [OF s(1) scroll_okD(1) [OF assms(1)]] s(2)
  show ?thesis by (simp add: ss_windows_def)
qed (use assms keeps_refl in \<open>simp add: ss_resized_def\<close>)

lemma ss_widen_keeps: "scroll_ok sp \<Longrightarrow> keeps_windows sp (snd (ss_widen h w sp))"
  using keeps_strip [of sp "set_width w (b_w (sh_frame h w)) (ss_strip sp)"] set_width_ok [OF scroll_okD(1), of sp] keeps_refl [of sp]
  by (auto simp: ss_widen_def ss_windows_def split: option.split)

lemma ss_widened_keeps:
  assumes "scroll_ok sp"
  shows "keeps_windows sp (snd (ss_widened h w sp))"
  using ss_widen_keeps [OF assms, of h w] keeps_refl [OF assms]
  by (auto simp: ss_widened_def split: prod.split bool.split intro: keeps_then_arrange)

lemma widen_each_keeps: "scroll_ok sp \<Longrightarrow> keeps_windows sp (snd (widen_each h ws sp))"
proof (induction ws arbitrary: sp)
  case (Cons w ws)
  note k = ss_widen_keeps [OF Cons.prems, of h w]
  from Cons.IH [OF keeps_ok [OF k]] k show ?case by (auto simp: case_prod_unfold Let_def intro: keeps_trans)
qed (simp add: keeps_refl)

lemma widen_all_keeps:
  assumes "scroll_ok sp"
  shows "keeps_windows sp (snd (widen_all h sp))"
  using widen_each_keeps [OF assms, of h "ss_windows sp"]
  by (auto simp: widen_all_def split: prod.split bool.split intro: keeps_then_arrange)

lemma ss_drop_keeps:
  assumes "scroll_ok sp" "w \<in> set (ss_windows sp)"
  shows "keeps_windows sp (snd (ss_drop h w onto sp))" and "ss_focused_window (snd (ss_drop h w onto sp)) = Some w"
proof -
  note rm = strip_remove_ok [OF scroll_okD(1) [OF assms(1)], of w]
  note f = focus_ok [OF rm(1), of onto]
  have n: "w \<notin> set (strip_windows (snd (strip_focus onto (strip_remove w (ss_strip sp)))))" by (simp add: f(2) rm(2))
  note a = strip_add_ok [OF f(1) n, of True]
  have s: "set (strip_windows (strip_add w True (snd (strip_focus onto (strip_remove w (ss_strip sp)))))) = set (ss_windows sp)"
    using assms(2) by (auto simp: a(2) f(2) rm(2) ss_windows_def)
  show "keeps_windows sp (snd (ss_drop h w onto sp))" "ss_focused_window (snd (ss_drop h w onto sp)) = Some w"
    unfolding ss_drop_def using keeps_arranged [OF assms(1) a(1) s] arrange_changed(4) [OF assms(1) a(1) s] a(3) by simp_all
qed

lemma ss_neighbor_ok:
  assumes "scroll_ok sp" "ss_neighbor w d sp = (r, t)"
  shows "keeps_windows sp t" and "ss_windows t = ss_windows sp"
proof -
  obtain found sp' where f: "ss_focus w sp = (found, sp')" by fastforce
  have "t = sp'" using assms(2) f by (auto simp: ss_neighbor_def split: bool.splits)
  then show "keeps_windows sp t" "ss_windows t = ss_windows sp" using keeps_focus [OF assms(1) f] ss_focus_ok(2) [OF assms(1) f] by simp_all
qed

lemma ss_suspend_ok: "scroll_ok sp \<Longrightarrow> scroll_ok (snd (ss_suspend sp)) \<and> ss_windows (snd (ss_suspend sp)) = ss_windows sp"
  by (simp add: ss_suspend_def case_prod_unfold Let_def scroll_ok_def scene_destroy_empty)

section \<open>Swiping\<close>

lemma projection_eq: "projection v = v * 997 / 3000"
  by (simp add: projection_def DECELERATION_def)

text \<open>The rubber band gives way, but never by the whole length.\<close>

lemma rubberband_bounds:
  assumes "0 < dimension"
  shows "\<bar>rubberband x dimension\<bar> < dimension" and "rubberband 0 dimension = 0"
    and "0 < x \<Longrightarrow> 0 < rubberband x dimension" and "x < 0 \<Longrightarrow> rubberband x dimension < 0"
proof -
  define k where "k = 1 - 1 / (\<bar>x\<bar> * RUBBERBAND / dimension + 1)"
  have "0 \<le> \<bar>x\<bar> * RUBBERBAND / dimension" using assms by (simp add: RUBBERBAND_def)
  then have k: "0 \<le> k" "k < 1" by (simp_all add: k_def divide_le_eq)
  have pos: "0 < k" if "x \<noteq> 0"
  proof -
    have "0 < \<bar>x\<bar> * RUBBERBAND / dimension" using that assms by (simp add: RUBBERBAND_def)
    then show ?thesis by (simp add: k_def divide_less_eq)
  qed
  have r: "rubberband x dimension = sgn x * (k * dimension)" by (simp add: rubberband_def k_def)
  have "k * dimension < dimension" using k assms by simp
  moreover have "0 \<le> k * dimension" using k assms by simp
  ultimately show "\<bar>rubberband x dimension\<bar> < dimension" 
    unfolding r using k assms by (cases x "0 :: number" rule: linorder_cases) (simp_all add: abs_mult)
  show "rubberband 0 dimension = 0" by (simp add: rubberband_def)
  show "0 < x \<Longrightarrow> 0 < rubberband x dimension" "x < 0 \<Longrightarrow> rubberband x dimension < 0"
    unfolding r using pos assms by (simp_all add: mult_pos_pos)
qed

lemma swipe_offset:
  assumes "ss_swipe sp = Some start"
  shows "0 \<le> start - distance \<and> start - distance \<le> furthest (ss_strip sp) \<Longrightarrow> st_offset (ss_strip (snd (swipe h distance sp))) = start - distance"
    and "- view_width (ss_strip sp) < st_offset (ss_strip (snd (swipe h distance sp)))"
    and "st_offset (ss_strip (snd (swipe h distance sp))) < furthest (ss_strip sp) + view_width (ss_strip sp)"
proof -
  let ?wanted = "start - distance" and ?far = "furthest (ss_strip sp)" and ?v = "view_width (ss_strip sp)"
  have v: "0 < ?v" using view_width_ge [of "ss_strip sp"] by linarith
  define over where "over = (if ?wanted < 0 then ?wanted else if ?wanted > ?far then ?wanted - ?far else 0)"
  have o: "st_offset (ss_strip (snd (swipe h distance sp))) = ?wanted - over + rubberband over ?v"
    using assms by (simp add: swipe_def over_def Let_def case_prod_unfold)
  note b = rubberband_bounds(1,3,4) [OF v, of over] rubberband_bounds(2) [OF v]
  show "0 \<le> ?wanted \<and> ?wanted \<le> ?far \<Longrightarrow> st_offset (ss_strip (snd (swipe h distance sp))) = ?wanted"
    using o b(4) by (simp add: over_def)
  have f: "0 \<le> ?far" by simp
  have "0 \<le> ?wanted - over" "?wanted - over \<le> ?far" using f by (simp_all add: over_def)
  then show "- ?v < st_offset (ss_strip (snd (swipe h distance sp)))"
    "st_offset (ss_strip (snd (swipe h distance sp))) < ?far + ?v"
    unfolding o using b(1) by linarith+
qed

lemma swipe_keeps:
  assumes "scroll_ok sp"
  shows "keeps_windows sp (snd (swipe h distance sp))"
proof (cases "ss_swipe sp")
  case (Some start)
  define strip where "strip = ss_strip (snd (swipe h distance sp))"
  obtain u where u: "strip = (ss_strip sp)\<lparr>st_offset := u\<rparr>"
    using Some by (simp add: strip_def swipe_def Let_def case_prod_unfold)
  have k: "strip_ok strip" "strip_windows strip = ss_windows sp"
    using assms by (simp_all add: u strip_ok_scroll ss_windows_def scroll_ok_def)
  have e: "snd (swipe h distance sp) = sp\<lparr>ss_strip := strip,
      ss_scene := snd (scene_preview h (ss_monitor sp) (strip_layout (st_offset strip) strip) (ss_scene sp))\<rparr>"
    using Some by (simp add: strip_def swipe_def Let_def case_prod_unfold)
  have "fst ` set (snd (scene_preview h (ss_monitor sp) (strip_layout (st_offset strip) strip) (ss_scene sp))) \<subseteq> set (ss_windows sp)"
    using assms strip_layout_keys [of "st_offset strip" strip] k(2)
    by (intro subset_trans [OF scene_preview_keys]) (simp add: scroll_ok_def)
  with assms k show ?thesis by (simp add: e keeps_windows_def scroll_ok_def)
qed (simp add: swipe_def keeps_refl assms)

lemma begin_swipe_keeps: "scroll_ok sp \<Longrightarrow> keeps_windows sp (begin_swipe h sp)"
  using ss_sync_ok [of h sp] by (simp add: begin_swipe_def Let_def keeps_windows_def scroll_ok_def)

text \<open>A column is never wider than the view, so a strip that snapped to an edge is at rest: revealing the
  column it snapped to leaves it there.\<close>

lemma column_width_view:
  assumes "width_ok (cl_width c)" "b_w (st_view s) - st_gap s \<in> \<int>" "0 \<le> st_gap s"
  shows "column_width s c \<le> view_width s"
proof -
  let ?w = "b_w (st_view s) - st_gap s"
  have c: "0 \<le> cl_width c" "cl_width c \<le> 1" using assms(1) by (simp_all add: width_ok_def MIN_WIDTH_def)
  obtain n where n: "?w = of_int n" using assms(2) by (auto elim: Ints_cases)
  have "math_round (cl_width c * ?w) \<le> max 0 ?w"
  proof (cases "0 \<le> ?w")
    case True
    then have "cl_width c * ?w \<le> of_int n" using c n by (metis mult_left_le_one_le)
    then have "round (cl_width c * ?w) \<le> n" by (rule round_le_int)
    then have "math_round (cl_width c * ?w) \<le> ?w" by (simp add: math_round_def n)
    then show ?thesis by simp
  next
    case False
    then have "cl_width c * ?w \<le> of_int 0" using c by (simp add: mult_nonneg_nonpos)
    then have "round (cl_width c * ?w) \<le> 0" by (rule round_le_int)
    then show ?thesis by (simp add: math_round_def)
  qed
  then show ?thesis using assms(3) by (auto simp: column_width_def view_width_def)
qed

lemma snap_in_view:
  assumes ok: "strip_ok s" and whole: "b_w (st_view s) - st_gap s \<in> \<int>" "0 \<le> st_gap s"
    and i: "i < length (st_columns s)"
    and n: "(i, v) \<in> set (snap_edges s) \<or> (i, v) = (0, 0)"
  shows "v \<le> column_start s i" and "column_start s i + column_width s (st_columns s ! i) \<le> v + view_width s"
proof -
  let ?l = "column_start s i" and ?w = "column_width s (st_columns s ! i)" and ?v = "view_width s" and ?f = "furthest s"
  have w: "?w \<le> ?v" using strip_okD(1) [OF ok, of "st_columns s ! i"] i by (intro column_width_view [OF _ whole]) (simp add: column_ok_def)
  have l: "0 \<le> ?l" "?l + ?w \<le> ?f + ?v" using column_start_nonneg [OF whole(2)] column_start_end [OF i whole(2)] by (auto simp: furthest_def)
  have "v = min ?f (max 0 ?l) \<or> v = min ?f (max 0 (?l + ?w - ?v)) \<or> v = 0 \<and> i = 0"
    using n by (auto simp: snap_edges_def snap_candidates_def Let_def)
  moreover have "?l = 0" if "i = 0" using that by (simp add: column_start_def)
  ultimately show "v \<le> ?l" "?l + ?w \<le> v + ?v" using l w by (auto simp: min_def max_def split: if_splits)
qed

lemma snap_rests:
  fixes s :: "'w strip" and offset :: number
  assumes ok: "strip_ok s" and whole: "b_w (st_view s) - st_gap s \<in> \<int>" "0 \<le> st_gap s"
  defines "t \<equiv> s\<lparr>st_offset := sn_offset (strip_snap offset s), st_focused := sn_column (strip_snap offset s)\<rparr>"
  shows "reveal (st_focused t) t = t" and "strip_ok t" and "strip_windows t = strip_windows s"
proof -
  let ?n = "strip_snap offset s"
  have frame: "column_start t i = column_start s i" "column_width t c = column_width s c" "view_width t = view_width s" "st_columns t = st_columns s" for i c
    by (simp_all add: t_def column_start_def column_width_def view_width_def)
  have col: "sn_column ?n = 0" if "st_columns s = []" using that by (simp add: strip_snap_def)
  show "strip_windows t = strip_windows s" by (simp add: strip_windows_def frame)
  show "strip_ok t" using ok strip_snap_nearest(3) [of s offset] col by (auto simp: strip_ok_def strip_windows_def t_def)
  show "reveal (st_focused t) t = t"
  proof (cases "st_columns s = []")
    case False
    note i = strip_snap_nearest(3) [OF False, of offset]
    have n: "(sn_column ?n, sn_offset ?n) \<in> set (snap_edges s) \<or> (sn_column ?n, sn_offset ?n) = (0, 0)"
      using strip_snap_nearest(5) [of offset s] by auto
    have c: "column_at_index t (int (st_focused t)) = Some (st_columns s ! sn_column ?n)"
      using i by (simp add: column_at_index_def frame) (simp add: t_def)
    have w: "column_width s (st_columns s ! sn_column ?n) \<le> view_width s"
      using strip_okD(1) [OF ok nth_mem [OF i]] by (intro column_width_view [OF _ whole]) (simp add: column_ok_def)
    show ?thesis
      using snap_in_view [OF ok whole i n] w by (intro reveal_settled [OF c]) (simp_all add: frame, simp_all add: t_def)
  qed (simp add: reveal_def column_at_index_def frame nth_opt_def)
qed

lemma end_swipe_keeps:
  assumes "scroll_ok sp"
  shows "keeps_windows sp (snd (snd (end_swipe h velocity sp)))"
proof (cases "ss_swipe sp")
  case (Some start)
  define n where "n = strip_snap (st_offset (ss_strip sp) - projection velocity) (ss_strip sp)"
  define t where "t = (ss_strip sp)\<lparr>st_offset := sn_offset n, st_focused := sn_column n\<rparr>"
  have t: "strip_ok t" "strip_windows t = ss_windows sp"
    using scroll_okD(1) [OF assms] strip_snap_nearest(3) [of "ss_strip sp" "st_offset (ss_strip sp) - projection velocity"]
    by (auto simp: t_def n_def strip_ok_def strip_windows_def ss_windows_def strip_snap_def)
  let ?sp = "sp\<lparr>ss_swipe := None\<rparr>"
  have ok: "scroll_ok ?sp" "ss_windows ?sp = ss_windows sp" using assms by (simp_all add: scroll_ok_def)
  let ?sp1 = "snd (ss_arrange h True None velocity (?sp\<lparr>ss_strip := t\<rparr>))"
  have k: "keeps_windows sp ?sp1" using keeps_arranged [OF ok(1) t(1), of h True None velocity] t(2) ok(2) by (simp add: keeps_windows_def)
  have e: "snd (snd (end_swipe h velocity sp)) = snd (widen_all h ?sp1)"
    using Some by (simp add: end_swipe_def Let_def case_prod_unfold t_def n_def)
  show ?thesis unfolding e by (rule keeps_trans [OF k widen_all_keeps [OF keeps_ok [OF k]]])
qed (simp add: end_swipe_def keeps_refl assms)

text \<open>No window wider than its box: nothing is widened.\<close>

lemma widen_each_none:
  assumes "\<forall>w b. map_of (ss_boxes sp) w = Some b \<longrightarrow> b_w (sh_frame h w) \<le> b_w b + 1"
  shows "widen_each h ws sp = (False, sp)"
proof (induction ws)
  case (Cons w ws)
  have "ss_widen h w sp = (False, sp)" using assms by (simp add: ss_widen_def split: option.split)
  with Cons.IH show ?case by simp
qed simp

lemma end_swipe_rests:
  fixes sp :: "'w scroll_space" and velocity :: number
  assumes ok: "scroll_ok sp" and swiping: "ss_swipe sp = Some start" and view: "ss_sync h sp = sp"
    and whole: "b_w (sh_work_area h (ss_monitor sp)) - sh_gap h \<in> \<int>" "0 \<le> sh_gap h"
  defines "n \<equiv> strip_snap (st_offset (ss_strip sp) - projection velocity) (ss_strip sp)"
  defines "t \<equiv> (ss_strip sp)\<lparr>st_offset := sn_offset n, st_focused := sn_column n\<rparr>"
  assumes fits: "\<forall>w b. map_of (strip_layout (sn_offset n) t) w = Some b \<longrightarrow> b_w (sh_frame h w) \<le> b_w b + 1"
  shows "ss_strip (snd (snd (end_swipe h velocity sp))) = t" and "ss_swipe (snd (snd (end_swipe h velocity sp))) = None"
    and "fst (end_swipe h velocity sp) = focused_window t"
proof -
  have v: "st_view (ss_strip sp) = sh_work_area h (ss_monitor sp)" "st_gap (ss_strip sp) = sh_gap h"
    using arg_cong [OF view, of "\<lambda>sp. st_view (ss_strip sp)"] arg_cong [OF view, of "\<lambda>sp. st_gap (ss_strip sp)"]
    by (simp_all add: ss_sync_def set_view_def)
  note r = snap_rests [OF scroll_okD(1) [OF ok], of "st_offset (ss_strip sp) - projection velocity", folded n_def, folded t_def, unfolded v, OF whole]
  let ?sp = "sp\<lparr>ss_swipe := None, ss_strip := t\<rparr>"
  let ?sp1 = "snd (ss_arrange h True None velocity ?sp)"
  have sync: "ss_sync h ?sp = ?sp" using v by (simp add: ss_sync_def set_view_def t_def)
  have s1: "ss_strip ?sp1 = t" unfolding ss_arrange_strip sync using r(1) by simp
  have b1: "ss_boxes ?sp1 = strip_layout (sn_offset n) t"
    using r(1) by (simp add: ss_arrange_def sync Let_def case_prod_unfold ss_layout_def) (simp add: t_def)
  have "widen_all h ?sp1 = ([], ?sp1)"
    unfolding widen_all_def by (subst widen_each_none) (use fits in \<open>simp_all add: b1\<close>)
  then have e: "end_swipe h velocity sp = (focused_window t, fst (ss_arrange h True None velocity ?sp), ?sp1)"
    using swiping s1 by (simp add: end_swipe_def Let_def case_prod_unfold flip: n_def t_def)
  show "ss_strip (snd (snd (end_swipe h velocity sp))) = t" "fst (end_swipe h velocity sp) = focused_window t" unfolding e using s1 by simp_all
  show "ss_swipe (snd (snd (end_swipe h velocity sp))) = None"
    unfolding e by (simp add: ss_arrange_def Let_def case_prod_unfold ss_sync_def)
qed

section \<open>The overview\<close>

lemma ss_zoom_keeps:
  assumes "scroll_ok sp"
  shows "keeps_windows sp (snd (ss_zoom h zoomed sp))"
proof (cases "ss_zoomed sp = zoomed")
  case False
  define sp1 where "sp1 = ss_sync h (sp\<lparr>ss_zoomed := zoomed\<rparr>)"
  define sp2 where "sp2 = sp1\<lparr>ss_boxes := ss_layout sp1\<rparr>"
  have s1: "scroll_ok sp1" "ss_windows sp1 = ss_windows sp" using assms by (simp_all add: sp1_def ss_sync_ok) (simp add: scroll_ok_def)
  have b: "map fst (ss_layout sp1) = ss_windows sp1" unfolding ss_layout_def ss_windows_def by (rule layout_windows [OF scroll_okD(1) [OF s1(1)]])
  have keys: "fst ` set (ss_boxes sp2) = set (ss_windows sp)" "fst ` set (overview_boxes h sp2) \<subseteq> set (ss_windows sp)"
    "fst ` set (ss_scene sp2) \<subseteq> set (ss_windows sp)"
    unfolding overview_keys using b s1 strip_layout_keys [of 0 "ss_strip sp1"] by (auto simp: sp2_def ss_windows_def scroll_ok_def simp flip: set_map)
  have s2: "keeps_windows sp (sp2\<lparr>ss_scene := scene\<rparr>)" if "fst ` set scene \<subseteq> set (ss_windows sp)" for scene
    using that s1 b scroll_okD(2) [OF assms] by (auto simp: keeps_windows_def scroll_ok_def sp2_def simp flip: set_map)
  have "keeps_windows sp (sp2\<lparr>ss_scene := snd (scene_zoom h (overview_boxes h sp2) (overview_scale h sp2) (ss_scene sp2))\<rparr>)"
    by (rule s2, rule subset_trans [OF scene_zoom_keys]) (use keys in simp)
  moreover have "keeps_windows sp (sp2\<lparr>ss_scene := snd (scene_unzoom h (ss_monitor sp2) (ss_boxes sp2) (ss_scene sp2))\<rparr>)"
    by (rule s2, rule subset_trans [OF scene_unzoom_keys]) (use keys in simp)
  ultimately show ?thesis
    using False by (auto simp: ss_zoom_def Let_def case_prod_unfold simp flip: sp1_def sp2_def intro: keeps_trans widen_all_keeps keeps_ok)
qed (simp add: ss_zoom_def keeps_refl assms)

lemma layout_from_ends:
  assumes "0 \<le> st_gap s"
  shows "\<forall>t \<in> set (layout_from s x cs). b_x (snd t) + b_w (snd t) \<le> x + (\<Sum>c \<leftarrow> cs. column_width s c + st_gap s) - st_gap s"
proof (induction cs arbitrary: x)
  case (Cons c cs)
  have pos: "0 \<le> (\<Sum>c \<leftarrow> cs. column_width s c + st_gap s)"
    using assms by (intro sum_list_nonneg) (auto intro: add_nonneg_nonneg less_imp_le column_width_pos)
  show ?case
  proof (rule ballI)
    fix t assume "t \<in> set (layout_from s x (c # cs))"
    moreover obtain u b where "t = (u, b)" by fastforce
    ultimately consider "b_x (snd t) = x" "b_w (snd t) = column_width s c" | "t \<in> set (layout_from s (x + (column_width s c + st_gap s)) cs)"
      by (auto simp: Let_def dest!: set_zip_rightD)
    then show "b_x (snd t) + b_w (snd t) \<le> x + (\<Sum>c \<leftarrow> c # cs. column_width s c + st_gap s) - st_gap s"
      using Cons.IH [of "x + (column_width s c + st_gap s)"] pos by cases (simp, fastforce)
  qed
qed simp

lemma total_width_sum: "st_columns s \<noteq> [] \<Longrightarrow> total_width s = (\<Sum>c \<leftarrow> st_columns s. column_width s c + st_gap s) - st_gap s"
  by (cases "st_columns s") (simp_all add: total_width_def sum_list_addf sum_list_triv algebra_simps)

text \<open>The overview shows the whole strip inside the work area, its margin kept up to rounding.\<close>

lemma overview_inside:
  assumes view: "ss_sync h sp = sp" and gap: "0 \<le> sh_gap h" and m: "(w, b) \<in> set (overview_boxes h sp)"
    and area: "2 * OVERVIEW_MARGIN \<le> b_w (sh_work_area h (ss_monitor sp))" "2 * OVERVIEW_MARGIN < b_h (sh_work_area h (ss_monitor sp))"
  shows "b_x (sh_work_area h (ss_monitor sp)) + OVERVIEW_MARGIN - 1 / 2 \<le> b_x b"
    and "b_x b + b_w b \<le> b_x (sh_work_area h (ss_monitor sp)) + b_w (sh_work_area h (ss_monitor sp)) - OVERVIEW_MARGIN + 1"
proof -
  let ?a = "sh_work_area h (ss_monitor sp)" and ?s = "ss_strip sp" and ?k = "overview_scale h sp"
  have v: "st_view ?s = ?a" "st_gap ?s = sh_gap h"
    using arg_cong [OF view, of "\<lambda>sp. st_view (ss_strip sp)"] arg_cong [OF view, of "\<lambda>sp. st_gap (ss_strip sp)"]
    by (simp_all add: ss_sync_def set_view_def)
  let ?whole = "total_width ?s + 2 * sh_gap h"
  define left where "left = b_x ?a + (b_w ?a - ?whole * ?k) / 2"
  obtain c where c: "(w, c) \<in> set (strip_layout 0 ?s)" "b_x b = math_round (left + (b_x c - b_x ?a) * ?k)" "b_w b = math_round (b_w c * ?k)"
    using m by (auto simp: overview_boxes_def Let_def left_def)
  have ne: "st_columns ?s \<noteq> []" using c(1) by (auto simp: strip_layout_def)
  have "b_x ?a + sh_gap h \<le> b_x c"
    using layout_from_starts [of ?s "b_x ?a + sh_gap h" "st_columns ?s"] gap c(1) v by (auto simp: strip_layout_def)
  moreover have "b_x c + b_w c \<le> b_x ?a + sh_gap h + total_width ?s"
    using layout_from_ends [of ?s "b_x ?a + sh_gap h" "st_columns ?s"] gap c(1) v total_width_sum [OF ne] by (auto simp: strip_layout_def)
  ultimately have c': "0 \<le> b_x c - b_x ?a" "b_x c - b_x ?a + b_w c \<le> ?whole" using gap by auto
  have "0 < total_width ?s" using column_start_end [of 0 ?s] ne gap v column_width_pos [of ?s "st_columns ?s ! 0"] by (simp add: column_start_def)
  then have w: "0 < ?whole" using gap by simp
  have k: "?k \<le> (b_w ?a - 2 * OVERVIEW_MARGIN) / ?whole" "0 \<le> ?k"
    using w area by (auto simp: overview_scale_def Let_def OVERVIEW_MARGIN_def)
  then have fit: "?whole * ?k \<le> b_w ?a - 2 * OVERVIEW_MARGIN" using w by (simp add: field_simps)
  have l: "b_x ?a + OVERVIEW_MARGIN \<le> left" "left + ?whole * ?k \<le> b_x ?a + b_w ?a - OVERVIEW_MARGIN"
    using fit by (simp_all add: left_def field_simps)
  have s: "0 \<le> (b_x c - b_x ?a) * ?k" "(b_x c - b_x ?a) * ?k + b_w c * ?k \<le> ?whole * ?k"
    using mult_nonneg_nonneg [OF c'(1) k(2)] mult_right_mono [OF c'(2) k(2)] by (simp_all only: distrib_right)
  show "b_x ?a + OVERVIEW_MARGIN - 1 / 2 \<le> b_x b"
    using round_bounds(2) [of "left + (b_x c - b_x ?a) * ?k"] l(1) s(1) by (simp add: c(2) math_round_def)
  show "b_x b + b_w b \<le> b_x ?a + b_w ?a - OVERVIEW_MARGIN + 1"
    using round_bounds(1) [of "left + (b_x c - b_x ?a) * ?k"] round_bounds(1) [of "b_w c * ?k"] l(2) s(2)
    unfolding c(2,3) math_round_def by linarith
qed

end
