(* ===== verification/Tiling_Spaces.thy ===== *)
theory Tiling_Spaces
  imports Tiling_Scroll
begin

text \<open>
  The interface of a space, \<^verbatim>\<open>space.ts\<close>: what the tiler, the drags and the commands call, as a record of
  operations, and the laws they rely on as a locale.  A tiled space with either layout and a
  scrolling space are its instances, and so is the space the tiler holds, which is one of the three.
\<close>

section \<open>The interface\<close>

record ('s, 'w) space_ops =
  so_monitor :: "'s \<Rightarrow> nat"
  so_windows :: "'s \<Rightarrow> 'w list"
  so_has :: "'s \<Rightarrow> 'w \<Rightarrow> bool"
  so_add :: "'w stage \<Rightarrow> 'w \<Rightarrow> 'w option \<Rightarrow> 's \<Rightarrow> 's"
  so_remove :: "'w \<Rightarrow> 's \<Rightarrow> 'w scene_call list \<times> 's"
  so_arrange :: "'w stage \<Rightarrow> bool \<Rightarrow> 'w option \<Rightarrow> 's \<Rightarrow> 'w scene_call list \<times> 's"
  so_box_of :: "'s \<Rightarrow> 'w \<Rightarrow> box option"
  so_neighbor :: "'w \<Rightarrow> direction \<Rightarrow> 's \<Rightarrow> 'w option \<times> 's"
  so_move :: "'w stage \<Rightarrow> 'w \<Rightarrow> direction \<Rightarrow> 's \<Rightarrow> bool \<times> 'w scene_call list \<times> 's"
  so_resize :: "'w stage \<Rightarrow> 'w \<Rightarrow> direction \<Rightarrow> 's \<Rightarrow> ('w scene_call list \<times> 's) option"
  so_resized :: "'w stage \<Rightarrow> 'w \<Rightarrow> box \<Rightarrow> 's \<Rightarrow> ('w scene_call list \<times> 's) option"
  so_drop :: "'w stage \<Rightarrow> 'w \<Rightarrow> 'w \<Rightarrow> 's \<Rightarrow> 'w scene_call list \<times> 's"
  so_focused :: "'w stage \<Rightarrow> 'w \<Rightarrow> 's \<Rightarrow> 'w scene_call list \<times> 's"
  so_release :: "'w \<Rightarrow> 's \<Rightarrow> 'w scene_call list \<times> 's"
  so_suspend :: "'s \<Rightarrow> 'w scene_call list \<times> 's"

definition framed :: "'w frame_call list \<times> 's \<Rightarrow> 'w scene_call list \<times> 's" where
  "framed r = (map Frame (fst r), snd r)"

text \<open>\<^verbatim>\<open>TiledSpace implements Space\<close> and \<^verbatim>\<open>ScrollingSpace implements Space\<close>.\<close>

definition tiled_ops :: "('s, 'w) tiled_layout \<Rightarrow> (('s, 'w) tspace, 'w) space_ops" where
  "tiled_ops L =
    \<lparr>so_monitor = ts_monitor, so_windows = ts_windows L, so_has = ts_has L, so_add = ts_add L,
     so_remove = (\<lambda>w s. ([], ts_remove L w s)), so_arrange = (\<lambda>h animate held s. framed (ts_arrange L h animate held s)),
     so_box_of = ts_box_of, so_neighbor = (\<lambda>w d s. (ts_neighbor w d s, s)),
     so_move = (\<lambda>h w d s. case ts_move L h w d s of (moved, r) \<Rightarrow> (moved, framed r)),
     so_resize = (\<lambda>h w d s. map_option framed (ts_resize L h w d s)),
     so_resized = (\<lambda>h w frame s. map_option framed (ts_resized L h w frame s)),
     so_drop = (\<lambda>h w onto s. framed (ts_drop L h w onto s)), so_focused = (\<lambda>h w s. ([], s)),
     so_release = (\<lambda>w s. ([], ts_release L w s)), so_suspend = (\<lambda>s. ([], s))\<rparr>"

definition scroll_ops :: "('w scroll_space, 'w) space_ops" where
  "scroll_ops =
    \<lparr>so_monitor = ss_monitor, so_windows = ss_windows, so_has = ss_has, so_add = ss_add, so_remove = ss_remove,
     so_arrange = (\<lambda>h animate held s. ss_arrange h animate held 0 s), so_box_of = ss_box_of, so_neighbor = ss_neighbor,
     so_move = ss_move, so_resize = ss_resize, so_resized = ss_resized, so_drop = ss_drop, so_focused = ss_focused,
     so_release = ss_remove, so_suspend = ss_suspend\<rparr>"

datatype 'w space =
    Dwindle_space "('w dwindle, 'w) tspace"
  | Master_space "('w master, 'w) tspace"
  | Scroll_space "'w scroll_space"

text \<open>The method of whichever space it is.\<close>

definition sp_read :: "(('w dwindle, 'w) tspace \<Rightarrow> 'r) \<Rightarrow> (('w master, 'w) tspace \<Rightarrow> 'r) \<Rightarrow> ('w scroll_space \<Rightarrow> 'r) \<Rightarrow> 'w space \<Rightarrow> 'r" where
  "sp_read f g k sp = (case sp of Dwindle_space s \<Rightarrow> f s | Master_space s \<Rightarrow> g s | Scroll_space s \<Rightarrow> k s)"

definition sp_call :: "(('w dwindle, 'w) tspace \<Rightarrow> 'c \<times> ('w dwindle, 'w) tspace) \<Rightarrow>
    (('w master, 'w) tspace \<Rightarrow> 'c \<times> ('w master, 'w) tspace) \<Rightarrow> ('w scroll_space \<Rightarrow> 'c \<times> 'w scroll_space) \<Rightarrow>
    'w space \<Rightarrow> 'c \<times> 'w space" where
  "sp_call f g k sp = sp_read (\<lambda>s. apsnd Dwindle_space (f s)) (\<lambda>s. apsnd Master_space (g s)) (\<lambda>s. apsnd Scroll_space (k s)) sp"

abbreviation dwindle_ops :: "(('w dwindle, 'w) tspace, 'w) space_ops" where "dwindle_ops \<equiv> tiled_ops dwindle_layout"
abbreviation master_ops :: "(('w master, 'w) tspace, 'w) space_ops" where "master_ops \<equiv> tiled_ops master_layout"

definition any_ops :: "('w space, 'w) space_ops" where
  "any_ops =
    \<lparr>so_monitor = sp_read (so_monitor dwindle_ops) (so_monitor master_ops) (so_monitor scroll_ops),
     so_windows = sp_read (so_windows dwindle_ops) (so_windows master_ops) (so_windows scroll_ops),
     so_has = sp_read (so_has dwindle_ops) (so_has master_ops) (so_has scroll_ops),
     so_add = (\<lambda>h w focus. sp_read (\<lambda>s. Dwindle_space (so_add dwindle_ops h w focus s))
       (\<lambda>s. Master_space (so_add master_ops h w focus s)) (\<lambda>s. Scroll_space (so_add scroll_ops h w focus s))),
     so_remove = (\<lambda>w. sp_call (so_remove dwindle_ops w) (so_remove master_ops w) (so_remove scroll_ops w)),
     so_arrange = (\<lambda>h animate held. sp_call (so_arrange dwindle_ops h animate held) (so_arrange master_ops h animate held)
       (so_arrange scroll_ops h animate held)),
     so_box_of = sp_read (so_box_of dwindle_ops) (so_box_of master_ops) (so_box_of scroll_ops),
     so_neighbor = (\<lambda>w d. sp_call (so_neighbor dwindle_ops w d) (so_neighbor master_ops w d) (so_neighbor scroll_ops w d)),
     so_move = (\<lambda>h w d. sp_read (\<lambda>s. apsnd (apsnd Dwindle_space) (so_move dwindle_ops h w d s))
       (\<lambda>s. apsnd (apsnd Master_space) (so_move master_ops h w d s)) (\<lambda>s. apsnd (apsnd Scroll_space) (so_move scroll_ops h w d s))),
     so_resize = (\<lambda>h w d. sp_read (\<lambda>s. map_option (apsnd Dwindle_space) (so_resize dwindle_ops h w d s))
       (\<lambda>s. map_option (apsnd Master_space) (so_resize master_ops h w d s)) (\<lambda>s. map_option (apsnd Scroll_space) (so_resize scroll_ops h w d s))),
     so_resized = (\<lambda>h w frame. sp_read (\<lambda>s. map_option (apsnd Dwindle_space) (so_resized dwindle_ops h w frame s))
       (\<lambda>s. map_option (apsnd Master_space) (so_resized master_ops h w frame s))
       (\<lambda>s. map_option (apsnd Scroll_space) (so_resized scroll_ops h w frame s))),
     so_drop = (\<lambda>h w onto. sp_call (so_drop dwindle_ops h w onto) (so_drop master_ops h w onto) (so_drop scroll_ops h w onto)),
     so_focused = (\<lambda>h w. sp_call (so_focused dwindle_ops h w) (so_focused master_ops h w) (so_focused scroll_ops h w)),
     so_release = (\<lambda>w. sp_call (so_release dwindle_ops w) (so_release master_ops w) (so_release scroll_ops w)),
     so_suspend = sp_call (so_suspend dwindle_ops) (so_suspend master_ops) (so_suspend scroll_ops)\<rparr>"

section \<open>Its laws\<close>

locale space_laws =
  fixes ops :: "('s, 'w) space_ops" and ok :: "'s \<Rightarrow> bool"
  assumes distinct_windows: "ok s \<Longrightarrow> distinct (so_windows ops s)"
    and has_iff: "ok s \<Longrightarrow> so_has ops s w \<longleftrightarrow> w \<in> set (so_windows ops s)"
    and add_law: "ok s \<Longrightarrow> w \<notin> set (so_windows ops s) \<Longrightarrow>
      ok (so_add ops h w focus s) \<and> set (so_windows ops (so_add ops h w focus s)) = insert w (set (so_windows ops s))"
    and remove_law: "ok s \<Longrightarrow>
      ok (snd (so_remove ops w s)) \<and> so_windows ops (snd (so_remove ops w s)) = filter (\<lambda>v. v \<noteq> w) (so_windows ops s)"
    and release_law: "so_release ops w s = so_remove ops w s"
    and arrange_law: "ok s \<Longrightarrow> ok (snd (so_arrange ops h animate held s)) \<and>
      so_windows ops (snd (so_arrange ops h animate held s)) = so_windows ops s"
    and arrange_boxes: "ok s \<Longrightarrow> so_box_of ops (snd (so_arrange ops h animate held s)) w \<noteq> None \<longleftrightarrow> w \<in> set (so_windows ops s)"
    and neighbor_law: "ok s \<Longrightarrow> so_neighbor ops w d s = (r, t) \<Longrightarrow>
      ok t \<and> so_windows ops t = so_windows ops s \<and> (\<forall>v. r = Some v \<longrightarrow> v \<in> set (so_windows ops s))"
    and move_law: "ok s \<Longrightarrow> so_move ops h w d s = (moved, calls, t) \<Longrightarrow> ok t \<and> set (so_windows ops t) = set (so_windows ops s)"
    and resize_law: "ok s \<Longrightarrow> so_resize ops h w d s = Some (calls, t) \<Longrightarrow> ok t \<and> set (so_windows ops t) = set (so_windows ops s)"
    and resized_law: "ok s \<Longrightarrow> so_resized ops h w frame s = Some (calls, t) \<Longrightarrow> ok t \<and> set (so_windows ops t) = set (so_windows ops s)"
    and drop_law: "ok s \<Longrightarrow> w \<in> set (so_windows ops s) \<Longrightarrow>
      ok (snd (so_drop ops h w onto s)) \<and> set (so_windows ops (snd (so_drop ops h w onto s))) = set (so_windows ops s)"
    and focused_law: "ok s \<Longrightarrow> ok (snd (so_focused ops h w s)) \<and> set (so_windows ops (snd (so_focused ops h w s))) = set (so_windows ops s)"
    and suspend_law: "ok s \<Longrightarrow> ok (snd (so_suspend ops s)) \<and> so_windows ops (snd (so_suspend ops s)) = so_windows ops s"
begin

lemma remove_set: "ok s \<Longrightarrow> set (so_windows ops (snd (so_remove ops w s))) = set (so_windows ops s) - {w}"
  using remove_law [of s w] by auto

text \<open>A window dropped from a space and added back is in it again, and nothing else changed.\<close>

lemma remove_add_set:
  assumes "ok s" "w \<in> set (so_windows ops s)"
  shows "ok (so_add ops h w focus (snd (so_remove ops w s)))"
    and "set (so_windows ops (so_add ops h w focus (snd (so_remove ops w s)))) = set (so_windows ops s)"
  using add_law [of "snd (so_remove ops w s)" w h focus] remove_law [OF assms(1), of w] assms(2) by auto

end

text \<open>A tiled space obeys them whatever its layout.\<close>

context layout_laws
begin

lemma tiled_laws: "space_laws (tiled_ops L) (space_ok L ok)"
proof unfold_locales
  fix s :: "('s, 'w) tspace" and h :: "'w stage" and w v onto :: 'w and focus held :: "'w option" and animate moved :: bool
    and d :: direction and r :: "'w option" and t :: "('s, 'w) tspace" and calls :: "'w scene_call list" and frame :: box
  assume s: "space_ok L ok s"
  then have l: "ok (ts_layout s)" by (simp add: space_ok_def)
  show "distinct (so_windows (tiled_ops L) s)" using windows_distinct [OF l] by (simp add: tiled_ops_def ts_windows_def)
  show "so_has (tiled_ops L) s w \<longleftrightarrow> w \<in> set (so_windows (tiled_ops L) s)"
    using has_windows [OF l] by (simp add: tiled_ops_def ts_windows_def ts_has_def)
  show "space_ok L ok (so_add (tiled_ops L) h w focus s) \<and>
      set (so_windows (tiled_ops L) (so_add (tiled_ops L) h w focus s)) = insert w (set (so_windows (tiled_ops L) s))"
    if "w \<notin> set (so_windows (tiled_ops L) s)"
    using ts_add_ok [OF s, of w h focus] ts_add_windows [OF s, of w h focus] that by (simp add: tiled_ops_def)
  show "space_ok L ok (snd (so_remove (tiled_ops L) w s)) \<and>
      so_windows (tiled_ops L) (snd (so_remove (tiled_ops L) w s)) = filter (\<lambda>v. v \<noteq> w) (so_windows (tiled_ops L) s)"
    using ts_remove_ok [OF s] by (simp add: tiled_ops_def)
  show "space_ok L ok (snd (so_arrange (tiled_ops L) h animate held s)) \<and>
      so_windows (tiled_ops L) (snd (so_arrange (tiled_ops L) h animate held s)) = so_windows (tiled_ops L) s"
    using ts_arrange_sound(1,2) [OF l, of h animate held] by (simp add: tiled_ops_def framed_def)
  show "so_box_of (tiled_ops L) (snd (so_arrange (tiled_ops L) h animate held s)) w \<noteq> None \<longleftrightarrow> w \<in> set (so_windows (tiled_ops L) s)"
    using ts_arrange_sound(3) [OF l, of h animate held]
    by (simp add: tiled_ops_def framed_def ts_box_of_def map_of_eq_None_iff flip: set_map del: not_None_eq)
  show "space_ok L ok t \<and> so_windows (tiled_ops L) t = so_windows (tiled_ops L) s \<and> (\<forall>v. r = Some v \<longrightarrow> v \<in> set (so_windows (tiled_ops L) s))"
    if "so_neighbor (tiled_ops L) w d s = (r, t)"
    using that s ts_neighbor_window(1) [OF s, of w d] by (auto simp: tiled_ops_def)
  show "space_ok L ok t \<and> set (so_windows (tiled_ops L) t) = set (so_windows (tiled_ops L) s)"
    if mv: "so_move (tiled_ops L) h w d s = (moved, calls, t)"
  proof -
    obtain m fs where m: "ts_move L h w d s = (m, fs, t)"
      using mv by (cases "ts_move L h w d s") (auto simp: tiled_ops_def framed_def)
    show ?thesis
    proof (cases "ts_neighbor w d s")
      case None
      then show ?thesis using ts_move_swaps(1,4) [OF s m] by (simp add: tiled_ops_def)
    next
      case (Some v)
      with ts_move_swaps(1) [OF s m] ts_move_swaps(3) [OF s m Some] ts_neighbor_window [OF s Some]
      show ?thesis by (simp add: tiled_ops_def swapped_image)
    qed
  qed
  show "space_ok L ok t \<and> set (so_windows (tiled_ops L) t) = set (so_windows (tiled_ops L) s)"
    if "so_resize (tiled_ops L) h w d s = Some (calls, t)"
    using that ts_resize_ok [OF s, of h w d] by (auto simp: tiled_ops_def framed_def)
  show "space_ok L ok t \<and> set (so_windows (tiled_ops L) t) = set (so_windows (tiled_ops L) s)"
    if "so_resized (tiled_ops L) h w frame s = Some (calls, t)"
    using that ts_resized_ok(1,2) [OF s, of h w frame] by (auto simp: tiled_ops_def framed_def)
  show "space_ok L ok (snd (so_drop (tiled_ops L) h w onto s)) \<and>
      set (so_windows (tiled_ops L) (snd (so_drop (tiled_ops L) h w onto s))) = set (so_windows (tiled_ops L) s)"
    using ts_drop_ok [OF s, of h w onto] by (simp add: tiled_ops_def framed_def)
qed (simp_all add: tiled_ops_def ts_release_def)

end

sublocale layout_laws \<subseteq> tiled: space_laws "tiled_ops L" "space_ok L ok"
  by (rule tiled_laws)

text \<open>So does a scrolling space.\<close>

lemma ss_neighbor_windows:
  assumes "scroll_ok sp" "ss_neighbor w d sp = (Some v, t)"
  shows "v \<in> set (ss_windows sp)"
proof -
  obtain found sp' where f: "ss_focus w sp = (found, sp')" by fastforce
  have "column_at i s = Some u \<Longrightarrow> u \<in> set (strip_windows s)" "row_at i s = Some u \<Longrightarrow> u \<in> set (strip_windows s)" for i u and s :: "'a strip"
    by (auto simp: column_at_def row_at_def bind_eq_Some_conv row_window_def column_at_index_def dest!: nth_opt_Some intro: column_window)
  then have "v \<in> set (ss_windows sp')"
    using assms(2) f by (auto simp: ss_neighbor_def ss_windows_def split: bool.splits if_splits)
  then show ?thesis using ss_focus_ok(2) [OF assms(1) f] by simp
qed

interpretation scrolling: space_laws scroll_ops scroll_ok
proof unfold_locales
  fix s t :: "'w scroll_space" and h :: "'w stage" and w onto :: 'w and focus held r :: "'w option" and animate moved :: bool
    and d :: direction and calls :: "'w scene_call list" and frame :: box
  assume s: "scroll_ok s"
  note k = keeps_windows_def
  show "distinct (so_windows scroll_ops s)" using scroll_okD(2) [OF s] by (simp add: scroll_ops_def)
  show "so_has scroll_ops s w \<longleftrightarrow> w \<in> set (so_windows scroll_ops s)"
    by (simp add: scroll_ops_def ss_has_def ss_windows_def strip_has_windows)
  show "scroll_ok (so_add scroll_ops h w focus s) \<and>
      set (so_windows scroll_ops (so_add scroll_ops h w focus s)) = insert w (set (so_windows scroll_ops s))"
    if "w \<notin> set (so_windows scroll_ops s)"
    using ss_add_ok [OF s, of w h focus] that by (simp add: scroll_ops_def)
  show "scroll_ok (snd (so_remove scroll_ops w s)) \<and>
      so_windows scroll_ops (snd (so_remove scroll_ops w s)) = filter (\<lambda>v. v \<noteq> w) (so_windows scroll_ops s)"
    using ss_remove_ok [OF s] by (simp add: scroll_ops_def)
  have a: "strip_ok (ss_strip s)" "fst ` set (ss_scene s) \<subseteq> set (ss_windows s)" using s by (simp_all add: scroll_ok_def)
  show "scroll_ok (snd (so_arrange scroll_ops h animate held s)) \<and>
      so_windows scroll_ops (snd (so_arrange scroll_ops h animate held s)) = so_windows scroll_ops s"
    using ss_arrange_sound(1,2) [OF a] by (simp add: scroll_ops_def)
  show "so_box_of scroll_ops (snd (so_arrange scroll_ops h animate held s)) w \<noteq> None \<longleftrightarrow> w \<in> set (so_windows scroll_ops s)"
    using ss_arrange_sound(3) [OF a, of h animate held 0]
    by (simp add: scroll_ops_def ss_box_of_def map_of_eq_None_iff flip: set_map del: not_None_eq)
  show "scroll_ok t \<and> so_windows scroll_ops t = so_windows scroll_ops s \<and> (\<forall>v. r = Some v \<longrightarrow> v \<in> set (so_windows scroll_ops s))"
    if "so_neighbor scroll_ops w d s = (r, t)"
    using that ss_neighbor_ok [OF s, of w d r t] ss_neighbor_windows [OF s, of w d _ t] by (auto simp: scroll_ops_def k)
  show "scroll_ok t \<and> set (so_windows scroll_ops t) = set (so_windows scroll_ops s)"
    if "so_move scroll_ops h w d s = (moved, calls, t)"
    using that ss_move_ok(1) [OF s, of h w d] by (simp add: scroll_ops_def k)
  show "scroll_ok t \<and> set (so_windows scroll_ops t) = set (so_windows scroll_ops s)"
    if "so_resize scroll_ops h w d s = Some (calls, t)"
    using that ss_resize_keeps [OF s, of h w d] by (simp add: scroll_ops_def k)
  show "scroll_ok t \<and> set (so_windows scroll_ops t) = set (so_windows scroll_ops s)"
    if "so_resized scroll_ops h w frame s = Some (calls, t)"
    using that ss_resized_keeps [OF s, of h w frame] by (simp add: scroll_ops_def k)
  show "scroll_ok (snd (so_drop scroll_ops h w onto s)) \<and> set (so_windows scroll_ops (snd (so_drop scroll_ops h w onto s))) = set (so_windows scroll_ops s)"
    if "w \<in> set (so_windows scroll_ops s)"
    using ss_drop_keeps(1) [OF s, of w h onto] that by (simp add: scroll_ops_def k)
  show "scroll_ok (snd (so_focused scroll_ops h w s)) \<and> set (so_windows scroll_ops (snd (so_focused scroll_ops h w s))) = set (so_windows scroll_ops s)"
    using ss_focused_keeps [OF s, of h w] by (simp add: scroll_ops_def k)
  show "scroll_ok (snd (so_suspend scroll_ops s)) \<and> so_windows scroll_ops (snd (so_suspend scroll_ops s)) = so_windows scroll_ops s"
    using ss_suspend_ok [OF s] by (simp add: scroll_ops_def)
qed (simp add: scroll_ops_def)

section \<open>The space the tiler holds\<close>

definition any_ok :: "'w space \<Rightarrow> bool" where
  "any_ok = sp_read (space_ok dwindle_layout dwindle_ok) (space_ok master_layout master_ok) scroll_ok"

lemma any_ok_simps [simp]:
  "any_ok (Dwindle_space s) = space_ok dwindle_layout dwindle_ok s" "any_ok (Master_space m) = space_ok master_layout master_ok m"
  "any_ok (Scroll_space k) = scroll_ok k"
  by (simp_all add: any_ok_def sp_read_def)

lemma apsnd_eq: "apsnd f x = (a, b) \<longleftrightarrow> (\<exists>y. x = (a, y) \<and> b = f y)"
  by (cases x) auto

interpretation spaces: space_laws any_ops any_ok
proof unfold_locales
  fix s t :: "'w space" and h :: "'w stage" and w onto :: 'w and focus held r :: "'w option" and animate moved :: bool
    and d :: direction and calls :: "'w scene_call list" and frame :: box
  assume s: "any_ok s"
  note simps = any_ops_def sp_read_def sp_call_def
  show "distinct (so_windows any_ops s)"
    using s by (cases s) (auto simp: simps dwindle.tiled.distinct_windows master.tiled.distinct_windows scrolling.distinct_windows)
  show "so_has any_ops s w \<longleftrightarrow> w \<in> set (so_windows any_ops s)"
    using s by (cases s) (auto simp: simps dwindle.tiled.has_iff master.tiled.has_iff scrolling.has_iff)
  show "any_ok (so_add any_ops h w focus s) \<and> set (so_windows any_ops (so_add any_ops h w focus s)) = insert w (set (so_windows any_ops s))"
    if "w \<notin> set (so_windows any_ops s)"
    using s that by (cases s) (auto simp: simps dwindle.tiled.add_law master.tiled.add_law scrolling.add_law)
  show "any_ok (snd (so_remove any_ops w s)) \<and> so_windows any_ops (snd (so_remove any_ops w s)) = filter (\<lambda>v. v \<noteq> w) (so_windows any_ops s)"
    using s by (cases s) (auto simp: simps dwindle.tiled.remove_law master.tiled.remove_law scrolling.remove_law)
  show "any_ok (snd (so_arrange any_ops h animate held s)) \<and> so_windows any_ops (snd (so_arrange any_ops h animate held s)) = so_windows any_ops s"
    using s by (cases s) (auto simp: simps dwindle.tiled.arrange_law master.tiled.arrange_law scrolling.arrange_law)
  show "so_box_of any_ops (snd (so_arrange any_ops h animate held s)) w \<noteq> None \<longleftrightarrow> w \<in> set (so_windows any_ops s)"
    using s by (cases s) (simp_all add: simps dwindle.tiled.arrange_boxes master.tiled.arrange_boxes scrolling.arrange_boxes del: not_None_eq)
  show "any_ok t \<and> so_windows any_ops t = so_windows any_ops s \<and> (\<forall>v. r = Some v \<longrightarrow> v \<in> set (so_windows any_ops s))"
    if "so_neighbor any_ops w d s = (r, t)"
    using s that by (cases s) (auto simp: simps apsnd_eq
        dest: dwindle.tiled.neighbor_law [rotated] master.tiled.neighbor_law [rotated] scrolling.neighbor_law [rotated])
  show "any_ok t \<and> set (so_windows any_ops t) = set (so_windows any_ops s)"
    if "so_move any_ops h w d s = (moved, calls, t)"
    using s that by (cases s) (auto simp: simps apsnd_eq
        dest: dwindle.tiled.move_law [rotated] master.tiled.move_law [rotated] scrolling.move_law [rotated])
  show "any_ok t \<and> set (so_windows any_ops t) = set (so_windows any_ops s)"
    if "so_resize any_ops h w d s = Some (calls, t)"
    using s that by (cases s) (auto simp: simps apsnd_eq
        dest: dwindle.tiled.resize_law [rotated] master.tiled.resize_law [rotated] scrolling.resize_law [rotated])
  show "any_ok t \<and> set (so_windows any_ops t) = set (so_windows any_ops s)"
    if "so_resized any_ops h w frame s = Some (calls, t)"
    using s that by (cases s) (auto simp: simps apsnd_eq
        dest: dwindle.tiled.resized_law [rotated] master.tiled.resized_law [rotated] scrolling.resized_law [rotated])
  show "any_ok (snd (so_drop any_ops h w onto s)) \<and> set (so_windows any_ops (snd (so_drop any_ops h w onto s))) = set (so_windows any_ops s)"
    if "w \<in> set (so_windows any_ops s)"
    using s that by (cases s) (auto simp: simps dwindle.tiled.drop_law master.tiled.drop_law scrolling.drop_law)
  show "any_ok (snd (so_focused any_ops h w s)) \<and> set (so_windows any_ops (snd (so_focused any_ops h w s))) = set (so_windows any_ops s)"
    using s by (cases s) (auto simp: simps dwindle.tiled.focused_law master.tiled.focused_law scrolling.focused_law)
  show "any_ok (snd (so_suspend any_ops s)) \<and> so_windows any_ops (snd (so_suspend any_ops s)) = so_windows any_ops s"
    using s by (cases s) (auto simp: simps dwindle.tiled.suspend_law master.tiled.suspend_law scrolling.suspend_law)
qed (simp add: any_ops_def sp_call_def sp_read_def split: space.split add: dwindle.tiled.release_law master.tiled.release_law scrolling.release_law)

end
