(* ===== verification/Tiling_Windows.thy ===== *)
theory Tiling_Windows
  imports Tiling_Spaces "HOL-Library.List_Lexorder" "HOL-Library.Char_ord"
begin

text \<open>
  What tiling knows of windows and of the desktop: \<^verbatim>\<open>windows.ts\<close>, \<^verbatim>\<open>preferences.ts\<close>, and
  \<^verbatim>\<open>memory.ts\<close>, the apps whose windows float.  What the compositor and the settings answer at an event is
  a record, the desk; windows and workspaces are numbers.
\<close>

section \<open>Windows\<close>

text \<open>\<open>wi_located\<close>: whether it is on the active workspace, as a window on all of them is; \<open>wi_showing\<close>: whether it
  shows there.\<close>

record window_info =
  wi_normal :: bool
  wi_override :: bool
  wi_parent :: "nat option"
  wi_skip_taskbar :: bool
  wi_resizeable :: bool
  wi_allows_resize :: bool
  wi_attached :: bool
  wi_max_h :: bool
  wi_max_v :: bool
  wi_fullscreen :: bool
  wi_minimized :: bool
  wi_mapped :: bool
  wi_frame :: box
  wi_target :: box
  wi_buffer :: box
  wi_actor :: "actor option"
  wi_monitor :: int
  wi_workspace :: "nat option"
  wi_located :: bool
  wi_showing :: bool
  wi_app_id :: "string option"
  wi_class :: "string option"

definition stretched :: "window_info \<Rightarrow> bool" where
  "stretched i \<longleftrightarrow> wi_max_h i \<or> wi_max_v i \<or> wi_fullscreen i"

definition resizable :: "window_info \<Rightarrow> bool" where
  "resizable i \<longleftrightarrow> wi_resizeable i \<and> (stretched i \<or> wi_allows_resize i)"

definition floats_by_nature :: "window_info \<Rightarrow> bool" where
  "floats_by_nature i \<longleftrightarrow> \<not> wi_normal i \<or> wi_parent i \<noteq> None \<or> wi_skip_taskbar i \<or> \<not> resizable i \<or> wi_attached i"

definition app_key :: "window_info \<Rightarrow> string option" where
  "app_key i =
    (if or_blank (wi_app_id i) \<noteq> [] \<and> \<not> starts_with ''window:'' (or_blank (wi_app_id i)) then wi_app_id i else wi_class i)"

section \<open>Preferences and the desk\<close>

datatype tiling_mode = Off | Tiling | Scrolling
datatype layout_name = Dwindle_layout | Master_layout
datatype gap_name = No_gap | Small_gap | Medium_gap | Large_gap
datatype tiling_key = Window_tiling | Tiling_layout_key | Tiling_gaps | Tiling_new_windows

definition SURFACE_GAP :: number where "SURFACE_GAP = 10"

definition GAPS :: "gap_name \<Rightarrow> number" where
  "GAPS g = (case g of No_gap \<Rightarrow> 0 | Small_gap \<Rightarrow> SURFACE_GAP / 2 | Medium_gap \<Rightarrow> SURFACE_GAP | Large_gap \<Rightarrow> SURFACE_GAP * 2)"

record preferences =
  pf_mode :: tiling_mode
  pf_layout :: layout_name
  pf_gaps :: gap_name
  pf_beside_focused :: bool

record desk =
  dk_window :: "nat \<Rightarrow> window_info"
  dk_windows :: "nat list"
  dk_stacking :: "nat \<Rightarrow> nat"
  dk_focus :: "nat option"
  dk_monitors :: "box list"
  dk_primary :: nat
  dk_work_area :: "nat \<Rightarrow> box"
  dk_board :: bool
  dk_only_primary :: bool
  dk_active :: nat
  dk_workspaces :: "nat list"
  dk_preferences :: preferences
  dk_edge_tiling :: bool
  dk_settled :: "nat \<Rightarrow> box \<Rightarrow> box \<times> box"

lemma gaps_whole: "GAPS g \<in> \<int>" "0 \<le> GAPS g"
  by (cases g; simp add: GAPS_def SURFACE_GAP_def)+

section \<open>The apps that float\<close>

text \<open>The set of apps is kept in the order they were added; \<open>fm_file\<close> is the contents last given to the
  file, still being written while \<open>fm_saving\<close>.\<close>

record memory =
  fm_apps :: "string list"
  fm_saving :: bool
  fm_dirty :: bool
  fm_file :: "string list"

definition new_memory :: memory where
  "new_memory = \<lparr>fm_apps = [], fm_saving = False, fm_dirty = False, fm_file = []\<rparr>"

definition floats :: "memory \<Rightarrow> string option \<Rightarrow> bool" where
  "floats m app \<longleftrightarrow> or_blank app \<noteq> [] \<and> or_blank app \<in> set (fm_apps m)"

definition save_memory :: "memory \<Rightarrow> memory" where
  "save_memory m =
    (if fm_saving m then m\<lparr>fm_dirty := True\<rparr> else m\<lparr>fm_saving := True, fm_file := sort (fm_apps m)\<rparr>)"

definition remember :: "string option \<Rightarrow> bool \<Rightarrow> memory \<Rightarrow> memory" where
  "remember app floating m =
    (if or_blank app = [] \<or> (or_blank app \<in> set (fm_apps m)) = floating then m
     else save_memory (m\<lparr>fm_apps := (if floating then fm_apps m @ [or_blank app]
       else filter (\<lambda>a. a \<noteq> or_blank app) (fm_apps m))\<rparr>))"

text \<open>The file was read, \<open>None\<close> when it could not be.\<close>

definition memory_loaded :: "string list option \<Rightarrow> memory \<Rightarrow> memory" where
  "memory_loaded saved m = (case saved of None \<Rightarrow> m | Some apps \<Rightarrow> m\<lparr>fm_apps := rev (remdups (rev (apps @ fm_apps m)))\<rparr>)"

definition memory_saved :: "memory \<Rightarrow> memory" where
  "memory_saved m =
    (let m' = m\<lparr>fm_saving := False\<rparr> in if fm_dirty m then save_memory (m'\<lparr>fm_dirty := False\<rparr>) else m')"

text \<open>What memory keeps: each app once, and once it is not saving, the file holds the apps as they were at
  the last change; while it is saving, it is marked when that is not what it is writing.\<close>

definition memory_ok :: "memory \<Rightarrow> bool" where
  "memory_ok m \<longleftrightarrow> distinct (fm_apps m) \<and> (fm_dirty m \<longrightarrow> fm_saving m) \<and> (\<not> fm_dirty m \<longrightarrow> fm_file m = sort (fm_apps m))"

lemma memory_ok_new: "memory_ok new_memory"
  by (simp add: memory_ok_def new_memory_def)

lemma remember_ok: "memory_ok m \<Longrightarrow> memory_ok (remember app floating m)"
  by (auto simp: remember_def memory_ok_def save_memory_def)

lemma memory_saved_ok: "memory_ok m \<Longrightarrow> memory_ok (memory_saved m)"
  by (auto simp: memory_saved_def memory_ok_def save_memory_def Let_def)

lemma remember_floats:
  "or_blank app \<noteq> [] \<Longrightarrow> floats (remember app floating m) other \<longleftrightarrow>
    (if or_blank other = or_blank app then floating else floats m other)"
  by (auto simp: floats_def remember_def save_memory_def)

lemma floats_save [simp]: "floats (memory_saved m) app = floats m app"
  by (simp add: floats_def memory_saved_def save_memory_def Let_def)

lemma memory_loaded_floats: "floats (memory_loaded (Some apps) m) app \<longleftrightarrow> or_blank app \<noteq> [] \<and> (or_blank app \<in> set apps \<or> floats m app)"
  by (auto simp: floats_def memory_loaded_def)

end
