(* ===== verification/Tiling_Tiler.thy ===== *)
theory Tiling_Tiler
  imports Tiling_Windows
begin

text \<open>
  The tiler, \<^verbatim>\<open>tiler.ts\<close>: the windows it tracks, the spaces they are in, one for each monitor of each
  workspace, and the handlers of the compositor's signals.  A handler takes the desk at its event
  and returns the calls it makes and the state after it; signals its own calls cause are events of
  their own, after it.  A space is known by its workspace and monitor, \<open>None\<close> being the workspace of
  monitors that do not switch.  Of a window's connections only the ones that decide something are
  kept: whether its first configuration and its first showing are still awaited.
\<close>

section \<open>State\<close>

type_synonym space_key = "nat option \<times> nat"

record tracked =
  tk_floating :: bool
  tk_restore :: "box option"
  tk_space :: "space_key option"
  tk_configuring :: bool
  tk_showing :: bool
  tk_beside :: "nat option"

record tiler =
  tr_held :: "nat option"
  tr_memory :: memory
  tr_tracked :: "(nat \<times> tracked) list"
  tr_spaces :: "(nat option \<times> (nat \<times> nat space) list) list"
  tr_opening :: "nat set"
  tr_unconfigured :: "nat set"
  tr_by_hand :: "nat set"
  tr_mode :: tiling_mode
  tr_board_shown :: bool

datatype tiler_call =
    Scene "nat scene_call"
  | Unmaximize nat
  | Move_frame nat number number
  | Raise nat
  | Configure nat box
  | Set_edge_tiling bool
  | Activate nat
  | Board_step int int

type_synonym handled = "tiler_call list \<times> tiler"

definition RESTORED_WIDTH :: number where "RESTORED_WIDTH = 6 / 10"
definition RESTORED_HEIGHT :: number where "RESTORED_HEIGHT = 7 / 10"

definition new_tiler :: tiler where
  "new_tiler = \<lparr>tr_held = None, tr_memory = new_memory, tr_tracked = [], tr_spaces = [], tr_opening = {},
    tr_unconfigured = {}, tr_by_hand = {}, tr_mode = Off, tr_board_shown = False\<rparr>"

text \<open>Handlers one after the other.\<close>

definition then_do :: "handled \<Rightarrow> (tiler \<Rightarrow> handled) \<Rightarrow> handled" where
  "then_do r f = (let (calls, t) = r; (more, t') = f t in (calls @ more, t'))"

fun do_each :: "('e \<Rightarrow> tiler \<Rightarrow> handled) \<Rightarrow> 'e list \<Rightarrow> tiler \<Rightarrow> handled" where
  "do_each f [] t = ([], t)"
| "do_each f (e # es) t = then_do (f e t) (do_each f es)"

section \<open>Looking things up\<close>

abbreviation info :: "desk \<Rightarrow> nat \<Rightarrow> window_info" where "info dk w \<equiv> dk_window dk w"

definition tracked_of :: "tiler \<Rightarrow> nat \<Rightarrow> tracked option" where
  "tracked_of t w = map_of (tr_tracked t) w"

definition set_tracked :: "nat \<Rightarrow> tracked \<Rightarrow> tiler \<Rightarrow> tiler" where
  "set_tracked w r t = t\<lparr>tr_tracked := map_put w r (tr_tracked t)\<rparr>"

definition change_tracked :: "nat \<Rightarrow> (tracked \<Rightarrow> tracked) \<Rightarrow> tiler \<Rightarrow> tiler" where
  "change_tracked w f t = (case tracked_of t w of None \<Rightarrow> t | Some r \<Rightarrow> set_tracked w (f r) t)"

definition key_of :: "tiler \<Rightarrow> nat \<Rightarrow> space_key option" where
  "key_of t w = Option.bind (tracked_of t w) tk_space"

definition space_lookup :: "tiler \<Rightarrow> space_key \<Rightarrow> nat space option" where
  "space_lookup t key = Option.bind (map_of (tr_spaces t) (fst key)) (\<lambda>by_monitor. map_of by_monitor (snd key))"

definition space_put :: "space_key \<Rightarrow> nat space \<Rightarrow> tiler \<Rightarrow> tiler" where
  "space_put key sp t =
    t\<lparr>tr_spaces := map_put (fst key) (map_put (snd key) sp (otherwise (map_of (tr_spaces t) (fst key)) [])) (tr_spaces t)\<rparr>"

definition space_of :: "tiler \<Rightarrow> nat \<Rightarrow> nat space option" where
  "space_of t w = Option.bind (key_of t w) (space_lookup t)"

definition is_tiled :: "tiler \<Rightarrow> nat \<Rightarrow> bool" where
  "is_tiled t w \<longleftrightarrow> key_of t w \<noteq> None"

definition all_spaces :: "tiler \<Rightarrow> space_key list" where
  "all_spaces t = concat (map (\<lambda>(workspace, by_monitor). map (\<lambda>(monitor, sp). (workspace, monitor)) by_monitor) (tr_spaces t))"

definition visible_spaces :: "tiler \<Rightarrow> desk \<Rightarrow> space_key list" where
  "visible_spaces t dk =
    concat (map (\<lambda>workspace. map (\<lambda>(monitor, sp). (workspace, monitor)) (otherwise (map_of (tr_spaces t) workspace) []))
      [Some (dk_active dk), None])"

definition window_shown :: "tiler \<Rightarrow> desk \<Rightarrow> nat \<Rightarrow> bool" where
  "window_shown t dk w \<longleftrightarrow> w \<notin> tr_opening t \<and> \<not> wi_minimized (info dk w) \<and> wi_mapped (info dk w)"

definition monitor_box :: "desk \<Rightarrow> nat \<Rightarrow> box" where
  "monitor_box dk m = (if m < length (dk_monitors dk) then dk_monitors dk ! m else \<lparr>b_x = 0, b_y = 0, b_w = 0, b_h = 0\<rparr>)"

text \<open>The host the constructor hands the spaces.\<close>

definition host_of :: "tiler \<Rightarrow> desk \<Rightarrow> nat stage" where
  "host_of t dk =
    \<lparr>sh_work_area = dk_work_area dk, sh_monitor_box = monitor_box dk, sh_monitor_count = length (dk_monitors dk),
     sh_gap = GAPS (pf_gaps (dk_preferences dk)), sh_beside_focused = pf_beside_focused (dk_preferences dk),
     sh_ready = (\<lambda>w. w \<notin> tr_unconfigured t), sh_shown = window_shown t dk,
     sh_stretched = (\<lambda>w. stretched (info dk w)), sh_target = (\<lambda>w. wi_target (info dk w)), sh_frame = (\<lambda>w. wi_frame (info dk w)),
     sg_actor = (\<lambda>w. wi_actor (info dk w)), sg_buffer = (\<lambda>w. wi_buffer (info dk w)), sg_settled = dk_settled dk\<rparr>"

definition floating_windows :: "tiler \<Rightarrow> desk \<Rightarrow> nat list" where
  "floating_windows t dk = map fst (filter (\<lambda>(w, r). tk_space r = None \<and> window_shown t dk w) (tr_tracked t))"

definition home_of :: "nat \<Rightarrow> tiler \<Rightarrow> desk \<Rightarrow> space_key" where
  "home_of w t dk =
    (let i = info dk w;
         monitor = (case key_of t w of Some key \<Rightarrow> snd key | None \<Rightarrow> if wi_monitor i \<ge> 0 then nat (wi_monitor i) else dk_primary dk)
     in (if dk_only_primary dk \<and> monitor \<noteq> dk_primary dk then None else Some (otherwise (wi_workspace i) (dk_active dk)), monitor))"

definition restored_box :: "nat \<Rightarrow> tiler \<Rightarrow> desk \<Rightarrow> box" where
  "restored_box w t dk =
    (let area = dk_work_area dk (snd (home_of w t dk)); i = info dk w;
         width = (if wi_allows_resize i then math_round (b_w area * RESTORED_WIDTH) else b_w (wi_frame i));
         height = (if wi_allows_resize i then math_round (b_h area * RESTORED_HEIGHT) else b_h (wi_frame i))
     in \<lparr>b_x = b_x area + math_round ((b_w area - width) / 2), b_y = b_y area + math_round ((b_h area - height) / 2),
         b_w = width, b_h = height\<rparr>)"

definition floating_size :: "nat \<Rightarrow> tiler \<Rightarrow> desk \<Rightarrow> (number \<times> number) option" where
  "floating_size w t dk =
    (case tracked_of t w of
      None \<Rightarrow> None
    | Some r \<Rightarrow>
        if tk_space r = None \<or> \<not> wi_allows_resize (info dk w) then None
        else (let b = otherwise (tk_restore r) (restored_box w t dk) in Some (b_w b, b_h b)))"

section \<open>Spaces\<close>

text \<open>Run a method of a space and keep the space it leaves.\<close>

definition on_space :: "space_key \<Rightarrow> (nat space \<Rightarrow> nat scene_call list \<times> nat space) \<Rightarrow> tiler \<Rightarrow> handled" where
  "on_space key f t =
    (case space_lookup t key of
      None \<Rightarrow> ([], t)
    | Some sp \<Rightarrow> (let (calls, sp') = f sp in (map Scene calls, space_put key sp' t)))"

definition new_space :: "nat \<Rightarrow> tiler \<Rightarrow> desk \<Rightarrow> nat space" where
  "new_space monitor t dk =
    (if tr_mode t = Scrolling then Scroll_space (new_scroll_space monitor)
     else case pf_layout (dk_preferences dk) of
       Master_layout \<Rightarrow> Master_space \<lparr>ts_monitor = monitor, ts_layout = new_master, ts_boxes = []\<rparr>
     | Dwindle_layout \<Rightarrow> Dwindle_space \<lparr>ts_monitor = monitor, ts_layout = new_dwindle, ts_boxes = []\<rparr>)"

definition space_at :: "space_key \<Rightarrow> desk \<Rightarrow> tiler \<Rightarrow> tiler" where
  "space_at key dk t = (if space_lookup t key = None then space_put key (new_space (snd key) t dk) t else t)"

definition space_on :: "nat \<Rightarrow> desk \<Rightarrow> tiler \<Rightarrow> space_key \<times> tiler" where
  "space_on monitor dk t =
    (let key = (if dk_only_primary dk \<and> monitor \<noteq> dk_primary dk then None else Some (dk_active dk), monitor)
     in (key, space_at key dk t))"

definition arrange :: "space_key \<Rightarrow> bool \<Rightarrow> desk \<Rightarrow> tiler \<Rightarrow> handled" where
  "arrange key animate dk t =
    (if dk_board dk \<and> key \<in> set (visible_spaces t dk) then ([], t)
     else on_space key (so_arrange any_ops (host_of t dk) animate (tr_held t)) t)"

definition arrange_all :: "bool \<Rightarrow> desk \<Rightarrow> tiler \<Rightarrow> handled" where
  "arrange_all animate dk t = do_each (\<lambda>key. arrange key animate dk) (all_spaces t) t"

definition sync_board :: "desk \<Rightarrow> tiler \<Rightarrow> handled" where
  "sync_board dk t =
    (if dk_board dk = tr_board_shown t then ([], t)
     else
      (let t' = t\<lparr>tr_board_shown := dk_board dk\<rparr>
       in if dk_board dk then do_each (\<lambda>key. on_space key (so_suspend any_ops)) (visible_spaces t' dk) t'
          else arrange_all True dk t'))"

text \<open>\<^verbatim>\<open>attach\<close>: into the space of its home.\<close>

definition attach :: "nat \<Rightarrow> nat option \<Rightarrow> desk \<Rightarrow> tiler \<Rightarrow> space_key \<times> tiler" where
  "attach w beside dk t =
    (let key = home_of w t dk; t1 = space_at key dk t;
         t2 = snd (on_space key (\<lambda>sp. ([], so_add any_ops (host_of t1 dk) w beside sp)) t1)
     in (key, change_tracked w (\<lambda>r. r\<lparr>tk_space := Some key\<rparr>) t2))"

definition attach_arranged :: "nat \<Rightarrow> nat option \<Rightarrow> desk \<Rightarrow> tiler \<Rightarrow> handled" where
  "attach_arranged w beside dk t = (let (key, t') = attach w beside dk t in arrange key True dk t')"

definition move_to :: "nat \<Rightarrow> space_key \<Rightarrow> nat option \<Rightarrow> desk \<Rightarrow> tiler \<Rightarrow> handled" where
  "move_to w target beside dk t =
    (case key_of t w of
      None \<Rightarrow> ([], t)
    | Some source \<Rightarrow>
        if source = target then ([], t)
        else
          then_do (on_space source (so_remove any_ops w) t) (\<lambda>t1.
          then_do (on_space target (\<lambda>sp. ([], so_add any_ops (host_of t1 dk) w beside sp)) t1) (\<lambda>t2.
          then_do (arrange source True dk (change_tracked w (\<lambda>r. r\<lparr>tk_space := Some target\<rparr>) t2))
            (arrange target True dk))))"

text \<open>\<^verbatim>\<open>float\<close>: back to the box it had, or the one it would have.\<close>

definition float_calls :: "nat \<Rightarrow> tracked \<Rightarrow> tiler \<Rightarrow> desk \<Rightarrow> tiler_call list" where
  "float_calls w r t dk =
    [Scene (Frame (Set_unconstrained w False)), Scene (Frame (Set_edges_tiled w False))] @
    (if stretched (info dk w) then []
     else [Scene (Frame (Morph w)), Scene (Frame (Move_resize w (otherwise (tk_restore r) (restored_box w t dk))))])"

text \<open>Unmaximizing, and the desk after it.\<close>

definition unstretch :: "nat \<Rightarrow> desk \<Rightarrow> tiler_call list \<times> desk" where
  "unstretch w dk =
    (let i = info dk w in
     if \<not> wi_fullscreen i \<and> (wi_max_h i \<or> wi_max_v i)
     then ([Unmaximize w], dk\<lparr>dk_window := (dk_window dk)(w := i\<lparr>wi_max_h := False, wi_max_v := False\<rparr>)\<rparr>)
     else ([], dk))"

section \<open>Tracking\<close>

definition classify :: "nat \<Rightarrow> nat option \<Rightarrow> bool \<Rightarrow> bool \<Rightarrow> desk \<Rightarrow> tiler \<Rightarrow> handled" where
  "classify w beside floated unstretched dk t =
    (let floating = (floats_by_nature (info dk w) \<or> floated);
         t' = change_tracked w (\<lambda>r. r\<lparr>tk_floating := floating\<rparr>) t
     in if floating \<or> wi_minimized (info dk w) then ([], t')
        else
         (let (calls, dk') = (if unstretched then unstretch w dk else ([], dk))
          in then_do (calls, t') (attach_arranged w beside dk')))"

definition track :: "nat \<Rightarrow> bool \<Rightarrow> nat option \<Rightarrow> desk \<Rightarrow> tiler \<Rightarrow> handled" where
  "track w opening beside dk t =
    (let i = info dk w in
     if tracked_of t w \<noteq> None \<or> \<not> wi_normal i \<or> wi_override i then ([], t)
     else
      (let t' = set_tracked w \<lparr>tk_floating = True, tk_restore = (if opening \<or> stretched i then None else Some (wi_frame i)),
             tk_space = None, tk_configuring = opening, tk_showing = opening, tk_beside = beside\<rparr> t
       in if opening
          then ([], t'\<lparr>tr_opening := insert w (tr_opening t'), tr_unconfigured := insert w (tr_unconfigured t')\<rparr>)
          else classify w None (w \<in> tr_by_hand t) True dk t'))"

definition created :: "nat \<Rightarrow> desk \<Rightarrow> tiler \<Rightarrow> handled" where
  "created w dk t = track w True (dk_focus dk) dk t"

text \<open>The handler of the first configuration.\<close>

definition configured :: "nat \<Rightarrow> desk \<Rightarrow> tiler \<Rightarrow> handled" where
  "configured w dk t =
    (case tracked_of t w of
      None \<Rightarrow> ([], t)
    | Some r \<Rightarrow>
        if \<not> tk_configuring r then ([], t)
        else
          then_do (classify w (tk_beside r) (floats (tr_memory t) (app_key (info dk w))) False dk
              (change_tracked w (\<lambda>r. r\<lparr>tk_configuring := False\<rparr>) t)) (\<lambda>t1.
            let t2 = t1\<lparr>tr_unconfigured := tr_unconfigured t1 - {w}\<rparr>
            in case Option.bind (space_of t2 w) (\<lambda>sp. so_box_of any_ops sp w) of
              None \<Rightarrow> ([], t2)
            | Some b \<Rightarrow> ([Scene (Frame (Set_unconstrained w True)), Configure w b], t2)))"

definition center_on_parent :: "nat \<Rightarrow> desk \<Rightarrow> tiler \<Rightarrow> tiler_call list" where
  "center_on_parent w dk t =
    (case wi_parent (info dk w) of
      None \<Rightarrow> []
    | Some parent \<Rightarrow>
        (case (key_of t parent, Option.bind (space_of t parent) (\<lambda>sp. so_box_of any_ops sp parent)) of
          (Some key, Some b) \<Rightarrow>
            (let area = dk_work_area dk (snd key); frame = wi_frame (info dk w);
                 x = max (b_x area) (min (b_x b + math_round ((b_w b - b_w frame) / 2)) (b_x area + b_w area - b_w frame));
                 y = max (b_y area) (min (b_y b + math_round ((b_h b - b_h frame) / 2)) (b_y area + b_h area - b_h frame))
             in [Move_frame w x y])
        | _ \<Rightarrow> []))"

text \<open>The handler of the first showing; \<^verbatim>\<open>settled\<close> is that of the actor's effects, run at once when there is
  no actor.\<close>

definition settled :: "nat \<Rightarrow> tiler \<Rightarrow> tiler" where
  "settled w t = t\<lparr>tr_opening := tr_opening t - {w}\<rparr>"

definition first_shown :: "nat \<Rightarrow> desk \<Rightarrow> tiler \<Rightarrow> handled" where
  "first_shown w dk t =
    (case tracked_of t w of
      None \<Rightarrow> ([], t)
    | Some r \<Rightarrow>
        if \<not> tk_showing r then ([], t)
        else
         (let t1 = (change_tracked w (\<lambda>r. r\<lparr>tk_showing := False\<rparr>) t)\<lparr>tr_unconfigured := tr_unconfigured t - {w}\<rparr>
          in then_do
              (if tk_configuring r
               then classify w (tk_beside r) (floats (tr_memory t) (app_key (info dk w))) True dk
                      (change_tracked w (\<lambda>r. r\<lparr>tk_configuring := False\<rparr>) t1)
               else case tk_space r of
                 None \<Rightarrow> ([], t1)
               | Some key \<Rightarrow> (let (calls, dk') = unstretch w dk in then_do (calls, t1) (arrange key True dk')))
              (\<lambda>t2. (if key_of t2 w = None then center_on_parent w dk t2 else [],
                     if wi_actor (info dk w) = None then settled w t2 else t2))))"

definition untrack :: "nat \<Rightarrow> desk \<Rightarrow> tiler \<Rightarrow> handled" where
  "untrack w dk t =
    (case tracked_of t w of
      None \<Rightarrow> ([], t)
    | Some r \<Rightarrow>
        (let t' = t\<lparr>tr_tracked := map_drop w (tr_tracked t), tr_opening := tr_opening t - {w},
               tr_unconfigured := tr_unconfigured t - {w}\<rparr>
         in case tk_space r of
           None \<Rightarrow> ([], t')
         | Some key \<Rightarrow> then_do (on_space key (so_remove any_ops w) t') (arrange key True dk)))"

section \<open>Changes of a window\<close>

text \<open>Out of its space, by \<^verbatim>\<open>release\<close>.\<close>

definition detach :: "nat \<Rightarrow> space_key \<Rightarrow> tiler \<Rightarrow> handled" where
  "detach w key t =
    then_do (on_space key (so_release any_ops w) t) (\<lambda>t'. ([], change_tracked w (\<lambda>r. r\<lparr>tk_space := None\<rparr>) t'))"

definition toggle_floating :: "nat \<Rightarrow> desk \<Rightarrow> tiler \<Rightarrow> handled" where
  "toggle_floating w dk t =
    (case tracked_of t w of
      None \<Rightarrow> ([], t)
    | Some r \<Rightarrow>
        if floats_by_nature (info dk w) then ([], t)
        else
         (let floating = (tk_space r \<noteq> None);
              t1 = (change_tracked w (\<lambda>r. r\<lparr>tk_floating := floating\<rparr>) t)\<lparr>
                tr_memory := remember (app_key (info dk w)) floating (tr_memory t),
                tr_by_hand := (if floating then insert w (tr_by_hand t) else tr_by_hand t - {w})\<rparr>
          in case tk_space r of
            Some key \<Rightarrow>
              then_do (detach w key t1) (\<lambda>t2. then_do (float_calls w r t2 dk, t2) (arrange key True dk))
          | None \<Rightarrow>
              attach_arranged w None dk
                (if stretched (info dk w) then t1 else change_tracked w (\<lambda>r. r\<lparr>tk_restore := Some (wi_frame (info dk w))\<rparr>) t1)))"

definition nature_changed :: "nat \<Rightarrow> desk \<Rightarrow> tiler \<Rightarrow> handled" where
  "nature_changed w dk t =
    (case tracked_of t w of
      None \<Rightarrow> ([], t)
    | Some r \<Rightarrow>
        let i = info dk w in
        if tk_space r = None \<and> tk_floating r \<and> \<not> floats_by_nature i \<and> w \<notin> tr_by_hand t \<and>
           \<not> floats (tr_memory t) (app_key i) \<and> w \<notin> tr_unconfigured t \<and> \<not> wi_minimized i
        then (let (calls, dk') = unstretch w dk
              in then_do (calls, change_tracked w (\<lambda>r. r\<lparr>tk_floating := False\<rparr>) t) (attach_arranged w None dk'))
        else (case tk_space r of
            None \<Rightarrow> ([], t)
          | Some key \<Rightarrow>
              if \<not> floats_by_nature i then ([], t)
              else then_do (detach w key t) (\<lambda>t1.
                let t2 = change_tracked w (\<lambda>r. r\<lparr>tk_floating := True\<rparr>) t1
                in then_do (float_calls w r t2 dk, t2) (arrange key True dk))))"

definition minimized_changed :: "nat \<Rightarrow> desk \<Rightarrow> tiler \<Rightarrow> handled" where
  "minimized_changed w dk t =
    (case tracked_of t w of
      None \<Rightarrow> ([], t)
    | Some r \<Rightarrow>
        (case tk_space r of
          Some key \<Rightarrow> if wi_minimized (info dk w) then then_do (detach w key t) (arrange key True dk) else ([], t)
        | None \<Rightarrow>
            if \<not> wi_minimized (info dk w) \<and> \<not> tk_floating r then attach_arranged w None dk t else ([], t)))"

definition home_changed :: "nat \<Rightarrow> desk \<Rightarrow> tiler \<Rightarrow> handled" where
  "home_changed w dk t =
    (case key_of t w of
      None \<Rightarrow> ([], t)
    | Some key \<Rightarrow>
        (let home = home_of w t dk; t' = space_at home dk t
         in if home \<noteq> key then move_to w home None dk t' else ([], t')))"

definition size_changed :: "nat \<Rightarrow> desk \<Rightarrow> tiler \<Rightarrow> handled" where
  "size_changed w dk t =
    (case key_of t w of
      None \<Rightarrow> ([], t)
    | Some key \<Rightarrow>
        if tr_held t = Some w \<or> stretched (info dk w) \<or> dk_board dk then ([], t)
        else on_space key (\<lambda>sp. case sp of
            Scroll_space ss \<Rightarrow> apsnd Scroll_space (ss_widened (host_of t dk) w ss)
          | _ \<Rightarrow> ([], sp)) t)"

definition stretch_changed :: "nat \<Rightarrow> desk \<Rightarrow> tiler \<Rightarrow> handled" where
  "stretch_changed w dk t =
    (case key_of t w of
      None \<Rightarrow> ([], t)
    | Some key \<Rightarrow>
        (let (calls, dk') = (if w \<in> tr_opening t then unstretch w dk else ([], dk))
         in then_do (calls, t) (if stretched (info dk' w) then (\<lambda>t. ([], t)) else arrange key True dk')))"

text \<open>The window a chain of dialogs belongs to; the compositor lets no window be transient for itself, so
  a chain is no longer than the windows there are.\<close>

fun root_window :: "nat \<Rightarrow> desk \<Rightarrow> nat \<Rightarrow> nat" where
  "root_window 0 dk w = w"
| "root_window (Suc n) dk w = (case wi_parent (info dk w) of None \<Rightarrow> w | Some p \<Rightarrow> root_window n dk p)"

definition focus_changed :: "desk \<Rightarrow> tiler \<Rightarrow> handled" where
  "focus_changed dk t =
    (case dk_focus dk of
      None \<Rightarrow> ([], t)
    | Some focus \<Rightarrow>
        (let w = root_window (length (dk_windows dk)) dk focus
         in case key_of t w of
           None \<Rightarrow> ([], t)
         | Some key \<Rightarrow> if dk_board dk then ([], t) else on_space key (so_focused any_ops (host_of t dk) w) t))"

definition keep_floating_above :: "desk \<Rightarrow> tiler \<Rightarrow> tiler_call list" where
  "keep_floating_above dk t =
    (let located = (\<lambda>w. wi_located (info dk w));
         floating = filter located (floating_windows t dk);
         tiled = map fst (filter (\<lambda>(w, r). tk_space r \<noteq> None \<and> \<not> wi_minimized (info dk w) \<and> located w) (tr_tracked t));
         stacked = sort_key (dk_stacking dk) (floating @ tiled);
         place_of = (\<lambda>w. case index_of w stacked of None \<Rightarrow> - 1 | Some i \<Rightarrow> int i)
     in if floating = [] \<or> tiled = [] then []
        else map Raise (filter (\<lambda>w. w \<in> set floating \<and> place_of w < Max (place_of ` set tiled)) stacked))"

section \<open>Modes\<close>

definition release_all :: "desk \<Rightarrow> tiler \<Rightarrow> handled" where
  "release_all dk t =
    do_each (\<lambda>(w, r) t. case tk_space r of
        None \<Rightarrow> ([], t)
      | Some key \<Rightarrow> then_do (on_space key (so_release any_ops w) t) (\<lambda>t'. (float_calls w r t' dk, t'))) (tr_tracked t) t"

definition suspend_all :: "tiler \<Rightarrow> handled" where
  "suspend_all t = do_each (\<lambda>key. on_space key (so_suspend any_ops)) (all_spaces t) t"

definition disengage :: "desk \<Rightarrow> tiler \<Rightarrow> handled" where
  "disengage dk t =
    then_do (release_all dk t) (\<lambda>t1.
    then_do (suspend_all (t1\<lparr>tr_tracked := [], tr_opening := {}, tr_unconfigured := {}\<rparr>)) (\<lambda>t2.
      ([], t2\<lparr>tr_spaces := []\<rparr>)))"

definition start_tiling :: "desk \<Rightarrow> tiler \<Rightarrow> handled" where
  "start_tiling dk t = then_do (do_each (\<lambda>w. track w False None dk) (dk_windows dk) t) (arrange_all True dk)"

definition windows_in_order :: "tiler \<Rightarrow> nat list" where
  "windows_in_order t =
    concat (map (\<lambda>key. case space_lookup t key of None \<Rightarrow> [] | Some sp \<Rightarrow> so_windows any_ops sp) (all_spaces t))"

definition reattach :: "desk \<Rightarrow> nat \<Rightarrow> tiler \<Rightarrow> tiler" where
  "reattach dk w t =
    (case tracked_of t w of
      None \<Rightarrow> t
    | Some r \<Rightarrow> if tk_space r = None \<and> \<not> tk_floating r \<and> \<not> wi_minimized (info dk w) then snd (attach w None dk t) else t)"

definition rebuild :: "desk \<Rightarrow> tiler \<Rightarrow> handled" where
  "rebuild dk t =
    then_do (suspend_all t) (\<lambda>t1.
      let t2 = t1\<lparr>tr_spaces := [], tr_tracked := map (apsnd (\<lambda>r. r\<lparr>tk_space := None\<rparr>)) (tr_tracked t1)\<rparr>
      in then_do (do_each (\<lambda>w t. ([], reattach dk w t)) (windows_in_order t @ map fst (tr_tracked t2)) t2) (\<lambda>t3.
         then_do (focus_changed dk t3) (arrange_all True dk)))"

definition engage :: "tiling_mode \<Rightarrow> desk \<Rightarrow> tiler \<Rightarrow> handled" where
  "engage mode dk t =
    (let edge = (if dk_edge_tiling dk \<noteq> (mode = Off) then [Set_edge_tiling (mode = Off)] else [])
     in then_do (edge, t) (\<lambda>t.
          if mode = tr_mode t then ([], t)
          else
           (let t' = t\<lparr>tr_mode := mode\<rparr>
            in if mode = Off then disengage dk t' else if tr_mode t = Off then start_tiling dk t' else rebuild dk t')))"

definition monitors_changed :: "desk \<Rightarrow> tiler \<Rightarrow> handled" where
  "monitors_changed dk t = (if tr_mode t \<noteq> Off then rebuild dk t else ([], t))"

definition prune_spaces :: "desk \<Rightarrow> tiler \<Rightarrow> handled" where
  "prune_spaces dk t =
    do_each (\<lambda>(workspace, by_monitor) t.
      case workspace of
        None \<Rightarrow> ([], t)
      | Some ws \<Rightarrow>
          if ws \<notin> set (dk_workspaces dk) \<and> list_all (\<lambda>(monitor, sp). so_windows any_ops sp = []) by_monitor
          then then_do (do_each (\<lambda>(monitor, sp). on_space (workspace, monitor) (so_suspend any_ops)) by_monitor t)
            (\<lambda>t'. ([], t'\<lparr>tr_spaces := map_drop workspace (tr_spaces t')\<rparr>))
          else ([], t)) (tr_spaces t) t"

definition preference_changed :: "tiling_key \<Rightarrow> desk \<Rightarrow> tiler \<Rightarrow> handled" where
  "preference_changed key dk t =
    (if key = Window_tiling then engage (pf_mode (dk_preferences dk)) dk t
     else if key = Tiling_layout_key \<and> tr_mode t = Tiling then rebuild dk t
     else if key = Tiling_gaps \<and> tr_mode t \<noteq> Off then arrange_all True dk t
     else ([], t))"

end
