(* ===== verification/Tiling_Tiler_Facts.thy ===== *)
theory Tiling_Tiler_Facts
  imports Tiling_Tiler
begin

text \<open>
  What the tiler keeps: every tracked window is in the one space it is recorded in or in none, the
  spaces hold no other windows, a floating window is in no space, and one whose first configuration is
  awaited floats.
\<close>

section \<open>Maps of spaces and records\<close>

text \<open>Keys of spaces stay whole.\<close>

declare split_paired_All [simp del] split_paired_Ex [simp del]

lemma map_put_twice [simp]: "map_put k a (map_put k b es) = map_put k a es"
  by (induction es) auto

lemma tracked_of_set [simp]: "tracked_of (set_tracked w r t) v = (if v = w then Some r else tracked_of t v)"
  by (simp add: tracked_of_def set_tracked_def)

lemma tracked_of_change: "tracked_of (change_tracked w f t) v = (if v = w then map_option f (tracked_of t w) else tracked_of t v)"
  by (simp add: change_tracked_def split: option.split)

lemma key_of_upd: "tracked_of t' = (tracked_of t)(w := x) \<Longrightarrow> key_of t' = (key_of t)(w := Option.bind x tk_space)"
  by (simp add: key_of_def fun_eq_iff)

lemma key_of_change: "key_of (change_tracked w f t) v =
    (if v = w then Option.bind (tracked_of t w) (\<lambda>r. tk_space (f r)) else key_of t v)"
  by (cases "tracked_of t w") (simp_all add: key_of_def tracked_of_change)

lemma key_of_change_same: "(\<And>r. tk_space (f r) = tk_space r) \<Longrightarrow> key_of (change_tracked w f t) = key_of t"
  by (simp add: key_of_change fun_eq_iff) (simp add: key_of_def)

lemma distinct_change: "distinct (map fst (tr_tracked t)) \<Longrightarrow> distinct (map fst (tr_tracked (change_tracked w f t)))"
  by (simp add: change_tracked_def set_tracked_def distinct_put split: option.split)

lemma change_tracked_frame [simp]:
  "tr_spaces (change_tracked w f t) = tr_spaces t" "tr_mode (change_tracked w f t) = tr_mode t"
  "tr_unconfigured (change_tracked w f t) = tr_unconfigured t" "tr_opening (change_tracked w f t) = tr_opening t"
  "tr_memory (change_tracked w f t) = tr_memory t" "tr_by_hand (change_tracked w f t) = tr_by_hand t"
  "tr_held (change_tracked w f t) = tr_held t"
  by (simp_all add: change_tracked_def set_tracked_def split: option.split)

lemma space_lookup_frame [simp]:
  "space_lookup (change_tracked w f t) = space_lookup t"
  by (simp add: space_lookup_def fun_eq_iff)

lemma space_lookup_put [simp]: "space_lookup (space_put key sp t) k = (if k = key then Some sp else space_lookup t k)"
  by (cases key; cases k) (auto simp: space_lookup_def space_put_def otherwise_def split: option.split)

lemma space_put_frame [simp]:
  "tr_tracked (space_put key sp t) = tr_tracked t" "tr_mode (space_put key sp t) = tr_mode t"
  "tr_unconfigured (space_put key sp t) = tr_unconfigured t" "tracked_of (space_put key sp t) = tracked_of t"
  "key_of (space_put key sp t) = key_of t" "tr_memory (space_put key sp t) = tr_memory t" "tr_held (space_put key sp t) = tr_held t"
  "tr_opening (space_put key sp t) = tr_opening t" "tr_by_hand (space_put key sp t) = tr_by_hand t"
  by (simp_all add: space_put_def key_of_def tracked_of_def fun_eq_iff)

text \<open>The parts of the state nothing done to a space touches.\<close>

definition same_but_spaces :: "tiler \<Rightarrow> tiler \<Rightarrow> bool" where
  "same_but_spaces t t' \<longleftrightarrow> t'\<lparr>tr_spaces := tr_spaces t\<rparr> = t"

lemma same_refl [simp]: "same_but_spaces t t"
  by (simp add: same_but_spaces_def)

lemma same_trans: "same_but_spaces a b \<Longrightarrow> same_but_spaces b c \<Longrightarrow> same_but_spaces a c"
  unfolding same_but_spaces_def by (metis (no_types, lifting) tiler.surjective tiler.update_convs(4))

lemma sameD:
  assumes "same_but_spaces t t'"
  shows "tr_tracked t' = tr_tracked t" "tr_mode t' = tr_mode t" "tr_unconfigured t' = tr_unconfigured t" "tracked_of t' = tracked_of t"
    "key_of t' = key_of t" "tr_memory t' = tr_memory t" "tr_held t' = tr_held t" "tr_opening t' = tr_opening t" "tr_by_hand t' = tr_by_hand t"
proof -
  have "t = t'\<lparr>tr_spaces := tr_spaces t\<rparr>" using assms by (simp add: same_but_spaces_def)
  then obtain s where t: "t = t'\<lparr>tr_spaces := s\<rparr>" by blast
  show "tr_tracked t' = tr_tracked t" "tr_mode t' = tr_mode t" "tr_unconfigured t' = tr_unconfigured t" "tracked_of t' = tracked_of t"
    "key_of t' = key_of t" "tr_memory t' = tr_memory t" "tr_held t' = tr_held t" "tr_opening t' = tr_opening t" "tr_by_hand t' = tr_by_hand t"
    by (simp_all add: t key_of_def tracked_of_def fun_eq_iff)
qed

lemma same_space_put [simp]: "same_but_spaces t (space_put key sp t)"
  by (simp add: same_but_spaces_def space_put_def)

lemma then_do_snd [simp]: "snd (then_do r f) = snd (f (snd r))" and then_do_fst: "fst (then_do r f) = fst r @ fst (f (snd r))"
  by (simp_all add: then_do_def case_prod_unfold Let_def)

lemma do_each_keeps:
  assumes "\<And>e t. e \<in> set es \<Longrightarrow> P t \<Longrightarrow> P (snd (f e t))" "P t"
  shows "P (snd (do_each f es t))"
  using assms by (induction es arbitrary: t) simp_all

section \<open>Places\<close>

definition in_place :: "tiler \<Rightarrow> bool" where
  "in_place t \<longleftrightarrow>
    (\<forall>key sp. space_lookup t key = Some sp \<longrightarrow> any_ok sp \<and> set (so_windows any_ops sp) = {w. key_of t w = Some key}) \<and>
    (\<forall>w key. key_of t w = Some key \<longrightarrow> space_lookup t key \<noteq> None) \<and> distinct (map fst (tr_spaces t))"

lemma in_placeD:
  assumes "in_place t"
  shows "space_lookup t key = Some sp \<Longrightarrow> any_ok sp" and "space_lookup t key = Some sp \<Longrightarrow> w \<in> set (so_windows any_ops sp) \<longleftrightarrow> key_of t w = Some key"
    and "key_of t w = Some key \<Longrightarrow> \<exists>sp. space_lookup t key = Some sp" and "distinct (map fst (tr_spaces t))"
  using assms by (auto simp: in_place_def)

lemma in_place_frame:
  "in_place t \<Longrightarrow> key_of t' = key_of t \<Longrightarrow> tr_spaces t' = tr_spaces t \<Longrightarrow> in_place t'"
  by (simp add: in_place_def space_lookup_def)

lemma on_space_distinct: "distinct (map fst (tr_spaces t)) \<Longrightarrow> distinct (map fst (tr_spaces (snd (on_space key f t))))"
  by (simp add: on_space_def space_put_def case_prod_unfold Let_def distinct_put split: option.split)

lemma unconfigured_frame [simp]:
  "tracked_of (t\<lparr>tr_unconfigured := u\<rparr>) = tracked_of t" "key_of (t\<lparr>tr_unconfigured := u\<rparr>) = key_of t"
  "space_lookup (t\<lparr>tr_unconfigured := u\<rparr>) = space_lookup t" "in_place (t\<lparr>tr_unconfigured := u\<rparr>) = in_place t"
  "tracked_of (t\<lparr>tr_opening := u\<rparr>) = tracked_of t" "key_of (t\<lparr>tr_opening := u\<rparr>) = key_of t"
  "space_lookup (t\<lparr>tr_opening := u\<rparr>) = space_lookup t" "in_place (t\<lparr>tr_opening := u\<rparr>) = in_place t"
  by (simp_all add: tracked_of_def key_of_def space_lookup_def in_place_def fun_eq_iff)

lemma on_space_same: "same_but_spaces t (snd (on_space key f t))"
  by (simp add: on_space_def case_prod_unfold Let_def split: option.split)

lemma on_space_lookup:
  "space_lookup (snd (on_space key f t)) k =
    (if k = key then map_option (\<lambda>sp. snd (f sp)) (space_lookup t key) else space_lookup t k)"
  by (auto simp: on_space_def case_prod_unfold Let_def split: option.split)

lemma on_space_keeps:
  assumes "in_place t" "\<And>sp. any_ok sp \<Longrightarrow> any_ok (snd (f sp)) \<and> set (so_windows any_ops (snd (f sp))) = set (so_windows any_ops sp)"
  shows "in_place (snd (on_space key f t))"
  using assms sameD(5) [OF on_space_same [of t key f]] on_space_distinct [of t key f]
  by (auto simp: in_place_def on_space_lookup split: if_splits)

lemma arrange_same: "same_but_spaces t (snd (arrange key animate dk t))"
  by (simp add: arrange_def on_space_same)

lemma arrange_keeps: "in_place t \<Longrightarrow> in_place (snd (arrange key animate dk t))"
  by (simp add: arrange_def on_space_keeps spaces.arrange_law)

lemma do_each_same: "(\<And>e t. same_but_spaces t (snd (f e t))) \<Longrightarrow> same_but_spaces t (snd (do_each f es t))"
  by (induction es arbitrary: t) (auto intro: same_trans)

lemma arrange_all_same: "same_but_spaces t (snd (arrange_all animate dk t))"
  unfolding arrange_all_def by (rule do_each_same) (rule arrange_same)

lemma arrange_all_keeps: "in_place t \<Longrightarrow> in_place (snd (arrange_all animate dk t))"
  unfolding arrange_all_def by (rule do_each_keeps) (simp_all add: arrange_keeps)

lemma new_scroll_windows: "ss_windows (new_scroll_space m) = []"
  by (simp add: ss_windows_def new_scroll_space_def strip_windows_def new_strip_def)

lemma new_space_ok: "any_ok (new_space m t dk) \<and> so_windows any_ops (new_space m t dk) = []"
  by (auto simp: new_space_def any_ops_def sp_read_def tiled_ops_def scroll_ops_def scroll_ok_new new_scroll_windows
      space_ok_def ts_windows_def master_layout_def dwindle_layout_def master_ok_def new_master_def dwindle_ok_def new_dwindle_def
      dwindle_windows_def MASTER_RATIO_def MIN_RATIO_def split: layout_name.split)

lemma space_at_same: "same_but_spaces t (space_at key dk t)"
  by (simp add: space_at_def)

lemma space_at_lookup: "space_lookup (space_at key dk t) k =
    (if k = key \<and> space_lookup t key = None then Some (new_space (snd key) t dk) else space_lookup t k)"
  by (auto simp: space_at_def)

lemma space_at_keeps:
  assumes "in_place t"
  shows "in_place (space_at key dk t)"
proof -
  have "space_lookup t key = None \<Longrightarrow> key_of t w \<noteq> Some key" for w using in_placeD(3) [OF assms, of w key] by auto
  moreover have "distinct (map fst (tr_spaces (space_at key dk t)))"
    using in_placeD(4) [OF assms] by (simp add: space_at_def space_put_def distinct_put)
  ultimately show ?thesis
    using assms sameD(5) [OF space_at_same [of t key dk]] new_space_ok [of "snd key" t dk]
    by (auto simp: in_place_def space_at_lookup split: if_splits)
qed

text \<open>A window changes its space: the old one without it, the new one with it.\<close>

lemma attach_ok:
  fixes t :: tiler and w :: nat and beside :: "nat option" and dk :: desk
  assumes "in_place t" "tracked_of t w = Some r" "tk_space r = None"
  defines "t' \<equiv> snd (attach w beside dk t)"
  shows "in_place t'" and "tracked_of t' = (tracked_of t)(w \<mapsto> r\<lparr>tk_space := Some (home_of w t dk)\<rparr>)"
    and "fst (attach w beside dk t) = home_of w t dk"
    and "distinct (map fst (tr_tracked t)) \<Longrightarrow> distinct (map fst (tr_tracked t'))"
    and "same_but_spaces t (t'\<lparr>tr_tracked := tr_tracked t\<rparr>)"
proof -
  let ?key = "home_of w t dk"
  define t1 where "t1 = space_at ?key dk t"
  define t2 where "t2 = snd (on_space ?key (\<lambda>sp. ([], so_add any_ops (host_of t1 dk) w beside sp)) t1)"
  have t': "t' = change_tracked w (\<lambda>r. r\<lparr>tk_space := Some ?key\<rparr>) t2" by (simp add: t'_def attach_def t1_def t2_def Let_def)
  have s: "same_but_spaces t t2" using same_trans [OF space_at_same on_space_same] by (simp add: t1_def t2_def)
  note s' = sameD [OF s]
  show tr: "tracked_of t' = (tracked_of t)(w \<mapsto> r\<lparr>tk_space := Some ?key\<rparr>)"
    using assms(2) by (simp add: t' tracked_of_change s' fun_eq_iff)
  have p1: "in_place t1" unfolding t1_def by (rule space_at_keeps [OF assms(1)])
  have k1: "key_of t1 = key_of t" by (simp add: t1_def sameD(5) [OF space_at_same])
  have kw: "key_of t w = None" using assms(2,3) by (simp add: key_of_def)
  have k: "key_of t' = (key_of t)(w := Some ?key)"
    using key_of_upd [OF tr] by simp
  obtain sp where sp: "space_lookup t1 ?key = Some sp" by (cases "space_lookup t ?key") (auto simp: t1_def space_at_lookup)
  have n: "w \<notin> set (so_windows any_ops sp)" using in_placeD(2) [OF p1 sp] kw k1 by simp
  note a = spaces.add_law [OF in_placeD(1) [OF p1 sp] n, of "host_of t1 dk" beside]
  show "in_place t'"
    using p1 a sp kw unfolding in_place_def k k1 by (auto simp: t' t2_def on_space_lookup on_space_distinct split: if_splits)
  show "distinct (map fst (tr_tracked t)) \<Longrightarrow> distinct (map fst (tr_tracked t'))" using s' by (simp add: t' distinct_change)
  show "fst (attach w beside dk t) = ?key" by (simp add: attach_def Let_def)
  show "same_but_spaces t (t'\<lparr>tr_tracked := tr_tracked t\<rparr>)"
    using s by (simp add: t' same_but_spaces_def change_tracked_def set_tracked_def flip: s'(1) split: option.split)
qed

lemma detach_ok:
  assumes "in_place t" "tracked_of t w = Some r" "tk_space r = Some key"
  defines "t' \<equiv> snd (detach w key t)"
  shows "in_place t'" and "tracked_of t' = (tracked_of t)(w \<mapsto> r\<lparr>tk_space := None\<rparr>)"
    and "distinct (map fst (tr_tracked t)) \<Longrightarrow> distinct (map fst (tr_tracked t'))"
    and "same_but_spaces t (t'\<lparr>tr_tracked := tr_tracked t\<rparr>)"
proof -
  define t2 where "t2 = snd (on_space key (so_release any_ops w) t)"
  have t': "t' = change_tracked w (\<lambda>r. r\<lparr>tk_space := None\<rparr>) t2" by (simp add: t'_def detach_def t2_def)
  have s: "same_but_spaces t t2" by (simp add: t2_def on_space_same)
  show tr: "tracked_of t' = (tracked_of t)(w \<mapsto> r\<lparr>tk_space := None\<rparr>)"
    using assms(2) by (simp add: t' tracked_of_change sameD [OF s] fun_eq_iff)
  show "distinct (map fst (tr_tracked t)) \<Longrightarrow> distinct (map fst (tr_tracked t'))" using sameD(1) [OF s] by (simp add: t' distinct_change)
  have k: "key_of t' = (key_of t)(w := None)"
    using key_of_upd [OF tr] by simp
  have kw: "key_of t w = Some key" using assms(2,3) by (simp add: key_of_def)
  then obtain sp where sp: "space_lookup t key = Some sp" using in_placeD(3) [OF assms(1)] by blast
  note a = spaces.remove_law [OF in_placeD(1) [OF assms(1) sp], of w] spaces.remove_set [OF in_placeD(1) [OF assms(1) sp], of w]
  show "in_place t'"
    using assms(1) a sp kw unfolding in_place_def k by (auto simp: t' t2_def on_space_lookup on_space_distinct spaces.release_law split: if_splits)
  show "same_but_spaces t (t'\<lparr>tr_tracked := tr_tracked t\<rparr>)"
    using s by (simp add: t' same_but_spaces_def change_tracked_def set_tracked_def flip: sameD(1) [OF s] split: option.split)
qed

section \<open>The invariant\<close>

definition record_ok :: "tiler \<Rightarrow> nat \<Rightarrow> tracked \<Rightarrow> bool" where
  "record_ok t w r \<longleftrightarrow> (tk_floating r \<longrightarrow> tk_space r = None) \<and> (tk_configuring r \<longrightarrow> tk_floating r \<and> w \<in> tr_unconfigured t)"

definition tiler_ok :: "tiler \<Rightarrow> bool" where
  "tiler_ok t \<longleftrightarrow> in_place t \<and> distinct (map fst (tr_tracked t)) \<and> (\<forall>w r. tracked_of t w = Some r \<longrightarrow> record_ok t w r)"

lemma tiler_okD:
  assumes "tiler_ok t"
  shows "in_place t" "distinct (map fst (tr_tracked t))" "tracked_of t w = Some r \<Longrightarrow> record_ok t w r"
  using assms by (simp_all add: tiler_ok_def)

lemma tiler_ok_same: "tiler_ok t \<Longrightarrow> same_but_spaces t t' \<Longrightarrow> in_place t' \<Longrightarrow> tiler_ok t'"
  using sameD [of t t'] by (simp add: tiler_ok_def record_ok_def)

lemma tiler_ok_frame:
  "tiler_ok t \<Longrightarrow> tr_tracked t' = tr_tracked t \<Longrightarrow> tr_spaces t' = tr_spaces t \<Longrightarrow> tr_unconfigured t' = tr_unconfigured t \<Longrightarrow> tiler_ok t'"
  by (simp add: tiler_ok_def record_ok_def in_place_def key_of_def tracked_of_def space_lookup_def)

text \<open>One record replaced.\<close>

lemma tiler_ok_record:
  assumes "tiler_ok t" "in_place t'" "tracked_of t' = (tracked_of t)(w \<mapsto> r')" "tr_unconfigured t' = tr_unconfigured t"
    and "distinct (map fst (tr_tracked t'))" "record_ok t w r'"
  shows "tiler_ok t'"
  using assms by (auto simp: tiler_ok_def record_ok_def)

lemma arrange_ok: "tiler_ok t \<Longrightarrow> tiler_ok (snd (arrange key animate dk t))"
  using tiler_ok_same [OF _ arrange_same arrange_keeps] tiler_okD(1) by blast

lemma arrange_all_ok: "tiler_ok t \<Longrightarrow> tiler_ok (snd (arrange_all animate dk t))"
  using tiler_ok_same [OF _ arrange_all_same arrange_all_keeps] tiler_okD(1) by blast

lemma on_space_ok:
  "tiler_ok t \<Longrightarrow> (\<And>sp. any_ok sp \<Longrightarrow> any_ok (snd (f sp)) \<and> set (so_windows any_ops (snd (f sp))) = set (so_windows any_ops sp)) \<Longrightarrow>
    tiler_ok (snd (on_space key f t))"
  using tiler_ok_same [OF _ on_space_same on_space_keeps] tiler_okD(1) by blast

lemma change_record_ok:
  assumes "tiler_ok t" "\<And>r. tracked_of t w = Some r \<Longrightarrow> tk_space (f r) = tk_space r \<and> record_ok t w (f r)"
  shows "tiler_ok (change_tracked w f t)"
proof (cases "tracked_of t w")
  case (Some r)
  have k: "key_of (change_tracked w f t) = key_of t" using assms(2) [OF Some] Some by (simp add: fun_eq_iff key_of_change) (simp add: key_of_def)
  show ?thesis
  proof (rule tiler_ok_record [OF assms(1)])
    show "in_place (change_tracked w f t)" by (rule in_place_frame [OF tiler_okD(1) [OF assms(1)] k]) simp
    show "tracked_of (change_tracked w f t) = (tracked_of t)(w \<mapsto> f r)" using Some by (simp add: fun_eq_iff tracked_of_change)
    show "distinct (map fst (tr_tracked (change_tracked w f t)))" by (rule distinct_change) (rule tiler_okD(2) [OF assms(1)])
    show "record_ok t w (f r)" using assms(2) [OF Some] by simp
  qed simp
qed (use assms(1) in \<open>simp add: change_tracked_def\<close>)

lemma same_tracked_frame: "same_but_spaces t (t'\<lparr>tr_tracked := tr_tracked t\<rparr>) \<Longrightarrow> tr_unconfigured t' = tr_unconfigured t \<and> tr_mode t' = tr_mode t \<and>
    tr_memory t' = tr_memory t \<and> tr_by_hand t' = tr_by_hand t"
  using sameD [of t "t'\<lparr>tr_tracked := tr_tracked t\<rparr>"] by simp

lemma attach_tiler_ok:
  assumes "tiler_ok t" "tracked_of t w = Some r" "tk_space r = None" "\<not> tk_floating r"
  shows "tiler_ok (snd (attach w beside dk t))"
proof -
  note a = attach_ok [OF tiler_okD(1) [OF assms(1)] assms(2,3), where beside = beside and dk = dk]
  show ?thesis
  proof (rule tiler_ok_record [OF assms(1) a(1,2)])
    show "tr_unconfigured (snd (attach w beside dk t)) = tr_unconfigured t" using same_tracked_frame [OF a(5)] by simp
    show "record_ok t w (r\<lparr>tk_space := Some (home_of w t dk)\<rparr>)" using tiler_okD(3) [OF assms(1,2)] assms(4) by (simp add: record_ok_def)
  qed (rule a(4) [OF tiler_okD(2) [OF assms(1)]])
qed

lemma attach_arranged_ok:
  assumes "tiler_ok t" "tracked_of t w = Some r" "tk_space r = None" "\<not> tk_floating r"
  shows "tiler_ok (snd (attach_arranged w beside dk t))" and "key_of (snd (attach_arranged w beside dk t)) = (key_of t)(w \<mapsto> home_of w t dk)"
    and "tracked_of (snd (attach_arranged w beside dk t)) = (tracked_of t)(w \<mapsto> r\<lparr>tk_space := Some (home_of w t dk)\<rparr>)"
proof -
  have e: "snd (attach_arranged w beside dk t) = snd (arrange (fst (attach w beside dk t)) True dk (snd (attach w beside dk t)))"
    by (simp add: attach_arranged_def case_prod_unfold Let_def)
  show "tiler_ok (snd (attach_arranged w beside dk t))" unfolding e by (rule arrange_ok) (rule attach_tiler_ok [OF assms])
  show tr: "tracked_of (snd (attach_arranged w beside dk t)) = (tracked_of t)(w \<mapsto> r\<lparr>tk_space := Some (home_of w t dk)\<rparr>)"
    unfolding e sameD(4) [OF arrange_same] using attach_ok(2) [OF tiler_okD(1) [OF assms(1)] assms(2,3)] by simp
  show "key_of (snd (attach_arranged w beside dk t)) = (key_of t)(w \<mapsto> home_of w t dk)"
    using key_of_upd [OF tr] by simp
qed

lemma detach_tiler_ok:
  assumes "tiler_ok t" "tracked_of t w = Some r" "tk_space r = Some key"
  shows "tiler_ok (snd (detach w key t))"
proof -
  note a = detach_ok [OF tiler_okD(1) [OF assms(1)] assms(2,3)]
  show ?thesis
  proof (rule tiler_ok_record [OF assms(1) a(1,2)])
    show "tr_unconfigured (snd (detach w key t)) = tr_unconfigured t" using same_tracked_frame [OF a(4)] by simp
    show "record_ok t w (r\<lparr>tk_space := None\<rparr>)" using tiler_okD(3) [OF assms(1,2)] by (simp add: record_ok_def)
  qed (rule a(3) [OF tiler_okD(2) [OF assms(1)]])
qed

section \<open>The handlers\<close>

lemma classify_ok:
  fixes w :: nat and dk :: desk and floated :: bool
  assumes "tiler_ok t" "tracked_of t w = Some r" "tk_space r = None" "\<not> tk_configuring r"
  defines "floating \<equiv> floats_by_nature (info dk w) \<or> floated"
  shows "tiler_ok (snd (classify w beside floated unstretched dk t))"
    and "floating \<or> wi_minimized (info dk w) \<Longrightarrow>
      tracked_of (snd (classify w beside floated unstretched dk t)) = (tracked_of t)(w \<mapsto> r\<lparr>tk_floating := floating\<rparr>)"
    and "\<not> (floating \<or> wi_minimized (info dk w)) \<Longrightarrow> \<exists>home.
      tracked_of (snd (classify w beside floated unstretched dk t)) = (tracked_of t)(w \<mapsto> r\<lparr>tk_floating := False, tk_space := Some home\<rparr>)"
proof -
  let ?t = "change_tracked w (\<lambda>r. r\<lparr>tk_floating := floating\<rparr>) t"
  have ok: "tiler_ok ?t"
    by (rule change_record_ok [OF assms(1)]) (use assms(2,3,4) in \<open>simp add: record_ok_def\<close>)
  have tr: "tracked_of ?t w = Some (r\<lparr>tk_floating := floating\<rparr>)" using assms(2) by (simp add: tracked_of_change)
  have trf: "tracked_of ?t = (tracked_of t)(w \<mapsto> r\<lparr>tk_floating := floating\<rparr>)" using assms(2) by (simp add: fun_eq_iff tracked_of_change)
  let ?dk = "if unstretched then snd (unstretch w dk) else dk"
  have e: "snd (classify w beside floated unstretched dk t) =
      (if floating \<or> wi_minimized (info dk w) then ?t else snd (attach_arranged w beside ?dk ?t))"
    unfolding classify_def floating_def Let_def by (simp add: case_prod_unfold)
  have fl: "(r\<lparr>tk_floating := floating\<rparr>)\<lparr>tk_space := s\<rparr> = r\<lparr>tk_floating := False, tk_space := s\<rparr>" if "\<not> floating" for s
    using that by simp
  have a: "tiler_ok (snd (attach_arranged w beside ?dk ?t)) \<and>
      tracked_of (snd (attach_arranged w beside ?dk ?t)) = (tracked_of t)(w \<mapsto> r\<lparr>tk_floating := False, tk_space := Some (home_of w ?t ?dk)\<rparr>)"
    if "\<not> floating"
    using attach_arranged_ok(1,3) [OF ok tr, of beside ?dk] that assms(3) unfolding trf fl [OF that] by simp
  show "tiler_ok (snd (classify w beside floated unstretched dk t))" unfolding e using a ok by auto
  show "floating \<or> wi_minimized (info dk w) \<Longrightarrow>
      tracked_of (snd (classify w beside floated unstretched dk t)) = (tracked_of t)(w \<mapsto> r\<lparr>tk_floating := floating\<rparr>)"
    unfolding e using trf by simp
  show "\<not> (floating \<or> wi_minimized (info dk w)) \<Longrightarrow> \<exists>home.
      tracked_of (snd (classify w beside floated unstretched dk t)) = (tracked_of t)(w \<mapsto> r\<lparr>tk_floating := False, tk_space := Some home\<rparr>)"
    unfolding e using a by auto
qed

lemma set_tracked_new:
  assumes "tiler_ok t" "tracked_of t w = None" "tk_space r = None" "tk_configuring r \<longrightarrow> tk_floating r \<and> w \<in> u" "tr_unconfigured t \<subseteq> u"
  shows "tiler_ok ((set_tracked w r t)\<lparr>tr_opening := op, tr_unconfigured := u\<rparr>)"
proof -
  let ?t = "(set_tracked w r t)\<lparr>tr_opening := op, tr_unconfigured := u\<rparr>"
  have tr: "tracked_of ?t = (tracked_of t)(w \<mapsto> r)" by (simp add: tracked_of_def set_tracked_def fun_eq_iff)
  have "key_of ?t = key_of t" using assms(2,3) by (simp add: key_of_def tr fun_eq_iff)
  then have "in_place ?t"
    by (rule in_place_frame [OF tiler_okD(1) [OF assms(1)]]) (simp add: set_tracked_def)
  with assms tr show ?thesis
    by (auto simp: tiler_ok_def record_ok_def) (simp_all add: set_tracked_def distinct_put)
qed

lemma track_ok:
  assumes "tiler_ok t"
  shows "tiler_ok (snd (track w opening beside dk t))"
proof (cases "tracked_of t w \<noteq> None \<or> \<not> wi_normal (info dk w) \<or> wi_override (info dk w)")
  case False
  define r where "r = \<lparr>tk_floating = True, tk_restore = (if opening \<or> stretched (info dk w) then None else Some (wi_frame (info dk w))),
    tk_space = None, tk_configuring = opening, tk_showing = opening, tk_beside = beside\<rparr>"
  have n: "tracked_of t w = None" using False by simp
  show ?thesis
  proof (cases "opening")
    case True
    have "snd (track w opening beside dk t) = (set_tracked w r t)\<lparr>tr_opening := insert w (tr_opening t), tr_unconfigured := insert w (tr_unconfigured t)\<rparr>"
      using False True by (simp add: track_def Let_def r_def set_tracked_def)
    moreover have "tiler_ok \<dots>" by (rule set_tracked_new [OF assms n]) (auto simp: r_def)
    ultimately show ?thesis by simp
  next
    case False2: False
    have e: "snd (track w opening beside dk t) = snd (classify w None (w \<in> tr_by_hand t) True dk (set_tracked w r t))"
      unfolding track_def Let_def if_not_P [OF False] if_not_P [OF False2] r_def ..
    have "(set_tracked w r t)\<lparr>tr_opening := tr_opening t, tr_unconfigured := tr_unconfigured t\<rparr> = set_tracked w r t"
      by (simp add: set_tracked_def)
    then have "tiler_ok (set_tracked w r t)"
      using set_tracked_new [OF assms n, of r "tr_unconfigured t" "tr_opening t"] False2 by (simp add: r_def)
    then show ?thesis unfolding e by (rule classify_ok(1) [where r = r]) (simp_all add: r_def False2)
  qed
qed (simp add: track_def assms)

lemma unconfigured_less_ok:
  assumes "tiler_ok t" "tracked_of t w = Some r" "\<not> tk_configuring r"
  shows "tiler_ok (t\<lparr>tr_unconfigured := tr_unconfigured t - {w}\<rparr>)"
  using assms by (auto simp: tiler_ok_def record_ok_def)

lemma configured_ok:
  assumes "tiler_ok t"
  shows "tiler_ok (snd (configured w dk t))"
proof (cases "tracked_of t w")
  case (Some r)
  show ?thesis
  proof (cases "tk_configuring r")
    case True
    let ?t = "change_tracked w (\<lambda>r. r\<lparr>tk_configuring := False\<rparr>) t"
    have rok: "tk_floating r" "tk_space r = None" using tiler_okD(3) [OF assms Some] True by (simp_all add: record_ok_def)
    have ok: "tiler_ok ?t" by (rule change_record_ok [OF assms]) (use Some rok in \<open>simp add: record_ok_def\<close>)
    have tr: "tracked_of ?t w = Some (r\<lparr>tk_configuring := False\<rparr>)" using Some by (simp add: tracked_of_change)
    define t1 where "t1 = snd (classify w (tk_beside r) (floats (tr_memory t) (app_key (info dk w))) False dk ?t)"
    note c = classify_ok [OF ok tr, where dk = dk and floated = "floats (tr_memory t) (app_key (info dk w))" and beside = "tk_beside r" and unstretched = False, folded t1_def]
    obtain r' where r': "tracked_of t1 w = Some r'" "\<not> tk_configuring r'"
      using c(2,3) rok by (cases "(floats_by_nature (info dk w) \<or> floats (tr_memory t) (app_key (info dk w))) \<or> wi_minimized (info dk w)") fastforce+
    have "snd (configured w dk t) = t1\<lparr>tr_unconfigured := tr_unconfigured t1 - {w}\<rparr>"
      using Some True by (simp add: configured_def Let_def t1_def split: option.split)
    then show ?thesis using unconfigured_less_ok [OF _ r'] c(1) rok by simp
  qed (use Some assms in \<open>simp add: configured_def\<close>)
qed (simp add: configured_def assms)

lemma settled_ok: "tiler_ok t \<Longrightarrow> tiler_ok (settled w t)"
  by (rule tiler_ok_frame) (simp_all add: settled_def)

lemma first_shown_ok:
  assumes "tiler_ok t"
  shows "tiler_ok (snd (first_shown w dk t))"
proof (cases "tracked_of t w")
  case (Some r)
  show ?thesis
  proof (cases "tk_showing r")
    case True
    let ?t0 = "change_tracked w (\<lambda>r. r\<lparr>tk_showing := False, tk_configuring := False\<rparr>) t"
    define t1 where "t1 = (change_tracked w (\<lambda>r. r\<lparr>tk_showing := False\<rparr>) t)\<lparr>tr_unconfigured := tr_unconfigured t - {w}\<rparr>"
    have end_ok: "tiler_ok (snd (first_shown w dk t))"
      if "tiler_ok (snd (if tk_configuring r
               then classify w (tk_beside r) (floats (tr_memory t) (app_key (info dk w))) True dk
                      (change_tracked w (\<lambda>r. r\<lparr>tk_configuring := False\<rparr>) t1)
               else case tk_space r of
                 None \<Rightarrow> ([], t1)
               | Some key \<Rightarrow> (let (calls, dk') = unstretch w dk in then_do (calls, t1) (arrange key True dk'))))"
      using Some True that by (auto simp: first_shown_def Let_def settled_ok simp flip: t1_def)
    have ok0: "tiler_ok (change_tracked w (\<lambda>r. r\<lparr>tk_configuring := False\<rparr>) t1)"
    proof -
      have "tiler_ok ?t0" by (rule change_record_ok [OF assms]) (use tiler_okD(3) [OF assms Some] Some in \<open>simp add: record_ok_def\<close>)
      then have "tiler_ok (?t0\<lparr>tr_unconfigured := tr_unconfigured ?t0 - {w}\<rparr>)"
        by (rule unconfigured_less_ok [where r = "r\<lparr>tk_showing := False, tk_configuring := False\<rparr>"]) (simp_all add: tracked_of_change Some)
      moreover have "change_tracked w (\<lambda>r. r\<lparr>tk_configuring := False\<rparr>) t1 = ?t0\<lparr>tr_unconfigured := tr_unconfigured ?t0 - {w}\<rparr>"
        using Some by (simp add: t1_def change_tracked_def set_tracked_def tracked_of_def)
      ultimately show ?thesis by simp
    qed
    show ?thesis
    proof (rule end_ok, cases "tk_configuring r")
      case True2: True
      have "tracked_of (change_tracked w (\<lambda>r. r\<lparr>tk_configuring := False\<rparr>) t1) w = Some (r\<lparr>tk_showing := False, tk_configuring := False\<rparr>)"
        using Some by (simp add: t1_def tracked_of_change tracked_of_def change_tracked_def set_tracked_def)
      then show "tiler_ok (snd (if tk_configuring r
               then classify w (tk_beside r) (floats (tr_memory t) (app_key (info dk w))) True dk
                      (change_tracked w (\<lambda>r. r\<lparr>tk_configuring := False\<rparr>) t1)
               else case tk_space r of
                 None \<Rightarrow> ([], t1)
               | Some key \<Rightarrow> (let (calls, dk') = unstretch w dk in then_do (calls, t1) (arrange key True dk'))))"
        using classify_ok(1) [OF ok0] tiler_okD(3) [OF assms Some] True2 by (simp add: record_ok_def)
    next
      case False
      have "tiler_ok t1"
      proof -
        have "tiler_ok (change_tracked w (\<lambda>r. r\<lparr>tk_showing := False\<rparr>) t)"
          by (rule change_record_ok [OF assms]) (use tiler_okD(3) [OF assms Some] Some in \<open>simp add: record_ok_def\<close>)
        from unconfigured_less_ok [OF this] show ?thesis using Some False by (simp add: t1_def tracked_of_change)
      qed
      then show "tiler_ok (snd (if tk_configuring r
               then classify w (tk_beside r) (floats (tr_memory t) (app_key (info dk w))) True dk
                      (change_tracked w (\<lambda>r. r\<lparr>tk_configuring := False\<rparr>) t1)
               else case tk_space r of
                 None \<Rightarrow> ([], t1)
               | Some key \<Rightarrow> (let (calls, dk') = unstretch w dk in then_do (calls, t1) (arrange key True dk'))))"
        using False by (auto simp: case_prod_unfold Let_def arrange_ok split: option.split)
    qed
  qed (use Some assms in \<open>simp add: first_shown_def\<close>)
qed (simp add: first_shown_def assms)

text \<open>A window that is gone, and one that moves to another space.\<close>

lemma untrack_ok:
  assumes "tiler_ok t"
  shows "tiler_ok (snd (untrack w dk t))" and "tracked_of (snd (untrack w dk t)) = (tracked_of t)(w := None)"
proof -
  have "tiler_ok (snd (untrack w dk t)) \<and> tracked_of (snd (untrack w dk t)) = (tracked_of t)(w := None)"
  proof (cases "tracked_of t w")
    case (Some r)
    let ?t = "t\<lparr>tr_tracked := map_drop w (tr_tracked t), tr_opening := tr_opening t - {w}, tr_unconfigured := tr_unconfigured t - {w}\<rparr>"
    have tr: "tracked_of ?t = (tracked_of t)(w := None)" by (simp add: tracked_of_def fun_eq_iff)
    have k: "key_of ?t = (key_of t)(w := None)" using key_of_upd [OF tr] by simp
    have lk: "space_lookup ?t = space_lookup t" by (simp add: space_lookup_def fun_eq_iff)
    have d: "distinct (map fst (tr_tracked ?t))" using tiler_okD(2) [OF assms] by (simp add: distinct_drop)
    have rok: "record_ok ?t v q" if "tracked_of ?t v = Some q" for v q
      using that tiler_okD(3) [OF assms, of v q] unfolding tr by (auto simp: record_ok_def split: if_splits)
    show ?thesis
    proof (cases "tk_space r")
      case None
      have "key_of t w = None" using Some None by (simp add: key_of_def)
      then have "key_of ?t = key_of t" unfolding k by (simp add: fun_upd_idem)
      then have "in_place ?t" by (rule in_place_frame [OF tiler_okD(1) [OF assms]]) simp
      then have "tiler_ok ?t" using d rok by (simp add: tiler_ok_def)
      moreover have "snd (untrack w dk t) = ?t" using Some None by (simp add: untrack_def Let_def)
      ultimately show ?thesis using tr by (metis (no_types))
    next
      case (Some key)
      let ?u = "snd (on_space key (so_remove any_ops w) ?t)"
      have s: "same_but_spaces ?t ?u" by (rule on_space_same)
      have kw: "key_of t w = Some key" using \<open>tracked_of t w = Some r\<close> Some by (simp add: key_of_def)
      obtain sp where sp: "space_lookup t key = Some sp" using in_placeD(3) [OF tiler_okD(1) [OF assms] kw] by blast
      note a = spaces.remove_law [OF in_placeD(1) [OF tiler_okD(1) [OF assms] sp], of w] spaces.remove_set [OF in_placeD(1) [OF tiler_okD(1) [OF assms] sp], of w]
      have ku: "key_of ?u = (key_of t)(w := None)" using sameD(5) [OF s] k by simp
      have lu: "space_lookup ?u k = (if k = key then Some (snd (so_remove any_ops w sp)) else space_lookup t k)" for k
        unfolding on_space_lookup lk by (simp add: sp)
      have "distinct (map fst (tr_spaces ?u))"
        by (rule on_space_distinct) (use in_placeD(4) [OF tiler_okD(1) [OF assms]] in simp)
      then have "in_place ?u"
        using tiler_okD(1) [OF assms] a sp kw unfolding in_place_def ku lu by (auto split: if_splits)
      then have "tiler_ok ?u"
        using d rok sameD [OF s] by (simp add: tiler_ok_def record_ok_def)
      moreover have e: "snd (untrack w dk t) = snd (arrange key True dk ?u)" using \<open>tracked_of t w = Some r\<close> Some by (simp add: untrack_def Let_def)
      moreover have "tracked_of (snd (arrange key True dk ?u)) = (tracked_of t)(w := None)"
        using sameD(4) [OF arrange_same [of ?u key True dk]] sameD(4) [OF s] tr by simp
      ultimately show ?thesis using arrange_ok [of ?u key True dk] by simp
    qed
  qed (use assms in \<open>simp add: untrack_def fun_upd_idem\<close>)
  then show "tiler_ok (snd (untrack w dk t))" "tracked_of (snd (untrack w dk t)) = (tracked_of t)(w := None)" by blast+
qed

lemma move_to_ok:
  assumes "tiler_ok t" "key_of t w = Some source" "source \<noteq> target" "space_lookup t target \<noteq> None"
  shows "tiler_ok (snd (move_to w target beside dk t))"
    and "key_of (snd (move_to w target beside dk t)) = (key_of t)(w \<mapsto> target)"
proof -
  obtain r where r: "tracked_of t w = Some r" "tk_space r = Some source"
    using assms(2) by (auto simp: key_of_def bind_eq_Some_conv)
  obtain s1 where s1: "space_lookup t source = Some s1" using in_placeD(3) [OF tiler_okD(1) [OF assms(1)] assms(2)] by blast
  obtain s2 where s2: "space_lookup t target = Some s2" using assms(4) by blast
  note ip = in_placeD [OF tiler_okD(1) [OF assms(1)]]
  define t1 where "t1 = snd (on_space source (so_remove any_ops w) t)"
  define t2 where "t2 = snd (on_space target (\<lambda>sp. ([], so_add any_ops (host_of t1 dk) w beside sp)) t1)"
  define t3 where "t3 = change_tracked w (\<lambda>r. r\<lparr>tk_space := Some target\<rparr>) t2"
  have s: "same_but_spaces t t2" unfolding t2_def t1_def by (rule same_trans [OF on_space_same on_space_same])
  have e: "snd (move_to w target beside dk t) = snd (arrange target True dk (snd (arrange source True dk t3)))"
    using assms(2,3) by (simp add: move_to_def t3_def t2_def t1_def)
  have tr: "tracked_of t3 = (tracked_of t)(w \<mapsto> r\<lparr>tk_space := Some target\<rparr>)"
    using r(1) sameD(4) [OF s] by (simp add: t3_def fun_eq_iff tracked_of_change)
  have k: "key_of t3 = (key_of t)(w \<mapsto> target)" using key_of_upd [OF tr] by simp
  have n: "w \<notin> set (so_windows any_ops s2)" using ip(2) [OF s2, of w] assms(2,3) by simp
  note a = spaces.remove_law [OF ip(1) [OF s1], of w] spaces.remove_set [OF ip(1) [OF s1], of w]
    spaces.add_law [OF ip(1) [OF s2] n, of "host_of t1 dk" beside]
  have l: "space_lookup t3 kk = (if kk = source then Some (snd (so_remove any_ops w s1))
      else if kk = target then Some (so_add any_ops (host_of t1 dk) w beside s2) else space_lookup t kk)" for kk
    using s1 s2 assms(3) by (simp add: t3_def t2_def on_space_lookup) (simp add: t1_def on_space_lookup)
  have "distinct (map fst (tr_spaces t3))"
    using ip(4) by (simp add: t3_def t2_def t1_def on_space_distinct)
  then have "in_place t3"
    using tiler_okD(1) [OF assms(1)] a s1 s2 assms(2,3) unfolding in_place_def k l by (auto split: if_splits)
  then have "tiler_ok t3"
  proof (rule tiler_ok_record [OF assms(1) _ tr])
    show "tr_unconfigured t3 = tr_unconfigured t" using sameD(3) [OF s] by (simp add: t3_def)
    show "distinct (map fst (tr_tracked t3))" using sameD(1) [OF s] tiler_okD(2) [OF assms(1)] by (simp add: t3_def distinct_change)
    show "record_ok t w (r\<lparr>tk_space := Some target\<rparr>)" using tiler_okD(3) [OF assms(1) r(1)] r(2) by (auto simp: record_ok_def)
  qed
  then show "tiler_ok (snd (move_to w target beside dk t))" unfolding e by (intro arrange_ok)
  show "key_of (snd (move_to w target beside dk t)) = (key_of t)(w \<mapsto> target)"
    unfolding e sameD(5) [OF arrange_same] k ..
qed

lemma move_to_refused:
  "key_of t w = None \<or> key_of t w = Some target \<Longrightarrow> move_to w target beside dk t = ([], t)"
  by (auto simp: move_to_def)

lemma space_at_ok: "tiler_ok t \<Longrightarrow> tiler_ok (space_at key dk t)"
  using tiler_ok_same [OF _ space_at_same space_at_keeps] tiler_okD(1) by blast

lemma home_changed_ok:
  assumes "tiler_ok t"
  shows "tiler_ok (snd (home_changed w dk t))"
proof (cases "key_of t w")
  case (Some key)
  let ?t = "space_at (home_of w t dk) dk t"
  have k: "key_of ?t w = Some key" using Some sameD(5) [OF space_at_same] by simp
  have "space_lookup ?t (home_of w t dk) \<noteq> None" by (simp add: space_at_lookup)
  with move_to_ok(1) [OF space_at_ok [OF assms] k] space_at_ok [OF assms] show ?thesis
    using Some by (auto simp: home_changed_def Let_def)
qed (simp add: home_changed_def assms)

text \<open>Changes of a window, of the focus and of the board.\<close>

lemma toggle_floating_ok:
  assumes "tiler_ok t" "\<And>r. tracked_of t w = Some r \<Longrightarrow> \<not> tk_configuring r"
  shows "tiler_ok (snd (toggle_floating w dk t))"
    and "tracked_of t w \<noteq> None \<Longrightarrow> \<not> floats_by_nature (info dk w) \<Longrightarrow>
      is_tiled (snd (toggle_floating w dk t)) w \<longleftrightarrow> \<not> is_tiled t w"
    and "v \<noteq> w \<Longrightarrow> key_of (snd (toggle_floating w dk t)) v = key_of t v"
    and "tracked_of t w \<noteq> None \<Longrightarrow> \<not> floats_by_nature (info dk w) \<Longrightarrow>
      tr_memory (snd (toggle_floating w dk t)) = remember (app_key (info dk w)) (is_tiled t w) (tr_memory t)"
proof -
  let ?u = "snd (toggle_floating w dk t)"
  have "tiler_ok ?u \<and> (tracked_of t w \<noteq> None \<and> \<not> floats_by_nature (info dk w) \<longrightarrow>
      (is_tiled ?u w \<longleftrightarrow> \<not> is_tiled t w) \<and> tr_memory ?u = remember (app_key (info dk w)) (is_tiled t w) (tr_memory t)) \<and>
      (\<forall>v. v \<noteq> w \<longrightarrow> key_of ?u v = key_of t v)"
  proof (cases "tracked_of t w = None \<or> floats_by_nature (info dk w)")
    case False
    then obtain r where r: "tracked_of t w = Some r" "\<not> floats_by_nature (info dk w)" by auto
    define floating where "floating = (tk_space r \<noteq> None)"
    define t1 where "t1 = (change_tracked w (\<lambda>r. r\<lparr>tk_floating := floating\<rparr>) t)\<lparr>
      tr_memory := remember (app_key (info dk w)) floating (tr_memory t),
      tr_by_hand := (if floating then insert w (tr_by_hand t) else tr_by_hand t - {w})\<rparr>"
    have tr1: "tracked_of t1 = (tracked_of t)(w \<mapsto> r\<lparr>tk_floating := floating\<rparr>)"
      using r(1) by (simp add: t1_def fun_eq_iff tracked_of_def change_tracked_def set_tracked_def)
    have k1: "key_of t1 = key_of t" using key_of_upd [OF tr1] r(1) by (simp add: fun_eq_iff key_of_def)
    have t: "is_tiled t w \<longleftrightarrow> floating" using r(1) by (simp add: is_tiled_def key_of_def floating_def)
    have m1: "tr_memory t1 = remember (app_key (info dk w)) (is_tiled t w) (tr_memory t)" by (simp add: t1_def t)
    show ?thesis
    proof (cases "tk_space r")
      case None
      then have fl: "\<not> floating" by (simp add: floating_def)
      have ok1: "tiler_ok t1"
      proof (rule tiler_ok_record [OF assms(1) _ tr1])
        show "in_place t1" by (rule in_place_frame [OF tiler_okD(1) [OF assms(1)] k1]) (simp add: t1_def)
        show "tr_unconfigured t1 = tr_unconfigured t" by (simp add: t1_def)
        show "distinct (map fst (tr_tracked t1))" using tiler_okD(2) [OF assms(1)] by (simp add: t1_def distinct_change)
        show "record_ok t w (r\<lparr>tk_floating := floating\<rparr>)" using fl assms(2) [OF r(1)] by (simp add: record_ok_def)
      qed
      define t2 where "t2 = (if stretched (info dk w) then t1 else change_tracked w (\<lambda>r. r\<lparr>tk_restore := Some (wi_frame (info dk w))\<rparr>) t1)"
      have ok2: "tiler_ok t2" unfolding t2_def
        using ok1 change_record_ok [OF ok1, of w "\<lambda>r. r\<lparr>tk_restore := Some (wi_frame (info dk w))\<rparr>"] tiler_okD(3) [OF ok1]
        by (auto simp: record_ok_def)
      obtain r2 where r2: "tracked_of t2 w = Some r2" "tk_space r2 = None" "\<not> tk_floating r2"
        using tr1 None fl by (cases "stretched (info dk w)") (auto simp: t2_def tracked_of_change)
      have k2: "key_of t2 = key_of t" using k1 by (simp add: t2_def key_of_change_same)
      have m2: "tr_memory t2 = tr_memory t1" by (simp add: t2_def)
      have e: "?u = snd (attach_arranged w None dk t2)"
        using r None by (simp add: toggle_floating_def Let_def t2_def t1_def floating_def)
      have m: "tr_memory ?u = tr_memory t2"
        unfolding e attach_arranged_def case_prod_unfold Let_def sameD(6) [OF arrange_same]
        using same_tracked_frame [OF attach_ok(5) [OF tiler_okD(1) [OF ok2] r2(1,2)]] by simp
      show ?thesis using attach_arranged_ok(1,2) [OF ok2 r2, of None dk] m m2 m1 fl t k2 by (simp add: e is_tiled_def)
    next
      case (Some key)
      then have fl: "floating" by (simp add: floating_def)
      have kw: "key_of t1 w = Some key" using Some r(1) by (simp add: k1 key_of_def)
      have ip: "in_place t1" by (rule in_place_frame [OF tiler_okD(1) [OF assms(1)] k1]) (simp add: t1_def)
      note d = detach_ok [OF ip, of w "r\<lparr>tk_floating := floating\<rparr>" key, unfolded tr1, simplified, OF Some]
      have trd: "tracked_of (snd (detach w key t1)) = (tracked_of t)(w \<mapsto> r\<lparr>tk_floating := floating, tk_space := None\<rparr>)" using d(2) by simp
      have ok2: "tiler_ok (snd (detach w key t1))"
      proof (rule tiler_ok_record [OF assms(1) d(1) trd])
        show "tr_unconfigured (snd (detach w key t1)) = tr_unconfigured t" using same_tracked_frame [OF d(4)] by (simp add: t1_def)
        show "distinct (map fst (tr_tracked (snd (detach w key t1))))"
          by (rule d(3)) (use tiler_okD(2) [OF assms(1)] in \<open>simp add: t1_def distinct_change\<close>)
        show "record_ok t w (r\<lparr>tk_floating := floating, tk_space := None\<rparr>)" using assms(2) [OF r(1)] by (simp add: record_ok_def)
      qed
      have e: "?u = snd (arrange key True dk (snd (detach w key t1)))"
        using r Some by (simp add: toggle_floating_def Let_def t1_def floating_def)
      have k: "key_of ?u = (key_of t)(w := None)"
        unfolding e sameD(5) [OF arrange_same] using key_of_upd [OF trd] by simp
      have m: "tr_memory ?u = tr_memory t1"
        unfolding e sameD(6) [OF arrange_same] using same_tracked_frame [OF d(4)] by simp
      show ?thesis using arrange_ok [OF ok2, of key True dk] k m m1 t fl by (simp add: is_tiled_def e [symmetric])
    qed
  qed (use assms(1) in \<open>auto simp: toggle_floating_def split: option.split\<close>)
  then show "tiler_ok ?u" "tracked_of t w \<noteq> None \<Longrightarrow> \<not> floats_by_nature (info dk w) \<Longrightarrow> is_tiled ?u w \<longleftrightarrow> \<not> is_tiled t w"
    "v \<noteq> w \<Longrightarrow> key_of ?u v = key_of t v"
    "tracked_of t w \<noteq> None \<Longrightarrow> \<not> floats_by_nature (info dk w) \<Longrightarrow>
      tr_memory ?u = remember (app_key (info dk w)) (is_tiled t w) (tr_memory t)" by blast+
qed

lemma detach_more:
  assumes "tiler_ok t" "tracked_of t w = Some r" "tk_space r = Some key"
  shows "tiler_ok (snd (detach w key t))" "tracked_of (snd (detach w key t)) w = Some (r\<lparr>tk_space := None\<rparr>)"
  using detach_tiler_ok [OF assms] detach_ok(2) [OF tiler_okD(1) [OF assms(1)] assms(2,3)] by simp_all

lemma nature_changed_ok:
  assumes "tiler_ok t"
  shows "tiler_ok (snd (nature_changed w dk t))"
proof (cases "tracked_of t w")
  case (Some r)
  note rok = tiler_okD(3) [OF assms Some]
  let ?i = "info dk w"
  let ?takes = "tk_space r = None \<and> tk_floating r \<and> \<not> floats_by_nature ?i \<and> w \<notin> tr_by_hand t \<and>
           \<not> floats (tr_memory t) (app_key ?i) \<and> w \<notin> tr_unconfigured t \<and> \<not> wi_minimized ?i"
  show ?thesis
  proof (cases ?takes)
    case True
    let ?t = "change_tracked w (\<lambda>r. r\<lparr>tk_floating := False\<rparr>) t"
    have ok: "tiler_ok ?t" by (rule change_record_ok [OF assms]) (use True rok Some in \<open>auto simp: record_ok_def\<close>)
    have "snd (nature_changed w dk t) = snd (attach_arranged w None (snd (unstretch w dk)) ?t)"
      using Some True by (simp add: nature_changed_def Let_def case_prod_unfold)
    moreover have "tracked_of ?t w = Some (r\<lparr>tk_floating := False\<rparr>)" using Some by (simp add: tracked_of_change)
    ultimately show ?thesis using attach_arranged_ok(1) [OF ok] True by simp
  next
    case False
    show ?thesis
    proof (cases "tk_space r")
      case None
      then show ?thesis using False Some assms unfolding nature_changed_def Let_def by auto
    next
      case (Some key)
      note d = detach_more [OF assms \<open>tracked_of t w = Some r\<close> Some]
      have ok: "tiler_ok (change_tracked w (\<lambda>r. r\<lparr>tk_floating := True\<rparr>) (snd (detach w key t)))"
        by (rule change_record_ok [OF d(1)]) (use d(2) tiler_okD(3) [OF d(1,2)] in \<open>auto simp: record_ok_def\<close>)
      then show ?thesis
        using \<open>tracked_of t w = Some r\<close> Some assms by (simp add: nature_changed_def Let_def arrange_ok)
    qed
  qed
qed (simp add: nature_changed_def assms)

lemma minimized_changed_ok:
  assumes "tiler_ok t"
  shows "tiler_ok (snd (minimized_changed w dk t))"
proof (cases "tracked_of t w")
  case (Some r)
  then show ?thesis
    using detach_more(1) [OF assms Some] attach_arranged_ok(1) [OF assms Some] assms
    by (auto simp: minimized_changed_def arrange_ok split: option.split)
qed (simp add: minimized_changed_def assms)

lemma size_changed_ok:
  assumes "tiler_ok t"
  shows "tiler_ok (snd (size_changed w dk t))"
proof -
  have "any_ok (snd (case sp of Scroll_space ss \<Rightarrow> apsnd Scroll_space (ss_widened (host_of t dk) w ss) | _ \<Rightarrow> ([], sp))) \<and>
      set (so_windows any_ops (snd (case sp of Scroll_space ss \<Rightarrow> apsnd Scroll_space (ss_widened (host_of t dk) w ss) | _ \<Rightarrow> ([], sp)))) =
      set (so_windows any_ops sp)" if "any_ok sp" for sp
    using that ss_widened_keeps [of _ "host_of t dk" w]
    by (cases sp) (auto simp: keeps_windows_def any_ops_def sp_read_def scroll_ops_def)
  then show ?thesis using assms by (auto simp: size_changed_def intro!: on_space_ok split: option.split)
qed

lemma stretch_changed_ok: "tiler_ok t \<Longrightarrow> tiler_ok (snd (stretch_changed w dk t))"
  by (auto simp: stretch_changed_def case_prod_unfold Let_def arrange_ok split: option.split)

lemma focus_changed_same: "same_but_spaces t (snd (focus_changed dk t))"
  by (auto simp: focus_changed_def Let_def on_space_same split: option.split)

lemma focus_changed_ok: "tiler_ok t \<Longrightarrow> tiler_ok (snd (focus_changed dk t))"
  by (auto simp: focus_changed_def Let_def spaces.focused_law intro!: on_space_ok split: option.split)

lemma suspend_space_ok: "tiler_ok t \<Longrightarrow> tiler_ok (snd (on_space key (so_suspend any_ops) t))"
  by (rule on_space_ok) (simp_all add: spaces.suspend_law)

lemma sync_board_ok:
  assumes "tiler_ok t"
  shows "tiler_ok (snd (sync_board dk t))"
proof -
  have ok: "tiler_ok (t\<lparr>tr_board_shown := b\<rparr>)" for b by (rule tiler_ok_frame [OF assms]) simp_all
  have "tiler_ok (snd (do_each (\<lambda>key. on_space key (so_suspend any_ops)) es (t\<lparr>tr_board_shown := b\<rparr>)))" for es b
    by (rule do_each_keeps [where P = tiler_ok]) (simp_all add: suspend_space_ok ok)
  then show ?thesis using assms arrange_all_ok [OF ok] by (simp add: sync_board_def Let_def)
qed

text \<open>Starting and stopping: nothing is left of the spaces, and every tiled window was given back its box.\<close>

lemma start_tiling_ok:
  assumes "tiler_ok t"
  shows "tiler_ok (snd (start_tiling dk t))"
proof -
  have "tiler_ok (snd (do_each (\<lambda>w. track w False None dk) (dk_windows dk) t))"
    by (rule do_each_keeps [where P = tiler_ok]) (simp_all add: track_ok assms)
  then show ?thesis by (simp add: start_tiling_def arrange_all_ok)
qed

lemma disengage_empty:
  shows "tr_tracked (snd (disengage dk t)) = []" "tr_spaces (snd (disengage dk t)) = []" "tr_opening (snd (disengage dk t)) = {}"
proof -
  have "same_but_spaces u (snd (suspend_all u))" for u
    unfolding suspend_all_def by (rule do_each_same) (rule on_space_same)
  note s = sameD [OF this]
  show "tr_tracked (snd (disengage dk t)) = []" "tr_spaces (snd (disengage dk t)) = []" "tr_opening (snd (disengage dk t)) = {}"
    by (simp_all add: disengage_def s)
qed

lemma empty_ok: "tr_tracked t = [] \<Longrightarrow> tr_spaces t = [] \<Longrightarrow> tiler_ok t"
  by (simp add: tiler_ok_def in_place_def tracked_of_def key_of_def space_lookup_def)

lemma release_all_calls:
  assumes "(w, r) \<in> set rs" "tk_space r = Some key"
  shows "Scene (Frame (Set_unconstrained w False)) \<in> set (fst (do_each (\<lambda>(w, r) t. case tk_space r of
        None \<Rightarrow> ([], t)
      | Some key \<Rightarrow> then_do (on_space key (so_release any_ops w) t) (\<lambda>t'. (float_calls w r t' dk, t'))) rs t))"
    and "\<not> stretched (info dk w) \<Longrightarrow> tk_restore r = Some b \<Longrightarrow>
      Scene (Frame (Move_resize w b)) \<in> set (fst (do_each (\<lambda>(w, r) t. case tk_space r of
        None \<Rightarrow> ([], t)
      | Some key \<Rightarrow> then_do (on_space key (so_release any_ops w) t) (\<lambda>t'. (float_calls w r t' dk, t'))) rs t))"
  using assms by (induction rs arbitrary: t) (auto simp: then_do_fst float_calls_def otherwise_def)

lemma disengage_gives_back:
  assumes "(w, r) \<in> set (tr_tracked t)" "tk_space r \<noteq> None"
  shows "Scene (Frame (Set_unconstrained w False)) \<in> set (fst (disengage dk t))"
    and "\<not> stretched (info dk w) \<Longrightarrow> tk_restore r = Some b \<Longrightarrow> Scene (Frame (Move_resize w b)) \<in> set (fst (disengage dk t))"
  using assms release_all_calls [where w = w and r = r and rs = "tr_tracked t" and dk = dk and t = t] by (auto simp: disengage_def then_do_fst release_all_def)

text \<open>Rebuilding: every window that neither floats nor is minimized is tiled again, and no other.\<close>

lemma reattach_ok:
  assumes "tiler_ok t"
  shows "tiler_ok (reattach dk w t)"
    and "tracked_of (reattach dk w t) v =
      (case tracked_of t v of
        None \<Rightarrow> None
      | Some r \<Rightarrow> Some (if v = w \<and> tk_space r = None \<and> \<not> tk_floating r \<and> \<not> wi_minimized (info dk w)
          then r\<lparr>tk_space := Some (home_of w t dk)\<rparr> else r))"
proof -
  have "tiler_ok (reattach dk w t) \<and> tracked_of (reattach dk w t) v =
      (case tracked_of t v of
        None \<Rightarrow> None
      | Some r \<Rightarrow> Some (if v = w \<and> tk_space r = None \<and> \<not> tk_floating r \<and> \<not> wi_minimized (info dk w)
          then r\<lparr>tk_space := Some (home_of w t dk)\<rparr> else r))"
  proof (cases "\<exists>r. tracked_of t w = Some r \<and> tk_space r = None \<and> \<not> tk_floating r \<and> \<not> wi_minimized (info dk w)")
    case True
    then obtain r where r: "tracked_of t w = Some r" "tk_space r = None" "\<not> tk_floating r" "\<not> wi_minimized (info dk w)" by blast
    then have e: "reattach dk w t = snd (attach w None dk t)" by (simp add: reattach_def)
    show ?thesis
      unfolding e using attach_tiler_ok [OF assms r(1-3)] attach_ok(2) [OF tiler_okD(1) [OF assms] r(1,2), of None dk] r
      by (auto split: option.split)
  next
    case False
    then have "reattach dk w t = t" by (auto simp: reattach_def split: option.split)
    with assms False show ?thesis by (auto split: option.split)
  qed
  then show "tiler_ok (reattach dk w t)"
    "tracked_of (reattach dk w t) v =
      (case tracked_of t v of
        None \<Rightarrow> None
      | Some r \<Rightarrow> Some (if v = w \<and> tk_space r = None \<and> \<not> tk_floating r \<and> \<not> wi_minimized (info dk w)
          then r\<lparr>tk_space := Some (home_of w t dk)\<rparr> else r))" by blast+
qed

lemma reattach_each:
  assumes "tiler_ok t"
  shows "tiler_ok (snd (do_each (\<lambda>w t. ([], reattach dk w t)) es t))"
    and "is_tiled (snd (do_each (\<lambda>w t. ([], reattach dk w t)) es t)) v \<longleftrightarrow>
      is_tiled t v \<or> v \<in> set es \<and> (\<exists>r. tracked_of t v = Some r \<and> \<not> tk_floating r \<and> \<not> wi_minimized (info dk v))"
proof -
  have tiled: "is_tiled (reattach dk w t) v \<longleftrightarrow>
      is_tiled t v \<or> v = w \<and> (\<exists>r. tracked_of t v = Some r \<and> \<not> tk_floating r \<and> \<not> wi_minimized (info dk v))"
    and stays: "map_option tk_floating (tracked_of (reattach dk w t) v) = map_option tk_floating (tracked_of t v)" if "tiler_ok t" for t w
    using reattach_ok(2) [OF that, of dk w v] by (auto simp: is_tiled_def key_of_def split: option.splits if_splits)
  have "tiler_ok (snd (do_each (\<lambda>w t. ([], reattach dk w t)) es t)) \<and>
      (is_tiled (snd (do_each (\<lambda>w t. ([], reattach dk w t)) es t)) v \<longleftrightarrow>
        is_tiled t v \<or> v \<in> set es \<and> (\<exists>r. tracked_of t v = Some r \<and> \<not> tk_floating r \<and> \<not> wi_minimized (info dk v)))"
    using assms
  proof (induction es arbitrary: t)
    case (Cons w es)
    from Cons.IH [OF reattach_ok(1) [OF Cons.prems, of dk w]] tiled [OF Cons.prems, of w] stays [OF Cons.prems, of w]
    show ?case by (auto simp: map_option_case split: option.splits)
  qed simp
  then show "tiler_ok (snd (do_each (\<lambda>w t. ([], reattach dk w t)) es t))"
    "is_tiled (snd (do_each (\<lambda>w t. ([], reattach dk w t)) es t)) v \<longleftrightarrow>
      is_tiled t v \<or> v \<in> set es \<and> (\<exists>r. tracked_of t v = Some r \<and> \<not> tk_floating r \<and> \<not> wi_minimized (info dk v))" by blast+
qed

lemma suspend_all_same: "same_but_spaces t (snd (suspend_all t))"
  unfolding suspend_all_def by (rule do_each_same) (rule on_space_same)

lemma map_of_apsnd: "map_of (map (apsnd f) es) k = map_option f (map_of es k)"
  by (induction es) auto

lemma rebuild_ok:
  assumes "tiler_ok t"
  shows "tiler_ok (snd (rebuild dk t))"
    and "is_tiled (snd (rebuild dk t)) v \<longleftrightarrow> (\<exists>r. tracked_of t v = Some r \<and> \<not> tk_floating r \<and> \<not> wi_minimized (info dk v))"
    and "tr_mode (snd (rebuild dk t)) = tr_mode t"
proof -
  define t1 where "t1 = snd (suspend_all t)"
  define t2 where "t2 = t1\<lparr>tr_spaces := [], tr_tracked := map (apsnd (\<lambda>r. r\<lparr>tk_space := None\<rparr>)) (tr_tracked t1)\<rparr>"
  define es where "es = windows_in_order t @ map fst (tr_tracked t2)"
  define t3 where "t3 = snd (do_each (\<lambda>w t. ([], reattach dk w t)) es t2)"
  have s1: "same_but_spaces t t1" unfolding t1_def by (rule suspend_all_same)
  note s = sameD [OF s1]
  have tr2: "tracked_of t2 w = map_option (\<lambda>r. r\<lparr>tk_space := None\<rparr>) (tracked_of t w)" for w
    by (simp add: tracked_of_def t2_def s(1) map_of_apsnd)
  have k2: "key_of t2 w = None" for w by (cases "tracked_of t w") (simp_all add: key_of_def tr2)
  have ok2: "tiler_ok t2"
  proof -
    have "tr_spaces t2 = []" by (simp add: t2_def)
    then have "in_place t2" by (simp add: in_place_def k2 space_lookup_def)
    moreover have "map fst (tr_tracked t2) = map fst (tr_tracked t)" by (simp add: t2_def s(1))
    moreover have "record_ok t2 w r" if "tracked_of t2 w = Some r" for w r
    proof -
      have "tr_unconfigured t2 = tr_unconfigured t" by (simp add: t2_def s(3))
      then show ?thesis using that tiler_okD(3) [OF assms, of w] by (auto simp: tr2 record_ok_def)
    qed
    ultimately show ?thesis using tiler_okD(2) [OF assms] by (simp add: tiler_ok_def)
  qed
  note r3 = reattach_each [OF ok2, of dk es, folded t3_def]
  have keys: "tracked_of t w \<noteq> None \<Longrightarrow> w \<in> set es" for w
    by (auto simp: es_def t2_def s(1) tracked_of_def dest: map_of_SomeD intro!: rev_image_eqI)
  have e: "snd (rebuild dk t) = snd (arrange_all True dk (snd (focus_changed dk t3)))"
    by (simp add: rebuild_def Let_def t3_def es_def t2_def t1_def)
  show "tiler_ok (snd (rebuild dk t))" unfolding e by (rule arrange_all_ok [OF focus_changed_ok [OF r3(1)]])
  have "is_tiled (snd (rebuild dk t)) v \<longleftrightarrow> is_tiled t3 v"
    unfolding e by (simp add: is_tiled_def sameD(5) [OF arrange_all_same] sameD(5) [OF focus_changed_same])
  also have "\<dots> \<longleftrightarrow> (\<exists>r. tracked_of t v = Some r \<and> \<not> tk_floating r \<and> \<not> wi_minimized (info dk v))"
    unfolding r3(2) using keys [of v] by (auto simp: is_tiled_def k2 tr2)
  finally show "is_tiled (snd (rebuild dk t)) v \<longleftrightarrow> (\<exists>r. tracked_of t v = Some r \<and> \<not> tk_floating r \<and> \<not> wi_minimized (info dk v))" .
  have m: "tr_mode (reattach dk w u) = tr_mode u" for w u
    by (simp add: reattach_def attach_def Let_def sameD(2) [OF on_space_same] sameD(2) [OF space_at_same] split: option.split)
  have "tr_mode t3 = tr_mode t2" unfolding t3_def
    by (rule do_each_keeps [where P = "\<lambda>u. tr_mode u = tr_mode t2"]) (simp_all add: m)
  then show "tr_mode (snd (rebuild dk t)) = tr_mode t"
    unfolding e by (simp add: sameD(2) [OF arrange_all_same] sameD(2) [OF focus_changed_same] t2_def s(2))
qed

text \<open>Pruning drops spaces no window is in.\<close>

lemma drop_workspace_ok:
  assumes "tiler_ok t" "\<And>w m. key_of t w \<noteq> Some (ws, m)"
  shows "tiler_ok (t\<lparr>tr_spaces := map_drop ws (tr_spaces t)\<rparr>)"
proof -
  let ?t = "t\<lparr>tr_spaces := map_drop ws (tr_spaces t)\<rparr>"
  have l: "space_lookup ?t key = (if fst key = ws then None else space_lookup t key)" for key
    by (simp add: space_lookup_def)
  have k: "key_of ?t = key_of t" "tracked_of ?t = tracked_of t" by (simp_all add: key_of_def tracked_of_def fun_eq_iff)
  have "in_place ?t"
    using tiler_okD(1) [OF assms(1)] assms(2) unfolding in_place_def k l by (auto simp: distinct_drop split: if_splits)
  then show ?thesis using assms(1) by (simp add: tiler_ok_def k record_ok_def)
qed

lemma prune_spaces_ok:
  assumes "tiler_ok t"
  shows "tiler_ok (snd (prune_spaces dk t))" and "same_but_spaces t (snd (prune_spaces dk t))"
proof -
  let ?f = "\<lambda>(workspace, by_monitor) t.
      case workspace of
        None \<Rightarrow> ([], t)
      | Some ws \<Rightarrow>
          if ws \<notin> set (dk_workspaces dk) \<and> list_all (\<lambda>(monitor, sp). so_windows any_ops sp = []) by_monitor
          then then_do (do_each (\<lambda>(monitor, sp). on_space (workspace, monitor) (so_suspend any_ops)) by_monitor t)
            (\<lambda>t'. ([], t'\<lparr>tr_spaces := map_drop workspace (tr_spaces t')\<rparr>))
          else ([], t)"
  let ?P = "\<lambda>u. tiler_ok u \<and> same_but_spaces t u"
  have "?P (snd (do_each ?f (tr_spaces t) t))"
  proof (rule do_each_keeps)
    fix e u assume e: "e \<in> set (tr_spaces t)" and u: "?P u"
    obtain workspace by_monitor where p: "e = (workspace, by_monitor)" by fastforce
    show "?P (snd (?f e u))"
    proof (cases "\<exists>ws. workspace = Some ws \<and> ws \<notin> set (dk_workspaces dk) \<and> list_all (\<lambda>(monitor, sp). so_windows any_ops sp = []) by_monitor")
      case True
      then obtain ws where ws: "workspace = Some ws" "ws \<notin> set (dk_workspaces dk)"
        "list_all (\<lambda>(monitor, sp). so_windows any_ops sp = []) by_monitor" by blast
      let ?v = "snd (do_each (\<lambda>(monitor, sp). on_space (workspace, monitor) (so_suspend any_ops)) by_monitor u)"
      have v: "tiler_ok ?v" by (rule do_each_keeps [where P = tiler_ok]) (use u in \<open>auto simp: suspend_space_ok split: prod.split\<close>)
      have sv: "same_but_spaces t ?v"
        by (rule same_trans [of t u]) (use u in \<open>auto intro!: do_each_same simp: on_space_same split: prod.split\<close>)
      have m: "map_of (tr_spaces t) workspace = Some by_monitor"
        using in_placeD(4) [OF tiler_okD(1) [OF assms]] e p by simp
      have "key_of ?v w \<noteq> Some (workspace, m)" for w m
      proof
        assume "key_of ?v w = Some (workspace, m)"
        then have kw: "key_of t w = Some (workspace, m)" using sameD(5) [OF sv] by simp
        then obtain sp where sp: "space_lookup t (workspace, m) = Some sp" using in_placeD(3) [OF tiler_okD(1) [OF assms]] by blast
        then have "map_of by_monitor m = Some sp" by (simp add: space_lookup_def \<open>map_of (tr_spaces t) workspace = Some by_monitor\<close>)
        then have "so_windows any_ops sp = []" using ws(3) map_of_SomeD by (fastforce simp: list_all_iff)
        then show False using in_placeD(2) [OF tiler_okD(1) [OF assms] sp, of w] kw by simp
      qed
      from drop_workspace_ok [OF v this] have "tiler_ok (?v\<lparr>tr_spaces := map_drop workspace (tr_spaces ?v)\<rparr>)" .
      moreover have "same_but_spaces t (?v\<lparr>tr_spaces := map_drop workspace (tr_spaces ?v)\<rparr>)"
        using sv by (simp add: same_but_spaces_def)
      moreover have "snd (?f e u) = ?v\<lparr>tr_spaces := map_drop workspace (tr_spaces ?v)\<rparr>" using ws by (simp add: p)
      ultimately show ?thesis by simp
    next
      case False
      then have "snd (?f e u) = u" by (auto simp: p split: option.split)
      then show ?thesis using u by simp
    qed
  qed (use assms in simp)
  then show "tiler_ok (snd (prune_spaces dk t))" "same_but_spaces t (snd (prune_spaces dk t))" unfolding prune_spaces_def by blast+
qed

lemma engage_ok:
  assumes "tiler_ok t"
  shows "tiler_ok (snd (engage mode dk t))"
proof -
  have ok: "tiler_ok (t\<lparr>tr_mode := mode\<rparr>)" by (rule tiler_ok_frame [OF assms]) simp_all
  show ?thesis
    using assms start_tiling_ok [OF ok] rebuild_ok(1) [OF ok] empty_ok [OF disengage_empty(1,2)]
    by (simp add: engage_def Let_def)
qed

lemma preference_changed_ok: "tiler_ok t \<Longrightarrow> tiler_ok (snd (preference_changed key dk t))"
  by (simp add: preference_changed_def engage_ok rebuild_ok(1) arrange_all_ok)

lemma monitors_changed_ok: "tiler_ok t \<Longrightarrow> tiler_ok (snd (monitors_changed dk t))"
  by (simp add: monitors_changed_def rebuild_ok(1))

end
