(* ===== verification/Tiling_Commands.thy ===== *)
theory Tiling_Commands
  imports Tiling_Tiler
begin

text \<open>
  What the keyboard, the pointer and the touchpad do to the tiler: \<^verbatim>\<open>commands.ts\<close>, \<^verbatim>\<open>keys.ts\<close>,
  \<^verbatim>\<open>drag.ts\<close>, \<^verbatim>\<open>scrolling/swipe.ts\<close> and \<^verbatim>\<open>scrolling/overview.ts\<close>.  Activating a window and stepping
  the board are calls like the others.  Where resizing can break the weights of a space the result
  is an option.
\<close>

section \<open>Commands\<close>

definition steps_of :: "direction \<Rightarrow> int \<times> int" where
  "steps_of d = (case d of DLeft \<Rightarrow> (-1, 0) | DRight \<Rightarrow> (1, 0) | DUp \<Rightarrow> (0, -1) | DDown \<Rightarrow> (0, 1))"

text \<open>A method of a space that answers.\<close>

definition ask_space :: "space_key \<Rightarrow> (nat space \<Rightarrow> 'r \<times> nat space) \<Rightarrow> 'r \<Rightarrow> tiler \<Rightarrow> 'r \<times> tiler" where
  "ask_space key f absent t =
    (case space_lookup t key of None \<Rightarrow> (absent, t) | Some sp \<Rightarrow> (let (r, sp') = f sp in (r, space_put key sp' t)))"

definition as_scrolling :: "nat space \<Rightarrow> nat scroll_space option" where
  "as_scrolling sp = (case sp of Scroll_space ss \<Rightarrow> Some ss | _ \<Rightarrow> None)"

definition strip_of :: "tiler \<Rightarrow> space_key \<Rightarrow> nat scroll_space option" where
  "strip_of t key = Option.bind (space_lookup t key) as_scrolling"

definition on_strip :: "space_key \<Rightarrow> (nat scroll_space \<Rightarrow> nat scene_call list \<times> nat scroll_space) \<Rightarrow> tiler \<Rightarrow> handled" where
  "on_strip key f t = on_space key (\<lambda>sp. case sp of Scroll_space ss \<Rightarrow> apsnd Scroll_space (f ss) | _ \<Rightarrow> ([], sp)) t"

definition shown_in :: "nat space \<Rightarrow> (nat \<times> box) list" where
  "shown_in sp =
    (case as_scrolling sp of
      Some ss \<Rightarrow>
        (case ss_focused_window ss of
          None \<Rightarrow> []
        | Some w \<Rightarrow> (case ss_box_of ss w of None \<Rightarrow> [] | Some b \<Rightarrow> [(w, b)]))
    | None \<Rightarrow>
        concat (map (\<lambda>w. case so_box_of any_ops sp w of None \<Rightarrow> [] | Some b \<Rightarrow> [(w, b)]) (so_windows any_ops sp)))"

definition across :: "nat option \<Rightarrow> direction \<Rightarrow> number \<times> number \<Rightarrow> desk \<Rightarrow> tiler \<Rightarrow> nat option" where
  "across window d pointer dk t =
    (let own = Option.bind window (key_of t);
         from_box = (case window of
            None \<Rightarrow> \<lparr>b_x = fst pointer, b_y = snd pointer, b_w = 1, b_h = 1\<rparr>
          | Some w \<Rightarrow> otherwise (Option.bind (space_of t w) (\<lambda>sp. so_box_of any_ops sp w)) (wi_frame (info dk w)));
         tiled = concat (map (\<lambda>key. case space_lookup t key of None \<Rightarrow> [] | Some sp \<Rightarrow> shown_in sp)
            (filter (\<lambda>key. Some key \<noteq> own) (visible_spaces t dk)));
         floating = map (\<lambda>w. (w, wi_frame (info dk w)))
            (filter (\<lambda>w. Some w \<noteq> window \<and> wi_showing (info dk w)) (floating_windows t dk))
     in neighbor from_box (tiled @ floating) d)"

definition command_focus :: "direction \<Rightarrow> number \<times> number \<Rightarrow> desk \<Rightarrow> tiler \<Rightarrow> handled" where
  "command_focus d pointer dk t =
    (if dk_board dk then ([Board_step (fst (steps_of d)) (snd (steps_of d))], t)
     else
      (let (near, t') = (case dk_focus dk of
              None \<Rightarrow> (None, t)
            | Some w \<Rightarrow>
                (case key_of t w of None \<Rightarrow> (None, t) | Some key \<Rightarrow> ask_space key (so_neighbor any_ops w d) None t));
           target = (case near of Some v \<Rightarrow> Some v | None \<Rightarrow> across (dk_focus dk) d pointer dk t')
       in (case target of None \<Rightarrow> [] | Some v \<Rightarrow> [Activate v], t')))"

definition command_move :: "direction \<Rightarrow> desk \<Rightarrow> tiler \<Rightarrow> handled" where
  "command_move d dk t =
    (case dk_focus dk of
      None \<Rightarrow> ([], t)
    | Some w \<Rightarrow>
        (case key_of t w of
          None \<Rightarrow> ([], t)
        | Some key \<Rightarrow>
            if dk_board dk then ([], t)
            else
             (let ((moved, calls), t1) = ask_space key (\<lambda>sp. case so_move any_ops (host_of t dk) w d sp of (m, c, sp') \<Rightarrow> ((m, c), sp')) (False, []) t
              in then_do (map Scene calls, t1) (\<lambda>t2.
                 if moved then ([], t2)
                 else case neighbor (monitor_box dk (snd key))
                      (filter (\<lambda>(index, b). index \<noteq> snd key) (zip [0 ..< length (dk_monitors dk)] (dk_monitors dk))) d of
                   None \<Rightarrow> ([], t2)
                 | Some monitor \<Rightarrow>
                    (let (destination, t3) = space_on monitor dk t2
                     in move_to w destination (Option.bind (strip_of t3 destination) ss_focused_window) dk t3)))))"

definition resize_space :: "space_key \<Rightarrow> (nat space \<Rightarrow> (nat scene_call list \<times> nat space) option) \<Rightarrow> tiler \<Rightarrow> handled option" where
  "resize_space key f t =
    (case space_lookup t key of
      None \<Rightarrow> Some ([], t)
    | Some sp \<Rightarrow> map_option (\<lambda>(calls, sp'). (map Scene calls, space_put key sp' t)) (f sp))"

definition command_resize :: "direction \<Rightarrow> desk \<Rightarrow> tiler \<Rightarrow> handled option" where
  "command_resize d dk t =
    (case dk_focus dk of
      None \<Rightarrow> Some ([], t)
    | Some w \<Rightarrow>
        (case key_of t w of
          None \<Rightarrow> Some ([], t)
        | Some key \<Rightarrow> if dk_board dk then Some ([], t) else resize_space key (so_resize any_ops (host_of t dk) w d) t))"

definition command_toggle_floating :: "desk \<Rightarrow> tiler \<Rightarrow> handled" where
  "command_toggle_floating dk t =
    (case dk_focus dk of None \<Rightarrow> ([], t) | Some w \<Rightarrow> if dk_board dk then ([], t) else toggle_floating w dk t)"

text \<open>\<^verbatim>\<open>inStrip\<close>, and the commands that are one call in it.\<close>

definition in_strip :: "(nat stage \<Rightarrow> nat \<Rightarrow> nat scroll_space \<Rightarrow> nat scene_call list \<times> nat scroll_space) \<Rightarrow> desk \<Rightarrow> tiler \<Rightarrow> handled" where
  "in_strip run dk t =
    (case dk_focus dk of
      None \<Rightarrow> ([], t)
    | Some w \<Rightarrow>
        (case key_of t w of
          None \<Rightarrow> ([], t)
        | Some key \<Rightarrow> if dk_board dk then ([], t) else on_strip key (run (host_of t dk) w) t))"

definition command_cycle_width :: "desk \<Rightarrow> tiler \<Rightarrow> handled" where
  "command_cycle_width = in_strip ss_cycle_width"

definition command_center :: "desk \<Rightarrow> tiler \<Rightarrow> handled" where
  "command_center = in_strip ss_center"

definition command_maximize_column :: "desk \<Rightarrow> tiler \<Rightarrow> handled" where
  "command_maximize_column = in_strip ss_maximize"

definition command_expand_column :: "desk \<Rightarrow> tiler \<Rightarrow> handled" where
  "command_expand_column = in_strip ss_expand"

definition command_move_to_edge :: "bool \<Rightarrow> desk \<Rightarrow> tiler \<Rightarrow> handled" where
  "command_move_to_edge at_end = in_strip (\<lambda>h w. ss_move_to_edge h w at_end)"

definition command_stack :: "int \<Rightarrow> desk \<Rightarrow> tiler \<Rightarrow> handled" where
  "command_stack d = in_strip (\<lambda>h w. ss_stack h w d)"

definition focused_strip :: "number \<times> number \<Rightarrow> desk \<Rightarrow> tiler \<Rightarrow> space_key option \<times> tiler" where
  "focused_strip pointer dk t =
    (case Option.bind (dk_focus dk) (\<lambda>w. Option.bind (key_of t w) (\<lambda>key. map_option (\<lambda>ss. key) (strip_of t key))) of
      Some key \<Rightarrow> (Some key, t)
    | None \<Rightarrow>
        (let monitor = otherwise (find_index (\<lambda>b. contains b (fst pointer) (snd pointer)) (dk_monitors dk)) 0;
             (key, t') = space_on monitor dk t
         in (map_option (\<lambda>ss. key) (strip_of t' key), t')))"

definition command_focus_edge :: "bool \<Rightarrow> number \<times> number \<Rightarrow> desk \<Rightarrow> tiler \<Rightarrow> handled" where
  "command_focus_edge at_end pointer dk t =
    (let (key, t') = focused_strip pointer dk t;
         target = (if dk_board dk then None else Option.bind key (\<lambda>k. Option.bind (strip_of t' k) (\<lambda>ss. edge at_end (ss_strip ss))))
     in (case target of None \<Rightarrow> [] | Some v \<Rightarrow> [Activate v], t'))"

section \<open>Keys\<close>

definition direction_name :: "direction \<Rightarrow> string" where
  "direction_name d = (case d of DLeft \<Rightarrow> ''left'' | DRight \<Rightarrow> ''right'' | DUp \<Rightarrow> ''up'' | DDown \<Rightarrow> ''down'')"

datatype binding =
    Key_focus direction
  | Key_move direction
  | Key_resize direction
  | Key_toggle_floating
  | Key_cycle_width
  | Key_center
  | Key_maximize
  | Key_expand
  | Key_focus_edge bool
  | Key_move_edge bool
  | Key_overview
  | Key_stack bool

definition binding_name :: "binding \<Rightarrow> string" where
  "binding_name b = (case b of
      Key_focus d \<Rightarrow> ''tiling-focus-'' @ direction_name d
    | Key_move d \<Rightarrow> ''tiling-move-'' @ direction_name d
    | Key_resize d \<Rightarrow> ''tiling-resize-'' @ direction_name d
    | Key_toggle_floating \<Rightarrow> ''tiling-toggle-floating''
    | Key_cycle_width \<Rightarrow> ''tiling-cycle-width''
    | Key_center \<Rightarrow> ''tiling-center-column''
    | Key_maximize \<Rightarrow> ''tiling-maximize-column''
    | Key_expand \<Rightarrow> ''tiling-expand-column''
    | Key_focus_edge at_end \<Rightarrow> if at_end then ''tiling-focus-last'' else ''tiling-focus-first''
    | Key_move_edge at_end \<Rightarrow> if at_end then ''tiling-move-last'' else ''tiling-move-first''
    | Key_overview \<Rightarrow> ''tiling-overview''
    | Key_stack right \<Rightarrow> if right then ''tiling-stack-right'' else ''tiling-stack-left'')"

definition tiling_bindings :: "tiling_mode \<Rightarrow> binding list" where
  "tiling_bindings mode =
    (if mode = Off then []
     else concat (map (\<lambda>d. [Key_focus d, Key_move d, Key_resize d]) DIRECTIONS) @ [Key_toggle_floating]
       @ (if mode = Scrolling then
            [Key_cycle_width, Key_center, Key_maximize, Key_expand, Key_focus_edge False, Key_focus_edge True,
             Key_move_edge False, Key_move_edge True, Key_overview, Key_stack False, Key_stack True]
          else []))"

text \<open>\<^verbatim>\<open>engage\<close>: the names removed, the names added, and the bindings registered then; \<^verbatim>\<open>release\<close> removes
  them all.\<close>

definition keys_engage :: "tiling_mode \<Rightarrow> binding list \<Rightarrow> string list \<times> string list \<times> binding list" where
  "keys_engage mode registered =
    (map binding_name registered, map binding_name (tiling_bindings mode), tiling_bindings mode)"

definition keys_release :: "binding list \<Rightarrow> string list \<times> binding list" where
  "keys_release registered = (map binding_name registered, [])"

section \<open>Dragging\<close>

datatype grab = Moving | Keyboard_moving | Resizing_grab

record drag =
  dg_moving :: "nat option"
  dg_resizing :: "(nat \<times> bool) option"

definition new_drag :: drag where "new_drag = \<lparr>dg_moving = None, dg_resizing = None\<rparr>"

definition drag_off :: "drag \<Rightarrow> tiler \<Rightarrow> drag \<times> tiler" where
  "drag_off g t = (new_drag, t\<lparr>tr_held := None\<rparr>)"

definition drag_begin :: "nat option \<Rightarrow> grab \<Rightarrow> drag \<Rightarrow> tiler \<Rightarrow> drag \<times> tiler" where
  "drag_begin window op g t =
    (case window of
      None \<Rightarrow> (g, t)
    | Some w \<Rightarrow>
        if \<not> is_tiled t w then (g, t)
        else if op \<noteq> Resizing_grab then (g\<lparr>dg_moving := Some w\<rparr>, t\<lparr>tr_held := Some w\<rparr>)
        else (g\<lparr>dg_resizing := Some (w, False)\<rparr>, t))"

definition drag_drop :: "nat \<Rightarrow> bool \<Rightarrow> number \<times> number \<Rightarrow> desk \<Rightarrow> tiler \<Rightarrow> handled" where
  "drag_drop w keyboard pointer dk t =
    (case key_of t w of
      None \<Rightarrow> ([], t)
    | Some key \<Rightarrow>
        (let frame = wi_frame (info dk w);
             (x, y) = (if keyboard then (b_x frame + b_w frame / 2, b_y frame + b_h frame / 2) else pointer);
             (target, t1) = (case find_index (\<lambda>b. contains b x y) (dk_monitors dk) of
                 None \<Rightarrow> (key, t)
               | Some monitor \<Rightarrow> space_on monitor dk t);
             onto = (case space_lookup t1 target of
                 None \<Rightarrow> None
               | Some sp \<Rightarrow> List.find (\<lambda>v. v \<noteq> w \<and> contains (otherwise (so_box_of any_ops sp v) (wi_frame (info dk v))) x y) (so_windows any_ops sp))
         in if target \<noteq> key then move_to w target onto dk t1
            else case onto of
              Some v \<Rightarrow> on_space key (so_drop any_ops (host_of t1 dk) w v) t1
            | None \<Rightarrow> arrange key True dk t1))"

definition drag_end :: "nat option \<Rightarrow> grab \<Rightarrow> number \<times> number \<Rightarrow> desk \<Rightarrow> drag \<Rightarrow> tiler \<Rightarrow> drag \<times> handled" where
  "drag_end window op pointer dk g t =
    (case window of
      None \<Rightarrow> (g, [], t)
    | Some w \<Rightarrow>
        (let (g1, r1) = (if dg_moving g = Some w
               then (g\<lparr>dg_moving := None\<rparr>, drag_drop w (op = Keyboard_moving) pointer dk (t\<lparr>tr_held := None\<rparr>))
               else (g, [], t))
         in if map_option fst (dg_resizing g1) = Some w
            then (g1\<lparr>dg_resizing := None\<rparr>,
                  then_do r1 (\<lambda>t. case key_of t w of None \<Rightarrow> ([], t) | Some key \<Rightarrow> arrange key True dk t))
            else (g1, r1)))"

text \<open>The size changed while resizing: one resize before the next frame, however often that happens.\<close>

definition queue_resize :: "drag \<Rightarrow> drag" where
  "queue_resize g = g\<lparr>dg_resizing := map_option (\<lambda>(w, later). (w, True)) (dg_resizing g)\<rparr>"

definition flush_resize :: "desk \<Rightarrow> drag \<Rightarrow> tiler \<Rightarrow> (drag \<times> handled) option" where
  "flush_resize dk g t =
    (case dg_resizing g of
      Some (w, True) \<Rightarrow>
        (let g' = g\<lparr>dg_resizing := Some (w, False)\<rparr> in
         case key_of t w of
           None \<Rightarrow> Some (g', [], t)
         | Some key \<Rightarrow> map_option (Pair g') (resize_space key (so_resized any_ops (host_of t dk) w (wi_frame (info dk w))) t))
    | _ \<Rightarrow> Some (g, [], t))"

section \<open>Swiping\<close>

definition FINGERS :: nat where "FINGERS = 3"
definition VELOCITY_WINDOW :: int where "VELOCITY_WINDOW = 150"
definition DIRECTION_LOCK :: number where "DIRECTION_LOCK = 10"

datatype swipe_mode = Idle | Choosing | Tracking | Ignored

record sample =
  sa_time :: int
  sa_distance :: number

record strip_swipe =
  sw_mode :: swipe_mode
  sw_space :: "space_key option"
  sw_lock_x :: number
  sw_lock_y :: number
  sw_distance :: number
  sw_samples :: "sample list"

definition new_swipe :: strip_swipe where
  "new_swipe = \<lparr>sw_mode = Idle, sw_space = None, sw_lock_x = 0, sw_lock_y = 0, sw_distance = 0, sw_samples = []\<rparr>"

datatype swipe_phase = Swipe_begin | Swipe_update | Swipe_end | Swipe_cancel

text \<open>An event of the touchpad: its phase, time, accelerated and plain motion, fingers, and where it is.\<close>

record swipe_event =
  ev_phase :: swipe_phase
  ev_time :: int
  ev_dx :: number
  ev_raw_x :: number
  ev_raw_y :: number
  ev_fingers :: nat
  ev_point :: "number \<times> number"

definition swipe_begin :: "(number \<times> number \<Rightarrow> (space_key \<times> bool) option) \<Rightarrow> bool \<Rightarrow> swipe_event \<Rightarrow> strip_swipe \<Rightarrow> strip_swipe" where
  "swipe_begin strip_at enabled ev s =
    (let found = (if ev_fingers ev = FINGERS \<and> enabled then strip_at (ev_point ev) else None)
     in s\<lparr>sw_lock_x := 0, sw_lock_y := 0, sw_space := map_option fst found,
          sw_mode := (case found of Some (key, False) \<Rightarrow> Choosing | _ \<Rightarrow> Ignored)\<rparr>)"

definition strip_call :: "space_key option \<Rightarrow> (nat scroll_space \<Rightarrow> nat scene_call list \<times> nat scroll_space) \<Rightarrow> tiler \<Rightarrow> handled" where
  "strip_call key f t = (case key of None \<Rightarrow> ([], t) | Some k \<Rightarrow> on_strip k f t)"

definition swipe_follow :: "swipe_event \<Rightarrow> desk \<Rightarrow> strip_swipe \<Rightarrow> tiler \<Rightarrow> strip_swipe \<times> handled" where
  "swipe_follow ev dk s t =
    (let distance = sw_distance s + ev_dx ev;
         samples = filter (\<lambda>sample. sa_time sample \<ge> ev_time ev - VELOCITY_WINDOW)
           (sw_samples s @ [\<lparr>sa_time = ev_time ev, sa_distance = distance\<rparr>])
     in (s\<lparr>sw_distance := distance, sw_samples := samples\<rparr>, strip_call (sw_space s) (swipe (host_of t dk) distance) t))"

text \<open>\<^verbatim>\<open>Math.hypot\<close> is compared by its square.\<close>

definition swipe_choose :: "swipe_event \<Rightarrow> desk \<Rightarrow> strip_swipe \<Rightarrow> tiler \<Rightarrow> strip_swipe \<times> handled" where
  "swipe_choose ev dk s t =
    (let s1 = s\<lparr>sw_lock_x := sw_lock_x s + ev_raw_x ev, sw_lock_y := sw_lock_y s + ev_raw_y ev\<rparr> in
     if sw_lock_x s1 * sw_lock_x s1 + sw_lock_y s1 * sw_lock_y s1 < DIRECTION_LOCK * DIRECTION_LOCK then (s1, [], t)
     else if \<bar>sw_lock_x s1\<bar> \<le> \<bar>sw_lock_y s1\<bar> then (s1\<lparr>sw_mode := Ignored\<rparr>, [], t)
     else
      (let s2 = s1\<lparr>sw_mode := Tracking, sw_distance := 0, sw_samples := [\<lparr>sa_time = ev_time ev, sa_distance = 0\<rparr>]\<rparr>;
           (calls, t1) = strip_call (sw_space s2) (\<lambda>ss. ([], begin_swipe (host_of t dk) ss)) t;
           (s3, r) = swipe_follow ev dk s2 t1
       in (s3, then_do (calls, t1) (\<lambda>_. r))))"

definition swipe_velocity :: "sample list \<Rightarrow> number" where
  "swipe_velocity samples =
    (if samples \<noteq> [] \<and> sa_time (last samples) > sa_time (hd samples)
     then (sa_distance (last samples) - sa_distance (hd samples)) * 1000 / of_int (sa_time (last samples) - sa_time (hd samples))
     else 0)"

definition swipe_release :: "desk \<Rightarrow> strip_swipe \<Rightarrow> tiler \<Rightarrow> strip_swipe \<times> handled" where
  "swipe_release dk s t =
    (let velocity = swipe_velocity (sw_samples s);
         ((window, calls), t1) = (case sw_space s of
             None \<Rightarrow> ((None, []), t)
           | Some key \<Rightarrow> ask_space key (\<lambda>sp. case sp of
                 Scroll_space ss \<Rightarrow> (case end_swipe (host_of t dk) velocity ss of (w, c, ss') \<Rightarrow> ((w, c), Scroll_space ss'))
               | _ \<Rightarrow> ((None, []), sp)) (None, []) t)
     in (s\<lparr>sw_space := None\<rparr>, map Scene calls @ (case window of None \<Rightarrow> [] | Some w \<Rightarrow> [Activate w]), t1))"

text \<open>\<^verbatim>\<open>handle\<close>: whether the swipe takes the event, and what it does with it.\<close>

definition swipe_handle :: "(number \<times> number \<Rightarrow> (space_key \<times> bool) option) \<Rightarrow> bool \<Rightarrow> swipe_event \<Rightarrow> desk \<Rightarrow> strip_swipe \<Rightarrow> tiler \<Rightarrow>
    bool \<times> strip_swipe \<times> handled" where
  "swipe_handle strip_at enabled ev dk s t =
    (let s1 = (if ev_phase ev = Swipe_begin then swipe_begin strip_at enabled ev s else s); mode = sw_mode s1 in
     if ev_phase ev = Swipe_end \<or> ev_phase ev = Swipe_cancel
     then (let (s2, r) = (if mode = Tracking then swipe_release dk s1 t else (s1, [], t))
           in (mode = Tracking \<or> mode = Choosing, s2\<lparr>sw_mode := Idle\<rparr>, r))
     else (let (s2, r) = (if mode = Choosing then swipe_choose ev dk s1 t else if mode = Tracking then swipe_follow ev dk s1 t else (s1, [], t))
           in (sw_mode s2 = Tracking \<or> sw_mode s2 = Choosing, s2, r)))"

section \<open>The overview\<close>

record overview =
  ov_space :: "space_key option"
  ov_return_to :: "nat option"

definition overview_close :: "desk \<Rightarrow> overview \<Rightarrow> tiler \<Rightarrow> overview \<times> handled" where
  "overview_close dk o' t =
    (case ov_space o' of
      None \<Rightarrow> (o', [], t)
    | Some key \<Rightarrow> (o'\<lparr>ov_space := None\<rparr>, on_strip key (ss_zoom (host_of t dk) False) t))"

definition overview_pick :: "nat option \<Rightarrow> desk \<Rightarrow> overview \<Rightarrow> tiler \<Rightarrow> overview \<times> handled" where
  "overview_pick window dk o' t =
    (let (o1, r) = overview_close dk o' t;
         chosen = (case window of Some w \<Rightarrow> Some w | None \<Rightarrow> ov_return_to o1)
     in (o1\<lparr>ov_return_to := None\<rparr>, then_do r (\<lambda>t. (case chosen of None \<Rightarrow> [] | Some w \<Rightarrow> [Activate w], t))))"

definition overview_show :: "space_key \<Rightarrow> desk \<Rightarrow> tiler \<Rightarrow> overview \<times> handled" where
  "overview_show key dk t =
    (\<lparr>ov_space = Some key, ov_return_to = dk_focus dk\<rparr>, on_strip key (ss_zoom (host_of t dk) True) t)"

definition overview_toggle :: "space_key option \<Rightarrow> desk \<Rightarrow> overview \<Rightarrow> tiler \<Rightarrow> overview \<times> handled" where
  "overview_toggle key dk o' t =
    (if ov_space o' \<noteq> None then overview_pick None dk o' t
     else case Option.bind key (\<lambda>k. map_option (Pair k) (strip_of t k)) of
       None \<Rightarrow> (o', [], t)
     | Some (k, ss) \<Rightarrow> if ss_windows ss \<noteq> [] then overview_show k dk t else (o', [], t))"

definition overview_click :: "number \<Rightarrow> number \<Rightarrow> desk \<Rightarrow> overview \<Rightarrow> tiler \<Rightarrow> overview \<times> handled" where
  "overview_click x y dk o' t =
    overview_pick (Option.bind (ov_space o') (\<lambda>key. Option.bind (strip_of t key) (window_at (host_of t dk) x y))) dk o' t"

end
