(* ===== verification/Tiling_Session.thy ===== *)
theory Tiling_Session
  imports Tiling_Tiler_Facts Tiling_Commands
begin

text \<open>
  The tiling desktop as one machine: \<^verbatim>\<open>tiling.ts\<close>, which wires the tiler, the keys, the drags, the swipe
  and the overview together, and the step relation of everything the compositor and the user can do to
  it.  The commands, drags and swipes keep the tiler's invariant, through the laws of a space.
\<close>

section \<open>Commands keep the invariant\<close>

lemma space_put_ok:
  assumes "tiler_ok t" "space_lookup t key = Some sp" "any_ok sp'" "set (so_windows any_ops sp') = set (so_windows any_ops sp)"
  shows "tiler_ok (space_put key sp' t)" and "same_but_spaces t (space_put key sp' t)"
proof -
  have "space_put key sp' t = snd (on_space key (\<lambda>_. ([], sp')) t)" using assms(2) by (simp add: on_space_def)
  moreover have "in_place (snd (on_space key (\<lambda>_. ([], sp')) t))"
    using tiler_okD(1) [OF assms(1)] assms(2-4) sameD(5) [OF on_space_same [of t key "\<lambda>_. ([], sp')"]]
      on_space_distinct [of t key "\<lambda>_. ([], sp')"]
    by (auto simp: in_place_def on_space_lookup split: if_splits)
  ultimately show "tiler_ok (space_put key sp' t)" using tiler_ok_same [OF assms(1) on_space_same] by simp
  show "same_but_spaces t (space_put key sp' t)" by simp
qed

lemma ask_space_ok:
  assumes "tiler_ok t"
    and "\<And>sp. space_lookup t key = Some sp \<Longrightarrow> any_ok (snd (f sp)) \<and> set (so_windows any_ops (snd (f sp))) = set (so_windows any_ops sp)"
  shows "tiler_ok (snd (ask_space key f absent t))" and "same_but_spaces t (snd (ask_space key f absent t))"
  using assms space_put_ok [OF assms(1)] by (auto simp: ask_space_def case_prod_unfold Let_def split: option.split)

lemma resize_space_ok:
  assumes "tiler_ok t" "resize_space key f t = Some (calls, t')"
    and "\<And>sp c sp'. space_lookup t key = Some sp \<Longrightarrow> f sp = Some (c, sp') \<Longrightarrow> any_ok sp' \<and> set (so_windows any_ops sp') = set (so_windows any_ops sp)"
  shows "tiler_ok t'" and "same_but_spaces t t'"
proof -
  have "tiler_ok t' \<and> same_but_spaces t t'"
  proof (cases "space_lookup t key")
    case None
    then show ?thesis using assms by (simp add: resize_space_def)
  next
    case (Some sp)
    then obtain c sp' where f: "f sp = Some (c, sp')" "t' = space_put key sp' t" using assms(2) by (auto simp: resize_space_def)
    with assms(3) [OF Some f(1)] space_put_ok [OF assms(1) Some, of sp'] show ?thesis by simp
  qed
  then show "tiler_ok t'" "same_but_spaces t t'" by auto
qed

lemma any_scroll: "any_ok (Scroll_space ss) = scroll_ok ss" "so_windows any_ops (Scroll_space ss) = ss_windows ss"
  by (simp_all add: any_ok_def any_ops_def sp_read_def scroll_ops_def)

lemma on_strip_ok:
  assumes "tiler_ok t" "\<And>ss. scroll_ok ss \<Longrightarrow> keeps_windows ss (snd (f ss))"
  shows "tiler_ok (snd (on_strip key f t))" and "same_but_spaces t (snd (on_strip key f t))"
proof -
  show "tiler_ok (snd (on_strip key f t))" unfolding on_strip_def
  proof (rule on_space_ok [OF assms(1)])
    fix sp :: "nat space" assume "any_ok sp"
    then show "any_ok (snd (case sp of Scroll_space ss \<Rightarrow> apsnd Scroll_space (f ss) | _ \<Rightarrow> ([], sp))) \<and>
        set (so_windows any_ops (snd (case sp of Scroll_space ss \<Rightarrow> apsnd Scroll_space (f ss) | _ \<Rightarrow> ([], sp)))) = set (so_windows any_ops sp)"
      using assms(2) by (cases sp) (auto simp: any_scroll keeps_windows_def)
  qed
  show "same_but_spaces t (snd (on_strip key f t))" unfolding on_strip_def by (rule on_space_same)
qed

lemma neighbor_result: "any_ok sp \<Longrightarrow> any_ok (snd (so_neighbor any_ops w d sp)) \<and> so_windows any_ops (snd (so_neighbor any_ops w d sp)) = so_windows any_ops sp"
  using spaces.neighbor_law [of sp w d] by (metis prod.collapse)

lemma command_focus_ok:
  assumes "tiler_ok t"
  shows "tiler_ok (snd (command_focus d pointer dk t))" and "same_but_spaces t (snd (command_focus d pointer dk t))"
proof -
  have a: "tiler_ok (snd (ask_space key (so_neighbor any_ops w d) None t))" "same_but_spaces t (snd (ask_space key (so_neighbor any_ops w d) None t))" for key w
    using ask_space_ok [OF assms, where key = key and f = "so_neighbor any_ops w d" and absent = None]
      neighbor_result [of _ w d] in_placeD(1) [OF tiler_okD(1) [OF assms]] by simp_all
  show "tiler_ok (snd (command_focus d pointer dk t))" "same_but_spaces t (snd (command_focus d pointer dk t))"
    using assms a by (auto simp: command_focus_def case_prod_unfold Let_def split: option.split)
qed

lemma command_resize_ok:
  assumes "tiler_ok t" "command_resize d dk t = Some (calls, t')"
  shows "tiler_ok t'" and "same_but_spaces t t'"
proof -
  have "tiler_ok t' \<and> same_but_spaces t t'"
  proof (cases "\<exists>w key. dk_focus dk = Some w \<and> key_of t w = Some key \<and> \<not> dk_board dk")
    case True
    then obtain w key where r: "resize_space key (so_resize any_ops (host_of t dk) w d) t = Some (calls, t')"
      using assms(2) by (auto simp: command_resize_def)
    have k: "any_ok sp' \<and> set (so_windows any_ops sp') = set (so_windows any_ops sp)"
      if "space_lookup t key = Some sp" "so_resize any_ops (host_of t dk) w d sp = Some (c, sp')" for sp c sp'
      using spaces.resize_law [OF in_placeD(1) [OF tiler_okD(1) [OF assms(1)] that(1)] that(2)] .
    show ?thesis using resize_space_ok [OF assms(1) r k] by simp
  next
    case False
    then show ?thesis using assms by (auto simp: command_resize_def split: option.splits if_splits)
  qed
  then show "tiler_ok t'" "same_but_spaces t t'" by auto
qed

lemma in_strip_ok:
  assumes "tiler_ok t" "\<And>h w ss. scroll_ok ss \<Longrightarrow> keeps_windows ss (snd (run h w ss))"
  shows "tiler_ok (snd (in_strip run dk t))" and "same_but_spaces t (snd (in_strip run dk t))"
  using assms on_strip_ok [OF assms(1)] by (auto simp: in_strip_def split: option.split)

lemma space_on_ok:
  assumes "tiler_ok t"
  shows "tiler_ok (snd (space_on monitor dk t))" and "same_but_spaces t (snd (space_on monitor dk t))"
    and "space_lookup (snd (space_on monitor dk t)) (fst (space_on monitor dk t)) \<noteq> None"
    and "space_lookup t key = Some sp \<Longrightarrow> space_lookup (snd (space_on monitor dk t)) key = Some sp"
  using assms by (auto simp: space_on_def Let_def space_at_ok space_at_same space_at_lookup)

lemma move_to_any_ok:
  assumes "tiler_ok t" "space_lookup t target \<noteq> None"
  shows "tiler_ok (snd (move_to w target beside dk t))"
proof (cases "key_of t w = None \<or> key_of t w = Some target")
  case True
  then show ?thesis using assms(1) by (simp add: move_to_refused)
next
  case False
  then obtain source where "key_of t w = Some source" "source \<noteq> target" by auto
  then show ?thesis using move_to_ok(1) [OF assms(1) _ _ assms(2)] by blast
qed

lemma command_move_ok:
  assumes "tiler_ok t"
  shows "tiler_ok (snd (command_move d dk t))"
proof (cases "\<exists>w key. dk_focus dk = Some w \<and> key_of t w = Some key \<and> \<not> dk_board dk")
  case True
  then obtain w key where w: "dk_focus dk = Some w" "key_of t w = Some key" "\<not> dk_board dk" by auto
  define f where "f = (\<lambda>sp. case so_move any_ops (host_of t dk) w d sp of (m, c, sp') \<Rightarrow> ((m, c), sp'))"
  define r where "r = ask_space key f (False, []) t"
  have r: "tiler_ok (snd r)" unfolding r_def
  proof (rule ask_space_ok [OF assms])
    fix sp assume "space_lookup t key = Some sp"
    then have "any_ok sp" using in_placeD(1) [OF tiler_okD(1) [OF assms]] by simp
    moreover obtain m c sp' where "so_move any_ops (host_of t dk) w d sp = (m, c, sp')" using prod_cases3 by blast
    ultimately show "any_ok (snd (f sp)) \<and> set (so_windows any_ops (snd (f sp))) = set (so_windows any_ops sp)"
      using spaces.move_law unfolding f_def by fastforce
  qed
  obtain m c t1 where rr: "r = ((m, c), t1)" by (metis prod.collapse)
  show ?thesis
    using w r move_to_any_ok [OF space_on_ok(1) [OF r] space_on_ok(3) [OF r]]
    by (simp add: command_move_def f_def [symmetric] r_def [symmetric] rr)
      (simp add: case_prod_unfold Let_def split: option.split)
next
  case False
  then show ?thesis using assms by (auto simp: command_move_def split: option.split)
qed

lemma focused_strip_ok:
  assumes "tiler_ok t"
  shows "tiler_ok (snd (focused_strip pointer dk t))" and "same_but_spaces t (snd (focused_strip pointer dk t))"
  using assms space_on_ok [OF assms] by (auto simp: focused_strip_def case_prod_unfold Let_def split: option.split)

lemma command_focus_edge_ok:
  assumes "tiler_ok t"
  shows "tiler_ok (snd (command_focus_edge at_end pointer dk t))" and "same_but_spaces t (snd (command_focus_edge at_end pointer dk t))"
  using focused_strip_ok [OF assms] by (simp_all add: command_focus_edge_def case_prod_unfold Let_def)

section \<open>So do drags, swipes and the overview\<close>

lemma held_frame [simp]: "tiler_ok (t\<lparr>tr_held := x\<rparr>) = tiler_ok t" "key_of (t\<lparr>tr_held := x\<rparr>) = key_of t"
  "space_lookup (t\<lparr>tr_held := x\<rparr>) = space_lookup t"
  by (simp_all add: tiler_ok_def record_ok_def in_place_def key_of_def tracked_of_def space_lookup_def fun_eq_iff)

lemma drop_in_ok:
  assumes "tiler_ok t" "key_of t w = Some key"
  shows "tiler_ok (snd (on_space key (so_drop any_ops h w onto) t))"
proof -
  obtain sp where sp: "space_lookup t key = Some sp" using in_placeD(3) [OF tiler_okD(1) [OF assms(1)] assms(2)] by blast
  have ok: "any_ok sp" "w \<in> set (so_windows any_ops sp)" using in_placeD(1,2) [OF tiler_okD(1) [OF assms(1)] sp] assms(2) by simp_all
  show ?thesis using space_put_ok(1) [OF assms(1) sp] spaces.drop_law [OF ok] sp
    by (simp add: on_space_def case_prod_unfold Let_def)
qed

lemma drag_drop_ok:
  assumes "tiler_ok t"
  shows "tiler_ok (snd (drag_drop w keyboard pointer dk t))"
proof (cases "key_of t w")
  case (Some key)
  define point where "point = (if keyboard then (b_x (wi_frame (info dk w)) + b_w (wi_frame (info dk w)) / 2,
    b_y (wi_frame (info dk w)) + b_h (wi_frame (info dk w)) / 2) else pointer)"
  define found where "found = (case find_index (\<lambda>b. contains b (fst point) (snd point)) (dk_monitors dk) of
    None \<Rightarrow> (key, t) | Some monitor \<Rightarrow> space_on monitor dk t)"
  obtain target t1 where f: "found = (target, t1)" by fastforce
  have t1: "tiler_ok t1" "key_of t1 w = Some key" "space_lookup t1 target \<noteq> None"
    using f assms Some space_on_ok [OF assms] sameD(5) [OF space_on_ok(2) [OF assms]] in_placeD(3) [OF tiler_okD(1) [OF assms] Some]
    by (auto simp: found_def split: option.splits)
      (metis fst_conv snd_conv)+
  note k = drop_in_ok [OF t1(1,2)] move_to_any_ok [OF t1(1,3)] arrange_ok [OF t1(1)]
  show ?thesis
    using Some k unfolding drag_drop_def point_def [symmetric] Let_def
    by (simp add: point_def [symmetric] found_def [symmetric] f case_prod_unfold split: option.split)
qed (simp add: drag_drop_def assms)

lemma then_arrange_ok: "tiler_ok (snd r) \<Longrightarrow> tiler_ok (snd (then_do r (\<lambda>t. case key_of t w of None \<Rightarrow> ([], t) | Some key \<Rightarrow> arrange key True dk t)))"
  by (simp add: arrange_ok split: option.split)

lemma drag_end_ok:
  assumes "tiler_ok t"
  shows "tiler_ok (snd (snd (drag_end window op pointer dk g t)))"
proof (cases window)
  case (Some w)
  define gr where "gr = (if dg_moving g = Some w
    then (g\<lparr>dg_moving := None\<rparr>, drag_drop w (op = Keyboard_moving) pointer dk (t\<lparr>tr_held := None\<rparr>)) else (g, [], t))"
  have r: "tiler_ok (snd (snd gr))"
    using assms drag_drop_ok [of "t\<lparr>tr_held := None\<rparr>"] by (simp add: gr_def)
  obtain g1 r1 where gr: "gr = (g1, r1)" by (cases gr)
  show ?thesis using r then_arrange_ok [where r = r1] unfolding drag_end_def Some by (simp add: gr_def [symmetric] gr)
qed (simp add: drag_end_def assms)

lemma flush_resize_ok:
  assumes "tiler_ok t" "flush_resize dk g t = Some (g', calls, t')"
  shows "tiler_ok t'" and "same_but_spaces t t'" and "dg_moving g' = dg_moving g"
proof -
  have "tiler_ok t' \<and> same_but_spaces t t' \<and> dg_moving g' = dg_moving g"
  proof (cases "\<exists>w key. dg_resizing g = Some (w, True) \<and> key_of t w = Some key")
    case True
    then obtain w key where r: "resize_space key (so_resized any_ops (host_of t dk) w (wi_frame (info dk w))) t = Some (calls, t')"
      and g: "g' = g\<lparr>dg_resizing := Some (w, False)\<rparr>"
      using assms(2) by (auto simp: flush_resize_def)
    have k: "any_ok sp' \<and> set (so_windows any_ops sp') = set (so_windows any_ops sp)"
      if "space_lookup t key = Some sp" "so_resized any_ops (host_of t dk) w (wi_frame (info dk w)) sp = Some (c, sp')" for sp c sp'
      using spaces.resized_law [OF in_placeD(1) [OF tiler_okD(1) [OF assms(1)] that(1)] that(2)] .
    show ?thesis using resize_space_ok [OF assms(1) r k] g by simp
  next
    case False
    then show ?thesis using assms by (auto simp: flush_resize_def Let_def split: option.splits prod.splits bool.splits)
  qed
  then show "tiler_ok t'" "same_but_spaces t t'" "dg_moving g' = dg_moving g" by auto
qed

lemma strip_call_ok:
  assumes "tiler_ok t" "\<And>ss. scroll_ok ss \<Longrightarrow> keeps_windows ss (snd (f ss))"
  shows "tiler_ok (snd (strip_call key f t))" and "same_but_spaces t (snd (strip_call key f t))"
  using assms on_strip_ok [OF assms(1)] by (auto simp: strip_call_def split: option.split)

lemma swipe_follow_ok:
  assumes "tiler_ok t"
  shows "tiler_ok (snd (snd (swipe_follow ev dk s t)))" and "same_but_spaces t (snd (snd (swipe_follow ev dk s t)))"
  using strip_call_ok [OF assms swipe_keeps, where key = "sw_space s"]
  by (simp_all add: swipe_follow_def Let_def)

lemma swipe_choose_ok:
  assumes "tiler_ok t"
  shows "tiler_ok (snd (snd (swipe_choose ev dk s t)))" and "same_but_spaces t (snd (snd (swipe_choose ev dk s t)))"
proof -
  define t1 where "t1 = snd (strip_call (sw_space s) (\<lambda>ss. ([], begin_swipe (host_of t dk) ss)) t)"
  have t1: "tiler_ok t1" "same_but_spaces t t1" unfolding t1_def
    by (rule strip_call_ok [OF assms], simp add: begin_swipe_keeps)+
  show "tiler_ok (snd (snd (swipe_choose ev dk s t)))" "same_but_spaces t (snd (snd (swipe_choose ev dk s t)))"
    using assms swipe_follow_ok [OF t1(1)] same_trans [OF t1(2) swipe_follow_ok(2) [OF t1(1)]]
    by (simp_all add: swipe_choose_def Let_def case_prod_unfold t1_def)
qed

lemma swipe_release_ok:
  assumes "tiler_ok t"
  shows "tiler_ok (snd (snd (swipe_release dk s t)))" and "same_but_spaces t (snd (snd (swipe_release dk s t)))"
proof -
  define f where "f = (\<lambda>sp. case sp of
      Scroll_space ss \<Rightarrow> (case end_swipe (host_of t dk) (swipe_velocity (sw_samples s)) ss of (w, c, ss') \<Rightarrow> ((w, c), Scroll_space ss'))
    | _ \<Rightarrow> ((None, []), sp))"
  have f: "any_ok (snd (f sp)) \<and> set (so_windows any_ops (snd (f sp))) = set (so_windows any_ops sp)" if "any_ok sp" for sp
  proof (cases sp)
    case (Scroll_space ss)
    then have "keeps_windows ss (snd (snd (end_swipe (host_of t dk) (swipe_velocity (sw_samples s)) ss)))"
      using that by (intro end_swipe_keeps) (simp add: any_scroll)
    then show ?thesis using Scroll_space by (simp add: f_def case_prod_unfold any_scroll keeps_windows_def)
  qed (use that in \<open>simp_all add: f_def\<close>)
  note a = ask_space_ok [OF assms f [OF in_placeD(1) [OF tiler_okD(1) [OF assms]]], where absent = "(None, [])"]
  show "tiler_ok (snd (snd (swipe_release dk s t)))" "same_but_spaces t (snd (snd (swipe_release dk s t)))"
    using assms a unfolding swipe_release_def Let_def f_def [symmetric]
    by (auto simp: case_prod_unfold split: option.split)
qed

lemma swipe_handle_ok:
  assumes "tiler_ok t"
  shows "tiler_ok (snd (snd (snd (swipe_handle strip_at enabled ev dk s t))))"
    and "same_but_spaces t (snd (snd (snd (swipe_handle strip_at enabled ev dk s t))))"
  using assms swipe_release_ok [OF assms] swipe_choose_ok [OF assms] swipe_follow_ok [OF assms]
  by (simp_all add: swipe_handle_def Let_def case_prod_unfold)

lemma overview_close_ok:
  assumes "tiler_ok t"
  shows "tiler_ok (snd (snd (overview_close dk o' t)))" and "same_but_spaces t (snd (snd (overview_close dk o' t)))"
  using assms on_strip_ok [OF assms ss_zoom_keeps] by (simp_all add: overview_close_def split: option.split)

lemma overview_pick_ok:
  assumes "tiler_ok t"
  shows "tiler_ok (snd (snd (overview_pick window dk o' t)))" and "same_but_spaces t (snd (snd (overview_pick window dk o' t)))"
  using overview_close_ok [OF assms] by (simp_all add: overview_pick_def Let_def case_prod_unfold)

lemma overview_toggle_ok:
  assumes "tiler_ok t"
  shows "tiler_ok (snd (snd (overview_toggle key dk o' t)))" and "same_but_spaces t (snd (snd (overview_toggle key dk o' t)))"
  using assms overview_pick_ok [OF assms] on_strip_ok [OF assms ss_zoom_keeps]
  by (simp_all add: overview_toggle_def overview_show_def case_prod_unfold split: option.split)

lemma overview_click_ok:
  assumes "tiler_ok t"
  shows "tiler_ok (snd (snd (overview_click x y dk o' t)))" and "same_but_spaces t (snd (snd (overview_click x y dk o' t)))"
  using overview_pick_ok [OF assms] by (simp_all add: overview_click_def)

section \<open>Tiling\<close>

text \<open>\<^verbatim>\<open>Tiling\<close> owns the parts.  The strip a swipe or the overview holds is named by its place.\<close>

record desktop =
  de_tiler :: tiler
  de_drag :: drag
  de_swipe :: strip_swipe
  de_overview :: overview
  de_keys :: "binding list"

definition new_desktop :: desktop where
  "new_desktop = \<lparr>de_tiler = new_tiler, de_drag = new_drag, de_swipe = new_swipe,
    de_overview = \<lparr>ov_space = None, ov_return_to = None\<rparr>, de_keys = []\<rparr>"

datatype desktop_call =
    Tiler_call tiler_call
  | Remove_key string
  | Add_key string

type_synonym reaction = "desktop_call list \<times> desktop"

definition with_tiler :: "desktop \<Rightarrow> handled \<Rightarrow> reaction" where
  "with_tiler s r = (map Tiler_call (fst r), s\<lparr>de_tiler := snd r\<rparr>)"

definition with_overview :: "desktop \<Rightarrow> overview \<times> handled \<Rightarrow> reaction" where
  "with_overview s r = (map Tiler_call (fst (snd r)), s\<lparr>de_overview := fst r, de_tiler := snd (snd r)\<rparr>)"

text \<open>\<^verbatim>\<open>stripAt\<close>: the strip of the monitor a point is on.\<close>

definition strip_at :: "number \<times> number \<Rightarrow> desk \<Rightarrow> tiler \<Rightarrow> (space_key \<times> bool) option \<times> tiler" where
  "strip_at point dk t =
    (case find_index (\<lambda>b. contains b (fst point) (snd point)) (dk_monitors dk) of
      None \<Rightarrow> (None, t)
    | Some monitor \<Rightarrow>
        (let (key, t') = space_on monitor dk t in (map_option (\<lambda>ss. (key, ss_zoomed ss)) (strip_of t' key), t')))"

definition owns_swipe :: "number \<times> number \<Rightarrow> bool \<Rightarrow> desk \<Rightarrow> tiler \<Rightarrow> bool \<times> tiler" where
  "owns_swipe point interactive dk t =
    (if tr_mode t = Scrolling \<and> interactive then (let (found, t') = strip_at point dk t in (found \<noteq> None, t')) else (False, t))"

text \<open>\<^verbatim>\<open>touchpad\<close>: \<open>interactive\<close> is that the user can interact and the board is not shown.\<close>

definition touchpad :: "bool \<Rightarrow> swipe_event \<Rightarrow> desk \<Rightarrow> desktop \<Rightarrow> bool \<times> reaction" where
  "touchpad interactive ev dk s =
    (let enabled = (tr_mode (de_tiler s) = Scrolling \<and> interactive);
         (found, t) = (if ev_phase ev = Swipe_begin \<and> ev_fingers ev = FINGERS \<and> enabled then strip_at (ev_point ev) dk (de_tiler s)
           else (None, de_tiler s));
         (taken, swipe', r) = swipe_handle (\<lambda>_. found) enabled ev dk (de_swipe s) t
     in (taken, with_tiler (s\<lparr>de_swipe := swipe'\<rparr>) r))"

text \<open>\<^verbatim>\<open>modeChanged\<close>.  The overview then closes on the strip it was opened on, which the tiler has left: what
  is drawn is drawn from the state that strip was left in.\<close>

definition left_strip :: "tiling_mode \<Rightarrow> space_key \<Rightarrow> desk \<Rightarrow> tiler \<Rightarrow> nat scroll_space option" where
  "left_strip mode key dk t =
    map_option (\<lambda>ss. snd (ss_suspend ss)) (strip_of (if mode = Off then snd (release_all dk t) else t) key)"

definition mode_changed :: "tiling_mode \<Rightarrow> nat scroll_space option \<Rightarrow> desk \<Rightarrow> desktop \<Rightarrow> reaction" where
  "mode_changed mode left dk s =
    (let closing = (case left of None \<Rightarrow> [] | Some ss \<Rightarrow> fst (ss_zoom (host_of (de_tiler s) dk) False ss));
         (removed, added, keys) = keys_engage mode (de_keys s);
         (g, t) = (if mode = Off then drag_off (de_drag s) (de_tiler s) else (de_drag s, de_tiler s))
     in (map (\<lambda>c. Tiler_call (Scene c)) closing @ map Remove_key removed @ map Add_key added,
         s\<lparr>de_tiler := t, de_drag := g, de_overview := (de_overview s)\<lparr>ov_space := None\<rparr>, de_keys := keys\<rparr>))"

definition desk_engage :: "tiling_mode \<Rightarrow> desk \<Rightarrow> desktop \<Rightarrow> reaction" where
  "desk_engage mode dk s =
    (let (calls, s1) = with_tiler s (engage mode dk (de_tiler s)) in
     if mode = tr_mode (de_tiler s) then (calls, s1)
     else
      (let left = Option.bind (ov_space (de_overview s)) (\<lambda>key. left_strip mode key dk (de_tiler s));
           (more, s2) = mode_changed mode left dk s1
       in (calls @ more, s2)))"

definition desk_preference :: "tiling_key \<Rightarrow> desk \<Rightarrow> desktop \<Rightarrow> reaction" where
  "desk_preference key dk s =
    (if key = Window_tiling then desk_engage (pf_mode (dk_preferences dk)) dk s
     else with_tiler s (preference_changed key dk (de_tiler s)))"

text \<open>The file of floating apps was read, and the mode is taken up.\<close>

definition desk_loaded :: "string list option \<Rightarrow> desk \<Rightarrow> desktop \<Rightarrow> reaction" where
  "desk_loaded saved dk s =
    desk_engage (pf_mode (dk_preferences dk)) dk
      (s\<lparr>de_tiler := (de_tiler s)\<lparr>tr_memory := memory_loaded saved (tr_memory (de_tiler s))\<rparr>\<rparr>)"

definition desk_saved :: "desktop \<Rightarrow> reaction" where
  "desk_saved s = ([], s\<lparr>de_tiler := (de_tiler s)\<lparr>tr_memory := memory_saved (tr_memory (de_tiler s))\<rparr>\<rparr>)"

definition desk_monitors :: "desk \<Rightarrow> desktop \<Rightarrow> reaction" where
  "desk_monitors dk s =
    (let (calls, s1) = with_overview s (overview_close dk (de_overview s) (de_tiler s));
         (more, s2) = with_tiler s1 (monitors_changed dk (de_tiler s1))
     in (calls @ more, s2))"

definition desk_destroy :: "desk \<Rightarrow> desktop \<Rightarrow> reaction" where
  "desk_destroy dk s =
    (let (calls, s1) = with_overview s (overview_close dk (de_overview s) (de_tiler s));
         (removed, keys) = keys_release (de_keys s1);
         (g, t) = drag_off (de_drag s1) (de_tiler s1);
         (more, s2) = with_tiler (s1\<lparr>de_keys := keys, de_drag := g\<rparr>) (engage Off dk t)
     in (calls @ map Remove_key removed @ more, s2))"

text \<open>What a binding runs.\<close>

definition press :: "binding \<Rightarrow> number \<times> number \<Rightarrow> desk \<Rightarrow> desktop \<Rightarrow> reaction option" where
  "press key pointer dk s =
    (let t = de_tiler s in
     case key of
       Key_focus d \<Rightarrow> Some (with_tiler s (command_focus d pointer dk t))
     | Key_move d \<Rightarrow> Some (with_tiler s (command_move d dk t))
     | Key_resize d \<Rightarrow> map_option (with_tiler s) (command_resize d dk t)
     | Key_toggle_floating \<Rightarrow> Some (with_tiler s (command_toggle_floating dk t))
     | Key_cycle_width \<Rightarrow> Some (with_tiler s (command_cycle_width dk t))
     | Key_center \<Rightarrow> Some (with_tiler s (command_center dk t))
     | Key_maximize \<Rightarrow> Some (with_tiler s (command_maximize_column dk t))
     | Key_expand \<Rightarrow> Some (with_tiler s (command_expand_column dk t))
     | Key_focus_edge at_end \<Rightarrow> Some (with_tiler s (command_focus_edge at_end pointer dk t))
     | Key_move_edge at_end \<Rightarrow> Some (with_tiler s (command_move_to_edge at_end dk t))
     | Key_overview \<Rightarrow> (let (key, t') = focused_strip pointer dk t in Some (with_overview s (overview_toggle key dk (de_overview s) t')))
     | Key_stack right \<Rightarrow> Some (with_tiler s (command_stack (if right then 1 else - 1) dk t)))"

end
