(* ===== verification/Tiling_Machine.thy ===== *)
theory Tiling_Machine
  imports Tiling_Session
begin

text \<open>
  Everything the compositor, the settings and the user can do to the tiling desktop, as one step
  relation, and the invariant of every state it reaches: windows are where their records say, nothing
  is left tiled while tiling is off, the window held is the one being dragged, and the keys bound
  are those of the mode.
\<close>

section \<open>What handlers leave alone\<close>

named_theorems mode_frames

lemma same_spaces_mode: "same_but_spaces t t' \<Longrightarrow> tr_mode t' = tr_mode t \<and> tr_held t' = tr_held t"
  by (simp add: sameD)

lemma space_mode [mode_frames]:
  "tr_mode (space_at key dk t) = tr_mode t" "tr_held (space_at key dk t) = tr_held t"
  "tr_mode (snd (on_space key f t)) = tr_mode t" "tr_held (snd (on_space key f t)) = tr_held t"
  "tr_mode (snd (arrange key animate dk t)) = tr_mode t" "tr_held (snd (arrange key animate dk t)) = tr_held t"
  "tr_mode (snd (arrange_all animate dk t)) = tr_mode t" "tr_held (snd (arrange_all animate dk t)) = tr_held t"
  "tr_mode (snd (focus_changed dk t)) = tr_mode t" "tr_held (snd (focus_changed dk t)) = tr_held t"
  "tr_mode (snd (suspend_all t)) = tr_mode t" "tr_held (snd (suspend_all t)) = tr_held t"
  using same_spaces_mode [OF space_at_same] same_spaces_mode [OF on_space_same] same_spaces_mode [OF arrange_same]
    same_spaces_mode [OF arrange_all_same] same_spaces_mode [OF focus_changed_same] same_spaces_mode [OF suspend_all_same]
  by auto

lemma each_mode:
  assumes "\<And>e t. tr_mode (snd (f e t)) = tr_mode t \<and> tr_held (snd (f e t)) = tr_held t"
  shows "tr_mode (snd (do_each f es t)) = tr_mode t" and "tr_held (snd (do_each f es t)) = tr_held t"
  using assms by (induction es arbitrary: t) auto

lemma set_tracked_mode [mode_frames]: "tr_mode (set_tracked w r t) = tr_mode t" "tr_held (set_tracked w r t) = tr_held t"
  "tr_mode (settled w t) = tr_mode t" "tr_held (settled w t) = tr_held t"
  by (simp_all add: set_tracked_def settled_def)

lemma attach_mode [mode_frames]:
  "tr_mode (snd (attach w beside dk t)) = tr_mode t" "tr_held (snd (attach w beside dk t)) = tr_held t"
  "tr_mode (snd (attach_arranged w beside dk t)) = tr_mode t" "tr_held (snd (attach_arranged w beside dk t)) = tr_held t"
  "tr_mode (snd (detach w key t)) = tr_mode t" "tr_held (snd (detach w key t)) = tr_held t"
  by (simp_all add: attach_def attach_arranged_def detach_def case_prod_unfold Let_def mode_frames)

lemma classify_mode [mode_frames]:
  "tr_mode (snd (classify w beside floated unstretched dk t)) = tr_mode t" "tr_held (snd (classify w beside floated unstretched dk t)) = tr_held t"
  by (simp_all add: classify_def case_prod_unfold Let_def mode_frames)

lemma track_mode [mode_frames]:
  "tr_mode (snd (track w first beside dk t)) = tr_mode t" "tr_held (snd (track w first beside dk t)) = tr_held t"
  by (simp_all add: track_def Let_def mode_frames)

lemma handler_mode [mode_frames]:
  "tr_mode (snd (move_to w target beside dk t)) = tr_mode t" "tr_held (snd (move_to w target beside dk t)) = tr_held t"
  "tr_mode (snd (configured w dk t)) = tr_mode t" "tr_held (snd (configured w dk t)) = tr_held t"
  "tr_mode (snd (untrack w dk t)) = tr_mode t" "tr_held (snd (untrack w dk t)) = tr_held t"
  "tr_mode (snd (toggle_floating w dk t)) = tr_mode t" "tr_held (snd (toggle_floating w dk t)) = tr_held t"
  "tr_mode (snd (nature_changed w dk t)) = tr_mode t" "tr_held (snd (nature_changed w dk t)) = tr_held t"
  "tr_mode (snd (minimized_changed w dk t)) = tr_mode t" "tr_held (snd (minimized_changed w dk t)) = tr_held t"
  by (simp_all add: move_to_def configured_def untrack_def toggle_floating_def nature_changed_def minimized_changed_def
    case_prod_unfold Let_def mode_frames split: option.split)

lemma first_shown_mode [mode_frames]:
  "tr_mode (snd (first_shown w dk t)) = tr_mode t" "tr_held (snd (first_shown w dk t)) = tr_held t"
  by (simp_all add: first_shown_def case_prod_unfold Let_def mode_frames split: option.split)

lemma change_mode [mode_frames]:
  "tr_mode (snd (home_changed w dk t)) = tr_mode t" "tr_held (snd (home_changed w dk t)) = tr_held t"
  "tr_mode (snd (size_changed w dk t)) = tr_mode t" "tr_held (snd (size_changed w dk t)) = tr_held t"
  "tr_mode (snd (stretch_changed w dk t)) = tr_mode t" "tr_held (snd (stretch_changed w dk t)) = tr_held t"
  by (simp_all add: home_changed_def size_changed_def stretch_changed_def case_prod_unfold Let_def mode_frames split: option.split)

lemma board_mode [mode_frames]: "tr_mode (snd (sync_board dk t)) = tr_mode t" "tr_held (snd (sync_board dk t)) = tr_held t"
  by (simp_all add: sync_board_def Let_def mode_frames each_mode)

lemma reattach_mode [mode_frames]: "tr_mode (reattach dk w t) = tr_mode t" "tr_held (reattach dk w t) = tr_held t"
  by (simp_all add: reattach_def mode_frames split: option.split)

lemma rebuild_mode [mode_frames]: "tr_mode (snd (rebuild dk t)) = tr_mode t" "tr_held (snd (rebuild dk t)) = tr_held t"
  by (simp_all add: rebuild_def Let_def mode_frames each_mode)

lemma release_all_mode [mode_frames]: "tr_mode (snd (release_all dk t)) = tr_mode t" "tr_held (snd (release_all dk t)) = tr_held t"
  unfolding release_all_def by (rule each_mode, simp add: case_prod_unfold mode_frames split: option.split)+

lemma engage_mode [mode_frames]: "tr_mode (snd (engage mode dk t)) = mode" "tr_held (snd (engage mode dk t)) = tr_held t"
  by (auto simp: engage_def Let_def mode_frames disengage_def start_tiling_def each_mode)

lemma monitors_changed_mode [mode_frames]:
  "tr_mode (snd (monitors_changed dk t)) = tr_mode t" "tr_held (snd (monitors_changed dk t)) = tr_held t"
  by (simp_all add: monitors_changed_def mode_frames)

lemma command_mode [mode_frames]:
  "tr_mode (snd (space_on monitor dk t)) = tr_mode t" "tr_held (snd (space_on monitor dk t)) = tr_held t"
  "tr_mode (snd (ask_space key g absent t)) = tr_mode t" "tr_held (snd (ask_space key g absent t)) = tr_held t"
  by (simp_all add: space_on_def ask_space_def case_prod_unfold Let_def mode_frames split: option.split)

lemma commands_mode [mode_frames]:
  "tr_mode (snd (command_move d dk t)) = tr_mode t" "tr_held (snd (command_move d dk t)) = tr_held t"
  "tr_mode (snd (command_toggle_floating dk t)) = tr_mode t" "tr_held (snd (command_toggle_floating dk t)) = tr_held t"
  "tr_mode (snd (drag_drop w keyboard pointer dk t)) = tr_mode t" "tr_held (snd (drag_drop w keyboard pointer dk t)) = tr_held t"
  by (simp_all add: command_move_def command_toggle_floating_def drag_drop_def case_prod_unfold Let_def mode_frames split: option.split)

section \<open>Steps\<close>

text \<open>\<open>True\<close> for a touchpad event: the user can interact and the board is not shown.\<close>

datatype happening =
    Window_created nat
  | First_configured nat
  | First_shown nat
  | Effects_completed nat
  | Unmanaging nat
  | Minimized_changed nat
  | Workspace_changed nat
  | Stretch_changed nat
  | Size_changed nat
  | Nature_changed nat
  | Focus_changed
  | Work_areas_changed
  | Restacked
  | Workspace_removed
  | Preference_changed tiling_key
  | Memory_loaded "string list option"
  | Memory_saved
  | Monitors_changed
  | Board_changed
  | Touched bool swipe_event
  | Pressed binding "number \<times> number"
  | Grab_begun "nat option" grab
  | Grab_ended "nat option" grab "number \<times> number"
  | Grab_resized
  | Before_redraw
  | Overview_clicked number number
  | Overview_left
  | Destroyed

text \<open>Which signals are connected: those of the display while a mode is on, those of a window while it is
  tracked, those of the shield while the overview is open.  A window is focused only once it was configured,
  a mode changes and monitors change between swipes, and files are read and written once.\<close>

definition tiling_on :: "desktop \<Rightarrow> bool" where
  "tiling_on s \<longleftrightarrow> tr_mode (de_tiler s) \<noteq> Off"

definition can_happen :: "happening \<Rightarrow> desk \<Rightarrow> desktop \<Rightarrow> bool" where
  "can_happen ev dk s =
    (case ev of
      Window_created w \<Rightarrow> tiling_on s
    | Effects_completed w \<Rightarrow> True
    | Focus_changed \<Rightarrow> tiling_on s
    | Work_areas_changed \<Rightarrow> tiling_on s
    | Restacked \<Rightarrow> tiling_on s
    | Workspace_removed \<Rightarrow> tiling_on s
    | Preference_changed key \<Rightarrow> sw_mode (de_swipe s) \<in> {Idle, Ignored}
    | Memory_loaded saved \<Rightarrow> sw_mode (de_swipe s) \<in> {Idle, Ignored}
    | Memory_saved \<Rightarrow> fm_saving (tr_memory (de_tiler s))
    | Monitors_changed \<Rightarrow> sw_mode (de_swipe s) \<in> {Idle, Ignored}
    | Board_changed \<Rightarrow> True
    | Touched interactive ev \<Rightarrow> True
    | Pressed key pointer \<Rightarrow> key \<in> set (de_keys s) \<and>
        (\<forall>w r. dk_focus dk = Some w \<and> tracked_of (de_tiler s) w = Some r \<longrightarrow> \<not> tk_configuring r)
    | Grab_begun window op \<Rightarrow> tiling_on s
    | Grab_ended window op pointer \<Rightarrow> tiling_on s
    | Grab_resized \<Rightarrow> dg_resizing (de_drag s) \<noteq> None
    | Before_redraw \<Rightarrow> tiling_on s
    | Overview_clicked x y \<Rightarrow> ov_space (de_overview s) \<noteq> None
    | Overview_left \<Rightarrow> ov_space (de_overview s) \<noteq> None
    | Destroyed \<Rightarrow> sw_mode (de_swipe s) \<in> {Idle, Ignored}
    | First_configured w \<Rightarrow> tracked_of (de_tiler s) w \<noteq> None
    | First_shown w \<Rightarrow> tracked_of (de_tiler s) w \<noteq> None
    | Unmanaging w \<Rightarrow> tracked_of (de_tiler s) w \<noteq> None
    | Minimized_changed w \<Rightarrow> tracked_of (de_tiler s) w \<noteq> None
    | Workspace_changed w \<Rightarrow> tracked_of (de_tiler s) w \<noteq> None
    | Stretch_changed w \<Rightarrow> tracked_of (de_tiler s) w \<noteq> None
    | Size_changed w \<Rightarrow> tracked_of (de_tiler s) w \<noteq> None
    | Nature_changed w \<Rightarrow> tracked_of (de_tiler s) w \<noteq> None)"

text \<open>What happens then; \<open>None\<close> where a resize breaks the weights of a space.\<close>

definition react :: "happening \<Rightarrow> desk \<Rightarrow> desktop \<Rightarrow> reaction option" where
  "react ev dk s =
    (let t = de_tiler s; quiet = (\<lambda>t'. Some ([], s\<lparr>de_tiler := t'\<rparr>)); did = (\<lambda>r. Some (with_tiler s r)) in
     case ev of
      Window_created w \<Rightarrow> did (created w dk t)
    | First_configured w \<Rightarrow> did (configured w dk t)
    | First_shown w \<Rightarrow> did (first_shown w dk t)
    | Effects_completed w \<Rightarrow> quiet (settled w t)
    | Unmanaging w \<Rightarrow> did (untrack w dk t)
    | Minimized_changed w \<Rightarrow> did (minimized_changed w dk t)
    | Workspace_changed w \<Rightarrow> did (home_changed w dk t)
    | Stretch_changed w \<Rightarrow> did (stretch_changed w dk t)
    | Size_changed w \<Rightarrow> did (size_changed w dk t)
    | Nature_changed w \<Rightarrow> did (nature_changed w dk t)
    | Focus_changed \<Rightarrow> did (focus_changed dk t)
    | Work_areas_changed \<Rightarrow> did (arrange_all True dk t)
    | Restacked \<Rightarrow> did (keep_floating_above dk t, t)
    | Workspace_removed \<Rightarrow> did (prune_spaces dk t)
    | Preference_changed key \<Rightarrow> Some (desk_preference key dk s)
    | Memory_loaded saved \<Rightarrow> Some (desk_loaded saved dk s)
    | Memory_saved \<Rightarrow> Some (desk_saved s)
    | Monitors_changed \<Rightarrow> Some (desk_monitors dk s)
    | Board_changed \<Rightarrow> did (sync_board dk t)
    | Touched interactive ev \<Rightarrow> Some (snd (touchpad interactive ev dk s))
    | Pressed key pointer \<Rightarrow> press key pointer dk s
    | Grab_begun window op \<Rightarrow> (let (g, t') = drag_begin window op (de_drag s) t in Some ([], s\<lparr>de_drag := g, de_tiler := t'\<rparr>))
    | Grab_ended window op pointer \<Rightarrow> (let (g, r) = drag_end window op pointer dk (de_drag s) t in Some (with_tiler (s\<lparr>de_drag := g\<rparr>) r))
    | Grab_resized \<Rightarrow> Some ([], s\<lparr>de_drag := queue_resize (de_drag s)\<rparr>)
    | Before_redraw \<Rightarrow> map_option (\<lambda>(g, r). with_tiler (s\<lparr>de_drag := g\<rparr>) r) (flush_resize dk (de_drag s) t)
    | Overview_clicked x y \<Rightarrow> Some (with_overview s (overview_click x y dk (de_overview s) t))
    | Overview_left \<Rightarrow> Some (with_overview s (overview_pick None dk (de_overview s) t))
    | Destroyed \<Rightarrow> Some (desk_destroy dk s))"

inductive desktop_step :: "desktop \<Rightarrow> happening \<Rightarrow> desktop \<Rightarrow> bool" where
  happens: "can_happen ev dk s \<Longrightarrow> react ev dk s = Some (calls, s') \<Longrightarrow> desktop_step s ev s'"

inductive desktop_reach :: "desktop \<Rightarrow> bool" where
  starts: "desktop_reach new_desktop"
| steps: "desktop_reach s \<Longrightarrow> desktop_step s ev s' \<Longrightarrow> desktop_reach s'"

inductive_cases desktop_stepE: "desktop_step s ev s'"

section \<open>What every state keeps\<close>

definition at_rest :: "tiler \<Rightarrow> bool" where
  "at_rest t \<longleftrightarrow> tr_tracked t = [] \<and> tr_spaces t = []"

definition desktop_ok :: "desktop \<Rightarrow> bool" where
  "desktop_ok s \<longleftrightarrow> tiler_ok (de_tiler s) \<and> (\<not> tiling_on s \<longrightarrow> at_rest (de_tiler s) \<and> de_drag s = new_drag) \<and>
    tr_held (de_tiler s) = dg_moving (de_drag s) \<and> de_keys s = tiling_bindings (tr_mode (de_tiler s))"

lemma at_rest_still [simp]:
  assumes "at_rest t"
  shows "space_lookup t key = None" "tracked_of t w = None" "on_space key f t = ([], t)" "ask_space key g absent t = (absent, t)"
    "on_strip key h t = ([], t)" "strip_call sk h t = ([], t)" "visible_spaces t dk = []" "all_spaces t = []"
  using assms by (simp_all add: at_rest_def space_lookup_def tracked_of_def on_space_def ask_space_def on_strip_def strip_call_def
    visible_spaces_def all_spaces_def otherwise_def split: option.split)

lemma at_rest_frame [simp]: "at_rest (t\<lparr>tr_mode := m\<rparr>) = at_rest t" "at_rest (t\<lparr>tr_held := x\<rparr>) = at_rest t"
  "at_rest (t\<lparr>tr_board_shown := b\<rparr>) = at_rest t" "at_rest (t\<lparr>tr_memory := y\<rparr>) = at_rest t" "at_rest (settled w t) = at_rest t"
  by (simp_all add: at_rest_def settled_def)

lemma swipe_rest: "at_rest t \<Longrightarrow> snd (snd (swipe_handle found enabled ev dk s t)) = ([], t) \<or> (\<exists>c. snd (snd (swipe_handle found enabled ev dk s t)) = (c, t))"
  by (simp add: swipe_handle_def swipe_release_def swipe_choose_def swipe_follow_def Let_def case_prod_unfold then_do_def split: option.split)

lemma strip_at_ok:
  assumes "tiler_ok t"
  shows "tiler_ok (snd (strip_at point dk t))" and "same_but_spaces t (snd (strip_at point dk t))"
  using assms space_on_ok [OF assms] by (simp_all add: strip_at_def case_prod_unfold Let_def split: option.split)

lemma tiler_ok_memory [simp]: "tiler_ok (t\<lparr>tr_memory := m\<rparr>) = tiler_ok t" "tiler_ok (t\<lparr>tr_mode := x\<rparr>) = tiler_ok t"
  by (simp_all add: tiler_ok_def record_ok_def in_place_def key_of_def tracked_of_def space_lookup_def)

text \<open>A handler that leaves the mode and the window held alone, while a mode is on.\<close>

lemma with_tiler_ok:
  assumes "desktop_ok s" "tiling_on s" "tiler_ok (snd r)" "tr_mode (snd r) = tr_mode (de_tiler s)" "tr_held (snd r) = tr_held (de_tiler s)"
  shows "desktop_ok (snd (with_tiler s r))" and "tiling_on (snd (with_tiler s r))"
  using assms by (simp_all add: desktop_ok_def with_tiler_def tiling_on_def)

lemma engage_off_rest: "tr_mode t \<noteq> Off \<Longrightarrow> at_rest (snd (engage Off dk t))"
  by (simp add: engage_def Let_def at_rest_def disengage_empty)

lemma desk_engage_ok:
  assumes "desktop_ok s"
  shows "desktop_ok (snd (desk_engage mode dk s))"
proof (cases "mode = tr_mode (de_tiler s)")
  case True
  then have "engage mode dk (de_tiler s) = (fst (engage mode dk (de_tiler s)), de_tiler s)" by (simp add: engage_def then_do_def)
  then show ?thesis using True assms
    by (simp add: desk_engage_def case_prod_unfold with_tiler_def Let_def) (metis snd_conv desktop.surjective desktop.update_convs(1))
next
  case False
  have e: "tiler_ok (snd (engage mode dk (de_tiler s)))" using engage_ok assms by (simp add: desktop_ok_def)
  have r: "mode = Off \<Longrightarrow> at_rest (snd (engage mode dk (de_tiler s)))" using False engage_off_rest by auto
  show ?thesis using False e r assms
    by (auto simp: desk_engage_def mode_changed_def keys_engage_def case_prod_unfold Let_def with_tiler_def desktop_ok_def drag_off_def
        new_drag_def mode_frames tiling_on_def)
qed

lemma start_tiling_on: "desktop_ok new_desktop"
  by (simp add: desktop_ok_def new_desktop_def new_tiler_def empty_ok at_rest_def new_drag_def tiling_on_def tiling_bindings_def)

lemma desk_monitors_ok:
  assumes "desktop_ok s"
  shows "desktop_ok (snd (desk_monitors dk s))"
proof -
  define r where "r = overview_close dk (de_overview s) (de_tiler s)"
  have r: "tiler_ok (snd (snd r))" "same_but_spaces (de_tiler s) (snd (snd r))"
    unfolding r_def using overview_close_ok assms by (simp_all add: desktop_ok_def)
  have "at_rest (snd (snd r))" if "at_rest (de_tiler s)" using that by (simp add: r_def overview_close_def split: option.split)
  moreover have "at_rest (snd (monitors_changed dk t))" if "at_rest t" "tr_mode t = Off" for t using that by (simp add: monitors_changed_def)
  ultimately show ?thesis using assms r monitors_changed_ok sameD [OF r(2)]
    by (simp add: desk_monitors_def r_def [symmetric] with_overview_def with_tiler_def case_prod_unfold Let_def desktop_ok_def tiling_on_def mode_frames)
qed

lemma touchpad_ok:
  assumes "desktop_ok s"
  shows "desktop_ok (snd (snd (touchpad interactive ev dk s)))"
proof -
  define enabled where "enabled = (tr_mode (de_tiler s) = Scrolling \<and> interactive)"
  define ft where "ft = (if ev_phase ev = Swipe_begin \<and> ev_fingers ev = FINGERS \<and> enabled then strip_at (ev_point ev) dk (de_tiler s)
    else (None, de_tiler s))"
  obtain found t where ft: "ft = (found, t)" by fastforce
  have t: "tiler_ok t" "same_but_spaces (de_tiler s) t"
    using assms ft strip_at_ok [of "de_tiler s" "ev_point ev" dk] by (auto simp: ft_def desktop_ok_def split: if_splits)
  have rest: "at_rest t" if "\<not> tiling_on s"
    using that assms ft by (auto simp: ft_def enabled_def tiling_on_def desktop_ok_def split: if_splits)
  define r where "r = swipe_handle (\<lambda>_. found) enabled ev dk (de_swipe s) t"
  have "at_rest (snd (snd (snd r)))" if "\<not> tiling_on s"
    using swipe_rest [OF rest [OF that], of "\<lambda>_. found" enabled ev dk "de_swipe s"] rest [OF that] unfolding r_def by auto
  moreover have "snd (snd (touchpad interactive ev dk s)) = s\<lparr>de_swipe := fst (snd r), de_tiler := snd (snd (snd r))\<rparr>"
    by (simp add: touchpad_def enabled_def [symmetric] ft_def [symmetric] ft r_def [symmetric] case_prod_unfold with_tiler_def Let_def)
  moreover have "tiler_ok (snd (snd (snd r)))" "same_but_spaces t (snd (snd (snd r)))"
    unfolding r_def using swipe_handle_ok [OF t(1)] by simp_all
  ultimately show ?thesis using assms sameD [OF same_trans [OF t(2)], of "snd (snd (snd r))"] 
    by (simp add: desktop_ok_def tiling_on_def)
qed

lemma desk_preference_ok:
  assumes "desktop_ok s"
  shows "desktop_ok (snd (desk_preference key dk s))"
proof (cases "key = Window_tiling")
  case False
  then have "tr_mode (snd (preference_changed key dk (de_tiler s))) = tr_mode (de_tiler s)"
    "tr_held (snd (preference_changed key dk (de_tiler s))) = tr_held (de_tiler s)"
    "tr_mode (de_tiler s) = Off \<Longrightarrow> preference_changed key dk (de_tiler s) = ([], de_tiler s)"
    by (simp_all add: preference_changed_def mode_frames)
  with False assms preference_changed_ok show ?thesis by (auto simp: desk_preference_def with_tiler_def desktop_ok_def tiling_on_def)
qed (use assms desk_engage_ok in \<open>simp add: desk_preference_def\<close>)

lemma desk_loaded_ok: "desktop_ok s \<Longrightarrow> desktop_ok (snd (desk_loaded saved dk s))"
  unfolding desk_loaded_def by (rule desk_engage_ok) (simp add: desktop_ok_def tiling_on_def)

lemma desk_saved_ok: "desktop_ok s \<Longrightarrow> desktop_ok (snd (desk_saved s))"
  by (simp add: desk_saved_def desktop_ok_def tiling_on_def)

lemma overview_step_ok:
  assumes "desktop_ok s" "tiler_ok (snd (snd r))" "same_but_spaces (de_tiler s) (snd (snd r))"
    and "at_rest (de_tiler s) \<Longrightarrow> at_rest (snd (snd r))"
  shows "desktop_ok (snd (with_overview s r))"
  using assms sameD [OF assms(3)] by (simp add: with_overview_def desktop_ok_def tiling_on_def)

lemma overview_rest:
  assumes "at_rest t"
  shows "at_rest (snd (snd (overview_close dk o' t)))" "at_rest (snd (snd (overview_pick window dk o' t)))" "at_rest (snd (snd (overview_click x y dk o' t)))"
  using assms by (simp_all add: overview_close_def overview_pick_def overview_click_def case_prod_unfold Let_def split: option.split)

lemma desk_destroy_ok:
  assumes "desktop_ok s"
  shows "desktop_ok (snd (desk_destroy dk s))" and "\<not> tiling_on (snd (desk_destroy dk s))"
proof -
  define r where "r = overview_close dk (de_overview s) (de_tiler s)"
  have r: "tiler_ok (snd (snd r))" "same_but_spaces (de_tiler s) (snd (snd r))" "at_rest (de_tiler s) \<Longrightarrow> at_rest (snd (snd r))"
    unfolding r_def using overview_close_ok assms overview_rest(1) by (simp_all add: desktop_ok_def)
  define t where "t = (snd (snd r))\<lparr>tr_held := None\<rparr>"
  have t: "tiler_ok t" "tr_mode t = tr_mode (de_tiler s)" using r sameD [OF r(2)] by (simp_all add: t_def)
  have "at_rest (snd (engage Off dk t))"
  proof (cases "tr_mode t = Off")
    case True
    then have "snd (engage Off dk t) = t" by (simp add: engage_def)
    moreover have "at_rest t" using True t r(3) assms by (simp add: t_def desktop_ok_def tiling_on_def)
    ultimately show ?thesis by simp
  qed (rule engage_off_rest)
  moreover have e: "de_tiler (snd (desk_destroy dk s)) = snd (engage Off dk t)" "de_drag (snd (desk_destroy dk s)) = new_drag" "de_keys (snd (desk_destroy dk s)) = []"
    by (simp_all add: desk_destroy_def r_def [symmetric] t_def with_overview_def with_tiler_def drag_off_def keys_release_def case_prod_unfold Let_def)
  ultimately show "desktop_ok (snd (desk_destroy dk s))" "\<not> tiling_on (snd (desk_destroy dk s))"
    using engage_ok [OF t(1)] by (simp_all add: desktop_ok_def tiling_on_def mode_frames t_def new_drag_def tiling_bindings_def)
qed

lemma command_toggle_ok:
  assumes "tiler_ok t" "\<And>w r. dk_focus dk = Some w \<Longrightarrow> tracked_of t w = Some r \<Longrightarrow> \<not> tk_configuring r"
  shows "tiler_ok (snd (command_toggle_floating dk t))"
  using assms toggle_floating_ok(1) [OF assms(1)] by (auto simp: command_toggle_floating_def split: option.split)

lemma press_ok:
  assumes ok: "desktop_ok s" and can: "can_happen (Pressed key pointer) dk s" and p: "press key pointer dk s = Some (calls, s')"
  shows "desktop_ok s'"
proof -
  have on: "tiling_on s" using ok can by (auto simp: can_happen_def desktop_ok_def tiling_on_def tiling_bindings_def)
  have t: "tiler_ok (de_tiler s)" using ok by (simp add: desktop_ok_def)
  have fin: "desktop_ok s'" if "with_tiler s r = (calls, s')" "tiler_ok (snd r)" "same_but_spaces (de_tiler s) (snd r)" for r
    using with_tiler_ok(1) [OF ok on that(2)] sameD [OF that(3)] that(1) by (metis snd_conv)
  have fin': "desktop_ok s'" if "with_tiler s r = (calls, s')" "tiler_ok (snd r)" "tr_mode (snd r) = tr_mode (de_tiler s)"
      "tr_held (snd r) = tr_held (de_tiler s)" for r
    using with_tiler_ok(1) [OF ok on that(2-4)] that(1) by (metis snd_conv)
  have strip: "desktop_ok s'" if "with_tiler s (in_strip run dk (de_tiler s)) = (calls, s')" "\<And>h w ss. scroll_ok ss \<Longrightarrow> keeps_windows ss (snd (run h w ss))" for run
    by (rule fin [OF that(1)]) (rule in_strip_ok [OF t], rule that(2), assumption)+
  show ?thesis
  proof (cases key)
    case (Key_focus d)
    then show ?thesis using fin [OF _ command_focus_ok [OF t]] p by (simp add: press_def Let_def)
  next
    case (Key_move d)
    then show ?thesis using fin' [OF _ command_move_ok [OF t]] p by (simp add: press_def Let_def mode_frames)
  next
    case (Key_resize d)
    then obtain c t' where r: "command_resize d dk (de_tiler s) = Some (c, t')" "with_tiler s (c, t') = (calls, s')"
      using p by (auto simp: press_def Let_def)
    then show ?thesis using fin [OF r(2)] command_resize_ok [OF t r(1)] by simp
  next
    case Key_toggle_floating
    then show ?thesis using fin' [OF _ command_toggle_ok [OF t]] p can by (auto simp: press_def Let_def mode_frames can_happen_def)
  next
    case Key_cycle_width
    then show ?thesis using strip [OF _ ss_cycle_width_keeps] p by (simp add: press_def command_cycle_width_def)
  next
    case Key_center
    then show ?thesis using strip [OF _ ss_center_keeps] p by (simp add: press_def command_center_def)
  next
    case Key_maximize
    then show ?thesis using strip [OF _ ss_maximize_keeps] p by (simp add: press_def command_maximize_column_def)
  next
    case Key_expand
    then show ?thesis using strip [OF _ ss_expand_keeps] p by (simp add: press_def command_expand_column_def)
  next
    case (Key_focus_edge at_end)
    then show ?thesis using fin [OF _ command_focus_edge_ok [OF t]] p by (simp add: press_def Let_def)
  next
    case (Key_move_edge at_end)
    then show ?thesis using strip [OF _ ss_move_to_edge_keeps] p by (simp add: press_def command_move_to_edge_def)
  next
    case Key_overview
    note f = focused_strip_ok [OF t, of pointer dk]
    have "s' = snd (with_overview s (overview_toggle (fst (focused_strip pointer dk (de_tiler s))) dk (de_overview s) (snd (focused_strip pointer dk (de_tiler s)))))"
      using p Key_overview by (simp add: press_def Let_def case_prod_unfold)
    then show ?thesis
      using overview_toggle_ok [OF f(1)] sameD [OF same_trans [OF f(2) overview_toggle_ok(2) [OF f(1)]]] ok on
      by (simp add: with_overview_def desktop_ok_def tiling_on_def)
  next
    case (Key_stack right)
    have "keeps_windows ss (snd (ss_stack h w (if right then 1 else - 1) ss))" if "scroll_ok ss" for h w and ss :: "nat scroll_space"
      using ss_stack_keeps [OF that] by simp
    with Key_stack show ?thesis using strip [where run = "\<lambda>h w. ss_stack h w (if right then 1 else - 1)"] p by (simp add: press_def command_stack_def)
  qed
qed

text \<open>A window's handler, and one of the display's.\<close>

lemma tracked_on: "desktop_ok s \<Longrightarrow> tracked_of (de_tiler s) w \<noteq> None \<Longrightarrow> tiling_on s"
  by (auto simp: desktop_ok_def)

lemma reaction_ok:
  assumes "desktop_ok s" "tiling_on s" "\<And>t. tiler_ok t \<Longrightarrow> tiler_ok (snd (f t))"
    and "\<And>t. tr_mode (snd (f t)) = tr_mode t" "\<And>t. tr_held (snd (f t)) = tr_held t"
  shows "desktop_ok (snd (with_tiler s (f (de_tiler s))))"
  using with_tiler_ok(1) [OF assms(1,2)] assms(1,3-5) by (simp add: desktop_ok_def)

lemma prune_mode: "tiler_ok t \<Longrightarrow> tr_mode (snd (prune_spaces dk t)) = tr_mode t \<and> tr_held (snd (prune_spaces dk t)) = tr_held t"
  using same_spaces_mode [OF prune_spaces_ok(2)] by blast

lemma grab_begun_ok:
  assumes "desktop_ok s" "tiling_on s" "drag_begin window op (de_drag s) (de_tiler s) = (g, t)"
  shows "desktop_ok (s\<lparr>de_drag := g, de_tiler := t\<rparr>)"
  using assms by (auto simp: drag_begin_def desktop_ok_def tiling_on_def split: option.splits if_splits)

lemma grab_ended_ok:
  assumes "desktop_ok s" "tiling_on s" "drag_end window op pointer dk (de_drag s) (de_tiler s) = (g, r)"
  shows "desktop_ok (snd (with_tiler (s\<lparr>de_drag := g\<rparr>) r))"
proof -
  have ok: "tiler_ok (snd r)" using drag_end_ok [of "de_tiler s" window op pointer dk "de_drag s"] assms by (simp add: desktop_ok_def)
  have "tr_mode (snd r) = tr_mode (de_tiler s) \<and> tr_held (snd r) = dg_moving g"
    using assms by (auto simp: drag_end_def Let_def desktop_ok_def mode_frames split: option.splits if_splits)
  with assms ok show ?thesis by (simp add: desktop_ok_def with_tiler_def tiling_on_def)
qed

lemma redraw_ok:
  assumes "desktop_ok s" "tiling_on s" "flush_resize dk (de_drag s) (de_tiler s) = Some (g, r)"
  shows "desktop_ok (snd (with_tiler (s\<lparr>de_drag := g\<rparr>) r))"
proof -
  obtain c t' where r: "r = (c, t')" by fastforce
  note f = flush_resize_ok [OF _ assms(3) [unfolded r]]
  from assms f sameD [OF f(2)] r show ?thesis by (simp add: desktop_ok_def with_tiler_def tiling_on_def)
qed

lemma queue_resize_moving: "dg_moving (queue_resize g) = dg_moving g" "queue_resize new_drag = new_drag"
  by (simp_all add: queue_resize_def new_drag_def)

lemma board_ok:
  assumes "desktop_ok s"
  shows "desktop_ok (snd (with_tiler s (sync_board dk (de_tiler s))))"
proof (cases "tiling_on s")
  case True
  then show ?thesis by (rule reaction_ok [OF assms]) (simp_all add: sync_board_ok mode_frames)
next
  case False
  then have r: "at_rest (de_tiler s)" using assms by (simp add: desktop_ok_def)
  then have "at_rest (snd (sync_board dk (de_tiler s)))" by (simp add: sync_board_def Let_def arrange_all_def)
  with False assms sync_board_ok show ?thesis by (simp add: desktop_ok_def with_tiler_def tiling_on_def mode_frames)
qed

lemma step_ok:
  assumes "desktop_ok s" "desktop_step s ev s'"
  shows "desktop_ok s'"
proof -
  from assms(2) obtain dk calls where can: "can_happen ev dk s" and re: "react ev dk s = Some (calls, s')" by (auto elim: desktop_stepE)
  note ok = assms(1)
  have did: "desktop_ok s'" if "react ev dk s = Some (with_tiler s (f (de_tiler s)))" "tiling_on s" "\<And>t. tiler_ok t \<Longrightarrow> tiler_ok (snd (f t))"
      "\<And>t. tr_mode (snd (f t)) = tr_mode t" "\<And>t. tr_held (snd (f t)) = tr_held t" for f
    using reaction_ok [OF ok that(2-5)] that(1) re by (metis option.inject snd_conv)
  have t: "tiler_ok (de_tiler s)" using ok by (simp add: desktop_ok_def)
  show ?thesis
  proof (cases ev)
    case (Window_created w)
    show ?thesis by (rule did [where f = "created w dk"])
      (use can in \<open>simp_all add: Window_created react_def Let_def can_happen_def created_def track_ok mode_frames\<close>)
  next
    case (First_configured w)
    show ?thesis by (rule did [where f = "configured w dk"])
      (use can in \<open>simp_all add: First_configured react_def Let_def can_happen_def tracked_on [OF ok] configured_ok mode_frames del: not_None_eq\<close>)
  next
    case (First_shown w)
    show ?thesis by (rule did [where f = "first_shown w dk"])
      (use can in \<open>simp_all add: First_shown react_def Let_def can_happen_def tracked_on [OF ok] first_shown_ok mode_frames del: not_None_eq\<close>)
  next
    case (Effects_completed w)
    then have "s' = s\<lparr>de_tiler := settled w (de_tiler s)\<rparr>" using re by (simp add: react_def Let_def)
    then show ?thesis using ok by (simp add: desktop_ok_def settled_ok tiling_on_def mode_frames)
  next
    case (Unmanaging w)
    show ?thesis by (rule did [where f = "untrack w dk"])
      (use can in \<open>simp_all add: Unmanaging react_def Let_def can_happen_def tracked_on [OF ok] untrack_ok(1) mode_frames del: not_None_eq\<close>)
  next
    case (Minimized_changed w)
    show ?thesis by (rule did [where f = "minimized_changed w dk"])
      (use can in \<open>simp_all add: Minimized_changed react_def Let_def can_happen_def tracked_on [OF ok] minimized_changed_ok mode_frames del: not_None_eq\<close>)
  next
    case (Workspace_changed w)
    show ?thesis by (rule did [where f = "home_changed w dk"])
      (use can in \<open>simp_all add: Workspace_changed react_def Let_def can_happen_def tracked_on [OF ok] home_changed_ok mode_frames del: not_None_eq\<close>)
  next
    case (Stretch_changed w)
    show ?thesis by (rule did [where f = "stretch_changed w dk"])
      (use can in \<open>simp_all add: Stretch_changed react_def Let_def can_happen_def tracked_on [OF ok] stretch_changed_ok mode_frames del: not_None_eq\<close>)
  next
    case (Size_changed w)
    show ?thesis by (rule did [where f = "size_changed w dk"])
      (use can in \<open>simp_all add: Size_changed react_def Let_def can_happen_def tracked_on [OF ok] size_changed_ok mode_frames del: not_None_eq\<close>)
  next
    case (Nature_changed w)
    show ?thesis by (rule did [where f = "nature_changed w dk"])
      (use can in \<open>simp_all add: Nature_changed react_def Let_def can_happen_def tracked_on [OF ok] nature_changed_ok mode_frames del: not_None_eq\<close>)
  next
    case Focus_changed
    show ?thesis by (rule did [where f = "focus_changed dk"])
      (use can in \<open>simp_all add: Focus_changed react_def Let_def can_happen_def focus_changed_ok mode_frames\<close>)
  next
    case Work_areas_changed
    show ?thesis by (rule did [where f = "arrange_all True dk"])
      (use can in \<open>simp_all add: Work_areas_changed react_def Let_def can_happen_def arrange_all_ok mode_frames\<close>)
  next
    case Restacked
    show ?thesis by (rule did [where f = "\<lambda>t. (keep_floating_above dk t, t)"])
      (use can in \<open>simp_all add: Restacked react_def Let_def can_happen_def\<close>)
  next
    case Workspace_removed
    then have "s' = snd (with_tiler s (prune_spaces dk (de_tiler s)))" using re by (simp add: react_def Let_def)
    then show ?thesis using with_tiler_ok(1) [OF ok _ prune_spaces_ok(1) [OF t]] prune_mode [OF t] can Workspace_removed
      by (simp add: can_happen_def)
  next
    case (Preference_changed key)
    then show ?thesis using desk_preference_ok [OF ok] re by (simp add: react_def) (metis snd_conv)
  next
    case (Memory_loaded saved)
    then show ?thesis using desk_loaded_ok [OF ok] re by (simp add: react_def) (metis snd_conv)
  next
    case Memory_saved
    then show ?thesis using desk_saved_ok [OF ok] re by (simp add: react_def)
  next
    case Monitors_changed
    then show ?thesis using desk_monitors_ok [OF ok] re by (simp add: react_def) (metis snd_conv)
  next
    case Board_changed
    then show ?thesis using board_ok [OF ok] re by (simp add: react_def Let_def) (metis snd_conv)
  next
    case (Touched interactive e)
    then show ?thesis using touchpad_ok [OF ok] re by (simp add: react_def) (metis snd_conv)
  next
    case (Pressed key pointer)
    then show ?thesis using press_ok [OF ok, of key pointer dk calls s'] can re by (simp add: react_def)
  next
    case (Grab_begun window op)
    then show ?thesis using grab_begun_ok [OF ok, of window op] can re by (auto simp: react_def Let_def can_happen_def split: prod.splits)
  next
    case (Grab_ended window op pointer)
    obtain g r where d: "drag_end window op pointer dk (de_drag s) (de_tiler s) = (g, r)" by (cases "drag_end window op pointer dk (de_drag s) (de_tiler s)")
    with Grab_ended have "s' = snd (with_tiler (s\<lparr>de_drag := g\<rparr>) r)" using re by (simp add: react_def Let_def)
    then show ?thesis using grab_ended_ok [OF ok _ d] can Grab_ended by (simp add: can_happen_def)
  next
    case Grab_resized
    then have "s' = s\<lparr>de_drag := queue_resize (de_drag s)\<rparr>" using re by (simp add: react_def Let_def)
    then show ?thesis using ok by (simp add: desktop_ok_def tiling_on_def queue_resize_moving)
  next
    case Before_redraw
    then obtain g r where d: "flush_resize dk (de_drag s) (de_tiler s) = Some (g, r)" and "s' = snd (with_tiler (s\<lparr>de_drag := g\<rparr>) r)"
      using re by (auto simp: react_def Let_def)
    then show ?thesis using redraw_ok [OF ok _ d] can Before_redraw by (simp add: can_happen_def)
  next
    case (Overview_clicked x y)
    then have "s' = snd (with_overview s (overview_click x y dk (de_overview s) (de_tiler s)))" using re by (simp add: react_def Let_def)
    then show ?thesis using overview_step_ok [OF ok overview_click_ok [OF t] overview_rest(3)] by simp
  next
    case Overview_left
    then have "s' = snd (with_overview s (overview_pick None dk (de_overview s) (de_tiler s)))" using re by (simp add: react_def Let_def)
    then show ?thesis using overview_step_ok [OF ok overview_pick_ok [OF t] overview_rest(2)] by simp
  next
    case Destroyed
    then show ?thesis using desk_destroy_ok(1) [OF ok] re by (simp add: react_def) (metis snd_conv)
  qed
qed

lemma reach_ok: "desktop_reach s \<Longrightarrow> desktop_ok s"
  by (induction rule: desktop_reach.induct) (auto intro: start_tiling_on step_ok)

end
