(* ===== verification/Desktop_Properties.thy ===== *)
theory Desktop_Properties
  imports Tiling_Machine
begin

text \<open>
  The properties of the tiling desktop: what holds of every state it reaches, what its handlers do to a
  window, and how the strip is drawn, with witnesses on one screen with two windows.
\<close>

section \<open>A desk to run on\<close>

definition plain_window :: "nat \<Rightarrow> window_info" where
  "plain_window w = \<lparr>wi_normal = True, wi_override = False, wi_parent = None, wi_skip_taskbar = False, wi_resizeable = True,
    wi_allows_resize = True, wi_attached = False, wi_max_h = False, wi_max_v = False, wi_fullscreen = False, wi_minimized = False,
    wi_mapped = True, wi_frame = \<lparr>b_x = 100, b_y = 100, b_w = 400, b_h = 300\<rparr>, wi_target = \<lparr>b_x = 100, b_y = 100, b_w = 400, b_h = 300\<rparr>,
    wi_buffer = \<lparr>b_x = 100, b_y = 100, b_w = 400, b_h = 300\<rparr>,
    wi_actor = Some \<lparr>ac_box = \<lparr>b_x = 100, b_y = 100, b_w = 400, b_h = 300\<rparr>, ac_x = 0, ac_y = 0, ac_scale = 1, ac_clipped = False,
      ac_gliding = False, ac_speed_x = 0, ac_speed_y = 0\<rparr>,
    wi_monitor = 0, wi_workspace = Some 0, wi_located = True, wi_showing = True, wi_app_id = Some ''editor'', wi_class = None\<rparr>"

definition two_screens :: "box list" where
  "two_screens = [\<lparr>b_x = 0, b_y = 0, b_w = 1200, b_h = 800\<rparr>, \<lparr>b_x = 1200, b_y = 0, b_w = 1200, b_h = 800\<rparr>]"

definition some_desk :: "tiling_mode \<Rightarrow> desk" where
  "some_desk mode = \<lparr>dk_window = plain_window, dk_windows = [1, 2], dk_stacking = (\<lambda>w. w), dk_focus = Some 1,
    dk_monitors = two_screens, dk_primary = 0, dk_work_area = (\<lambda>m. two_screens ! m),
    dk_board = False, dk_only_primary = False, dk_active = 0, dk_workspaces = [0],
    dk_preferences = \<lparr>pf_mode = mode, pf_layout = Dwindle_layout, pf_gaps = Medium_gap, pf_beside_focused = False\<rparr>,
    dk_edge_tiling = True, dk_settled = (\<lambda>w b. (b, b))\<rparr>"

definition started :: "tiling_mode \<Rightarrow> desktop" where
  "started mode = snd (desk_loaded (Some []) (some_desk mode) new_desktop)"

lemma started_reached: "desktop_reach (started mode)"
proof (rule steps [OF starts])
  show "desktop_step new_desktop (Memory_loaded (Some [])) (started mode)"
    by (rule happens [of _ "some_desk mode" _ "fst (desk_loaded (Some []) (some_desk mode) new_desktop)"])
      (simp_all add: can_happen_def new_desktop_def new_swipe_def react_def Let_def started_def)
qed

section \<open>Every state\<close>



text \<open>C12. While tiling is off, nothing of it is left: no window is tracked, no space is kept, no key is bound and no
  window is being dragged.\<close>

theorem off_leaves_nothing:
  assumes "desktop_reach s" "tr_mode (de_tiler s) = Off"
  shows "tr_tracked (de_tiler s) = [] \<and> tr_spaces (de_tiler s) = [] \<and> de_keys s = [] \<and> de_drag s = new_drag \<and> tr_held (de_tiler s) = None"
  using reach_ok [OF assms(1)] assms(2) by (simp add: desktop_ok_def tiling_on_def at_rest_def tiling_bindings_def new_drag_def)

theorem off_leaves_nothing_witness:
  "\<exists>s. desktop_step (started Tiling) Destroyed s \<and> tr_mode (de_tiler s) = Off \<and> tr_tracked (de_tiler s) = [] \<and> tr_tracked (de_tiler (started Tiling)) \<noteq> []"
proof -
  define s where "s = snd (desk_destroy (some_desk Tiling) (started Tiling))"
  have step: "desktop_step (started Tiling) Destroyed s"
    by (rule happens [of _ "some_desk Tiling" _ "fst (desk_destroy (some_desk Tiling) (started Tiling))"])
      (simp_all add: react_def Let_def s_def can_happen_def, code_simp)
  have "\<not> tiling_on s" unfolding s_def by (rule desk_destroy_ok(2) [OF reach_ok [OF started_reached]])
  then have off: "tr_mode (de_tiler s) = Off" by (simp add: tiling_on_def)
  have "tr_tracked (de_tiler (started Tiling)) \<noteq> []" by code_simp
  with off_leaves_nothing [OF steps [OF started_reached step] off] step off show ?thesis by blast
qed

section \<open>Windows\<close>

text \<open>C13. Toggling floats a window that was tiled and tiles one that was not, unless its nature decides; the others
  stay where they are, and the choice is remembered for its app.\<close>

theorem toggle_flips_one_window:
  assumes "tiler_ok t" "tracked_of t w = Some r" "\<not> tk_configuring r" "\<not> floats_by_nature (info dk w)"
  shows "(is_tiled (snd (toggle_floating w dk t)) w \<longleftrightarrow> \<not> is_tiled t w) \<and>
    (v \<noteq> w \<longrightarrow> key_of (snd (toggle_floating w dk t)) v = key_of t v) \<and>
    (or_blank (app_key (info dk w)) \<noteq> [] \<longrightarrow>
      (floats (tr_memory (snd (toggle_floating w dk t))) (app_key (info dk w)) \<longleftrightarrow> is_tiled t w))"
proof -
  have n: "tracked_of t w \<noteq> None" using assms(2) by simp
  note k = toggle_floating_ok [where w = w and dk = dk, OF assms(1)]
  have "is_tiled (snd (toggle_floating w dk t)) w \<longleftrightarrow> \<not> is_tiled t w" by (rule k(2)) (use assms n in simp_all)
  moreover have "key_of (snd (toggle_floating w dk t)) v = key_of t v" if "v \<noteq> w" by (rule k(3)) (use assms that in simp_all)
  moreover have "tr_memory (snd (toggle_floating w dk t)) = remember (app_key (info dk w)) (is_tiled t w) (tr_memory t)"
    by (rule k(4)) (use assms n in simp_all)
  ultimately show ?thesis by (simp add: remember_floats)
qed

theorem toggle_flips_one_window_witness:
  "\<not> is_tiled (snd (toggle_floating 1 (some_desk Tiling) (de_tiler (started Tiling)))) 1"
proof -
  have ok: "tiler_ok (de_tiler (started Tiling))" using reach_ok [OF started_reached] by (simp add: desktop_ok_def)
  have r: "\<exists>r. tracked_of (de_tiler (started Tiling)) 1 = Some r \<and> \<not> tk_configuring r"
    by (rule exI [of _ "the (tracked_of (de_tiler (started Tiling)) 1)"]) code_simp
  have n: "\<not> floats_by_nature (info (some_desk Tiling) 1)" and k: "is_tiled (de_tiler (started Tiling)) 1" by code_simp+
  from r obtain r where "tracked_of (de_tiler (started Tiling)) 1 = Some r" "\<not> tk_configuring r" by blast
  from toggle_flips_one_window [OF ok this n, of 2] k show ?thesis by blast
qed

text \<open>Rebuilding, when the monitors, the layout or the mode change, tiles exactly the windows that neither float nor
  are minimized, and keeps the invariant and the mode.\<close>

theorem rebuild_tiles_exactly:
  assumes "tiler_ok t"
  shows "tiler_ok (snd (rebuild dk t)) \<and> tr_mode (snd (rebuild dk t)) = tr_mode t \<and>
    (is_tiled (snd (rebuild dk t)) w \<longleftrightarrow> (\<exists>r. tracked_of t w = Some r \<and> \<not> tk_floating r \<and> \<not> wi_minimized (info dk w)))"
  using rebuild_ok [OF assms] by simp

theorem rebuild_tiles_exactly_witness:
  "is_tiled (snd (rebuild (some_desk Tiling) (de_tiler (started Tiling)))) 2"
proof -
  have ok: "tiler_ok (de_tiler (started Tiling))" using reach_ok [OF started_reached] by (simp add: desktop_ok_def)
  have r: "\<exists>r. tracked_of (de_tiler (started Tiling)) 2 = Some r \<and> \<not> tk_floating r \<and> \<not> wi_minimized (info (some_desk Tiling) 2)"
    by (rule exI [of _ "the (tracked_of (de_tiler (started Tiling)) 2)"]) code_simp
  with rebuild_tiles_exactly [OF ok, of "some_desk Tiling" 2] show ?thesis by blast
qed

text \<open>C14. Turning tiling off frees every tiled window and puts it back where it was before it was tiled, and hands edge
  tiling back to the compositor.\<close>

theorem turning_off_gives_back:
  assumes "tr_mode t \<noteq> Off" "(w, r) \<in> set (tr_tracked t)" "tk_space r \<noteq> None" "\<not> stretched (info dk w)" "tk_restore r = Some b"
  shows "Scene (Frame (Set_unconstrained w False)) \<in> set (fst (engage Off dk t)) \<and>
    Scene (Frame (Move_resize w b)) \<in> set (fst (engage Off dk t)) \<and> (\<not> dk_edge_tiling dk \<longrightarrow> Set_edge_tiling True \<in> set (fst (engage Off dk t))) \<and>
    tr_tracked (snd (engage Off dk t)) = [] \<and> tr_spaces (snd (engage Off dk t)) = []"
  using disengage_gives_back [of w r "t\<lparr>tr_mode := Off\<rparr>" dk] disengage_empty(1,2) [of dk "t\<lparr>tr_mode := Off\<rparr>"] assms
  by (auto simp: engage_def then_do_fst Let_def)

theorem turning_off_gives_back_witness:
  "Scene (Frame (Move_resize 1 \<lparr>b_x = 100, b_y = 100, b_w = 400, b_h = 300\<rparr>)) \<in> set (fst (engage Off (some_desk Tiling) (de_tiler (started Tiling))))"
proof -
  define r where "r = the (tracked_of (de_tiler (started Tiling)) 1)"
  have "tr_mode (de_tiler (started Tiling)) \<noteq> Off" "tracked_of (de_tiler (started Tiling)) 1 = Some r" "tk_space r \<noteq> None"
    "\<not> stretched (info (some_desk Tiling) 1)" "tk_restore r = Some \<lparr>b_x = 100, b_y = 100, b_w = 400, b_h = 300\<rparr>"
    unfolding r_def by code_simp+
  then show ?thesis using turning_off_gives_back [of "de_tiler (started Tiling)" 1 r "some_desk Tiling"] map_of_SomeD
    unfolding tracked_of_def by fast
qed

text \<open>A window dropped over a monitor is in the space of that monitor after it, and no other window changes its
  space.\<close>

theorem dropped_onto_monitor:
  assumes "tiler_ok t" "key_of t w = Some key" "find_index (\<lambda>b. contains b x y) (dk_monitors dk) = Some m"
  shows "tiler_ok (snd (drag_drop w False (x, y) dk t)) \<and>
    key_of (snd (drag_drop w False (x, y) dk t)) =
      (key_of t)(w \<mapsto> (if dk_only_primary dk \<and> m \<noteq> dk_primary dk then None else Some (dk_active dk), m))"
proof -
  obtain target t1 where on: "space_on m dk t = (target, t1)" by fastforce
  have target: "target = (if dk_only_primary dk \<and> m \<noteq> dk_primary dk then None else Some (dk_active dk), m)"
    using on by (simp add: space_on_def Let_def)
  have t1: "tiler_ok t1" "key_of t1 = key_of t" "space_lookup t1 target \<noteq> None"
    using space_on_ok(1-3) [OF assms(1), of m dk] sameD(5) [OF space_on_ok(2) [OF assms(1)], of m dk] on by simp_all
  define onto where "onto = (case space_lookup t1 target of
      None \<Rightarrow> None
    | Some sp \<Rightarrow> List.find (\<lambda>v. v \<noteq> w \<and> contains (otherwise (so_box_of any_ops sp v) (wi_frame (info dk v))) x y) (so_windows any_ops sp))"
  have d: "drag_drop w False (x, y) dk t = (if target \<noteq> key then move_to w target onto dk t1
      else case onto of Some v \<Rightarrow> on_space key (so_drop any_ops (host_of t1 dk) w v) t1 | None \<Rightarrow> arrange key True dk t1)"
    using assms(2,3) on by (simp add: drag_drop_def onto_def Let_def)
  have "key_of (snd (drag_drop w False (x, y) dk t)) = (key_of t)(w \<mapsto> target)"
  proof (cases "target = key")
    case True
    then show ?thesis using assms(2) t1(2) sameD(5) [OF on_space_same] sameD(5) [OF arrange_same]
      by (auto simp: d fun_eq_iff split: option.split)
  next
    case False
    then have "key \<noteq> target" "key_of t1 w = Some key" using t1(2) assms(2) by auto
    from move_to_ok(2) [OF t1(1) this(2,1) t1(3)] False t1(2) show ?thesis by (simp add: d)
  qed
  with drag_drop_ok [OF assms(1)] target show ?thesis by simp
qed

theorem dropped_onto_monitor_witness:
  "key_of (snd (drag_drop 1 False (1500, 300) (some_desk Tiling) (de_tiler (started Tiling)))) 1 = Some (Some 0, 1)"
proof -
  have ok: "tiler_ok (de_tiler (started Tiling))" using reach_ok [OF started_reached] by (simp add: desktop_ok_def)
  have k: "key_of (de_tiler (started Tiling)) 1 = Some (Some 0, 0)" by code_simp
  have m: "find_index (\<lambda>b. contains b 1500 300) (dk_monitors (some_desk Tiling)) = Some 1" by code_simp
  from dropped_onto_monitor [OF ok k m] show ?thesis by (simp add: some_desk_def)
qed

section \<open>The strip on screen\<close>



text \<open>While a swipe lasts the strip follows the fingers exactly as long as it has columns to show, and past either end it
  gives way by less than the width of the view.\<close>

theorem swipe_follows_fingers:
  fixes h :: "nat stage" and distance :: number and sp :: "nat scroll_space"
  assumes "ss_swipe sp = Some start"
  defines "offset \<equiv> st_offset (ss_strip (snd (swipe h distance sp)))"
  shows "(0 \<le> start - distance \<and> start - distance \<le> furthest (ss_strip sp) \<longrightarrow> offset = start - distance) \<and>
    - view_width (ss_strip sp) < offset \<and> offset < furthest (ss_strip sp) + view_width (ss_strip sp)"
  using swipe_offset [OF assms(1), where distance = distance and h = h] unfolding offset_def by blast

definition one_column :: "nat scroll_space" where
  "one_column = begin_swipe (host_of new_tiler (some_desk Scrolling)) (ss_add (host_of new_tiler (some_desk Scrolling)) 1 None (new_scroll_space 0))"

theorem swipe_follows_fingers_witness:
  "st_offset (ss_strip (snd (swipe (host_of new_tiler (some_desk Scrolling)) 5000 one_column))) < 0 \<and>
    - 1200 < st_offset (ss_strip (snd (swipe (host_of new_tiler (some_desk Scrolling)) 5000 one_column)))"
proof -
  have s: "ss_swipe one_column = Some 0" by code_simp
  have n: "view_width (ss_strip one_column) \<le> 1200" by code_simp
  have o: "st_offset (ss_strip (snd (swipe (host_of new_tiler (some_desk Scrolling)) 5000 one_column))) < 0" by code_simp
  show ?thesis using swipe_follows_fingers [OF s, where distance = 5000 and h = "host_of new_tiler (some_desk Scrolling)"] n o by linarith
qed

text \<open>The overview shows the whole strip within the work area, keeping its margin at both sides up to rounding.\<close>

theorem overview_shows_whole_strip:
  assumes "ss_sync h sp = sp" "0 \<le> sh_gap h" "(w, b) \<in> set (overview_boxes h sp)"
    and "2 * OVERVIEW_MARGIN \<le> b_w (sh_work_area h (ss_monitor sp))" "2 * OVERVIEW_MARGIN < b_h (sh_work_area h (ss_monitor sp))"
  shows "b_x (sh_work_area h (ss_monitor sp)) + OVERVIEW_MARGIN - 1 / 2 \<le> b_x b \<and>
    b_x b + b_w b \<le> b_x (sh_work_area h (ss_monitor sp)) + b_w (sh_work_area h (ss_monitor sp)) - OVERVIEW_MARGIN + 1"
  using overview_inside [OF assms] by simp

theorem overview_shows_whole_strip_witness:
  "\<exists>b. (1, b) \<in> set (overview_boxes (host_of new_tiler (some_desk Scrolling)) one_column) \<and> OVERVIEW_MARGIN - 1 / 2 \<le> b_x b"
proof -
  let ?h = "host_of new_tiler (some_desk Scrolling)"
  have s: "ss_sync ?h one_column = one_column" "0 \<le> sh_gap ?h" by code_simp+
  have m: "(1, snd (hd (overview_boxes ?h one_column))) \<in> set (overview_boxes ?h one_column)" by code_simp
  have a: "2 * OVERVIEW_MARGIN \<le> b_w (sh_work_area ?h (ss_monitor one_column))" "2 * OVERVIEW_MARGIN < b_h (sh_work_area ?h (ss_monitor one_column))"
    "b_x (sh_work_area ?h (ss_monitor one_column)) = 0" by code_simp+
  from overview_shows_whole_strip [OF s m a(1,2)] m a(3) show ?thesis by auto
qed

end
