(* ===== verification/Taskbar_Model.thy ===== *)
theory Taskbar_Model
  imports Prelude
begin

text \<open>
  The arrangement of the taskbar, \<^verbatim>\<open>packages/web/ui/src/taskbar/arrangement/model.ts\<close>: islands of
  elements at twelve spots, how one is read and stored, and where an element goes that has no place yet.
  A spot is the pair of its edge and its place along it; \<open>spot_name\<close> is the string it is stored as.
\<close>

section \<open>Spots and islands\<close>

datatype bar_edge = Edge_bottom | Edge_left | Edge_top | Edge_right
datatype along = At_start | At_center | At_end

type_synonym spot = "bar_edge \<times> along"

record island =
  il_spot :: spot
  il_elements :: "string list"

type_synonym arrangement = "island list"
type_synonym stored_arrangement = "(string \<times> string list) list"

definition BAR_EDGES :: "bar_edge list" where "BAR_EDGES = [Edge_bottom, Edge_left, Edge_top, Edge_right]"
definition ALONGS :: "along list" where "ALONGS = [At_start, At_center, At_end]"

definition spot_at :: "bar_edge \<Rightarrow> along \<Rightarrow> spot" where "spot_at e a = (e, a)"
definition edge_of :: "spot \<Rightarrow> bar_edge" where "edge_of s = fst s"
definition along_of :: "spot \<Rightarrow> along" where "along_of s = snd s"

definition SPOTS :: "spot list" where "SPOTS = concat (map (\<lambda>e. map (spot_at e) ALONGS) BAR_EDGES)"

definition edge_name :: "bar_edge \<Rightarrow> string" where
  "edge_name e = (case e of Edge_bottom \<Rightarrow> ''bottom'' | Edge_left \<Rightarrow> ''left'' | Edge_top \<Rightarrow> ''top'' | Edge_right \<Rightarrow> ''right'')"

definition along_name :: "along \<Rightarrow> string" where
  "along_name a = (case a of At_start \<Rightarrow> ''start'' | At_center \<Rightarrow> ''center'' | At_end \<Rightarrow> ''end'')"

definition spot_name :: "spot \<Rightarrow> string" where
  "spot_name s = edge_name (edge_of s) @ ''-'' @ along_name (along_of s)"

text \<open>\<^verbatim>\<open>isSpot\<close>: the spot a string names, if it names one.\<close>

definition spot_named :: "string \<Rightarrow> spot option" where
  "spot_named s = List.find (\<lambda>spot. spot_name spot = s) SPOTS"

definition SYSTEM_ELEMENTS :: "string list" where "SYSTEM_ELEMENTS = [''tray'', ''status'', ''clock'']"
definition BUILT_IN_ELEMENTS :: "string list" where "BUILT_IN_ELEMENTS = [''start'', ''dock''] @ SYSTEM_ELEMENTS"

definition DEFAULT_ARRANGEMENT :: arrangement where
  "DEFAULT_ARRANGEMENT =
    [\<lparr>il_spot = (Edge_bottom, At_center), il_elements = [''start'', ''dock'']\<rparr>,
     \<lparr>il_spot = (Edge_bottom, At_end), il_elements = SYSTEM_ELEMENTS\<rparr>]"

definition is_vertical_edge :: "bar_edge \<Rightarrow> bool" where
  "is_vertical_edge e \<longleftrightarrow> e = Edge_left \<or> e = Edge_right"

definition island_at :: "arrangement \<Rightarrow> spot \<Rightarrow> island option" where
  "island_at a spot = List.find (\<lambda>i. il_spot i = spot) a"

definition island_of :: "arrangement \<Rightarrow> string \<Rightarrow> island option" where
  "island_of a element = List.find (\<lambda>i. element \<in> set (il_elements i)) a"

definition main_edge :: "arrangement \<Rightarrow> bar_edge" where
  "main_edge a =
    (case (island_of a ''dock'', a) of (Some i, _) \<Rightarrow> edge_of (il_spot i) | (None, i # _) \<Rightarrow> edge_of (il_spot i) | (None, []) \<Rightarrow> Edge_bottom)"

definition spot_index :: "spot \<Rightarrow> nat" where
  "spot_index s = (case index_of s SPOTS of None \<Rightarrow> 0 | Some i \<Rightarrow> i)"

definition sorted_arrangement :: "arrangement \<Rightarrow> arrangement" where
  "sorted_arrangement a = sort_key (\<lambda>i. spot_index (il_spot i)) a"

definition same_arrangement :: "arrangement \<Rightarrow> arrangement \<Rightarrow> bool" where
  "same_arrangement a b \<longleftrightarrow> sorted_arrangement a = sorted_arrangement b"

section \<open>Reading and storing\<close>

text \<open>The elements of a stored island that are placed nowhere yet.\<close>

fun new_elements :: "string list \<Rightarrow> string list \<Rightarrow> string list" where
  "new_elements placed [] = []"
| "new_elements placed (e # es) = (if e \<in> set placed then new_elements placed es else e # new_elements (placed @ [e]) es)"

fun parse_islands :: "stored_arrangement \<Rightarrow> string list \<Rightarrow> (spot \<times> string list) list \<Rightarrow> (spot \<times> string list) list" where
  "parse_islands [] placed islands = islands"
| "parse_islands ((s, elements) # rest) placed islands =
    (case spot_named s of
      None \<Rightarrow> parse_islands rest placed islands
    | Some spot \<Rightarrow>
        (let new = new_elements placed elements
         in parse_islands rest (placed @ new) (map_put spot (otherwise (map_of islands spot) [] @ new) islands)))"

definition parse_arrangement :: "stored_arrangement \<Rightarrow> arrangement" where
  "parse_arrangement stored =
    map (\<lambda>(spot, elements). \<lparr>il_spot = spot, il_elements = elements\<rparr>)
      (filter (\<lambda>(spot, elements). elements \<noteq> []) (parse_islands stored [] []))"

definition store_arrangement :: "arrangement \<Rightarrow> stored_arrangement" where
  "store_arrangement a = map (\<lambda>i. (spot_name (il_spot i), il_elements i)) (sorted_arrangement a)"

section \<open>Places for elements that have none\<close>

definition HOMES :: "(string \<times> string list \<times> bool) list" where
  "HOMES =
    [(''start'', [''dock''], False), (''dock'', [''start''], True), (''tray'', [''status'', ''clock''], False),
     (''status'', [''tray'', ''clock''], True), (''clock'', [''status'', ''tray''], True)]"

definition EXTENSION_HOME :: "string list \<times> bool" where "EXTENSION_HOME = (SYSTEM_ELEMENTS, False)"

definition first_free_spot :: "arrangement \<Rightarrow> spot \<Rightarrow> spot option" where
  "first_free_spot a preferred =
    List.find (\<lambda>spot. island_at a spot = None) (preferred # map (spot_at (main_edge a)) ALONGS @ SPOTS)"

fun place_beside :: "arrangement \<Rightarrow> string \<Rightarrow> bool \<Rightarrow> string list \<Rightarrow> arrangement option" where
  "place_beside a element after [] = None"
| "place_beside a element after (neighbour # rest) =
    (case island_of a neighbour of
      None \<Rightarrow> place_beside a element after rest
    | Some island \<Rightarrow>
        (let index = otherwise (index_of neighbour (il_elements island)) 0 + (if after then 1 else 0)
         in Some (update_first (\<lambda>i. neighbour \<in> set (il_elements i))
           (\<lambda>i. i\<lparr>il_elements := splice_in index element (il_elements i)\<rparr>) a)))"

text \<open>\<open>None\<close> when all twelve spots are taken and no neighbour is there: the code would then make an island without
  a spot.\<close>

definition place_missing :: "arrangement \<Rightarrow> string \<Rightarrow> arrangement option" where
  "place_missing a element =
    (let (beside, after) = otherwise (map_of HOMES element) EXTENSION_HOME in
     case place_beside a element after beside of
       Some placed \<Rightarrow> Some placed
     | None \<Rightarrow>
        (let preferred = (case island_of DEFAULT_ARRANGEMENT element of Some i \<Rightarrow> il_spot i | None \<Rightarrow> (Edge_bottom, At_end))
         in map_option (\<lambda>spot. a @ [\<lparr>il_spot = spot, il_elements = [element]\<rparr>]) (first_free_spot a preferred)))"

fun complete_arrangement :: "arrangement \<Rightarrow> string list \<Rightarrow> arrangement option" where
  "complete_arrangement a [] = Some a"
| "complete_arrangement a (e # es) =
    (if island_of a e \<noteq> None then complete_arrangement a es
     else Option.bind (place_missing a e) (\<lambda>placed. complete_arrangement placed es))"

definition present_in :: "arrangement \<Rightarrow> (string \<Rightarrow> bool) \<Rightarrow> arrangement" where
  "present_in a present =
    filter (\<lambda>i. il_elements i \<noteq> []) (map (\<lambda>i. i\<lparr>il_elements := filter present (il_elements i)\<rparr>) a)"

definition edge_order :: "bar_edge \<Rightarrow> bar_edge \<Rightarrow> nat" where
  "edge_order first e = otherwise (index_of e (first # filter (\<lambda>other. other \<noteq> first) BAR_EDGES)) 0"

definition joined_groups :: "arrangement \<Rightarrow> bar_edge \<Rightarrow> along \<Rightarrow> string list" where
  "joined_groups a first place =
    concat (map il_elements (filter (\<lambda>i. along_of (il_spot i) = place) (sort_key (\<lambda>i. edge_order first (edge_of (il_spot i))) a)))"

section \<open>What an arrangement keeps\<close>

definition elements_of :: "arrangement \<Rightarrow> string list" where
  "elements_of a = concat (map il_elements a)"

definition arrangement_ok :: "arrangement \<Rightarrow> bool" where
  "arrangement_ok a \<longleftrightarrow> distinct (map il_spot a) \<and> distinct (elements_of a) \<and> (\<forall>i \<in> set a. il_elements i \<noteq> [])"

lemma in_SPOTS [simp]: "s \<in> set SPOTS"
  by (cases s; cases "fst s"; cases "snd s") (auto simp: SPOTS_def BAR_EDGES_def ALONGS_def spot_at_def)

lemma distinct_SPOTS: "distinct SPOTS" and length_SPOTS: "length SPOTS = 12"
  by (simp_all add: SPOTS_def BAR_EDGES_def ALONGS_def spot_at_def)

lemma spot_name_inject: "spot_name s = spot_name t \<longleftrightarrow> s = t"
  by (cases s; cases t; cases "fst s"; cases "fst t"; cases "snd s"; cases "snd t")
    (auto simp: spot_name_def edge_name_def along_name_def edge_of_def along_of_def)

lemma spot_named_name: "spot_named (spot_name s) = Some s"
proof -
  have "List.find (\<lambda>spot. spot_name spot = spot_name s) SPOTS \<noteq> None" unfolding find_None_iff using in_SPOTS by blast
  then show ?thesis by (auto simp: spot_named_def spot_name_inject dest: find_SomeD)
qed

lemma spot_index_inject: "spot_index s = spot_index t \<longleftrightarrow> s = t"
proof -
  have "index_of u SPOTS = Some (spot_index u)" for u
    by (simp add: spot_index_def split: option.split)
  then show ?thesis using index_of_Some by metis
qed

lemma elements_simps [simp]: "elements_of [] = []" "elements_of (i # a) = il_elements i @ elements_of a" "elements_of (a @ b) = elements_of a @ elements_of b"
  by (simp_all add: elements_of_def)

lemma set_elements: "set (elements_of a) = (\<Union>i \<in> set a. set (il_elements i))"
  by (simp add: elements_of_def)

lemma island_of_None: "island_of a e = None \<longleftrightarrow> e \<notin> set (elements_of a)"
  by (auto simp: island_of_def find_None_iff set_elements)

lemma island_of_Some: "island_of a e = Some i \<Longrightarrow> i \<in> set a \<and> e \<in> set (il_elements i)"
  by (auto simp: island_of_def dest: find_SomeD)

lemma island_at_None: "island_at a s = None \<longleftrightarrow> s \<notin> il_spot ` set a"
  by (auto simp: island_at_def find_None_iff)

lemma island_at_Some: "island_at a s = Some i \<Longrightarrow> i \<in> set a \<and> il_spot i = s"
  by (auto simp: island_at_def dest: find_SomeD)

text \<open>Reading: whatever is stored, the arrangement is sound.\<close>

lemma new_elements_distinct: "distinct (new_elements placed es) \<and> set (new_elements placed es) \<inter> set placed = {} \<and>
    set (new_elements placed es) \<union> set placed = set es \<union> set placed"
proof (induction placed es rule: new_elements.induct)
  case (2 placed e es)
  then show ?case by (cases "e \<in> set placed") auto
qed simp

lemma map_put_elements:
  assumes "distinct (map fst islands)"
  shows "mset (concat (map snd (map_put k (otherwise (map_of islands k) [] @ new) islands))) = mset (concat (map snd islands)) + mset new"
  using assms by (induction islands) (auto simp: image_iff)

lemma parse_islands_sound:
  assumes "distinct (map fst islands)" "mset (concat (map snd islands)) = mset placed" "distinct placed"
  shows "distinct (map fst (parse_islands stored placed islands)) \<and> distinct (concat (map snd (parse_islands stored placed islands)))"
  using assms
proof (induction stored placed islands rule: parse_islands.induct)
  case (1 placed islands)
  then show ?case using mset_eq_imp_distinct_iff by simp blast
next
  case (2 s elements rest placed islands)
  show ?case
  proof (cases "spot_named s")
    case None
    then show ?thesis using 2 by simp
  next
    case (Some spot)
    let ?new = "new_elements placed elements"
    have n: "distinct (placed @ ?new)" using new_elements_distinct [of placed elements] 2(5) by auto
    have m: "mset (concat (map snd (map_put spot (otherwise (map_of islands spot) [] @ ?new) islands))) = mset (placed @ ?new)"
      using map_put_elements [OF 2(3), of spot ?new] 2(4) by simp
    show ?thesis using 2(2) [OF Some refl distinct_put [OF 2(3)] m n] Some by (simp add: Let_def)
  qed
qed

lemma elements_filter_empty: "elements_of (map (\<lambda>(spot, es). \<lparr>il_spot = spot, il_elements = es\<rparr>) (filter (\<lambda>(spot, es). es \<noteq> []) islands)) =
    concat (map snd islands)"
  by (induction islands) auto

lemma parse_ok: "arrangement_ok (parse_arrangement stored)"
proof -
  have p: "distinct (map fst (parse_islands stored [] []))" "distinct (concat (map snd (parse_islands stored [] [])))"
    using parse_islands_sound [of "[]" "[]" stored] by simp_all
  have "map il_spot (parse_arrangement stored) = map fst (filter (\<lambda>(spot, es). es \<noteq> []) (parse_islands stored [] []))"
    by (simp add: parse_arrangement_def case_prod_unfold)
  with p(1) have "distinct (map il_spot (parse_arrangement stored))" by (simp add: distinct_map_filter)
  moreover have "distinct (elements_of (parse_arrangement stored))" using p(2) unfolding parse_arrangement_def elements_filter_empty .
  moreover have "\<forall>i \<in> set (parse_arrangement stored). il_elements i \<noteq> []" by (auto simp: parse_arrangement_def)
  ultimately show ?thesis by (simp add: arrangement_ok_def)
qed

text \<open>Storing and reading again gives the arrangement back, in the order of the spots.\<close>

lemma new_elements_all: "distinct es \<Longrightarrow> set es \<inter> set placed = {} \<Longrightarrow> new_elements placed es = es"
  by (induction placed es rule: new_elements.induct) auto

lemma map_put_new: "k \<notin> fst ` set es \<Longrightarrow> map_put k v es = es @ [(k, v)]"
  by (induction es) auto

lemma parse_stored:
  assumes "distinct (map il_spot a)" "distinct (elements_of a)" "il_spot ` set a \<inter> fst ` set islands = {}" "set (elements_of a) \<inter> set placed = {}"
  shows "parse_islands (map (\<lambda>i. (spot_name (il_spot i), il_elements i)) a) placed islands = islands @ map (\<lambda>i. (il_spot i, il_elements i)) a"
  using assms
proof (induction a arbitrary: placed islands)
  case (Cons i a)
  have n: "new_elements placed (il_elements i) = il_elements i" using Cons.prems by (intro new_elements_all) auto
  have none: "map_of islands (il_spot i) = None" using Cons.prems(3) by (auto simp: map_of_eq_None_iff)
  have "map_put (il_spot i) (il_elements i) islands = islands @ [(il_spot i, il_elements i)]"
    using Cons.prems(3) by (intro map_put_new) auto
  moreover have "parse_islands (map (\<lambda>i. (spot_name (il_spot i), il_elements i)) a) (placed @ il_elements i) (islands @ [(il_spot i, il_elements i)]) =
      (islands @ [(il_spot i, il_elements i)]) @ map (\<lambda>i. (il_spot i, il_elements i)) a"
    using Cons.prems by (intro Cons.IH) auto
  ultimately show ?case by (simp add: spot_named_name n none)
qed simp

lemma mset_sorted_arrangement [simp]: "mset (sorted_arrangement a) = mset a"
  by (simp add: sorted_arrangement_def)

lemma set_sorted_arrangement [simp]: "set (sorted_arrangement a) = set a"
  by (simp add: sorted_arrangement_def)

lemma mset_elements: "mset a = mset b \<Longrightarrow> mset (elements_of a) = mset (elements_of b)"
  by (simp add: elements_of_def mset_concat) (metis mset_map multiset.map_comp o_def sum_mset_sum_list)

lemma arrangement_ok_mset: "mset a = mset b \<Longrightarrow> arrangement_ok a = arrangement_ok b"
proof -
  assume m: "mset a = mset b"
  then have "mset (map il_spot a) = mset (map il_spot b)" by simp
  with mset_eq_imp_distinct_iff [OF this] mset_eq_imp_distinct_iff [OF mset_elements [OF m]] mset_eq_setD [OF m]
  show ?thesis by (simp add: arrangement_ok_def)
qed

lemma parse_store: "arrangement_ok a \<Longrightarrow> parse_arrangement (store_arrangement a) = sorted_arrangement a"
proof -
  assume "arrangement_ok a"
  then have "arrangement_ok (sorted_arrangement a)" using arrangement_ok_mset [of a "sorted_arrangement a"] by simp
  then show ?thesis
    by (simp add: parse_arrangement_def store_arrangement_def parse_stored arrangement_ok_def filter_map o_def map_idI)
qed

lemma sorted_idem: "sorted_arrangement (sorted_arrangement a) = sorted_arrangement a"
  by (simp add: sorted_arrangement_def sort_key_id)

section \<open>Where elements are\<close>

definition spot_of :: "arrangement \<Rightarrow> string \<Rightarrow> spot option" where
  "spot_of a e = map_option il_spot (island_of a e)"

lemma island_of_iff:
  assumes "arrangement_ok a"
  shows "island_of a e = Some i \<longleftrightarrow> i \<in> set a \<and> e \<in> set (il_elements i)"
proof
  assume i: "i \<in> set a \<and> e \<in> set (il_elements i)"
  then obtain j where j: "island_of a e = Some j" using island_of_None [of a e] by (auto simp: set_elements)
  obtain us vs where a: "a = us @ i # vs" using i by (auto simp: in_set_conv_decomp)
  have "j = i" using island_of_Some [OF j] i assms unfolding a by (auto simp: arrangement_ok_def set_elements)
  with j show "island_of a e = Some i" by simp
qed (simp add: island_of_Some)

lemma spot_of_iff: "arrangement_ok a \<Longrightarrow> spot_of a e = Some s \<longleftrightarrow> (\<exists>i \<in> set a. e \<in> set (il_elements i) \<and> il_spot i = s)"
  by (auto simp: spot_of_def island_of_iff)

lemma island_at_iff:
  assumes "arrangement_ok a"
  shows "island_at a s = Some i \<longleftrightarrow> i \<in> set a \<and> il_spot i = s"
proof
  assume i: "i \<in> set a \<and> il_spot i = s"
  then obtain j where j: "island_at a s = Some j" using island_at_None [of a s] by auto
  then show "island_at a s = Some i" using island_at_Some [OF j] i assms by (auto simp: arrangement_ok_def distinct_map dest: inj_onD)
qed (simp add: island_at_Some)

text \<open>An element put into the first island that matches.\<close>

definition put_into :: "nat \<Rightarrow> string \<Rightarrow> island \<Rightarrow> island" where
  "put_into k e i = i\<lparr>il_elements := splice_in k e (il_elements i)\<rparr>"

lemma put_into_simps [simp]: "il_spot (put_into k e i) = il_spot i" "set (il_elements (put_into k e i)) = insert e (set (il_elements i))"
  "mset (il_elements (put_into k e i)) = add_mset e (mset (il_elements i))"
  by (simp_all add: put_into_def)

lemma put_into_ok:
  fixes k :: nat
  assumes "arrangement_ok a" "e \<notin> set (elements_of a)" "\<exists>i \<in> set a. P i"
  defines "b \<equiv> update_first P (put_into k e) a"
  shows "arrangement_ok b" "mset (elements_of b) = add_mset e (mset (elements_of a))" "map il_spot b = map il_spot a"
    "x \<noteq> e \<Longrightarrow> spot_of b x = spot_of a x" "\<exists>i \<in> set a. P i \<and> spot_of b e = Some (il_spot i)"
proof -
  obtain us i vs where a: "a = us @ i # vs" "P i" and b: "b = us @ put_into k e i # vs"
    using update_first_split [OF assms(3), of "put_into k e"] unfolding b_def by blast
  show m: "mset (elements_of b) = add_mset e (mset (elements_of a))" by (simp add: a b)
  have d: "distinct (elements_of b)" using assms(1,2) mset_eq_imp_distinct_iff [of "elements_of b" "e # elements_of a"] m
    by (simp add: arrangement_ok_def)
  have ne: "il_elements (put_into k e i) \<noteq> []" by (simp add: put_into_def splice_in_def)
  show ok: "arrangement_ok b" using d assms(1) ne unfolding arrangement_ok_def by (auto simp: a b)
  show "map il_spot b = map il_spot a" by (simp add: a b)
  have s: "spot_of b x = Some s \<longleftrightarrow> (\<exists>i \<in> set b. x \<in> set (il_elements i) \<and> il_spot i = s)" for x s by (rule spot_of_iff [OF ok])
  have "spot_of b x = Some s \<longleftrightarrow> spot_of a x = Some s" if "x \<noteq> e" for x s
    unfolding s spot_of_iff [OF assms(1)] using that by (auto simp: a b)
  then show "x \<noteq> e \<Longrightarrow> spot_of b x = spot_of a x" by (metis not_Some_eq)
  show "\<exists>i \<in> set a. P i \<and> spot_of b e = Some (il_spot i)" using a(2) s [of e "il_spot i"] by (auto simp: a b intro!: bexI [of _ i])
qed

text \<open>An island of its own.\<close>

lemma new_island_ok:
  fixes s :: spot
  assumes "arrangement_ok a" "e \<notin> set (elements_of a)" "s \<notin> il_spot ` set a"
  defines "b \<equiv> a @ [\<lparr>il_spot = s, il_elements = [e]\<rparr>]"
  shows "arrangement_ok b" "mset (elements_of b) = add_mset e (mset (elements_of a))" "x \<noteq> e \<Longrightarrow> spot_of b x = spot_of a x" "spot_of b e = Some s"
proof -
  show "mset (elements_of b) = add_mset e (mset (elements_of a))" by (simp add: b_def)
  show ok: "arrangement_ok b" using assms(1-3) unfolding arrangement_ok_def b_def by auto
  have "spot_of b x = Some t \<longleftrightarrow> spot_of a x = Some t" if "x \<noteq> e" for x t
    unfolding spot_of_iff [OF ok] spot_of_iff [OF assms(1)] using that by (auto simp: b_def)
  then show "x \<noteq> e \<Longrightarrow> spot_of b x = spot_of a x" by (metis not_Some_eq)
  show "spot_of b e = Some s" unfolding spot_of_iff [OF ok] by (simp add: b_def)
qed

section \<open>Completing\<close>

lemma place_beside_None: "place_beside a e after ns = None \<longleftrightarrow> (\<forall>n \<in> set ns. n \<notin> set (elements_of a))"
  by (induction ns) (auto simp: Let_def island_of_None [symmetric] split: option.splits)

lemma place_beside_put: "place_beside a e after ns = Some b \<Longrightarrow>
    \<exists>n k. n \<in> set ns \<and> n \<in> set (elements_of a) \<and> b = update_first (\<lambda>i. n \<in> set (il_elements i)) (put_into k e) a"
proof (induction ns)
  case (Cons n ns)
  show ?case
  proof (cases "island_of a n")
    case None
    with Cons show ?thesis by auto
  next
    case (Some i)
    then have "n \<in> set (elements_of a)" using island_of_Some [OF Some] by (auto simp: set_elements)
    with Cons.prems Some show ?thesis by (auto simp: Let_def put_into_def [abs_def])
  qed
qed simp

lemma place_ok:
  assumes "arrangement_ok a" "e \<notin> set (elements_of a)" "place_missing a e = Some b"
  shows "arrangement_ok b" "mset (elements_of b) = add_mset e (mset (elements_of a))" "x \<noteq> e \<Longrightarrow> spot_of b x = spot_of a x"
proof -
  obtain ns after where h: "otherwise (map_of HOMES e) EXTENSION_HOME = (ns, after)" by fastforce
  have "arrangement_ok b \<and> mset (elements_of b) = add_mset e (mset (elements_of a)) \<and> (x \<noteq> e \<longrightarrow> spot_of b x = spot_of a x)"
  proof (cases "place_beside a e after ns")
    case None
    define preferred where "preferred = (case island_of DEFAULT_ARRANGEMENT e of Some i \<Rightarrow> il_spot i | None \<Rightarrow> (Edge_bottom, At_end))"
    have "map_option (\<lambda>spot. a @ [\<lparr>il_spot = spot, il_elements = [e]\<rparr>]) (first_free_spot a preferred) = Some b"
      using None assms(3) h by (simp add: place_missing_def preferred_def)
    then obtain s where s: "first_free_spot a preferred = Some s" "b = a @ [\<lparr>il_spot = s, il_elements = [e]\<rparr>]"
      unfolding map_option_eq_Some by blast
    then have "s \<notin> il_spot ` set a" unfolding first_free_spot_def island_at_None [symmetric] using find_SomeD by fast
    from new_island_ok [OF assms(1,2) this] s(2) show ?thesis by simp
  next
    case (Some c)
    then have "b = c" using assms(3) h by (simp add: place_missing_def)
    with place_beside_put [OF Some] obtain n k where n: "n \<in> set (elements_of a)" "b = update_first (\<lambda>i. n \<in> set (il_elements i)) (put_into k e) a" by blast
    then have ex: "\<exists>i \<in> set a. n \<in> set (il_elements i)" by (auto simp: set_elements)
    from put_into_ok [where k = k, OF assms(1,2) ex] n(2) show ?thesis by simp
  qed
  then show "arrangement_ok b" "mset (elements_of b) = add_mset e (mset (elements_of a))" "x \<noteq> e \<Longrightarrow> spot_of b x = spot_of a x" by simp_all
qed

lemma complete_ok:
  assumes "arrangement_ok a" "complete_arrangement a es = Some b"
  shows "arrangement_ok b \<and> set (elements_of b) = set (elements_of a) \<union> set es \<and> (\<forall>x \<in> set (elements_of a). spot_of b x = spot_of a x)"
  using assms
proof (induction es arbitrary: a)
  case (Cons e es)
  show ?case
  proof (cases "e \<in> set (elements_of a)")
    case True
    then have "island_of a e \<noteq> None" by (simp add: island_of_None)
    with Cons.prems Cons.IH [OF Cons.prems(1)] True show ?thesis by auto
  next
    case False
    then have "island_of a e = None" by (simp add: island_of_None)
    with Cons.prems(2) obtain p where p: "place_missing a e = Some p" "complete_arrangement p es = Some b" by (auto simp: bind_eq_Some_conv)
    note k = place_ok [OF Cons.prems(1) False p(1)]
    have "set (elements_of p) = insert e (set (elements_of a))" using k(2) by (metis set_mset_add_mset_insert set_mset_mset)
    with Cons.IH [OF k(1) p(2)] k(3) False show ?thesis by force
  qed
qed simp

text \<open>With the apps and the system elements there, or room left, nothing is without a spot.\<close>

lemma find_spot_free: "length a < 12 \<Longrightarrow> first_free_spot a preferred \<noteq> None"
proof
  assume l: "length a < 12" and n: "first_free_spot a preferred = None"
  then have "set SPOTS \<subseteq> il_spot ` set a"
    unfolding first_free_spot_def find_None_iff island_at_None by (metis Un_iff set_append set_ConsD list.set_intros(2) subsetI)
  then have "card (set SPOTS) \<le> card (il_spot ` set a)" by (intro card_mono) auto
  also have "card (il_spot ` set a) \<le> length a" by (rule le_trans [OF card_image_le card_length]) simp
  finally show False using l distinct_card [OF distinct_SPOTS] length_SPOTS by simp
qed

lemma place_somewhere:
  assumes "length a < 12 \<or> (set [''start'', ''dock''] \<inter> set (elements_of a) \<noteq> {} \<and> set SYSTEM_ELEMENTS \<inter> set (elements_of a) \<noteq> {})" "e \<notin> set (elements_of a)"
  shows "place_missing a e \<noteq> None"
proof -
  obtain ns after where h: "otherwise (map_of HOMES e) EXTENSION_HOME = (ns, after)" by fastforce
  show ?thesis
  proof (cases "length a < 12")
    case True
    then show ?thesis using find_spot_free [OF True] h by (auto simp: place_missing_def Let_def split: option.split)
  next
    case False
    have "\<exists>n \<in> set ns. n \<in> set (elements_of a)"
      using h assms False by (auto simp: HOMES_def EXTENSION_HOME_def SYSTEM_ELEMENTS_def split: if_splits)
    then have "place_beside a e after ns \<noteq> None" by (auto simp: place_beside_None simp del: not_None_eq)
    with h show ?thesis by (auto simp: place_missing_def)
  qed
qed

lemma complete_anchored:
  assumes "arrangement_ok a" "set [''start'', ''dock''] \<inter> set (elements_of a) \<noteq> {}" "set SYSTEM_ELEMENTS \<inter> set (elements_of a) \<noteq> {}"
  shows "complete_arrangement a es \<noteq> None"
  using assms
proof (induction es arbitrary: a)
  case (Cons e es)
  show ?case
  proof (cases "e \<in> set (elements_of a)")
    case True
    then have "island_of a e \<noteq> None" by (simp add: island_of_None)
    then show ?thesis using Cons.IH [OF Cons.prems] by simp
  next
    case False
    obtain p where p: "place_missing a e = Some p" using place_somewhere [OF _ False] Cons.prems(2,3) by auto
    note k = place_ok [OF Cons.prems(1) False p]
    have "set (elements_of p) = insert e (set (elements_of a))" using k(2) by (metis set_mset_add_mset_insert set_mset_mset)
    then have "complete_arrangement p es \<noteq> None" using Cons.prems(2,3) by (intro Cons.IH [OF k(1)]) auto
    with p False show ?thesis by (simp add: island_of_None)
  qed
qed simp

end
