(* ===== verification/Taskbar_Geometry.thy ===== *)
theory Taskbar_Geometry
  imports Taskbar_Model Tiling_Geometry
begin

text \<open>
  Where islands go on a screen, \<^verbatim>\<open>packages/web/ui/src/taskbar/arrangement/geometry.ts\<close>: along an edge, on
  all four edges, and which spot is nearest a point or lies in a direction.
\<close>

section \<open>Along an edge\<close>

record bar_span =
  bs_start :: number
  bs_end :: number

record placed =
  pd_along :: along
  pd_length :: number

fun along_ends :: "bar_span \<Rightarrow> number \<Rightarrow> placed list \<Rightarrow> bar_span \<Rightarrow> bar_span" where
  "along_ends sp gap [] ends = ends"
| "along_ends sp gap (p # ps) ends =
    along_ends sp gap ps
      (case pd_along p of
        At_start \<Rightarrow> ends\<lparr>bs_start := max (bs_start ends) (bs_start sp + pd_length p + gap)\<rparr>
      | At_end \<Rightarrow> ends\<lparr>bs_end := min (bs_end ends) (bs_end sp - pd_length p - gap)\<rparr>
      | At_center \<Rightarrow> ends)"

definition place_at :: "bar_span \<Rightarrow> bar_span \<Rightarrow> number \<Rightarrow> placed \<Rightarrow> number" where
  "place_at sp ends middle p =
    (case pd_along p of
      At_start \<Rightarrow> bs_start sp
    | At_end \<Rightarrow> bs_end sp - pd_length p
    | At_center \<Rightarrow> max (bs_start ends) (min (middle - pd_length p / 2) (bs_end ends - pd_length p)))"

definition place_along :: "bar_span \<Rightarrow> placed list \<Rightarrow> number \<Rightarrow> number \<Rightarrow> number list" where
  "place_along sp items gap middle =
    (let ends = along_ends sp gap items \<lparr>bs_start = bs_start sp, bs_end = bs_end sp\<rparr>
     in map (place_at sp ends middle) items)"

definition middle_of_span :: "bar_span \<Rightarrow> number" where
  "middle_of_span sp = (bs_start sp + bs_end sp) / 2"

section \<open>On a screen\<close>

record island_frame =
  fr_width :: number
  fr_height :: number
  fr_thickness :: number
  fr_margin :: number
  fr_right_to_left :: bool

record island_box = box +
  ib_spot :: spot
  ib_edge :: bar_edge

definition CORNERS :: "(bar_edge \<times> bar_edge) list" where
  "CORNERS = concat (map (\<lambda>horizontal. map (\<lambda>vertical. (horizontal, vertical)) [Edge_left, Edge_right]) [Edge_top, Edge_bottom])"

definition band_of :: "bar_edge \<Rightarrow> island_frame \<Rightarrow> box" where
  "band_of e f =
    (case e of
      Edge_bottom \<Rightarrow> \<lparr>b_x = 0, b_y = fr_height f - fr_margin f - fr_thickness f, b_w = fr_width f, b_h = fr_thickness f\<rparr>
    | Edge_top \<Rightarrow> \<lparr>b_x = 0, b_y = fr_margin f, b_w = fr_width f, b_h = fr_thickness f\<rparr>
    | Edge_left \<Rightarrow> \<lparr>b_x = fr_margin f, b_y = 0, b_w = fr_thickness f, b_h = fr_height f\<rparr>
    | Edge_right \<Rightarrow> \<lparr>b_x = fr_width f - fr_margin f - fr_thickness f, b_y = 0, b_w = fr_thickness f, b_h = fr_height f\<rparr>)"

definition overlaps :: "'a box_scheme \<Rightarrow> 'b box_scheme \<Rightarrow> bool" where
  "overlaps a b \<longleftrightarrow> b_x a < b_x b + b_w b \<and> b_x b < b_x a + b_w a \<and> b_y a < b_y b + b_h b \<and> b_y b < b_y a + b_h a"

type_synonym sized = "spot \<times> number"

definition lay_one :: "bar_edge \<Rightarrow> island_frame \<Rightarrow> sized \<Rightarrow> number \<Rightarrow> island_box" where
  "lay_one e f = (\<lambda>(spot, len) start.
    (let band = band_of e f in
     if is_vertical_edge e
     then \<lparr>b_x = b_x band, b_y = start, b_w = b_w band, b_h = len, ib_spot = spot, ib_edge = e\<rparr>
     else \<lparr>b_x = (if fr_right_to_left f then fr_width f - start - len else start), b_y = b_y band, b_w = len, b_h = b_h band,
       ib_spot = spot, ib_edge = e\<rparr>))"

definition lay_edge :: "bar_edge \<Rightarrow> sized list \<Rightarrow> bar_span \<Rightarrow> island_frame \<Rightarrow> island_box list" where
  "lay_edge e islands sp f =
    map2 (lay_one e f) islands
      (place_along sp (map (\<lambda>(spot, len). \<lparr>pd_along = along_of spot, pd_length = len\<rparr>) islands) (fr_margin f) (middle_of_span sp))"

definition islands_on :: "bar_edge \<Rightarrow> sized list \<Rightarrow> sized list" where
  "islands_on e islands = filter (\<lambda>(spot, len). edge_of spot = e) islands"

definition full_span :: "bar_edge \<Rightarrow> island_frame \<Rightarrow> bar_span" where
  "full_span e f = \<lparr>bs_start = fr_margin f, bs_end = (if is_vertical_edge e then fr_height f else fr_width f) - fr_margin f\<rparr>"

text \<open>One corner of a side: the span shrinks when both its row and its column are taken there.\<close>

definition clear_corner :: "bar_edge \<Rightarrow> island_box list \<Rightarrow> island_box list \<Rightarrow> island_frame \<Rightarrow> bar_edge \<times> bar_edge \<Rightarrow> bar_span \<Rightarrow> bar_span" where
  "clear_corner e boxes first f = (\<lambda>(horizontal, vertical) sp.
    if vertical \<noteq> e then sp
    else
     (let row = band_of horizontal f; column = band_of vertical f in
      if \<not> (list_ex (\<lambda>b. ib_edge b = horizontal \<and> overlaps b column) boxes \<and> list_ex (\<lambda>b. overlaps b row) first) then sp
      else if horizontal = Edge_top then sp\<lparr>bs_start := b_y row + b_h row + fr_margin f\<rparr>
      else sp\<lparr>bs_end := b_y row - fr_margin f\<rparr>))"

definition lay_side :: "bar_edge \<Rightarrow> sized list \<Rightarrow> island_frame \<Rightarrow> island_box list \<Rightarrow> island_box list" where
  "lay_side e islands f boxes =
    (let first = lay_edge e (islands_on e islands) (full_span e f) f
     in lay_edge e (islands_on e islands) (fold (clear_corner e boxes first f) CORNERS (full_span e f)) f)"

definition lay_islands :: "sized list \<Rightarrow> island_frame \<Rightarrow> island_box list" where
  "lay_islands islands f =
    (let rows = concat (map (\<lambda>e. lay_edge e (islands_on e islands) (full_span e f) f) [Edge_top, Edge_bottom])
     in fold (\<lambda>e boxes. boxes @ lay_side e islands f boxes) [Edge_left, Edge_right] rows)"

definition spot_targets :: "island_frame \<Rightarrow> number \<Rightarrow> island_box list" where
  "spot_targets f len = lay_islands (map (\<lambda>spot. (spot, len)) SPOTS) f"

section \<open>Near and toward\<close>

definition middle_of :: "'a box_scheme \<Rightarrow> number \<times> number" where
  "middle_of b = (b_x b + b_w b / 2, b_y b + b_h b / 2)"

text \<open>Distances are compared by their squares.\<close>

definition away2 :: "number \<times> number \<Rightarrow> number \<times> number \<Rightarrow> number" where
  "away2 p q = (fst p - fst q) * (fst p - fst q) + (snd p - snd q) * (snd p - snd q)"

fun near_from :: "number \<times> number \<Rightarrow> island_box list \<Rightarrow> number \<Rightarrow> spot option \<Rightarrow> spot option" where
  "near_from p [] best nearest = nearest"
| "near_from p (t # ts) best nearest =
    (if away2 (middle_of t) p < best then near_from p ts (away2 (middle_of t) p) (Some (ib_spot t)) else near_from p ts best nearest)"

definition spot_near :: "island_box list \<Rightarrow> number \<Rightarrow> number \<Rightarrow> number \<Rightarrow> spot option" where
  "spot_near targets x y reach = (if reach \<le> 0 then None else near_from (x, y) targets (reach * reach) None)"

definition toward_along :: "number \<times> number \<Rightarrow> int \<times> int \<Rightarrow> island_box \<Rightarrow> number" where
  "toward_along from_point d t =
    (fst (middle_of t) - fst from_point) * of_int (fst d) + (snd (middle_of t) - snd from_point) * of_int (snd d)"

definition toward_score :: "number \<times> number \<Rightarrow> int \<times> int \<Rightarrow> island_box \<Rightarrow> number" where
  "toward_score from_point d t = toward_along from_point d t +
    2 * \<bar>(fst (middle_of t) - fst from_point) * of_int (snd d) - (snd (middle_of t) - snd from_point) * of_int (fst d)\<bar>"

text \<open>The best score so far, \<open>None\<close> for infinity, with its spot.\<close>

fun toward_from :: "number \<times> number \<Rightarrow> spot \<Rightarrow> int \<times> int \<Rightarrow> island_box list \<Rightarrow> (number \<times> spot) option \<Rightarrow> spot option" where
  "toward_from p spot d [] best = map_option snd best"
| "toward_from p spot d (t # ts) best =
    (if ib_spot t = spot \<or> toward_along p d t \<le> 0 then toward_from p spot d ts best
     else if (case best of None \<Rightarrow> True | Some (lowest, _) \<Rightarrow> toward_score p d t < lowest)
     then toward_from p spot d ts (Some (toward_score p d t, ib_spot t))
     else toward_from p spot d ts best)"

text \<open>\<open>None\<close> when the spot has no target: reading its middle would throw.\<close>

definition spot_toward :: "island_box list \<Rightarrow> spot \<Rightarrow> int \<times> int \<Rightarrow> spot option option" where
  "spot_toward targets spot d =
    (case List.find (\<lambda>t. ib_spot t = spot) targets of
      None \<Rightarrow> None
    | Some t \<Rightarrow> Some (toward_from (middle_of t) spot d targets None))"

section \<open>Along an edge nothing overlaps\<close>

lemma ends_start: "bs_start ends \<le> bs_start (along_ends sp gap ps ends)"
  "p \<in> set ps \<Longrightarrow> pd_along p = At_start \<Longrightarrow> bs_start sp + pd_length p + gap \<le> bs_start (along_ends sp gap ps ends)"
proof -
  show mono: "bs_start ends \<le> bs_start (along_ends sp gap ps ends)" for ps ends
  proof (induction ps arbitrary: ends)
    case (Cons q ps)
    show ?case using Cons.IH [of "ends\<lparr>bs_start := max (bs_start ends) (bs_start sp + pd_length q + gap)\<rparr>"]
        Cons.IH [of "ends\<lparr>bs_end := min (bs_end ends) (bs_end sp - pd_length q - gap)\<rparr>"] Cons.IH [of ends]
      by (cases "pd_along q") simp_all
  qed simp
  show "p \<in> set ps \<Longrightarrow> pd_along p = At_start \<Longrightarrow> bs_start sp + pd_length p + gap \<le> bs_start (along_ends sp gap ps ends)"
  proof (induction ps arbitrary: ends)
    case (Cons q ps)
    show ?case
    proof (cases "p = q")
      case True
      then show ?thesis using Cons.prems(2) mono [of "ends\<lparr>bs_start := max (bs_start ends) (bs_start sp + pd_length q + gap)\<rparr>" ps] by simp
    qed (use Cons in simp)
  qed simp
qed

lemma ends_end: "bs_end (along_ends sp gap ps ends) \<le> bs_end ends"
  "p \<in> set ps \<Longrightarrow> pd_along p = At_end \<Longrightarrow> bs_end (along_ends sp gap ps ends) \<le> bs_end sp - pd_length p - gap"
proof -
  show mono: "bs_end (along_ends sp gap ps ends) \<le> bs_end ends" for ps ends
  proof (induction ps arbitrary: ends)
    case (Cons q ps)
    show ?case using Cons.IH [of "ends\<lparr>bs_start := max (bs_start ends) (bs_start sp + pd_length q + gap)\<rparr>"]
        Cons.IH [of "ends\<lparr>bs_end := min (bs_end ends) (bs_end sp - pd_length q - gap)\<rparr>"] Cons.IH [of ends]
      by (cases "pd_along q") simp_all
  qed simp
  show "p \<in> set ps \<Longrightarrow> pd_along p = At_end \<Longrightarrow> bs_end (along_ends sp gap ps ends) \<le> bs_end sp - pd_length p - gap"
  proof (induction ps arbitrary: ends)
    case (Cons q ps)
    show ?case
    proof (cases "p = q")
      case True
      then show ?thesis using Cons.prems(2) mono [of ps "ends\<lparr>bs_end := min (bs_end ends) (bs_end sp - pd_length q - gap)\<rparr>"] by simp
    qed (use Cons in simp)
  qed simp
qed

text \<open>Where the ends come from.\<close>

lemma ends_from: "bs_start (along_ends sp gap ps ends) = bs_start ends \<or>
    (\<exists>p \<in> set ps. pd_along p = At_start \<and> bs_start (along_ends sp gap ps ends) = bs_start sp + pd_length p + gap)"
  "bs_end (along_ends sp gap ps ends) = bs_end ends \<or>
    (\<exists>p \<in> set ps. pd_along p = At_end \<and> bs_end (along_ends sp gap ps ends) = bs_end sp - pd_length p - gap)"
proof -
  show "bs_start (along_ends sp gap ps ends) = bs_start ends \<or>
    (\<exists>p \<in> set ps. pd_along p = At_start \<and> bs_start (along_ends sp gap ps ends) = bs_start sp + pd_length p + gap)"
  proof (induction ps arbitrary: ends)
    case (Cons q ps)
    show ?case using Cons.IH [of "ends\<lparr>bs_start := max (bs_start ends) (bs_start sp + pd_length q + gap)\<rparr>"]
        Cons.IH [of "ends\<lparr>bs_end := min (bs_end ends) (bs_end sp - pd_length q - gap)\<rparr>"] Cons.IH [of ends]
      by (cases "pd_along q") (auto simp: max_def split: if_splits)
  qed simp
  show "bs_end (along_ends sp gap ps ends) = bs_end ends \<or>
    (\<exists>p \<in> set ps. pd_along p = At_end \<and> bs_end (along_ends sp gap ps ends) = bs_end sp - pd_length p - gap)"
  proof (induction ps arbitrary: ends)
    case (Cons q ps)
    show ?case using Cons.IH [of "ends\<lparr>bs_start := max (bs_start ends) (bs_start sp + pd_length q + gap)\<rparr>"]
        Cons.IH [of "ends\<lparr>bs_end := min (bs_end ends) (bs_end sp - pd_length q - gap)\<rparr>"] Cons.IH [of ends]
      by (cases "pd_along q") (auto simp: min_def split: if_splits)
  qed simp
qed

text \<open>Room for the items with a gap between them.\<close>

definition room :: "bar_span \<Rightarrow> placed list \<Rightarrow> number \<Rightarrow> bool" where
  "room sp ps gap \<longleftrightarrow> distinct (map pd_along ps) \<and> 0 \<le> gap \<and> (\<forall>p \<in> set ps. 0 \<le> pd_length p) \<and>
    (\<Sum>p\<leftarrow>ps. pd_length p + gap) \<le> bs_end sp - bs_start sp + gap"

lemma room_sum:
  assumes "room sp ps gap" "S \<subseteq> set ps"
  shows "(\<Sum>p \<in> S. pd_length p + gap) \<le> bs_end sp - bs_start sp + gap"
proof -
  have d: "distinct ps" using assms(1) by (auto simp: room_def distinct_map)
  have "(\<Sum>p \<in> S. pd_length p + gap) \<le> (\<Sum>p \<in> set ps. pd_length p + gap)"
    using assms by (intro sum_mono2) (auto simp: room_def)
  with assms(1) d show ?thesis by (simp add: room_def sum_list_distinct_conv_sum_set)
qed

lemma place_at_apart:
  fixes middle :: number
  assumes r: "room sp ps gap"
  defines "f \<equiv> place_at sp (along_ends sp gap ps \<lparr>bs_start = bs_start sp, bs_end = bs_end sp\<rparr>) middle"
  shows "p \<in> set ps \<Longrightarrow> bs_start sp \<le> f p \<and> f p + pd_length p \<le> bs_end sp"
    and "p \<in> set ps \<Longrightarrow> q \<in> set ps \<Longrightarrow> p \<noteq> q \<Longrightarrow> f p + pd_length p + gap \<le> f q \<or> f q + pd_length q + gap \<le> f p"
proof -
  let ?E = "along_ends sp gap ps \<lparr>bs_start = bs_start sp, bs_end = bs_end sp\<rparr>"
  have d: "p = q" if "p \<in> set ps" "q \<in> set ps" "pd_along p = pd_along q" for p q
    using r that by (auto simp: room_def distinct_map dest: inj_onD)
  have one: "pd_length p \<le> bs_end sp - bs_start sp" if "p \<in> set ps" for p using room_sum [OF r, of "{p}"] that by simp
  have two: "pd_length p + gap + pd_length q \<le> bs_end sp - bs_start sp" if "p \<in> set ps" "q \<in> set ps" "p \<noteq> q" for p q
    using room_sum [OF r, of "{p, q}"] that by simp
  have three: "pd_length p + gap + pd_length q + gap + pd_length c \<le> bs_end sp - bs_start sp"
    if "p \<in> set ps" "q \<in> set ps" "c \<in> set ps" "p \<noteq> q" "q \<noteq> c" "p \<noteq> c" for p q c
    using room_sum [OF r, of "{p, q, c}"] that by simp
  have g: "0 \<le> gap" using r by (simp add: room_def)
  have mid: "bs_start ?E + pd_length c \<le> bs_end ?E" if c: "c \<in> set ps" "pd_along c = At_center" for c
  proof -
    have "bs_start ?E = bs_start sp \<or> (\<exists>p \<in> set ps. pd_along p = At_start \<and> bs_start ?E = bs_start sp + pd_length p + gap)"
      using ends_from(1) [of sp gap ps "\<lparr>bs_start = bs_start sp, bs_end = bs_end sp\<rparr>"] by simp
    moreover have "bs_end ?E = bs_end sp \<or> (\<exists>p \<in> set ps. pd_along p = At_end \<and> bs_end ?E = bs_end sp - pd_length p - gap)"
      using ends_from(2) [of sp gap ps "\<lparr>bs_start = bs_start sp, bs_end = bs_end sp\<rparr>"] by simp
    ultimately show ?thesis
    proof (elim disjE bexE conjE)
      fix p q assume "p \<in> set ps" "q \<in> set ps" "pd_along p = At_start" "pd_along q = At_end"
        "bs_start ?E = bs_start sp + pd_length p + gap" "bs_end ?E = bs_end sp - pd_length q - gap"
      moreover from this have "p \<noteq> q" "q \<noteq> c" "p \<noteq> c" using c by auto
      ultimately show ?thesis using three [of p q c] c(1) by linarith
    next
      fix p assume "bs_start ?E = bs_start sp" "p \<in> set ps" "pd_along p = At_end" "bs_end ?E = bs_end sp - pd_length p - gap"
      moreover from this have "p \<noteq> c" using c by auto
      ultimately show ?thesis using two [of p c] c(1) by linarith
    next
      fix p assume "bs_end ?E = bs_end sp" "p \<in> set ps" "pd_along p = At_start" "bs_start ?E = bs_start sp + pd_length p + gap"
      moreover from this have "p \<noteq> c" using c by auto
      ultimately show ?thesis using two [of p c] c(1) by linarith
    qed (use one [OF c(1)] in linarith)
  qed
  have center: "bs_start ?E \<le> f c \<and> f c + pd_length c \<le> bs_end ?E" if "c \<in> set ps" "pd_along c = At_center" for c
    using mid [OF that] that(2) by (auto simp: f_def place_at_def)
  have first: "f p = bs_start sp" if "pd_along p = At_start" for p using that by (simp add: f_def place_at_def)
  have last: "f p = bs_end sp - pd_length p" if "pd_along p = At_end" for p using that by (simp add: f_def place_at_def)
  have e: "bs_start sp \<le> bs_start ?E" "bs_end ?E \<le> bs_end sp"
    using ends_start(1) [of "\<lparr>bs_start = bs_start sp, bs_end = bs_end sp\<rparr>"] ends_end(1) [of _ _ _ "\<lparr>bs_start = bs_start sp, bs_end = bs_end sp\<rparr>"] by auto
  show "p \<in> set ps \<Longrightarrow> bs_start sp \<le> f p \<and> f p + pd_length p \<le> bs_end sp"
    using one [of p] center [of p] first [of p] last [of p] e by (cases "pd_along p") auto
  have start_before: "f p + pd_length p + gap \<le> f q" if "p \<in> set ps" "q \<in> set ps" "pd_along p = At_start" "pd_along q \<noteq> At_start" for p q
  proof (cases "pd_along q")
    case At_center
    then show ?thesis
      using ends_start(2) [OF that(1,3), of sp gap "\<lparr>bs_start = bs_start sp, bs_end = bs_end sp\<rparr>"] center [OF that(2)] first [OF that(3)] by linarith
  next
    case At_end
    moreover have "p \<noteq> q" using that by auto
    ultimately show ?thesis using two [OF that(1,2)] first [OF that(3)] last [of q] by simp
  qed (use that in simp)
  have before_end: "f p + pd_length p + gap \<le> f q" if "p \<in> set ps" "q \<in> set ps" "pd_along p = At_center" "pd_along q = At_end" for p q
    using ends_end(2) [OF that(2,4), of sp gap "\<lparr>bs_start = bs_start sp, bs_end = bs_end sp\<rparr>"] center [OF that(1,3)] last [OF that(4)] by linarith
  show "p \<in> set ps \<Longrightarrow> q \<in> set ps \<Longrightarrow> p \<noteq> q \<Longrightarrow> f p + pd_length p + gap \<le> f q \<or> f q + pd_length q + gap \<le> f p"
    using start_before [of p q] start_before [of q p] before_end [of p q] before_end [of q p] d [of p q]
    by (cases "pd_along p"; cases "pd_along q") auto
qed

section \<open>The twelve targets\<close>

text \<open>With room for three targets along every edge between the corners, no two targets overlap.\<close>

lemma three_along:
  assumes "0 \<le> len" "0 \<le> gap" "3 * len + 2 * gap \<le> bs_end sp - bs_start sp"
  shows "place_along sp [\<lparr>pd_along = At_start, pd_length = len\<rparr>, \<lparr>pd_along = At_center, pd_length = len\<rparr>, \<lparr>pd_along = At_end, pd_length = len\<rparr>]
      gap (middle_of_span sp) = [bs_start sp, (bs_start sp + bs_end sp - len) / 2, bs_end sp - len]"
  using assms by (simp add: place_along_def place_at_def middle_of_span_def Let_def max_def min_def field_simps)

lemma islands_on_spots:
  "islands_on e (map (\<lambda>spot. (spot, len)) SPOTS) = [((e, At_start), len), ((e, At_center), len), ((e, At_end), len)]"
  by (cases e) (simp_all add: islands_on_def SPOTS_def BAR_EDGES_def ALONGS_def spot_at_def edge_of_def)

lemma lay_three:
  assumes "0 \<le> len" "0 \<le> fr_margin f" "3 * len + 2 * fr_margin f \<le> bs_end sp - bs_start sp"
  shows "lay_edge e (islands_on e (map (\<lambda>spot. (spot, len)) SPOTS)) sp f =
    [lay_one e f ((e, At_start), len) (bs_start sp), lay_one e f ((e, At_center), len) ((bs_start sp + bs_end sp - len) / 2),
     lay_one e f ((e, At_end), len) (bs_end sp - len)]"
  unfolding islands_on_spots lay_edge_def by (simp add: along_of_def three_along [OF assms])

definition frame_fits :: "island_frame \<Rightarrow> number \<Rightarrow> bool" where
  "frame_fits f len \<longleftrightarrow> 0 < len \<and> 0 < fr_thickness f \<and> 0 \<le> fr_margin f \<and>
    3 * len + 4 * fr_margin f \<le> fr_width f \<and> 2 * (fr_margin f + fr_thickness f) \<le> fr_width f \<and>
    3 * len + 6 * fr_margin f + 2 * fr_thickness f \<le> fr_height f"

definition side_span :: "island_frame \<Rightarrow> bar_span" where
  "side_span f = \<lparr>bs_start = 2 * fr_margin f + fr_thickness f, bs_end = fr_height f - 2 * fr_margin f - fr_thickness f\<rparr>"

definition three_on :: "bar_edge \<Rightarrow> island_frame \<Rightarrow> number \<Rightarrow> bar_span \<Rightarrow> island_box list" where
  "three_on e f len sp = [lay_one e f ((e, At_start), len) (bs_start sp), lay_one e f ((e, At_center), len) ((bs_start sp + bs_end sp - len) / 2),
     lay_one e f ((e, At_end), len) (bs_end sp - len)]"

lemma three_on_crowds:
  assumes "frame_fits f len" "e \<in> {Edge_top, Edge_bottom}" "v \<in> {Edge_left, Edge_right}"
  shows "list_ex (\<lambda>b. ib_edge b = e \<and> overlaps b (band_of v f)) (three_on e f len (full_span e f))"
    "list_ex (\<lambda>b. overlaps b (band_of e f)) (three_on v f len (full_span v f))"
proof -
  note d = frame_fits_def lay_one_def band_of_def overlaps_def full_span_def is_vertical_edge_def Let_def
  have "overlaps (lay_one e f ((e, At_start), len) (bs_start (full_span e f))) (band_of v f) \<or>
      overlaps (lay_one e f ((e, At_end), len) (bs_end (full_span e f) - len)) (band_of v f)"
  proof (cases "(v = Edge_left) = fr_right_to_left f")
    case True
    then have "overlaps (lay_one e f ((e, At_end), len) (bs_end (full_span e f) - len)) (band_of v f)"
      using assms by (elim insertE emptyE) (simp_all add: d)
    then show ?thesis ..
  next
    case False
    then have "overlaps (lay_one e f ((e, At_start), len) (bs_start (full_span e f))) (band_of v f)"
      using assms by (elim insertE emptyE) (simp_all add: d)
    then show ?thesis ..
  qed
  moreover have "ib_edge (lay_one e f (s, l) x) = e" for s l x by (simp add: lay_one_def Let_def)
  ultimately show "list_ex (\<lambda>b. ib_edge b = e \<and> overlaps b (band_of v f)) (three_on e f len (full_span e f))"
    unfolding three_on_def by auto
  have "overlaps (lay_one v f ((v, At_start), len) (bs_start (full_span v f))) (band_of e f) \<or>
      overlaps (lay_one v f ((v, At_end), len) (bs_end (full_span v f) - len)) (band_of e f)"
  proof (cases "e = Edge_top")
    case True
    then have "overlaps (lay_one v f ((v, At_start), len) (bs_start (full_span v f))) (band_of e f)"
      using assms by (elim insertE emptyE) (simp_all add: d)
    then show ?thesis ..
  next
    case False
    then have "overlaps (lay_one v f ((v, At_end), len) (bs_end (full_span v f) - len)) (band_of e f)"
      using assms by (elim insertE emptyE) (simp_all add: d)
    then show ?thesis ..
  qed
  then show "list_ex (\<lambda>b. overlaps b (band_of e f)) (three_on v f len (full_span v f))" unfolding three_on_def by auto
qed

lemma lay_side_three:
  assumes "frame_fits f len" "v \<in> {Edge_left, Edge_right}"
    and "three_on Edge_top f len (full_span Edge_top f) @ three_on Edge_bottom f len (full_span Edge_bottom f) = rows"
  shows "lay_side v (map (\<lambda>spot. (spot, len)) SPOTS) f (rows @ later) = three_on v f len (side_span f)"
proof -
  let ?all = "map (\<lambda>spot. (spot, len)) SPOTS"
  have m: "0 \<le> len" "0 \<le> fr_margin f" using assms(1) by (auto simp: frame_fits_def)
  have first: "lay_edge v (islands_on v ?all) (full_span v f) f = three_on v f len (full_span v f)"
    unfolding three_on_def by (rule lay_three [OF m]) (use assms(1,2) in \<open>auto simp: frame_fits_def full_span_def is_vertical_edge_def\<close>)
  have boxes: "list_ex (\<lambda>b. ib_edge b = e \<and> overlaps b (band_of v f)) (rows @ later)" if "e \<in> {Edge_top, Edge_bottom}" for e
    using three_on_crowds(1) [OF assms(1) that assms(2)] that unfolding assms(3) [symmetric] by auto
  let ?c = "clear_corner v (rows @ later) (three_on v f len (full_span v f)) f"
  have top: "?c (Edge_top, v) sp = sp\<lparr>bs_start := 2 * fr_margin f + fr_thickness f\<rparr>" for sp
    using boxes [of Edge_top] three_on_crowds(2) [OF assms(1) _ assms(2), of Edge_top]
    by (simp add: clear_corner_def Let_def del: list_ex_append) (simp add: band_of_def)
  have bottom: "?c (Edge_bottom, v) sp = sp\<lparr>bs_end := fr_height f - 2 * fr_margin f - fr_thickness f\<rparr>" for sp
    using boxes [of Edge_bottom] three_on_crowds(2) [OF assms(1) _ assms(2), of Edge_bottom]
    by (simp add: clear_corner_def Let_def del: list_ex_append) (simp add: band_of_def)
  have other: "?c (h, v') sp = sp" if "v' \<noteq> v" for h v' sp using that by (simp add: clear_corner_def)
  have "fold ?c CORNERS (full_span v f) = side_span f"
    using assms(2) top bottom other by (auto simp: CORNERS_def full_span_def side_span_def)
  then have e: "lay_side v ?all f (rows @ later) = lay_edge v (islands_on v ?all) (side_span f) f"
    unfolding lay_side_def first by simp
  show ?thesis unfolding e three_on_def
    by (rule lay_three [OF m]) (use assms(1,2) in \<open>auto simp: frame_fits_def side_span_def\<close>)
qed

lemma spot_targets_three:
  assumes "frame_fits f len"
  shows "spot_targets f len = three_on Edge_top f len (full_span Edge_top f) @ three_on Edge_bottom f len (full_span Edge_bottom f) @
    three_on Edge_left f len (side_span f) @ three_on Edge_right f len (side_span f)"
proof -
  have m: "0 \<le> len" "0 \<le> fr_margin f" using assms(1) by (auto simp: frame_fits_def)
  have rows: "lay_edge e (islands_on e (map (\<lambda>spot. (spot, len)) SPOTS)) (full_span e f) f = three_on e f len (full_span e f)"
    if "\<not> is_vertical_edge e" for e
    unfolding three_on_def by (rule lay_three [OF m]) (use assms that in \<open>auto simp: frame_fits_def full_span_def\<close>)
  show ?thesis
    using lay_side_three [OF assms _ refl, of Edge_left "[]"] lay_side_three [OF assms _ refl, of Edge_right "three_on Edge_left f len (side_span f)"]
    by (simp add: spot_targets_def lay_islands_def rows is_vertical_edge_def)
qed

lemma spot_targets_apart:
  assumes "frame_fits f len"
  shows "sorted_wrt (\<lambda>a b. \<not> overlaps a b) (spot_targets f len)"
  using assms unfolding spot_targets_three [OF assms]
  by (simp add: three_on_def lay_one_def band_of_def overlaps_def full_span_def side_span_def is_vertical_edge_def Let_def frame_fits_def
     field_simps)

end
