(* ===== verification/Taskbar_Editing.thy ===== *)
theory Taskbar_Editing
  imports Taskbar_Geometry
begin

text \<open>
  Changing the arrangement of the taskbar, \<^verbatim>\<open>packages/web/ui/src/taskbar/arrangement/editing.ts\<close>: moving
  islands, elements and the whole bar, by dragging, with the arrow keys or from a list, and the presets.  An
  index is \<open>None\<close> for \<^verbatim>\<open>Infinity\<close>.
\<close>

section \<open>Moving\<close>

definition move_island :: "arrangement \<Rightarrow> spot \<Rightarrow> spot \<Rightarrow> arrangement" where
  "move_island a from_spot to_spot =
    (if from_spot = to_spot \<or> island_at a from_spot = None then a
     else map (\<lambda>i. if il_spot i = from_spot then i\<lparr>il_spot := to_spot\<rparr> else if il_spot i = to_spot then i\<lparr>il_spot := from_spot\<rparr> else i) a)"

definition without_element :: "string \<Rightarrow> arrangement \<Rightarrow> arrangement" where
  "without_element e a = filter (\<lambda>i. il_elements i \<noteq> []) (map (\<lambda>i. i\<lparr>il_elements := filter (\<lambda>other. other \<noteq> e) (il_elements i)\<rparr>) a)"

definition clamp_index :: "int option \<Rightarrow> nat \<Rightarrow> nat" where
  "clamp_index index len = (case index of None \<Rightarrow> len | Some i \<Rightarrow> nat (max 0 (min i (int len))))"

definition move_element :: "arrangement \<Rightarrow> string \<Rightarrow> spot \<Rightarrow> int option \<Rightarrow> arrangement" where
  "move_element a e spot index =
    (if island_of a e = None then a
     else
      (let without = without_element e a in
       case island_at without spot of
         None \<Rightarrow> without @ [\<lparr>il_spot = spot, il_elements = [e]\<rparr>]
       | Some target \<Rightarrow>
           update_first (\<lambda>i. il_spot i = spot)
             (\<lambda>i. i\<lparr>il_elements := splice_in (clamp_index index (length (il_elements target))) e (il_elements i)\<rparr>) without))"

definition move_bar :: "arrangement \<Rightarrow> bar_edge \<Rightarrow> arrangement" where
  "move_bar a e =
    (let groups = joined_groups a (main_edge a)
     in map (\<lambda>place. \<lparr>il_spot = spot_at e place, il_elements = groups place\<rparr>) (filter (\<lambda>place. groups place \<noteq> []) ALONGS))"

definition island_to :: "arrangement \<Rightarrow> spot \<Rightarrow> spot \<Rightarrow> bool \<Rightarrow> arrangement" where
  "island_to a from_spot spot joined =
    (if \<not> joined \<or> edge_of spot = edge_of from_spot then move_island a from_spot spot
     else move_island (move_bar a (edge_of spot)) (spot_at (edge_of spot) (along_of from_spot)) spot)"

definition element_to :: "arrangement \<Rightarrow> string \<Rightarrow> spot \<Rightarrow> int option \<Rightarrow> bool \<Rightarrow> arrangement" where
  "element_to a e spot index joined =
    move_element a e (if joined then spot_at (main_edge a) (along_of spot) else spot) index"

text \<open>\<open>None\<close> where reading the target of the spot would throw.\<close>

definition step_island :: "arrangement \<Rightarrow> spot \<Rightarrow> int \<times> int \<Rightarrow> island_box list \<Rightarrow> bool \<Rightarrow> arrangement option" where
  "step_island a spot d targets joined =
    map_option (\<lambda>to_spot. case to_spot of None \<Rightarrow> a | Some s \<Rightarrow> island_to a spot s joined) (spot_toward targets spot d)"

definition step_element :: "arrangement \<Rightarrow> string \<Rightarrow> int \<times> int \<Rightarrow> island_box list \<Rightarrow> bool \<Rightarrow> bool \<Rightarrow> arrangement option" where
  "step_element a e d targets joined right_to_left =
    (case island_of a e of
      None \<Rightarrow> Some a
    | Some island \<Rightarrow>
        (let vertical = is_vertical_edge (edge_of (il_spot island));
             along = (if vertical then snd d else fst d * (if right_to_left then - 1 else 1));
             index = int (otherwise (index_of e (il_elements island)) 0);
             across = (if vertical then fst d else snd d)
         in if across = 0 \<and> index + along \<ge> 0 \<and> index + along < int (length (il_elements island))
            then Some (element_to a e (il_spot island) (Some (index + along)) joined)
            else map_option (\<lambda>to_spot. case to_spot of
                None \<Rightarrow> a
              | Some s \<Rightarrow> element_to a e s (if along < 0 then None else Some 0) joined) (spot_toward targets (il_spot island) d)))"

section \<open>Presets\<close>

datatype preset_name = Classic | Centered | Mac | Side
datatype bar_style = Joined_bar | Separate_islands

definition PRESETS :: "preset_name \<Rightarrow> arrangement \<times> bar_style option" where
  "PRESETS name =
    (let apps = [''start'', ''dock''] in
     case name of
       Classic \<Rightarrow> ([\<lparr>il_spot = (Edge_bottom, At_start), il_elements = apps\<rparr>, \<lparr>il_spot = (Edge_bottom, At_end), il_elements = SYSTEM_ELEMENTS\<rparr>], Some Joined_bar)
     | Centered \<Rightarrow> (DEFAULT_ARRANGEMENT, None)
     | Mac \<Rightarrow> ([\<lparr>il_spot = (Edge_bottom, At_center), il_elements = apps\<rparr>, \<lparr>il_spot = (Edge_top, At_end), il_elements = SYSTEM_ELEMENTS\<rparr>], Some Separate_islands)
     | Side \<Rightarrow> ([\<lparr>il_spot = (Edge_left, At_center), il_elements = apps\<rparr>, \<lparr>il_spot = (Edge_bottom, At_end), il_elements = SYSTEM_ELEMENTS\<rparr>], Some Separate_islands))"

definition preset_arrangement :: "preset_name \<Rightarrow> arrangement \<Rightarrow> arrangement option" where
  "preset_arrangement name current = complete_arrangement (fst (PRESETS name)) (elements_of current)"

text \<open>\<open>True\<close> for the alignment to the left.\<close>

definition from_edge_and_alignment :: "bar_edge \<Rightarrow> bool \<Rightarrow> arrangement" where
  "from_edge_and_alignment e to_left =
    [\<lparr>il_spot = (e, if to_left then At_start else At_center), il_elements = [''start'', ''dock'']\<rparr>,
     \<lparr>il_spot = (e, At_end), il_elements = SYSTEM_ELEMENTS\<rparr>]"

section \<open>Places in a list\<close>

datatype element_place = Before_apps | After_apps | Beside_tray | Place_start | Place_end

definition ELEMENT_PLACES :: "element_place list" where
  "ELEMENT_PLACES = [Before_apps, After_apps, Beside_tray, Place_start, Place_end]"

definition APPS :: "string list" where "APPS = [''start'', ''dock'']"

definition beside :: "arrangement \<Rightarrow> string list \<Rightarrow> bool \<Rightarrow> (spot \<times> int option) option" where
  "beside others neighbours after =
    (case List.find (\<lambda>i. list_ex (\<lambda>n. n \<in> set (il_elements i)) neighbours) others of
      None \<Rightarrow> None
    | Some i \<Rightarrow>
        (let indices = map int (concat (map (\<lambda>n. case index_of n (il_elements i) of None \<Rightarrow> [] | Some k \<Rightarrow> [k]) neighbours))
         in Some (il_spot i, Some (if after then Max (set indices) + 1 else Min (set indices)))))"

definition place_target :: "arrangement \<Rightarrow> element_place \<Rightarrow> (spot \<times> int option) option" where
  "place_target others place =
    (case place of
      Before_apps \<Rightarrow> beside others APPS False
    | After_apps \<Rightarrow> beside others [''dock''] True
    | Beside_tray \<Rightarrow> beside others [''tray''] False
    | Place_start \<Rightarrow> Some (spot_at (main_edge others) At_start, Some 0)
    | Place_end \<Rightarrow> Some (spot_at (main_edge others) At_end, None))"

definition place_element :: "arrangement \<Rightarrow> string \<Rightarrow> element_place \<Rightarrow> arrangement" where
  "place_element a e place =
    (case place_target (without_element e a) place of None \<Rightarrow> a | Some (spot, index) \<Rightarrow> move_element a e spot index)"

definition place_of :: "arrangement \<Rightarrow> string \<Rightarrow> element_place option" where
  "place_of a e = List.find (\<lambda>place. same_arrangement (place_element a e place) a) ELEMENT_PLACES"

section \<open>Moves keep the elements\<close>

text \<open>Spots stay whole.\<close>

declare split_paired_All [simp del] split_paired_Ex [simp del]

lemma elements_without: "elements_of (without_element e a) = filter (\<lambda>x. x \<noteq> e) (elements_of a)"
  by (induction a) (auto simp: without_element_def)

lemma spots_filter: "distinct (map il_spot a) \<Longrightarrow> (\<And>i. il_spot (f i) = il_spot i) \<Longrightarrow> distinct (map il_spot (filter P (map f a)))"
  by (induction a) auto

lemma in_without: "i \<in> set (without_element e a) \<longleftrightarrow>
    il_elements i \<noteq> [] \<and> (\<exists>j \<in> set a. i = j\<lparr>il_elements := filter (\<lambda>x. x \<noteq> e) (il_elements j)\<rparr>)"
  by (auto simp: without_element_def)

lemma without_ok:
  assumes "arrangement_ok a"
  shows "arrangement_ok (without_element e a)" "e \<notin> set (elements_of (without_element e a))"
    "x \<noteq> e \<Longrightarrow> spot_of (without_element e a) x = spot_of a x"
proof -
  have s: "distinct (map il_spot (without_element e a))"
    unfolding without_element_def by (rule spots_filter) (use assms in \<open>simp_all add: arrangement_ok_def\<close>)
  then show ok: "arrangement_ok (without_element e a)"
    using assms by (auto simp: arrangement_ok_def elements_without in_without)
  show "e \<notin> set (elements_of (without_element e a))" by (simp add: elements_without)
  have "spot_of (without_element e a) x = Some t \<longleftrightarrow> spot_of a x = Some t" if "x \<noteq> e" for t
    unfolding spot_of_iff [OF ok] spot_of_iff [OF assms]
  proof
    assume "\<exists>i \<in> set a. x \<in> set (il_elements i) \<and> il_spot i = t"
    then obtain i where i: "i \<in> set a" "x \<in> set (il_elements i)" "il_spot i = t" by blast
    let ?j = "i\<lparr>il_elements := filter (\<lambda>x. x \<noteq> e) (il_elements i)\<rparr>"
    have "x \<in> set (il_elements ?j)" using i(2) that by simp
    then have "?j \<in> set (without_element e a)" using i(1) unfolding in_without by (metis empty_iff list.set(1))
    with i \<open>x \<in> set (il_elements ?j)\<close> show "\<exists>i \<in> set (without_element e a). x \<in> set (il_elements i) \<and> il_spot i = t"
      by (auto intro!: bexI [of _ ?j])
  next
    assume "\<exists>i \<in> set (without_element e a). x \<in> set (il_elements i) \<and> il_spot i = t"
    then obtain j where "j \<in> set a" "x \<in> set (filter (\<lambda>x. x \<noteq> e) (il_elements j))" "il_spot j = t" by (auto simp: in_without)
    then show "\<exists>i \<in> set a. x \<in> set (il_elements i) \<and> il_spot i = t" by auto
  qed
  then show "x \<noteq> e \<Longrightarrow> spot_of (without_element e a) x = spot_of a x" by (metis not_Some_eq)
qed

lemma mset_filter_out: "distinct xs \<Longrightarrow> e \<in> set xs \<Longrightarrow> add_mset e (mset (filter (\<lambda>x. x \<noteq> e) xs)) = mset xs"
  by (simp add: removeAll_filter_not_eq [symmetric] distinct_remove1_removeAll [symmetric] eq_commute [of _ e] del: mset_filter)

lemma without_id: "e \<notin> set (elements_of a) \<Longrightarrow> \<forall>i \<in> set a. il_elements i \<noteq> [] \<Longrightarrow> without_element e a = a"
proof (induction a)
  case (Cons i a)
  then have "filter (\<lambda>x. x \<noteq> e) (il_elements i) = il_elements i" by (auto simp: filter_id_conv)
  with Cons show ?case by (simp add: without_element_def)
qed (simp add: without_element_def)

lemma without_append: "without_element e (b @ c) = without_element e b @ without_element e c"
  by (simp add: without_element_def)

lemma move_element_put: "island_of a e \<noteq> None \<Longrightarrow> move_element a e spot index =
    (case island_at (without_element e a) spot of
      None \<Rightarrow> without_element e a @ [\<lparr>il_spot = spot, il_elements = [e]\<rparr>]
    | Some target \<Rightarrow> update_first (\<lambda>i. il_spot i = spot) (put_into (clamp_index index (length (il_elements target))) e) (without_element e a))"
  by (cases "island_of a e") (simp_all add: move_element_def put_into_def [abs_def] Let_def split: option.split)

lemma move_element_ok:
  assumes "arrangement_ok a" "e \<in> set (elements_of a)"
  shows "arrangement_ok (move_element a e spot index)" "mset (elements_of (move_element a e spot index)) = mset (elements_of a)"
    "spot_of (move_element a e spot index) e = Some spot" "x \<noteq> e \<Longrightarrow> spot_of (move_element a e spot index) x = spot_of a x"
    "without_element e (move_element a e spot index) = without_element e a"
proof -
  let ?w = "without_element e a" and ?b = "move_element a e spot index"
  note w = without_ok [where e = e, OF assms(1)]
  have m: "add_mset e (mset (elements_of ?w)) = mset (elements_of a)"
    using mset_filter_out [of "elements_of a" e] assms by (simp add: elements_without arrangement_ok_def)
  have ww: "without_element e ?w = ?w" using w(1,2) by (intro without_id) (simp_all add: arrangement_ok_def)
  have in_a: "island_of a e \<noteq> None" using assms(2) by (simp add: island_of_None)
  have "arrangement_ok ?b \<and> mset (elements_of ?b) = mset (elements_of a) \<and> spot_of ?b e = Some spot \<and> (\<forall>x. x \<noteq> e \<longrightarrow> spot_of ?b x = spot_of a x) \<and>
    without_element e ?b = ?w"
  proof (cases "island_at ?w spot")
    case None
    then have b: "?b = ?w @ [\<lparr>il_spot = spot, il_elements = [e]\<rparr>]" unfolding move_element_put [OF in_a] by simp
    have "spot \<notin> il_spot ` set ?w" using None by (simp add: island_at_None)
    note k = new_island_ok [OF w(1,2) this]
    have "without_element e ?b = ?w" unfolding b without_append ww by (simp add: without_element_def)
    with k m w(3) show ?thesis unfolding b by simp
  next
    case (Some target)
    then have b: "?b = update_first (\<lambda>i. il_spot i = spot) (put_into (clamp_index index (length (il_elements target))) e) ?w"
      unfolding move_element_put [OF in_a] by simp
    have ex: "\<exists>i \<in> set ?w. il_spot i = spot" using island_at_Some [OF Some] by blast
    note k = put_into_ok [where k = "clamp_index index (length (il_elements target))", OF w(1,2) ex]
    obtain us i vs where u: "?w = us @ i # vs" "?b = us @ put_into (clamp_index index (length (il_elements target))) e i # vs"
      using update_first_split [OF ex] unfolding b by blast
    have e: "\<forall>x \<in> set (il_elements i). x \<noteq> e" using w(2) unfolding u by (auto simp: set_elements)
    then have "filter (\<lambda>x. x \<noteq> e) (take n (il_elements i)) @ filter (\<lambda>x. x \<noteq> e) (drop n (il_elements i)) = il_elements i" for n
      by (simp flip: filter_append)
    then have "without_element e [put_into n e i] = without_element e [i]" for n
      using e by (simp add: without_element_def put_into_def splice_in_def filter_id_conv)
    then have "without_element e ?b = without_element e ?w" unfolding u
      using without_append [of e "[i]" vs] without_append [of e "[put_into _ e i]" vs] without_append [of e us]
      by (metis append_Cons append_Nil)
    with k m w(3) ww show ?thesis unfolding b by auto
  qed
  then show "arrangement_ok ?b" "mset (elements_of ?b) = mset (elements_of a)" "spot_of ?b e = Some spot"
    "x \<noteq> e \<Longrightarrow> spot_of ?b x = spot_of a x" "without_element e ?b = ?w" by auto
qed

lemma move_element_absent: "e \<notin> set (elements_of a) \<Longrightarrow> move_element a e spot index = a"
  by (simp add: move_element_def island_of_None)

lemma option_eqI: "(\<And>u. x = Some u \<longleftrightarrow> y = Some u) \<Longrightarrow> x = y"
  by (metis not_None_eq)

text \<open>Islands trade places.\<close>

definition trade :: "spot \<Rightarrow> spot \<Rightarrow> spot \<Rightarrow> spot" where
  "trade s t u = (if u = s then t else if u = t then s else u)"

lemma trade_inject: "trade s t u = trade s t v \<longleftrightarrow> u = v"
  by (auto simp: trade_def)

lemma trade_trade [simp]: "trade t s (trade s t u) = u"
  by (simp add: trade_def)

lemma move_island_trades: "s \<noteq> t \<Longrightarrow> island_at a s \<noteq> None \<Longrightarrow> move_island a s t = map (\<lambda>i. i\<lparr>il_spot := trade s t (il_spot i)\<rparr>) a"
  by (auto simp: move_island_def trade_def)

lemma move_island_ok:
  assumes "arrangement_ok a"
  shows "arrangement_ok (move_island a s t)" "elements_of (move_island a s t) = elements_of a"
    "island_at a s \<noteq> None \<Longrightarrow> spot_of (move_island a s t) x = map_option (trade s t) (spot_of a x)"
    "island_at a s \<noteq> None \<Longrightarrow> move_island (move_island a s t) t s = a"
proof -
  define b where "b = map (\<lambda>i. i\<lparr>il_spot := trade s t (il_spot i)\<rparr>) a"
  have el: "elements_of b = elements_of a" by (simp add: b_def elements_of_def o_def)
  have "inj_on (\<lambda>i. trade s t (il_spot i)) (set a) \<longleftrightarrow> inj_on il_spot (set a)" by (auto simp: inj_on_def trade_inject)
  then have ok: "arrangement_ok b" using assms el by (auto simp: arrangement_ok_def b_def distinct_map o_def)
  have sp: "spot_of b x = Some u \<longleftrightarrow> (\<exists>v. spot_of a x = Some v \<and> u = trade s t v)" for u x
    unfolding spot_of_iff [OF ok] spot_of_iff [OF assms] by (auto simp: b_def)
  have spo: "spot_of b x = map_option (trade s t) (spot_of a x)" for x
    by (rule option_eqI) (auto simp: sp)
  have triv: "s = t \<Longrightarrow> trade s t = (\<lambda>u. u)" by (auto simp: trade_def)
  show "arrangement_ok (move_island a s t)" "elements_of (move_island a s t) = elements_of a"
    using ok el assms move_island_trades [of s t a] by (cases "s = t \<or> island_at a s = None"; auto simp: move_island_def b_def)+
  show "spot_of (move_island a s t) x = map_option (trade s t) (spot_of a x)" if "island_at a s \<noteq> None"
    using that spo move_island_trades [of s t a] triv by (cases "s = t") (auto simp: move_island_def b_def option.map_id0 map_option_case split: option.split)
  show "move_island (move_island a s t) t s = a" if at: "island_at a s \<noteq> None"
  proof (cases "s = t")
    case False
    have b: "move_island a s t = b" using move_island_trades [OF False at] by (simp add: b_def)
    obtain i where "i \<in> set a" "il_spot i = s" using at island_at_Some by blast
    then have "i\<lparr>il_spot := trade s t (il_spot i)\<rparr> \<in> set b" "trade s t (il_spot i) = t" by (auto simp: b_def trade_def)
    then have "island_at b t \<noteq> None" unfolding island_at_None by force
    with move_island_trades [of t s b] False show ?thesis unfolding b by (simp add: b_def o_def)
  qed (simp add: move_island_def)
qed

text \<open>The bar keeps each island's place along it.\<close>

lemma mset_groups: "mset (joined_groups a e place) = mset (elements_of (filter (\<lambda>i. along_of (il_spot i) = place) a))"
  unfolding joined_groups_def elements_of_def [symmetric] by (rule mset_elements) simp

lemma mset_alongs: "mset (elements_of (filter (\<lambda>i. along_of (il_spot i) = At_start) a)) + mset (elements_of (filter (\<lambda>i. along_of (il_spot i) = At_center) a)) +
    mset (elements_of (filter (\<lambda>i. along_of (il_spot i) = At_end) a)) = mset (elements_of a)"
proof (induction a)
  case (Cons i a)
  then show ?case by (cases "along_of (il_spot i)") (simp_all add: ac_simps flip: Cons)
qed simp

lemma move_bar_ok:
  assumes "arrangement_ok a"
  shows "arrangement_ok (move_bar a e)" "mset (elements_of (move_bar a e)) = mset (elements_of a)"
    "spot_of (move_bar a e) x = map_option (\<lambda>s. (e, along_of s)) (spot_of a x)"
proof -
  let ?g = "joined_groups a (main_edge a)"
  have el: "mset (elements_of (move_bar a e)) = mset (?g At_start) + mset (?g At_center) + mset (?g At_end)"
    by (simp add: move_bar_def ALONGS_def Let_def)
  also have "\<dots> = mset (elements_of a)" unfolding mset_groups by (rule mset_alongs)
  finally show m: "mset (elements_of (move_bar a e)) = mset (elements_of a)" .
  have "distinct (map il_spot (move_bar a e))" by (simp add: move_bar_def ALONGS_def spot_at_def Let_def)
  then show ok: "arrangement_ok (move_bar a e)"
    using assms mset_eq_imp_distinct_iff [OF m] by (auto simp: arrangement_ok_def move_bar_def Let_def)
  have g: "x \<in> set (?g place) \<longleftrightarrow> (\<exists>i \<in> set a. x \<in> set (il_elements i) \<and> along_of (il_spot i) = place)" for place
    using arg_cong [OF mset_groups [of a "main_edge a" place], of set_mset] by (auto simp: set_elements)
  have "spot_of (move_bar a e) x = Some u \<longleftrightarrow> (\<exists>s. spot_of a x = Some s \<and> u = (e, along_of s))" for u
    unfolding spot_of_iff [OF ok] spot_of_iff [OF assms]
  proof
    assume "\<exists>i \<in> set (move_bar a e). x \<in> set (il_elements i) \<and> il_spot i = u"
    then obtain place where "x \<in> set (?g place)" "u = (e, place)" by (auto simp: move_bar_def Let_def spot_at_def)
    then show "\<exists>s. (\<exists>i \<in> set a. x \<in> set (il_elements i) \<and> il_spot i = s) \<and> u = (e, along_of s)" unfolding g by auto
  next
    assume "\<exists>s. (\<exists>i \<in> set a. x \<in> set (il_elements i) \<and> il_spot i = s) \<and> u = (e, along_of s)"
    then obtain s where s: "\<exists>i \<in> set a. x \<in> set (il_elements i) \<and> il_spot i = s" "u = (e, along_of s)" by blast
    define place where "place = along_of s"
    have p: "x \<in> set (?g place)" "u = (e, place)" using s by (auto simp: g place_def)
    then have "\<lparr>il_spot = (e, place), il_elements = ?g place\<rparr> \<in> set (move_bar a e)"
      by (cases place) (auto simp: move_bar_def ALONGS_def spot_at_def Let_def)
    with p show "\<exists>i \<in> set (move_bar a e). x \<in> set (il_elements i) \<and> il_spot i = u" by (intro bexI) auto
  qed
  then show "spot_of (move_bar a e) x = map_option (\<lambda>s. (e, along_of s)) (spot_of a x)"
    by (intro option_eqI) auto
qed

text \<open>What every edit keeps.\<close>

definition same_elements :: "arrangement \<Rightarrow> arrangement \<Rightarrow> bool" where
  "same_elements a b \<longleftrightarrow> arrangement_ok b \<and> mset (elements_of b) = mset (elements_of a)"

lemma island_to_same: "arrangement_ok a \<Longrightarrow> same_elements a (island_to a s t joined)"
  by (simp add: same_elements_def island_to_def move_island_ok move_bar_ok)

lemma element_to_same: "arrangement_ok a \<Longrightarrow> same_elements a (element_to a e s index joined)"
  by (cases "e \<in> set (elements_of a)") (simp_all add: same_elements_def element_to_def move_element_ok(1,2) move_element_absent)

lemma step_island_result: "step_island a s d targets joined = Some b \<Longrightarrow> b = a \<or> (\<exists>t. b = island_to a s t joined)"
  by (cases "spot_toward targets s d") (auto simp: step_island_def split: option.splits)

lemma step_island_same: "arrangement_ok a \<Longrightarrow> step_island a s d targets joined = Some b \<Longrightarrow> same_elements a b"
  using step_island_result [of a s d targets joined b] island_to_same [of a s _ joined] by (auto simp: same_elements_def)

lemma step_element_result: "step_element a e d targets joined rtl = Some b \<Longrightarrow> b = a \<or> (\<exists>s index. b = element_to a e s index joined)"
  unfolding step_element_def Let_def by (auto split: option.splits if_splits)

lemma step_element_same: "arrangement_ok a \<Longrightarrow> step_element a e d targets joined rtl = Some b \<Longrightarrow> same_elements a b"
  using step_element_result [of a e d targets joined rtl b] element_to_same [of a e _ _ joined] by (auto simp: same_elements_def)

lemma place_element_same: "arrangement_ok a \<Longrightarrow> same_elements a (place_element a e place)"
  by (cases "e \<in> set (elements_of a)")
    (auto simp: same_elements_def place_element_def move_element_ok(1,2) move_element_absent split: option.split)

text \<open>Choosing a place again changes nothing, and the place chosen is the one found.\<close>

lemma place_element_again:
  assumes "arrangement_ok a"
  shows "place_element (place_element a e place) e place = place_element a e place"
proof (cases "e \<in> set (elements_of a)")
  case True
  show ?thesis
  proof (cases "place_target (without_element e a) place")
    case (Some target)
    obtain spot index where t: "target = (spot, index)" by fastforce
    let ?b = "move_element a e spot index"
    have b: "place_element a e place = ?b" using Some t by (simp add: place_element_def)
    note m = move_element_ok [OF assms True, where spot = spot and index = index]
    have "e \<in> set (elements_of ?b)" using m(2) True by (metis set_mset_mset)
    then have i: "island_of ?b e \<noteq> None" "island_of a e \<noteq> None" using True by (simp_all add: island_of_None)
    define F where "F w = (case island_at w spot of
      None \<Rightarrow> w @ [\<lparr>il_spot = spot, il_elements = [e]\<rparr>]
    | Some target \<Rightarrow> update_first (\<lambda>i. il_spot i = spot) (put_into (clamp_index index (length (il_elements target))) e) w)" for w
    have F: "move_element c e spot index = F (without_element e c)" if "island_of c e \<noteq> None" for c
      unfolding F_def by (rule move_element_put [OF that])
    have "move_element ?b e spot index = ?b" using F [OF i(1)] F [OF i(2)] m(5) by simp
    then show ?thesis unfolding b using m(5) Some t by (simp add: place_element_def)
  qed (simp add: place_element_def)
qed (auto simp: place_element_def move_element_absent split: option.split)

lemma place_of_found:
  assumes "arrangement_ok a"
  shows "\<exists>p. place_of (place_element a e place) e = Some p \<and> same_arrangement (place_element (place_element a e place) e p) (place_element a e place)"
proof -
  have "place \<in> set ELEMENT_PLACES" by (cases place) (simp_all add: ELEMENT_PLACES_def)
  moreover have "same_arrangement (place_element (place_element a e place) e place) (place_element a e place)"
    by (simp add: place_element_again [OF assms] same_arrangement_def)
  ultimately have "place_of (place_element a e place) e \<noteq> None" unfolding place_of_def find_None_iff by blast
  then show ?thesis using find_SomeD unfolding place_of_def by fast
qed

lemma presets_anchored: "arrangement_ok (fst (PRESETS name)) \<and> set [''start'', ''dock''] \<inter> set (elements_of (fst (PRESETS name))) \<noteq> {} \<and>
    set SYSTEM_ELEMENTS \<inter> set (elements_of (fst (PRESETS name))) \<noteq> {}"
  by (cases name) (simp_all add: PRESETS_def DEFAULT_ARRANGEMENT_def SYSTEM_ELEMENTS_def arrangement_ok_def)

end
