(* ===== verification/Taskbar_Properties.thy ===== *)
theory Taskbar_Properties
  imports Taskbar_Editing
begin

text \<open>
  The properties of the taskbar's arrangement: what every edit keeps, that it is stored faithfully, where
  elements go, and where the islands are drawn.
\<close>

section \<open>Edits\<close>

inductive edited :: "arrangement \<Rightarrow> arrangement \<Rightarrow> bool" where
  ed_none: "edited a a"
| ed_island: "edited a b \<Longrightarrow> edited a (island_to b from_spot to_spot joined)"
| ed_element: "edited a b \<Longrightarrow> edited a (element_to b e spot index joined)"
| ed_step_island: "edited a b \<Longrightarrow> step_island b spot d targets joined = Some c \<Longrightarrow> edited a c"
| ed_step_element: "edited a b \<Longrightarrow> step_element b e d targets joined right_to_left = Some c \<Longrightarrow> edited a c"
| ed_place: "edited a b \<Longrightarrow> edited a (place_element b e place)"
| ed_bar: "edited a b \<Longrightarrow> edited a (move_bar b e)"

lemma edited_same: "edited a b \<Longrightarrow> arrangement_ok a \<Longrightarrow> same_elements a b"
proof (induction rule: edited.induct)
  case (ed_island a b s t joined)
  then show ?case using island_to_same [of b s t joined] by (simp add: same_elements_def)
next
  case (ed_element a b e s index joined)
  then show ?case using element_to_same [of b e s index joined] by (simp add: same_elements_def)
next
  case (ed_step_island a b s d targets joined c)
  then show ?case using step_island_same [of b s d targets joined c] by (simp add: same_elements_def)
next
  case (ed_step_element a b e d targets joined rtl c)
  then show ?case using step_element_same [of b e d targets joined rtl c] by (simp add: same_elements_def)
next
  case (ed_place a b e place)
  then show ?case using place_element_same [of b e place] by (simp add: same_elements_def)
next
  case (ed_bar a b e)
  then show ?case using move_bar_ok(1,2) [of b e] by (simp add: same_elements_def)
qed (simp add: same_elements_def)

text \<open>C16. Whatever was stored and however it is edited after it was read, an arrangement has one island for each spot, no
  empty island and no element twice, and no edit adds or loses an element.\<close>

theorem edits_keep_elements:
  assumes "edited (parse_arrangement stored) a"
  shows "arrangement_ok a \<and> mset (elements_of a) = mset (elements_of (parse_arrangement stored))"
  using edited_same [OF assms parse_ok] by (simp add: same_elements_def)

theorem edits_keep_elements_witness:
  "arrangement_ok (place_element (parse_arrangement [(''bottom-start'', [''start'', ''dock'', ''start'']), (''nowhere'', [''x'']), (''top-end'', [''clock''])]) ''clock'' After_apps)"
  using edits_keep_elements [OF ed_place [OF ed_none]] by blast

text \<open>C18. An arrangement that is stored and read again is the same arrangement.\<close>

theorem stored_round_trip:
  assumes "arrangement_ok a"
  shows "parse_arrangement (store_arrangement a) = sorted_arrangement a \<and> same_arrangement (parse_arrangement (store_arrangement a)) a"
  using parse_store [OF assms] by (simp add: same_arrangement_def sorted_idem)

theorem stored_round_trip_witness:
  "same_arrangement (parse_arrangement (store_arrangement (fst (PRESETS Mac)))) (fst (PRESETS Mac))"
  using stored_round_trip presets_anchored by blast



text \<open>C17. The edits are what they say of the map from elements to spots: moving an element puts it at the spot and leaves the
  others, moving an island trades the two spots, and moving the bar changes every edge and no place along it.\<close>

theorem edits_refine_spots:
  assumes "arrangement_ok a"
  shows "(e \<in> set (elements_of a) \<longrightarrow> spot_of (move_element a e s index) = (spot_of a)(e \<mapsto> s)) \<and>
    (island_at a s \<noteq> None \<longrightarrow> spot_of (move_island a s t) = map_option (trade s t) \<circ> spot_of a) \<and>
    spot_of (move_bar a side) = map_option (\<lambda>u. (side, along_of u)) \<circ> spot_of a"
proof (intro conjI impI)
  show "spot_of (move_element a e s index) = (spot_of a)(e \<mapsto> s)" if "e \<in> set (elements_of a)"
  proof
    show "spot_of (move_element a e s index) x = ((spot_of a)(e \<mapsto> s)) x" for x
      using move_element_ok(3,4) [OF assms that, where spot = s and index = index] by (cases "x = e") simp_all
  qed
  show "spot_of (move_island a s t) = map_option (trade s t) \<circ> spot_of a" if "island_at a s \<noteq> None"
    using move_island_ok(3) [OF assms that] by (intro ext) simp
  show "spot_of (move_bar a side) = map_option (\<lambda>u. (side, along_of u)) \<circ> spot_of a"
    using move_bar_ok(3) [OF assms] by (intro ext) simp
qed

theorem edits_refine_spots_witness:
  "spot_of (move_element DEFAULT_ARRANGEMENT ''clock'' (Edge_left, At_end) None) ''clock'' = Some (Edge_left, At_end)"
proof -
  have "arrangement_ok DEFAULT_ARRANGEMENT" using presets_anchored [of Centered] by (simp add: PRESETS_def)
  moreover have "''clock'' \<in> set (elements_of DEFAULT_ARRANGEMENT)" by (simp add: DEFAULT_ARRANGEMENT_def SYSTEM_ELEMENTS_def)
  ultimately show ?thesis using edits_refine_spots [of DEFAULT_ARRANGEMENT "''clock''" "(Edge_left, At_end)" None] by simp
qed

text \<open>Choosing a place for an element twice is choosing it once, and the list then shows a place that leaves the element where
  it is.\<close>

theorem chosen_place_stays:
  assumes "arrangement_ok a"
  shows "place_element (place_element a e place) e place = place_element a e place \<and>
    (\<exists>p. place_of (place_element a e place) e = Some p \<and> same_arrangement (place_element (place_element a e place) e p) (place_element a e place))"
  using place_element_again [OF assms] place_of_found [OF assms] by blast

theorem chosen_place_stays_witness:
  "place_of (place_element DEFAULT_ARRANGEMENT ''clock'' Before_apps) ''clock'' \<noteq> None"
proof -
  have "arrangement_ok DEFAULT_ARRANGEMENT" using presets_anchored [of Centered] by (simp add: PRESETS_def)
  from chosen_place_stays [OF this, of "''clock''" Before_apps] show ?thesis by auto
qed

section \<open>On the screen\<close>

text \<open>C20. On a screen with room for three targets along each edge between the corners, no two of the twelve targets for
  dropping an island overlap.\<close>

theorem targets_never_overlap:
  assumes "frame_fits f len"
  shows "sorted_wrt (\<lambda>a b. \<not> overlaps a b) (spot_targets f len) \<and> length (spot_targets f len) = 12"
  using spot_targets_apart [OF assms] by (simp add: spot_targets_three [OF assms] three_on_def)

definition small_screen :: island_frame where
  "small_screen = \<lparr>fr_width = 1600, fr_height = 1000, fr_thickness = 50, fr_margin = 10, fr_right_to_left = False\<rparr>"

theorem targets_never_overlap_witness: "sorted_wrt (\<lambda>a b. \<not> overlaps a b) (spot_targets small_screen 200)"
proof -
  have "frame_fits small_screen 200" by (simp add: frame_fits_def small_screen_def)
  from targets_never_overlap [OF this] show ?thesis ..
qed


end
