(* ===== verification/Extension_Types.thy ===== *)
theory Extension_Types
  imports Prelude "HOL-Library.Sublist"
begin

text \<open>
  What an extension of the shell declares: the values a TOML document holds, the permissions,
  the settings with their kinds and conditions, shortcuts and the manifest itself
  (\<^verbatim>\<open>kestrel/ui/src/extensions/api/v1/types.ts\<close>); with the errors of reading one,
  and the small recognizers that stand for the regular expressions of \<^verbatim>\<open>manifest.ts\<close>.

  A table is an association list in the order of its keys.  A TOML date is an object without
  entries of its own, so it passes where the code asks for a table.  Strings are ASCII here:
  no pattern of the source matches any other character.
\<close>

section \<open>Values\<close>

datatype num_val = Finite number | Infinite | Minus_infinite | Not_a_number

datatype val =
    VBool bool | VNum num_val | VStr string | VList "val list" | VTable "(string \<times> val) list" | VDate

type_synonym table = "(string \<times> val) list"

text \<open>\<^verbatim>\<open>===\<close>: objects of a document are never the same object, and \<^verbatim>\<open>NaN\<close> is not itself.\<close>

fun same_value :: "val \<Rightarrow> val \<Rightarrow> bool" where
  "same_value (VBool a) (VBool b) = (a = b)"
| "same_value (VNum a) (VNum b) = (a = b \<and> a \<noteq> Not_a_number)"
| "same_value (VStr a) (VStr b) = (a = b)"
| "same_value _ _ = False"

lemma same_value_eq: "same_value a b \<Longrightarrow> a = b"
  by (cases "(a, b)" rule: same_value.cases) auto

lemma same_value_Str [simp]: "same_value (VStr s) v \<longleftrightarrow> v = VStr s"
  by (cases v) auto

section \<open>Permissions and settings\<close>

datatype permission =
    Wallpaper | Quick_settings | Taskbar | Search | Notifications | Weather | Location | Media | Popups | Typing
  | Sounds | Audio_levels | Calls | Locked_sounds | Input_sounds | Do_not_disturb | Screen_effects | Clipboard

datatype page_id = Appearance_page | Taskbar_page | Sound_page | Input_page

datatype condition = Any_of "val list" | Range "number option" "number option"

record choice_option =
  o_value :: string
  o_label :: string
  o_image :: "string option"

datatype kind =
    Switch
  | Choice "choice_option list"
  | Choices "choice_option list" "number option"
  | Slider number number "number option" bool
  | Color "choice_option list"

text \<open>A slider's last argument says that its unit is \<^verbatim>\<open>percent\<close>.\<close>

record setting =
  s_key :: string
  s_label :: string
  s_depends :: "string option"
  s_when :: "condition option"
  s_page :: "page_id option"
  s_hidden :: bool
  s_default :: "val option"
  s_kind :: kind

record shortcut =
  c_key :: string
  c_label :: string
  c_default :: "string option"

datatype protocol = Tcp | Udp

record listen_port =
  n_port :: nat
  n_protocol :: protocol

record network =
  n_hosts :: "string list"
  n_listen :: "listen_port list"

record helper =
  h_path :: string
  h_turned_off :: "string list option"

record manifest =
  m_id :: string
  m_name :: string
  m_description :: "string option"
  m_version :: string
  m_api :: nat
  m_permissions :: "permission list"
  m_settings :: "setting list"
  m_shortcuts :: "shortcut list"
  m_helper :: "helper option"
  m_network :: "network option"

section \<open>Errors\<close>

text \<open>
  Where a problem is: \<^verbatim>\<open>settings[2]\<close>, \<^verbatim>\<open>settings[2].options[0]\<close>, \<^verbatim>\<open>settings[2].when\<close>.
\<close>

datatype location =
    In_manifest | In_settings nat | In_entry location string nat | In_when location
  | In_helper | In_network | In_listen nat | In_shortcuts nat

text \<open>One constructor for each \<^verbatim>\<open>fail\<close>, and the error of the runtime for an \<^verbatim>\<open>allowed\<close> that is no list.\<close>

datatype problem =
    Not_toml string
  | Not_a_table location
  | Bad_text location string
  | Not_a_number_at location string
  | Not_a_list location string
  | Bad_image location
  | Unknown_page location
  | Page_needs location string "permission list"
  | Page_is_no_list string
  | Unknown_end location string
  | No_options location
  | Min_above_options location
  | Bad_unit location
  | Min_not_below_max location
  | Bad_swatches location
  | Unknown_type location
  | Bad_default location
  | Needs_when string string
  | Empty_when string
  | Impossible_when string val string
  | Range_without_slider string string
  | Range_without_ends string
  | Range_outside string string
  | Setting_twice string
  | When_alone string
  | Depends_on_later string string
  | Helper_outside
  | Bad_arguments
  | Bad_host nat
  | Bad_port nat
  | Bad_protocol nat
  | Port_twice
  | Empty_network
  | Shortcut_twice
  | Unsupported_api "val option"
  | Unknown_permission val
  | Needs_permission permission permission
  | Apart_permission permission permission

section \<open>Results\<close>

text \<open>A function that may throw returns a sum; \<open>also_then\<close> goes on with the value it returns.\<close>

definition also_then :: "'e + 'a \<Rightarrow> ('a \<Rightarrow> 'e + 'b) \<Rightarrow> 'e + 'b" where
  "also_then r f = (case r of Inl e \<Rightarrow> Inl e | Inr a \<Rightarrow> f a)"

definition require :: "bool \<Rightarrow> 'e \<Rightarrow> 'e + unit" where
  "require b e = (if b then Inr () else Inl e)"

text \<open>\<^verbatim>\<open>xs.map((x, index) => f(index, x))\<close> with an \<open>f\<close> that may throw.\<close>

fun map_from :: "nat \<Rightarrow> (nat \<Rightarrow> 'a \<Rightarrow> 'e + 'b) \<Rightarrow> 'a list \<Rightarrow> 'e + 'b list" where
  "map_from i f [] = Inr []"
| "map_from i f (x # xs) = also_then (f i x) (\<lambda>y. also_then (map_from (Suc i) f xs) (\<lambda>ys. Inr (y # ys)))"

lemma also_then_simps [simp]: "also_then (Inl e) f = Inl e" "also_then (Inr a) f = f a"
  by (simp_all add: also_then_def)

lemma also_then_Inr [simp]: "also_then r f = Inr b \<longleftrightarrow> (\<exists>a. r = Inr a \<and> f a = Inr b)"
  by (cases r) auto

lemma require_simps [simp]: "require b e = Inr u \<longleftrightarrow> b" "require True e = Inr ()" "require False e = Inl e"
  by (auto simp: require_def)

lemma also_then_cong [fundef_cong]:
  "r = s \<Longrightarrow> (\<And>a. s = Inr a \<Longrightarrow> f a = g a) \<Longrightarrow> also_then r f = also_then s g"
  by (cases s) auto

lemma map_from_nth: "map_from i f xs = Inr ys \<Longrightarrow>
    length ys = length xs \<and> (\<forall>j < length xs. f (i + j) (xs ! j) = Inr (ys ! j))"
proof (induction xs arbitrary: i ys)
  case (Cons x xs)
  then obtain y zs where ys: "ys = y # zs" "f i x = Inr y" "map_from (Suc i) f xs = Inr zs"
    by auto
  from Cons.IH [OF ys(3)] ys show ?case
    by (auto simp: nth_Cons' less_Suc_eq_0_disj)
qed simp

lemma map_from_all:
  assumes "map_from i f xs = Inr ys" and "\<And>j x y. f j x = Inr y \<Longrightarrow> P y"
  shows "\<forall>y \<in> set ys. P y"
  using assms(1)
proof (induction xs arbitrary: i ys)
  case (Cons x xs)
  then show ?case using assms(2) by auto
qed simp

section \<open>Characters and the patterns\<close>

definition lower :: string where "lower = ''abcdefghijklmnopqrstuvwxyz''"
definition upper :: string where "upper = ''ABCDEFGHIJKLMNOPQRSTUVWXYZ''"
definition digits :: string where "digits = ''0123456789''"

definition only :: "string \<Rightarrow> string \<Rightarrow> bool" where
  "only allowed s \<longleftrightarrow> list_all (\<lambda>c. c \<in> set allowed) s"

text \<open>A first character from one class and the rest from another.\<close>

definition headed :: "string \<Rightarrow> string \<Rightarrow> string \<Rightarrow> bool" where
  "headed first rest s \<longleftrightarrow> (case s of [] \<Rightarrow> False | c # cs \<Rightarrow> c \<in> set first \<and> only rest cs)"

text \<open>\<^verbatim>\<open>s.split(c)\<close>: never the empty list.\<close>

fun split_on :: "char \<Rightarrow> string \<Rightarrow> string list" where
  "split_on c [] = [[]]"
| "split_on c (d # ds) =
    (if c = d then [] # split_on c ds
     else case split_on c ds of [] \<Rightarrow> [[d]] | w # ws \<Rightarrow> (d # w) # ws)"

lemma split_on_not_Nil [simp]: "split_on c s \<noteq> []"
  by (induction s) (auto split: list.split)

lemma split_on_absent: "\<forall>w \<in> set (split_on c s). c \<notin> set w"
  by (induction s) (auto split: list.splits)

lemma split_on_covers: "x \<in> set s \<Longrightarrow> x \<noteq> c \<Longrightarrow> \<exists>w \<in> set (split_on c s). x \<in> set w"
  by (induction s) (fastforce split: list.splits)+

definition to_lower :: "char \<Rightarrow> char" where
  "to_lower c = (case map_of (zip upper lower) c of None \<Rightarrow> c | Some l \<Rightarrow> l)"

definition ID :: "string \<Rightarrow> bool" where
  "ID s \<longleftrightarrow> (let labels = split_on (CHR ''.'') s in
    3 \<le> length labels \<and> list_all (headed (lower @ upper) (lower @ upper @ digits @ ''_-'')) labels)"

definition KEY :: "string \<Rightarrow> bool" where
  "KEY = headed lower (lower @ digits @ ''-'')"

definition MESSAGE :: "string \<Rightarrow> bool" where
  "MESSAGE = headed (lower @ upper) (lower @ upper @ digits @ ''_-'')"

definition HEX :: "string \<Rightarrow> bool" where
  "HEX s \<longleftrightarrow> (case s of [] \<Rightarrow> False
     | c # cs \<Rightarrow> c = CHR ''#'' \<and> length cs = 6 \<and> only (digits @ ''abcdefABCDEF'') cs)"

text \<open>A label of a host name starts and ends with a letter or digit; a port has one to five digits.\<close>

definition host_label :: "string \<Rightarrow> bool" where
  "host_label s \<longleftrightarrow> s \<noteq> [] \<and> only (lower @ digits @ ''-'') s \<and> hd s \<noteq> CHR ''-'' \<and> last s \<noteq> CHR ''-''"

definition host_name :: "string \<Rightarrow> bool" where
  "host_name s \<longleftrightarrow> s = ''localhost'' \<or> s = ''127.0.0.1'' \<or>
    (let labels = split_on (CHR ''.'') s in 2 \<le> length labels \<and> list_all host_label labels)"

definition HOST :: "string \<Rightarrow> bool" where
  "HOST s \<longleftrightarrow> (case split_on (CHR '':'') s of
      [host] \<Rightarrow> host_name host
    | [host, port] \<Rightarrow> host_name host \<and> 1 \<le> length port \<and> length port \<le> 5 \<and> only digits port
    | _ \<Rightarrow> False)"

definition IMAGE :: "string \<Rightarrow> bool" where
  "IMAGE path \<longleftrightarrow> list_ex (\<lambda>ending. suffix ending (map to_lower path))
    [''.png'', ''.jpg'', ''.jpeg'', ''.webp'', ''.svg'']"

definition PERMISSIONS :: "(string \<times> permission) list" where
  "PERMISSIONS = [
    (''wallpaper'', Wallpaper), (''quick-settings'', Quick_settings), (''taskbar'', Taskbar), (''search'', Search),
    (''notifications'', Notifications), (''weather'', Weather), (''location'', Location), (''media'', Media),
    (''popups'', Popups), (''typing'', Typing), (''sounds'', Sounds), (''audio-levels'', Audio_levels),
    (''calls'', Calls), (''locked-sounds'', Locked_sounds), (''input-sounds'', Input_sounds),
    (''do-not-disturb'', Do_not_disturb), (''screen-effects'', Screen_effects), (''clipboard'', Clipboard)]"

definition NEEDS :: "permission \<Rightarrow> permission option" where
  "NEEDS p = (if p = Locked_sounds \<or> p = Input_sounds then Some Sounds else None)"

definition APART :: "permission \<Rightarrow> permission option" where
  "APART p = (if p = Input_sounds then Some Audio_levels else None)"

definition PAGES :: "(string \<times> page_id \<times> permission list) list" where
  "PAGES = [
    (''appearance'', Appearance_page, [Wallpaper]), (''taskbar'', Taskbar_page, [Taskbar]),
    (''sound'', Sound_page, [Sounds, Audio_levels]), (''input'', Input_page, [Typing, Input_sounds])]"

text \<open>What every object inherits: the \<^verbatim>\<open>in\<close> operator finds these names in any object literal.\<close>

definition inherited_names :: "string list" where
  "inherited_names = [''constructor'', ''__defineGetter__'', ''__defineSetter__'', ''hasOwnProperty'',
    ''__lookupGetter__'', ''__lookupSetter__'', ''isPrototypeOf'', ''propertyIsEnumerable'', ''toString'',
    ''valueOf'', ''__proto__'', ''toLocaleString'']"

definition API_VERSIONS :: "nat list" where "API_VERSIONS = [1]"

end
