(* ===== verification/Extension_Manifest.thy ===== *)
theory Extension_Manifest
  imports Extension_Types
begin

text \<open>
  Reading the manifest of an extension (\<^verbatim>\<open>kestrel/ui/src/extensions/runtime/manifest.ts\<close>).
  Every check of the code is a branch, in the code's order, so that a document with several
  mistakes gets the same problem.  The TOML parser is a parameter: \<open>parse_manifest\<close> takes what
  it returned, a document or the message it threw.
\<close>

section \<open>Entries of a table\<close>

definition table_of :: "val \<Rightarrow> location \<Rightarrow> problem + table" where
  "table_of v at_loc = (case v of VTable t \<Rightarrow> Inr t | VDate \<Rightarrow> Inr [] | _ \<Rightarrow> Inl (Not_a_table at_loc))"

definition text_where :: "(string \<Rightarrow> bool) \<Rightarrow> table \<Rightarrow> string \<Rightarrow> location \<Rightarrow> problem + string" where
  "text_where pattern source key at_loc = (case map_of source key of
      Some (VStr s) \<Rightarrow> if s \<noteq> [] \<and> pattern s then Inr s else Inl (Bad_text at_loc key)
    | _ \<Rightarrow> Inl (Bad_text at_loc key))"

abbreviation text_of :: "table \<Rightarrow> string \<Rightarrow> location \<Rightarrow> problem + string" where
  "text_of \<equiv> text_where (\<lambda>_. True)"

definition optional_text :: "table \<Rightarrow> string \<Rightarrow> location \<Rightarrow> problem + string option" where
  "optional_text source key at_loc = (if map_of source key = None then Inr None
     else also_then (text_of source key at_loc) (\<lambda>s. Inr (Some s)))"

definition number_of :: "table \<Rightarrow> string \<Rightarrow> location \<Rightarrow> problem + number" where
  "number_of source key at_loc = (case map_of source key of
      Some (VNum (Finite x)) \<Rightarrow> Inr x
    | _ \<Rightarrow> Inl (Not_a_number_at at_loc key))"

definition optional_number :: "table \<Rightarrow> string \<Rightarrow> location \<Rightarrow> problem + number option" where
  "optional_number source key at_loc = (if map_of source key = None then Inr None
     else also_then (number_of source key at_loc) (\<lambda>x. Inr (Some x)))"

definition list_of :: "table \<Rightarrow> string \<Rightarrow> location \<Rightarrow> problem + val list" where
  "list_of source key at_loc = (case map_of source key of
      None \<Rightarrow> Inr []
    | Some (VList xs) \<Rightarrow> Inr xs
    | Some _ \<Rightarrow> Inl (Not_a_list at_loc key))"

definition insideFolder :: "string \<Rightarrow> bool" where
  "insideFolder path \<longleftrightarrow> \<not> starts_with ''/'' path \<and> ''..'' \<notin> set (split_on (CHR ''/'') path)"

definition image_of :: "table \<Rightarrow> location \<Rightarrow> problem + string option" where
  "image_of source at_loc = also_then (optional_text source ''image'' at_loc) (\<lambda>path. case path of
      None \<Rightarrow> Inr None
    | Some p \<Rightarrow> if insideFolder p \<and> IMAGE p then Inr (Some p) else Inl (Bad_image at_loc))"

definition option_of :: "location \<Rightarrow> val \<Rightarrow> problem + choice_option" where
  "option_of at_loc entry =
    also_then (table_of entry at_loc) (\<lambda>option.
    also_then (text_of option ''value'' at_loc) (\<lambda>v.
    also_then (text_where MESSAGE option ''label'' at_loc) (\<lambda>label.
    also_then (image_of option at_loc) (\<lambda>picture.
    Inr \<lparr>o_value = v, o_label = label, o_image = picture\<rparr>))))"

definition options_of :: "table \<Rightarrow> string \<Rightarrow> location \<Rightarrow> problem + choice_option list" where
  "options_of source key at_loc =
    also_then (list_of source key at_loc) (map_from 0 (\<lambda>index. option_of (In_entry at_loc key index)))"

section \<open>Values of a setting\<close>

definition offers :: "choice_option list \<Rightarrow> val \<Rightarrow> bool" where
  "offers options v \<longleftrightarrow> list_ex (\<lambda>option. same_value (VStr (o_value option)) v) options"

text \<open>
  \<^verbatim>\<open>new Set(value).size === value.length\<close> counts two objects as different; an object is not
  an option, so the answer is the same as for \<open>distinct\<close>.
\<close>

fun valid_kind :: "kind \<Rightarrow> val \<Rightarrow> bool" where
  "valid_kind Switch v = (case v of VBool _ \<Rightarrow> True | _ \<Rightarrow> False)"
| "valid_kind (Choice options) v = offers options v"
| "valid_kind (Choices options least) v = (case v of
      VList xs \<Rightarrow> otherwise least 0 \<le> of_nat (length xs) \<and> distinct xs \<and> list_all (offers options) xs
    | _ \<Rightarrow> False)"
| "valid_kind (Slider least most step percent) v = (case v of VNum (Finite x) \<Rightarrow> least \<le> x \<and> x \<le> most | _ \<Rightarrow> False)"
| "valid_kind (Color swatches) v = (case v of VStr s \<Rightarrow> s = ''accent'' \<or> s = ''wallpaper'' \<or> HEX s | _ \<Rightarrow> False)"

text \<open>\<open>None\<close> is \<^verbatim>\<open>undefined\<close>, which fits no setting.\<close>

definition validValue :: "setting \<Rightarrow> val option \<Rightarrow> bool" where
  "validValue s v = (case v of None \<Rightarrow> False | Some x \<Rightarrow> valid_kind (s_kind s) x)"

section \<open>Settings\<close>

definition page_of :: "table \<Rightarrow> location \<Rightarrow> permission list \<Rightarrow> problem + page_id option" where
  "page_of source at_loc permissions = (case map_of source ''page'' of
      None \<Rightarrow> Inr None
    | Some (VStr name) \<Rightarrow>
        (case map_of PAGES name of
           Some (page, allowed) \<Rightarrow>
             if list_ex (\<lambda>p. p \<in> set permissions) allowed then Inr (Some page)
             else Inl (Page_needs at_loc name allowed)
         | None \<Rightarrow> if name \<in> set inherited_names then Inl (Page_is_no_list name) else Inl (Unknown_page at_loc))
    | Some _ \<Rightarrow> Inl (Unknown_page at_loc))"

text \<open>
  The first key that is neither end is reported, unless it is the empty key, which is falsy;
  every entry has to be a number.
\<close>

definition condition_of :: "table \<Rightarrow> location \<Rightarrow> problem + condition option" where
  "condition_of source at_loc = (case map_of source ''when'' of
      None \<Rightarrow> Inr None
    | Some (VList vs) \<Rightarrow> Inr (Some (Any_of vs))
    | Some v \<Rightarrow>
        also_then (table_of v (In_when at_loc)) (\<lambda>range.
        also_then (case List.find (\<lambda>end. end \<noteq> ''min'' \<and> end \<noteq> ''max'') (map fst range) of
            None \<Rightarrow> Inr ()
          | Some unknown \<Rightarrow> require (unknown = []) (Unknown_end (In_when at_loc) unknown)) (\<lambda>_.
        also_then (map_from 0 (\<lambda>_ end. also_then (number_of range end (In_when at_loc)) (\<lambda>x. Inr (end, x))) (map fst range)) (\<lambda>ends.
        Inr (Some (Range (map_of ends ''min'') (map_of ends ''max'')))))))"

definition kind_of :: "table \<Rightarrow> location \<Rightarrow> problem + kind" where
  "kind_of source at_loc =
    (if map_of source ''type'' = Some (VStr ''switch'') then Inr Switch
     else if map_of source ''type'' = Some (VStr ''choice'') then
       also_then (options_of source ''options'' at_loc) (\<lambda>options.
       also_then (require (options \<noteq> []) (No_options at_loc)) (\<lambda>_.
       Inr (Choice options)))
     else if map_of source ''type'' = Some (VStr ''choices'') then
       also_then (options_of source ''options'' at_loc) (\<lambda>options.
       also_then (require (options \<noteq> []) (No_options at_loc)) (\<lambda>_.
       also_then (optional_number source ''min'' at_loc) (\<lambda>least.
       also_then (require (otherwise least 0 \<le> of_nat (length options)) (Min_above_options at_loc)) (\<lambda>_.
       Inr (Choices options least)))))
     else if map_of source ''type'' = Some (VStr ''slider'') then
       also_then (case map_of source ''unit'' of None \<Rightarrow> Inr False
           | Some u \<Rightarrow> if u = VStr ''percent'' then Inr True else Inl (Bad_unit at_loc)) (\<lambda>percent.
       also_then (number_of source ''min'' at_loc) (\<lambda>least.
       also_then (number_of source ''max'' at_loc) (\<lambda>most.
       also_then (optional_number source ''step'' at_loc) (\<lambda>step.
       also_then (require (least < most) (Min_not_below_max at_loc)) (\<lambda>_.
       Inr (Slider least most step percent))))))
     else if map_of source ''type'' = Some (VStr ''color'') then
       also_then (options_of source ''swatches'' at_loc) (\<lambda>swatches.
       also_then (require (list_all (\<lambda>swatch. valid_kind (Color swatches) (VStr (o_value swatch))) swatches) (Bad_swatches at_loc)) (\<lambda>_.
       Inr (Color swatches)))
     else Inl (Unknown_type at_loc))"

definition setting_of :: "permission list \<Rightarrow> nat \<Rightarrow> val \<Rightarrow> problem + setting" where
  "setting_of permissions index entry = (let at_loc = In_settings index in
    also_then (table_of entry at_loc) (\<lambda>source.
    also_then (text_where KEY source ''key'' at_loc) (\<lambda>key.
    also_then (text_where MESSAGE source ''label'' at_loc) (\<lambda>label.
    also_then (optional_text source ''depends'' at_loc) (\<lambda>depends.
    also_then (condition_of source at_loc) (\<lambda>when.
    also_then (page_of source at_loc permissions) (\<lambda>page.
    also_then (kind_of source at_loc) (\<lambda>kind.
    let described = \<lparr>s_key = key, s_label = label, s_depends = depends, s_when = when, s_page = page,
      s_hidden = (map_of source ''hidden'' = Some (VBool True)), s_default = map_of source ''default'', s_kind = kind\<rparr> in
    also_then (require (validValue described (s_default described)) (Bad_default at_loc)) (\<lambda>_.
    Inr described)))))))))"

definition possible :: "setting \<Rightarrow> val \<Rightarrow> bool" where
  "possible parent v = (case s_kind parent of
      Choices options _ \<Rightarrow> offers options v
    | _ \<Rightarrow> validValue parent (Some v))"

definition check_condition :: "setting \<Rightarrow> setting \<Rightarrow> problem + unit" where
  "check_condition described parent = (case s_when described of
      None \<Rightarrow> require (s_kind parent = Switch) (Needs_when (s_key described) (s_key parent))
    | Some (Any_of vs) \<Rightarrow>
        if vs = [] then Inl (Empty_when (s_key described))
        else (case List.find (\<lambda>v. \<not> possible parent v) vs of
            None \<Rightarrow> Inr ()
          | Some wrong \<Rightarrow> Inl (Impossible_when (s_key described) wrong (s_key parent)))
    | Some (Range least most) \<Rightarrow>
        (case s_kind parent of
            Slider low high _ _ \<Rightarrow>
              if least = None \<and> most = None then Inl (Range_without_ends (s_key described))
              else require (\<not> (otherwise least low > otherwise most high \<or> otherwise least low > high \<or> otherwise most high < low))
                (Range_outside (s_key described) (s_key parent))
          | _ \<Rightarrow> Inl (Range_without_slider (s_key described) (s_key parent))))"

fun keys_once :: "string list \<Rightarrow> setting list \<Rightarrow> problem + unit" where
  "keys_once keys [] = Inr ()"
| "keys_once keys (s # ss) = (if s_key s \<in> set keys then Inl (Setting_twice (s_key s)) else keys_once (s_key s # keys) ss)"

fun depend_on_earlier :: "setting list \<Rightarrow> setting list \<Rightarrow> problem + unit" where
  "depend_on_earlier earlier [] = Inr ()"
| "depend_on_earlier earlier (s # ss) =
    also_then (case s_depends s of
        None \<Rightarrow> require (s_when s = None) (When_alone (s_key s))
      | Some depends \<Rightarrow>
          (case List.find (\<lambda>other. s_key other = depends) earlier of
              None \<Rightarrow> Inl (Depends_on_later (s_key s) depends)
            | Some parent \<Rightarrow> check_condition s parent))
      (\<lambda>_. depend_on_earlier (earlier @ [s]) ss)"

definition dependencies :: "setting list \<Rightarrow> problem + unit" where
  "dependencies settings = also_then (keys_once [] settings) (\<lambda>_. depend_on_earlier [] settings)"

section \<open>Helper, network and shortcuts\<close>

fun as_string :: "val \<Rightarrow> string option" where
  "as_string (VStr s) = Some s"
| "as_string _ = None"

definition helper_of :: "table \<Rightarrow> problem + helper option" where
  "helper_of source = (case map_of source ''helper'' of
      None \<Rightarrow> Inr None
    | Some v \<Rightarrow>
        also_then (table_of v In_helper) (\<lambda>described.
        also_then (text_of described ''path'' In_helper) (\<lambda>path.
        also_then (require (insideFolder path) Helper_outside) (\<lambda>_.
        if map_of described ''turned-off'' = None then Inr (Some \<lparr>h_path = path, h_turned_off = None\<rparr>)
        else also_then (list_of described ''turned-off'' In_helper) (\<lambda>turned_off.
          if list_all (\<lambda>a. as_string a \<noteq> None) turned_off
          then Inr (Some \<lparr>h_path = path, h_turned_off = Some (List.map_filter as_string turned_off)\<rparr>)
          else Inl Bad_arguments)))))"

definition host_of :: "nat \<Rightarrow> val \<Rightarrow> problem + string" where
  "host_of index v = (case v of VStr s \<Rightarrow> if HOST s then Inr s else Inl (Bad_host index) | _ \<Rightarrow> Inl (Bad_host index))"

definition hosts_of :: "table \<Rightarrow> problem + string list" where
  "hosts_of described = also_then (list_of described ''hosts'' In_network) (map_from 0 host_of)"

definition port_number :: "val option \<Rightarrow> nat option" where
  "port_number v = (case v of
      Some (VNum (Finite x)) \<Rightarrow> if of_int \<lfloor>x\<rfloor> = x \<and> 1 \<le> x \<and> x \<le> 65535 then Some (nat \<lfloor>x\<rfloor>) else None
    | _ \<Rightarrow> None)"

definition protocol_of :: "val option \<Rightarrow> protocol option" where
  "protocol_of v = (if v = Some (VStr ''tcp'') then Some Tcp else if v = Some (VStr ''udp'') then Some Udp else None)"

definition port_of :: "nat \<Rightarrow> val \<Rightarrow> problem + listen_port" where
  "port_of index entry =
    also_then (table_of entry (In_listen index)) (\<lambda>port.
    case port_number (map_of port ''port'') of
      None \<Rightarrow> Inl (Bad_port index)
    | Some n \<Rightarrow> (case protocol_of (map_of port ''protocol'') of
          None \<Rightarrow> Inl (Bad_protocol index)
        | Some p \<Rightarrow> Inr \<lparr>n_port = n, n_protocol = p\<rparr>))"

definition listen_of :: "table \<Rightarrow> problem + listen_port list" where
  "listen_of described =
    also_then (list_of described ''listen'' In_network) (\<lambda>entries.
    also_then (map_from 0 port_of entries) (\<lambda>ports.
    also_then (require (distinct (map (\<lambda>p. (n_port p, n_protocol p)) ports)) Port_twice) (\<lambda>_.
    Inr ports)))"

definition network_of :: "table \<Rightarrow> problem + network option" where
  "network_of source = (case map_of source ''network'' of
      None \<Rightarrow> Inr None
    | Some v \<Rightarrow>
        also_then (table_of v In_network) (\<lambda>described.
        also_then (hosts_of described) (\<lambda>hosts.
        also_then (listen_of described) (\<lambda>listen.
        also_then (require (hosts \<noteq> [] \<or> listen \<noteq> []) Empty_network) (\<lambda>_.
        Inr (Some \<lparr>n_hosts = hosts, n_listen = listen\<rparr>))))))"

definition shortcut_of :: "nat \<Rightarrow> val \<Rightarrow> problem + shortcut" where
  "shortcut_of index entry = (let at_loc = In_shortcuts index in
    also_then (table_of entry at_loc) (\<lambda>source.
    also_then (text_where KEY source ''key'' at_loc) (\<lambda>key.
    also_then (text_where MESSAGE source ''label'' at_loc) (\<lambda>label.
    also_then (optional_text source ''default'' at_loc) (\<lambda>accelerator.
    Inr \<lparr>c_key = key, c_label = label, c_default = accelerator\<rparr>)))))"

definition shortcuts_of :: "table \<Rightarrow> problem + shortcut list" where
  "shortcuts_of source =
    also_then (list_of source ''shortcuts'' In_manifest) (\<lambda>entries.
    also_then (map_from 0 shortcut_of entries) (\<lambda>described.
    also_then (require (distinct (map c_key described)) Shortcut_twice) (\<lambda>_.
    Inr described)))"

section \<open>The manifest\<close>

definition api_of :: "val option \<Rightarrow> nat option" where
  "api_of v = (case v of
      Some (VNum (Finite x)) \<Rightarrow> List.find (\<lambda>n. of_nat n = x) API_VERSIONS
    | _ \<Rightarrow> None)"

definition permission_of :: "nat \<Rightarrow> val \<Rightarrow> problem + permission" where
  "permission_of index v = (case v of
      VStr s \<Rightarrow> (case map_of PERMISSIONS s of Some p \<Rightarrow> Inr p | None \<Rightarrow> Inl (Unknown_permission v))
    | _ \<Rightarrow> Inl (Unknown_permission v))"

definition permission_fits :: "permission list \<Rightarrow> permission \<Rightarrow> problem + unit" where
  "permission_fits permissions p =
    also_then (case NEEDS p of None \<Rightarrow> Inr () | Some needed \<Rightarrow> require (needed \<in> set permissions) (Needs_permission p needed)) (\<lambda>_.
    case APART p of None \<Rightarrow> Inr () | Some apart \<Rightarrow> require (apart \<notin> set permissions) (Apart_permission p apart))"

fun all_fit :: "permission list \<Rightarrow> permission list \<Rightarrow> problem + unit" where
  "all_fit permissions [] = Inr ()"
| "all_fit permissions (p # ps) = also_then (permission_fits permissions p) (\<lambda>_. all_fit permissions ps)"

definition read_document :: "table \<Rightarrow> problem + manifest" where
  "read_document document = (case api_of (map_of document ''api'') of
      None \<Rightarrow> Inl (Unsupported_api (map_of document ''api''))
    | Some api \<Rightarrow>
        also_then (list_of document ''permissions'' In_manifest) (\<lambda>names.
        also_then (map_from 0 permission_of names) (\<lambda>permissions.
        also_then (all_fit permissions permissions) (\<lambda>_.
        also_then (list_of document ''settings'' In_manifest) (\<lambda>entries.
        also_then (map_from 0 (setting_of permissions) entries) (\<lambda>settings.
        also_then (dependencies settings) (\<lambda>_.
        also_then (text_where ID document ''id'' In_manifest) (\<lambda>id.
        also_then (text_of document ''name'' In_manifest) (\<lambda>name.
        also_then (optional_text document ''description'' In_manifest) (\<lambda>description.
        also_then (text_of document ''version'' In_manifest) (\<lambda>version.
        also_then (shortcuts_of document) (\<lambda>shortcuts.
        also_then (helper_of document) (\<lambda>helper.
        also_then (network_of document) (\<lambda>network.
        Inr \<lparr>m_id = id, m_name = name, m_description = description, m_version = version, m_api = api,
          m_permissions = permissions, m_settings = settings, m_shortcuts = shortcuts, m_helper = helper,
          m_network = network\<rparr>))))))))))))))"

definition parseManifest :: "(string \<Rightarrow> string + table) \<Rightarrow> string \<Rightarrow> problem + manifest" where
  "parseManifest parse source = (case parse source of
      Inl message \<Rightarrow> Inl (Not_toml message)
    | Inr document \<Rightarrow> read_document document)"

end
