(* ===== verification/Extension_Store.thy ===== *)
theory Extension_Store
  imports Extension_Manifest "HOL-Library.List_Lexorder" "HOL-Library.Char_ord"
begin

text \<open>
  What the person decided about extensions (\<^verbatim>\<open>extensions/runtime/store.ts\<close>), the values of
  the settings of one extension (\<^verbatim>\<open>runtime/values.ts\<close>), what an extension stores for itself
  (\<^verbatim>\<open>runtime/storage.ts\<close>) and the crashes it is blamed for (\<^verbatim>\<open>runtime/crashes.ts\<close>).

  The settings service keeps each key; of the values, the store holds a copy that it reads
  again when the service says that they changed.  \<open>variant\<close> and \<open>recursiveUnpack\<close> carry the
  four types of a value one to one, so the service holds values too.
\<close>

section \<open>The store\<close>

datatype problem_kind = Error_problem | Crash_problem

record trouble =
  t_kind :: problem_kind
  t_detail :: string

record store =
  st_values :: "(string \<times> table) list"
  st_written :: "(string \<times> table) list"
  st_disabled :: "string list"
  st_troubles :: "(string \<times> trouble) list"
  st_shortcuts :: "(string \<times> (string \<times> string list) list) list"

definition own_values :: "(string \<times> table) list \<Rightarrow> string \<Rightarrow> table" where
  "own_values vs ext = otherwise (map_of vs ext) []"

text \<open>\<^verbatim>\<open>watchValues\<close>: the handler reads the values again and names the extensions whose values differ.\<close>

definition values_changed :: "store \<Rightarrow> store \<times> string list" where
  "values_changed st = (let previous = st_values st; now = st_written st in
    (st\<lparr>st_values := now\<rparr>,
     filter (\<lambda>ext. own_values previous ext \<noteq> own_values now ext) (remdups (map fst previous @ map fst now))))"

definition setShortcut :: "string \<Rightarrow> string \<Rightarrow> string list option \<Rightarrow> store \<Rightarrow> store" where
  "setShortcut ext key accelerators st = (let choices = st_shortcuts st;
     own = otherwise (map_of choices ext) [];
     own' = (case accelerators of Some chosen \<Rightarrow> map_put key chosen own | None \<Rightarrow> map_drop key own)
   in st\<lparr>st_shortcuts := (if own' \<noteq> [] then map_put ext own' choices else map_drop ext choices)\<rparr>)"

definition setDisabled :: "string \<Rightarrow> bool \<Rightarrow> store \<Rightarrow> store" where
  "setDisabled ext disabled st = (let ids = remdups (st_disabled st) in
     if disabled = (ext \<in> set ids) then st
     else st\<lparr>st_disabled := sort (if disabled then ids @ [ext] else remove1 ext ids)\<rparr>)"

definition store_value :: "store \<Rightarrow> string \<Rightarrow> string \<Rightarrow> val option" where
  "store_value st ext key = Option.bind (map_of (st_values st) ext) (\<lambda>own. map_of own key)"

fun put_all :: "table \<Rightarrow> table \<Rightarrow> table" where
  "put_all [] own = own"
| "put_all ((k, v) # new) own = put_all new (map_put k v own)"

text \<open>Writing puts the new values on top of the copy the store holds.\<close>

definition setValues :: "string \<Rightarrow> table \<Rightarrow> store \<Rightarrow> store" where
  "setValues ext new st = st\<lparr>st_written := map_put ext (put_all new (own_values (st_values st) ext)) (st_values st)\<rparr>"

definition setValue :: "string \<Rightarrow> string \<Rightarrow> val \<Rightarrow> store \<Rightarrow> store" where
  "setValue ext key v = setValues ext [(key, v)]"

definition forgetShortcuts :: "string \<Rightarrow> store \<Rightarrow> store" where
  "forgetShortcuts ext st = (if map_of (st_shortcuts st) ext = None then st
     else st\<lparr>st_shortcuts := map_drop ext (st_shortcuts st)\<rparr>)"

definition forgetValues :: "string \<Rightarrow> store \<Rightarrow> store" where
  "forgetValues ext st = (if map_of (st_values st) ext = None then st
     else st\<lparr>st_written := map_drop ext (st_values st)\<rparr>)"

definition setProblem :: "string \<Rightarrow> trouble option \<Rightarrow> store \<Rightarrow> store" where
  "setProblem ext trouble st = (case trouble of
      None \<Rightarrow> if map_of (st_troubles st) ext = None then st else st\<lparr>st_troubles := map_drop ext (st_troubles st)\<rparr>
    | Some t \<Rightarrow> st\<lparr>st_troubles := map_put ext t (st_troubles st)\<rparr>)"

lemma set_disabled [simp]: "set (st_disabled (setDisabled ext b st)) =
    (if b then insert ext (set (st_disabled st)) else set (st_disabled st) - {ext})"
  by (auto simp: setDisabled_def Let_def)

lemma setDisabled_rest [simp]:
  "st_values (setDisabled ext b st) = st_values st" "st_written (setDisabled ext b st) = st_written st"
  "st_troubles (setDisabled ext b st) = st_troubles st" "st_shortcuts (setDisabled ext b st) = st_shortcuts st"
  by (simp_all add: setDisabled_def Let_def)

lemma setProblem_rest [simp]:
  "st_values (setProblem ext t st) = st_values st" "st_written (setProblem ext t st) = st_written st"
  "st_disabled (setProblem ext t st) = st_disabled st" "st_shortcuts (setProblem ext t st) = st_shortcuts st"
  by (simp_all add: setProblem_def split: option.split)

lemma setProblem_lookup [simp]: "map_of (st_troubles (setProblem ext t st)) = (map_of (st_troubles st))(ext := t)"
  by (auto simp: setProblem_def fun_eq_iff split: option.split)

section \<open>The values of the settings of an extension\<close>

fun met :: "condition option \<Rightarrow> val option \<Rightarrow> bool" where
  "met None v = (v = Some (VBool True))"
| "met (Some (Any_of wanted)) v = (case v of
      None \<Rightarrow> False
    | Some (VList vs) \<Rightarrow> list_ex (\<lambda>w. list_ex (same_value w) vs) wanted
    | Some x \<Rightarrow> list_ex (\<lambda>w. same_value x w) wanted)"
| "met (Some (Range least most)) v = (case v of
      Some (VNum (Finite x)) \<Rightarrow> (case least of None \<Rightarrow> True | Some l \<Rightarrow> l \<le> x) \<and> (case most of None \<Rightarrow> True | Some m \<Rightarrow> x \<le> m)
    | Some (VNum Infinite) \<Rightarrow> most = None
    | Some (VNum Minus_infinite) \<Rightarrow> least = None
    | _ \<Rightarrow> False)"

datatype value_error = Not_a_setting string | Does_not_fit val string

text \<open>\<^verbatim>\<open>new Map(settings.map(setting => [setting.key, setting]))\<close>.\<close>

definition described :: "setting list \<Rightarrow> (string \<times> setting) list" where
  "described settings = foldl (\<lambda>d s. map_put (s_key s) s d) [] settings"

definition describe :: "(string \<times> setting) list \<Rightarrow> string \<Rightarrow> value_error + setting" where
  "describe d key = (case map_of d key of Some s \<Rightarrow> Inr s | None \<Rightarrow> Inl (Not_a_setting key))"

definition value_of :: "store \<Rightarrow> string \<Rightarrow> setting \<Rightarrow> val option" where
  "value_of st ext s = (let stored = store_value st ext (s_key s) in
     if stored \<noteq> None \<and> validValue s stored then stored else s_default s)"

definition get_setting :: "(string \<times> setting) list \<Rightarrow> string \<Rightarrow> store \<Rightarrow> string \<Rightarrow> value_error + val option" where
  "get_setting d ext st key = also_then (describe d key) (\<lambda>s. Inr (value_of st ext s))"

definition in_declared_order :: "setting \<Rightarrow> val \<Rightarrow> val" where
  "in_declared_order s v = (case s_kind s of
      Choices options _ \<Rightarrow>
        (case v of VList picked \<Rightarrow> VList (filter (\<lambda>w. list_ex (same_value w) picked) (map (VStr \<circ> o_value) options)) | _ \<Rightarrow> v)
    | _ \<Rightarrow> v)"

definition set_setting :: "(string \<times> setting) list \<Rightarrow> string \<Rightarrow> string \<Rightarrow> val \<Rightarrow> store \<Rightarrow> value_error + store" where
  "set_setting d ext key v st =
    also_then (describe d key) (\<lambda>s.
    also_then (require (validValue s (Some v)) (Does_not_fit v key)) (\<lambda>_.
    let stored = in_declared_order s v in
    Inr (if value_of st ext s \<noteq> Some stored then setValue ext key stored st else st)))"

text \<open>Whether a setting shows: it follows what the setting depends on, and may never come to an end.\<close>

partial_function (option) shown ::
    "(string \<times> setting) list \<Rightarrow> string \<Rightarrow> store \<Rightarrow> string \<Rightarrow> string option \<Rightarrow> (value_error + bool) option" where
  "shown d ext st key assumed_on = (case describe d key of
      Inl e \<Rightarrow> Some (Inl e)
    | Inr s \<Rightarrow> (case s_depends s of
        None \<Rightarrow> Some (Inr True)
      | Some depends \<Rightarrow>
          if Some depends = assumed_on then Some (Inr (met (s_when s) (Some (VBool True))))
          else (case get_setting d ext st depends of
              Inl e \<Rightarrow> Some (Inl e)
            | Inr v \<Rightarrow> if met (s_when s) v then shown d ext st depends assumed_on else Some (Inr False))))"

record setting_values =
  v_id :: string
  v_described :: "(string \<times> setting) list"
  v_known :: "(string \<times> val option) list"
  v_listeners :: "nat list"

definition snapshot :: "(string \<times> setting) list \<Rightarrow> string \<Rightarrow> store \<Rightarrow> (string \<times> val option) list" where
  "snapshot d ext st = map (\<lambda>(key, s). (key, value_of st ext s)) d"

definition setting_values :: "string \<Rightarrow> setting list \<Rightarrow> store \<Rightarrow> setting_values" where
  "setting_values ext settings st = \<lparr>v_id = ext, v_described = described settings,
    v_known = snapshot (described settings) ext st, v_listeners = []\<rparr>"

definition watch :: "nat \<Rightarrow> setting_values \<Rightarrow> setting_values" where
  "watch l vs = (if l \<in> set (v_listeners vs) then vs else vs\<lparr>v_listeners := v_listeners vs @ [l]\<rparr>)"

definition unwatch :: "nat \<Rightarrow> setting_values \<Rightarrow> setting_values" where
  "unwatch l vs = vs\<lparr>v_listeners := removeAll l (v_listeners vs)\<rparr>"

text \<open>The calls of listeners, in order: every listener for every key whose value differs.\<close>

definition refresh :: "store \<Rightarrow> setting_values \<Rightarrow> setting_values \<times> (nat \<times> string) list" where
  "refresh st vs = (let previous = v_known vs; now = snapshot (v_described vs) (v_id vs) st in
    (vs\<lparr>v_known := now\<rparr>,
     concat (map (\<lambda>(key, v). if otherwise (map_of previous key) None \<noteq> v then map (\<lambda>l. (l, key)) (v_listeners vs) else []) now)))"

section \<open>What an extension stores for itself\<close>

text \<open>
  \<^verbatim>\<open>JSON\<close> encodes the values as a string and decodes it; the size of the encoding is bounded.
  The file is \<open>None\<close> while there is none, and a timer writes soon after a change.
\<close>

definition LIMIT_BYTES :: nat where "LIMIT_BYTES = 1024 * 1024"

record 'v stored =
  sv_values :: "(string \<times> 'v) list"
  sv_file :: "string option"
  sv_waiting :: bool

definition read_stored :: "(string \<Rightarrow> (string \<times> 'v) list option) \<Rightarrow> string option \<Rightarrow> 'v stored" where
  "read_stored decode file = \<lparr>sv_values = otherwise (Option.bind file decode) [], sv_file = file, sv_waiting = False\<rparr>"

definition stored_get :: "'v stored \<Rightarrow> string \<Rightarrow> 'v option" where
  "stored_get sv key = map_of (sv_values sv) key"

definition stored_set :: "((string \<times> 'v) list \<Rightarrow> string) \<Rightarrow> (string \<Rightarrow> (string \<times> 'v) list option) \<Rightarrow>
    string \<Rightarrow> 'v \<Rightarrow> 'v stored \<Rightarrow> 'v stored option" where
  "stored_set encode decode key v sv = (let encoded = encode (map_put key v (sv_values sv)) in
     if length encoded > LIMIT_BYTES then None
     else Some (sv\<lparr>sv_values := otherwise (decode encoded) [], sv_waiting := True\<rparr>))"

definition stored_delete :: "string \<Rightarrow> 'v stored \<Rightarrow> 'v stored" where
  "stored_delete key sv = (if map_of (sv_values sv) key = None then sv
     else sv\<lparr>sv_values := map_drop key (sv_values sv), sv_waiting := True\<rparr>)"

definition stored_write :: "((string \<times> 'v) list \<Rightarrow> string) \<Rightarrow> 'v stored \<Rightarrow> 'v stored" where
  "stored_write encode sv = sv\<lparr>sv_file := Some (encode (sv_values sv))\<rparr>"

definition stored_timer :: "((string \<times> 'v) list \<Rightarrow> string) \<Rightarrow> 'v stored \<Rightarrow> 'v stored" where
  "stored_timer encode sv = (if sv_waiting sv then stored_write encode (sv\<lparr>sv_waiting := False\<rparr>) else sv)"

definition stored_flush :: "((string \<times> 'v) list \<Rightarrow> string) \<Rightarrow> 'v stored \<Rightarrow> 'v stored" where
  "stored_flush encode sv = (if \<not> sv_waiting sv then sv else stored_write encode (sv\<lparr>sv_waiting := False\<rparr>))"

definition stored_forget :: "'v stored \<Rightarrow> 'v stored" where
  "stored_forget sv = sv\<lparr>sv_waiting := False, sv_values := [], sv_file := None\<rparr>"

section \<open>Crashes\<close>

definition CRASHES_BEFORE_OFF :: nat where "CRASHES_BEFORE_OFF = 2"

record crash_record =
  r_running :: "string list"
  r_crashes :: "(string \<times> nat) list"

text \<open>\<^verbatim>\<open>Object.fromEntries\<close>: a repeated key keeps its place.\<close>

definition from_entries :: "('k \<times> 'v) list \<Rightarrow> ('k \<times> 'v) list" where
  "from_entries es = foldl (\<lambda>m (k, v). map_put k v m) [] es"

definition after_crash :: "crash_record option \<Rightarrow> crash_record" where
  "after_crash file = (case file of
      None \<Rightarrow> \<lparr>r_running = [], r_crashes = []\<rparr>
    | Some previous \<Rightarrow> \<lparr>r_running = [], r_crashes =
        from_entries (map (\<lambda>ext. (ext, otherwise (map_of (r_crashes previous) ext) 0 + 1)) (r_running previous))\<rparr>)"

definition crash_guard :: "bool \<Rightarrow> crash_record option \<Rightarrow> crash_record" where
  "crash_guard restarted_after_crash file =
    (if restarted_after_crash then after_crash file else \<lparr>r_running = [], r_crashes = []\<rparr>)"

definition culprits :: "crash_record \<Rightarrow> string list" where
  "culprits r = map fst (filter (\<lambda>(ext, crashes). CRASHES_BEFORE_OFF \<le> crashes) (r_crashes r))"

text \<open>The record is written to the file whenever the set of running extensions is told.\<close>

definition note_running :: "string list \<Rightarrow> crash_record \<Rightarrow> crash_record" where
  "note_running ids r = r\<lparr>r_running := sort ids\<rparr>"

end
