(* ===== verification/Extension_Facts.thy ===== *)
theory Extension_Facts
  imports Extension_Store
begin

text \<open>
  What an accepted manifest promises, and the lemmas that a manifest that is read keeps it:
  the form of every entry, settings that only depend on earlier ones, and conditions that some
  value of the other setting meets.
\<close>

section \<open>Paths\<close>

text \<open>
  Following a path from a folder: \<open>..\<close> goes up, an empty segment and \<open>.\<close> stay.  The folders
  gone through are listed, innermost first.
\<close>

fun go :: "string list \<Rightarrow> string list \<Rightarrow> string list" where
  "go folder [] = folder"
| "go folder (seg # segs) = (if seg = ''..'' then go (tl folder) segs
     else if seg = [] \<or> seg = ''.'' then go folder segs else go (seg # folder) segs)"

lemma go_without_up: "''..'' \<notin> set segs \<Longrightarrow> \<exists>below. go folder segs = below @ folder"
proof (induction segs arbitrary: folder)
  case (Cons seg segs)
  then show ?case
    by (auto dest: Cons.IH [of "seg # folder"])
qed simp

lemma inside_goes_below: "insideFolder path \<Longrightarrow> \<exists>below. go folder (take n (split_on (CHR ''/'') path)) = below @ folder"
  by (intro go_without_up) (auto simp: insideFolder_def dest: in_set_takeD)

section \<open>Entries\<close>

lemma text_where_Inr: "text_where P t k l = Inr s \<Longrightarrow> map_of t k = Some (VStr s) \<and> s \<noteq> [] \<and> P s"
  by (auto simp: text_where_def split: option.splits val.splits if_splits)

lemma optional_text_Inr: "optional_text t k l = Inr r \<Longrightarrow> (case r of None \<Rightarrow> map_of t k = None | Some s \<Rightarrow> s \<noteq> [])"
  by (auto simp: optional_text_def dest: text_where_Inr split: if_splits)

lemma optional_number_None: "optional_number t k l = Inr None \<Longrightarrow> map_of t k = None"
  by (auto simp: optional_number_def split: if_splits)

definition option_ok :: "choice_option \<Rightarrow> bool" where
  "option_ok option \<longleftrightarrow> o_value option \<noteq> [] \<and> MESSAGE (o_label option) \<and>
    (case o_image option of None \<Rightarrow> True | Some p \<Rightarrow> insideFolder p \<and> IMAGE p)"

lemma image_of_Inr: "image_of t l = Inr r \<Longrightarrow> (case r of None \<Rightarrow> True | Some p \<Rightarrow> insideFolder p \<and> IMAGE p)"
  by (auto simp: image_of_def split: option.splits if_splits)

lemma option_of_ok: "option_of l v = Inr option \<Longrightarrow> option_ok option"
  by (auto simp: option_of_def option_ok_def dest!: text_where_Inr dest: image_of_Inr)

lemma options_of_ok: "options_of t k l = Inr options \<Longrightarrow> \<forall>option \<in> set options. option_ok option"
  unfolding options_of_def by (auto dest!: map_from_all [where P = option_ok] intro: option_of_ok)

section \<open>Settings\<close>

definition kind_ok :: "kind \<Rightarrow> bool" where
  "kind_ok k \<longleftrightarrow> (case k of
      Switch \<Rightarrow> True
    | Choice options \<Rightarrow> options \<noteq> [] \<and> (\<forall>option \<in> set options. option_ok option)
    | Choices options least \<Rightarrow> options \<noteq> [] \<and> (\<forall>option \<in> set options. option_ok option) \<and> otherwise least 0 \<le> of_nat (length options)
    | Slider least most step percent \<Rightarrow> least < most
    | Color swatches \<Rightarrow> \<forall>swatch \<in> set swatches. option_ok swatch \<and> valid_kind k (VStr (o_value swatch)))"

lemma kind_of_ok: "kind_of t l = Inr k \<Longrightarrow> kind_ok k"
  by (auto simp: kind_of_def kind_ok_def list_all_iff dest: options_of_ok split: if_splits)

definition page_ok :: "permission list \<Rightarrow> page_id option \<Rightarrow> bool" where
  "page_ok permissions page \<longleftrightarrow> (case page of
      None \<Rightarrow> True
    | Some p \<Rightarrow> \<exists>(name, q, allowed) \<in> set PAGES. q = p \<and> set allowed \<inter> set permissions \<noteq> {})"

lemma page_of_ok: "page_of t l permissions = Inr page \<Longrightarrow> page_ok permissions page"
  by (fastforce simp: page_of_def page_ok_def list_ex_iff dest!: map_of_SomeD split: option.splits val.splits if_splits)

definition setting_ok :: "permission list \<Rightarrow> setting \<Rightarrow> bool" where
  "setting_ok permissions s \<longleftrightarrow> KEY (s_key s) \<and> MESSAGE (s_label s) \<and> kind_ok (s_kind s) \<and>
    page_ok permissions (s_page s) \<and> validValue s (s_default s)"

lemma setting_of_ok: "setting_of permissions i v = Inr s \<Longrightarrow> setting_ok permissions s"
  by (auto simp: setting_of_def setting_ok_def Let_def dest!: text_where_Inr dest: kind_of_ok page_of_ok)

subsection \<open>Conditions\<close>

text \<open>Some value of the other setting meets the condition.\<close>

definition can_show :: "setting \<Rightarrow> setting \<Rightarrow> bool" where
  "can_show s parent \<longleftrightarrow> (\<exists>v. validValue parent (Some v) \<and> met (s_when s) (Some v))"

lemma offers_Str: "offers options v \<longleftrightarrow> (\<exists>option \<in> set options. v = VStr (o_value option))"
  by (auto simp: offers_def list_ex_iff)

lemma valid_same: "\<not> (\<exists>options least. k = Choices options least) \<Longrightarrow> valid_kind k v \<Longrightarrow> same_value v v \<and> (\<forall>vs. v \<noteq> VList vs)"
  by (cases k; cases v) (auto simp: offers_Str split: num_val.splits)

lemma met_any_self: "same_value v v \<Longrightarrow> \<forall>vs. v \<noteq> VList vs \<Longrightarrow> v \<in> set wanted \<Longrightarrow> met (Some (Any_of wanted)) (Some v)"
  by (cases v) (auto simp: list_ex_iff intro!: bexI [of _ v])

lemma met_any_list: "same_value w w \<Longrightarrow> w \<in> set wanted \<Longrightarrow> w \<in> set vs \<Longrightarrow> met (Some (Any_of wanted)) (Some (VList vs))"
  by (auto simp: list_ex_iff)

lemma choices_with:
  assumes "kind = Choices options least" and "valid_kind kind (VList xs)" and "offers options w"
  shows "\<exists>ys. valid_kind kind (VList ys) \<and> w \<in> set ys"
proof (cases "w \<in> set xs")
  case True
  with assms show ?thesis by blast
next
  case False
  with assms have "valid_kind kind (VList (xs @ [w]))"
    by (auto intro: order_trans)
  then show ?thesis by (metis in_set_conv_decomp)
qed

lemma possible_can_show:
  assumes "setting_ok permissions parent" and "s_when s = Some (Any_of vs)" and "w \<in> set vs" and "possible parent w"
  shows "can_show s parent"
proof (cases "\<exists>options least. s_kind parent = Choices options least")
  case True
  then obtain options least where k: "s_kind parent = Choices options least" by blast
  with assms(4) have w: "offers options w" by (simp add: possible_def)
  from assms(1) k obtain xs where "valid_kind (s_kind parent) (VList xs)"
    by (auto simp: setting_ok_def validValue_def split: option.splits val.splits)
  from choices_with [OF k this w] obtain ys where "valid_kind (s_kind parent) (VList ys)" "w \<in> set ys" by blast
  moreover from w have "same_value w w" by (auto simp: offers_Str)
  ultimately show ?thesis
    unfolding can_show_def validValue_def assms(2)
    by (intro exI [of _ "VList ys"]) (simp only: option.case met_any_list [OF _ assms(3)])
next
  case False
  with assms(4) have v: "valid_kind (s_kind parent) w"
    by (auto simp: possible_def validValue_def split: kind.splits)
  from valid_same [OF False v] have "met (s_when s) (Some w)"
    unfolding assms(2) by (intro met_any_self assms(3)) auto
  with v show ?thesis by (auto simp: can_show_def validValue_def)
qed

lemma range_can_show:
  assumes "setting_ok permissions parent" and "s_kind parent = Slider low high step percent"
    and "s_when s = Some (Range least most)"
    and "otherwise least low \<le> otherwise most high" "otherwise least low \<le> high" "low \<le> otherwise most high"
  shows "can_show s parent"
proof -
  let ?x = "max low (otherwise least low)"
  from assms(1,2) have "low < high" by (simp add: setting_ok_def kind_ok_def)
  with assms(4-6) have "valid_kind (s_kind parent) (VNum (Finite ?x))"
    by (auto simp: assms(2))
  moreover from assms(4-6) have "met (s_when s) (Some (VNum (Finite ?x)))"
    by (cases least; cases most) (auto simp: assms(3))
  ultimately show ?thesis by (auto simp: can_show_def validValue_def)
qed

lemma check_condition_can_show:
  assumes "check_condition s parent = Inr u" and "setting_ok permissions parent"
  shows "can_show s parent"
proof (cases "s_when s")
  case None
  with assms(1) have "s_kind parent = Switch" by (simp add: check_condition_def)
  with None show ?thesis by (auto simp: can_show_def validValue_def)
next
  case (Some c)
  show ?thesis
  proof (cases c)
    case (Any_of vs)
    with Some assms(1) have "vs \<noteq> []" "\<forall>v \<in> set vs. possible parent v"
      by (auto simp: check_condition_def find_None_iff split: if_splits option.splits)
    then show ?thesis
      using possible_can_show [OF assms(2)] Some Any_of by (meson hd_in_set)
  next
    case (Range least most)
    with Some assms(1) show ?thesis
      by (auto simp: check_condition_def not_less split: kind.splits if_splits intro: range_can_show [OF assms(2)])
  qed
qed

subsection \<open>Dependencies\<close>

definition depends_ok :: "setting list \<Rightarrow> bool" where
  "depends_ok settings \<longleftrightarrow> distinct (map s_key settings) \<and> (\<forall>i < length settings. case s_depends (settings ! i) of
      None \<Rightarrow> s_when (settings ! i) = None
    | Some depends \<Rightarrow> \<exists>j < i. s_key (settings ! j) = depends \<and> can_show (settings ! i) (settings ! j))"

lemma keys_once_distinct: "keys_once keys ss = Inr () \<Longrightarrow> distinct (map s_key ss) \<and> set keys \<inter> set (map s_key ss) = {}"
proof (induction ss arbitrary: keys)
  case (Cons s ss)
  then have "s_key s \<notin> set keys" "keys_once (s_key s # keys) ss = Inr ()" by (auto split: if_splits)
  with Cons.IH [OF this(2)] show ?case by auto
qed simp

lemma depend_on_earlier_nth:
  "depend_on_earlier earlier ss = Inr u \<Longrightarrow> i < length ss \<Longrightarrow> (case s_depends (ss ! i) of
      None \<Rightarrow> s_when (ss ! i) = None
    | Some depends \<Rightarrow> \<exists>parent. List.find (\<lambda>other. s_key other = depends) (earlier @ take i ss) = Some parent \<and>
        check_condition (ss ! i) parent = Inr ())"
proof (induction ss arbitrary: earlier i)
  case (Cons s ss)
  show ?case
  proof (cases i)
    case 0
    with Cons.prems show ?thesis by (auto split: option.splits)
  next
    case (Suc j)
    from Cons.prems(1) have "depend_on_earlier (earlier @ [s]) ss = Inr u" by auto
    from Cons.IH [OF this, of j] Cons.prems(2) Suc show ?thesis by (simp split: option.splits)
  qed
qed simp

lemma dependencies_ok:
  assumes "dependencies ss = Inr u" and "\<forall>s \<in> set ss. setting_ok permissions s"
  shows "depends_ok ss"
proof -
  from assms(1) have once: "keys_once [] ss = Inr ()" and earlier: "depend_on_earlier [] ss = Inr ()"
    by (auto simp: dependencies_def)
  have "case s_depends (ss ! i) of None \<Rightarrow> s_when (ss ! i) = None
    | Some depends \<Rightarrow> \<exists>j < i. s_key (ss ! j) = depends \<and> can_show (ss ! i) (ss ! j)" if i: "i < length ss" for i
  proof (cases "s_depends (ss ! i)")
    case None
    with depend_on_earlier_nth [OF earlier i] show ?thesis by simp
  next
    case (Some depends)
    with depend_on_earlier_nth [OF earlier i] obtain parent where
      p: "List.find (\<lambda>other. s_key other = depends) (take i ss) = Some parent" "check_condition (ss ! i) parent = Inr ()"
      by auto
    from p(1) obtain j where j: "j < i" "ss ! j = parent" "s_key parent = depends"
      using i by (auto simp: find_Some_iff)
    with i assms(2) have "setting_ok permissions parent" by (metis nth_mem order.strict_trans)
    from check_condition_can_show [OF p(2) this] j Some show ?thesis by auto
  qed
  with keys_once_distinct [OF once] show ?thesis by (simp add: depends_ok_def)
qed

section \<open>The manifest\<close>

definition permissions_ok :: "permission list \<Rightarrow> bool" where
  "permissions_ok ps \<longleftrightarrow> (\<forall>p \<in> set ps.
    (case NEEDS p of None \<Rightarrow> True | Some q \<Rightarrow> q \<in> set ps) \<and> (case APART p of None \<Rightarrow> True | Some q \<Rightarrow> q \<notin> set ps))"

lemma all_fit_nth: "all_fit ps qs = Inr u \<Longrightarrow> p \<in> set qs \<Longrightarrow> permission_fits ps p = Inr ()"
  by (induction qs) auto

lemma all_fit_ok: "all_fit ps ps = Inr u \<Longrightarrow> permissions_ok ps"
  by (fastforce simp: permissions_ok_def permission_fits_def dest: all_fit_nth split: option.splits)

definition port_ok :: "listen_port \<Rightarrow> bool" where
  "port_ok p \<longleftrightarrow> 1 \<le> n_port p \<and> n_port p \<le> 65535"

lemma port_number_bounds: "port_number v = Some n \<Longrightarrow> 1 \<le> n \<and> n \<le> 65535"
  by (auto simp: port_number_def nat_le_iff split: option.splits val.splits num_val.splits if_splits)

lemma port_of_ok: "port_of i v = Inr p \<Longrightarrow> port_ok p"
proof -
  assume "port_of i v = Inr p"
  then obtain t where t: "(case port_number (map_of t ''port'') of None \<Rightarrow> Inl (Bad_port i)
      | Some n \<Rightarrow> (case protocol_of (map_of t ''protocol'') of None \<Rightarrow> Inl (Bad_protocol i)
        | Some q \<Rightarrow> Inr \<lparr>n_port = n, n_protocol = q\<rparr>)) = Inr p"
    by (auto simp: port_of_def)
  then have "port_number (map_of t ''port'') = Some (n_port p)"
    by (cases "port_number (map_of t ''port'')"; cases "protocol_of (map_of t ''protocol'')") auto
  from port_number_bounds [OF this] show ?thesis by (simp add: port_ok_def)
qed

definition network_ok :: "network \<Rightarrow> bool" where
  "network_ok n \<longleftrightarrow> (n_hosts n \<noteq> [] \<or> n_listen n \<noteq> []) \<and> (\<forall>h \<in> set (n_hosts n). HOST h) \<and>
    (\<forall>p \<in> set (n_listen n). port_ok p) \<and> distinct (map (\<lambda>p. (n_port p, n_protocol p)) (n_listen n))"

lemma hosts_of_ok: "hosts_of t = Inr hs \<Longrightarrow> \<forall>h \<in> set hs. HOST h"
  unfolding hosts_of_def
  by (auto dest!: map_from_all [where P = HOST] simp: host_of_def split: val.splits if_splits)

lemma listen_of_ok: "listen_of t = Inr ps \<Longrightarrow> (\<forall>p \<in> set ps. port_ok p) \<and> distinct (map (\<lambda>p. (n_port p, n_protocol p)) ps)"
  unfolding listen_of_def by (auto dest!: map_from_all [where P = port_ok] intro: port_of_ok)

lemma network_of_ok: "network_of t = Inr (Some n) \<Longrightarrow> network_ok n"
  by (auto simp: network_of_def network_ok_def dest: hosts_of_ok listen_of_ok split: option.splits)

lemma helper_of_ok: "helper_of t = Inr (Some h) \<Longrightarrow> h_path h \<noteq> [] \<and> insideFolder (h_path h)"
  by (auto simp: helper_of_def dest!: text_where_Inr split: option.splits if_splits)

definition shortcut_ok :: "shortcut \<Rightarrow> bool" where
  "shortcut_ok c \<longleftrightarrow> KEY (c_key c) \<and> MESSAGE (c_label c) \<and> c_default c \<noteq> Some []"

lemma shortcut_of_ok: "shortcut_of i v = Inr c \<Longrightarrow> shortcut_ok c"
  by (auto simp: shortcut_of_def shortcut_ok_def Let_def dest!: text_where_Inr optional_text_Inr)

lemma shortcuts_of_ok: "shortcuts_of t = Inr cs \<Longrightarrow> (\<forall>c \<in> set cs. shortcut_ok c) \<and> distinct (map c_key cs)"
  unfolding shortcuts_of_def by (auto dest!: map_from_all [where P = shortcut_ok] intro: shortcut_of_ok)

definition manifest_ok :: "manifest \<Rightarrow> bool" where
  "manifest_ok m \<longleftrightarrow> ID (m_id m) \<and> m_name m \<noteq> [] \<and> m_version m \<noteq> [] \<and> m_api m \<in> set API_VERSIONS \<and>
    permissions_ok (m_permissions m) \<and>
    (\<forall>s \<in> set (m_settings m). setting_ok (m_permissions m) s) \<and> depends_ok (m_settings m) \<and>
    (\<forall>c \<in> set (m_shortcuts m). shortcut_ok c) \<and> distinct (map c_key (m_shortcuts m)) \<and>
    (\<forall>h. m_helper m = Some h \<longrightarrow> h_path h \<noteq> [] \<and> insideFolder (h_path h)) \<and>
    (\<forall>n. m_network m = Some n \<longrightarrow> network_ok n)"

lemma api_of_known: "api_of v = Some n \<Longrightarrow> n \<in> set API_VERSIONS"
  by (auto simp: api_of_def dest: find_SomeD split: option.splits val.splits num_val.splits)

lemma read_document_ok:
  assumes "read_document t = Inr m" shows "manifest_ok m"
proof -
  from assms obtain api where api: "api_of (map_of t ''api'') = Some api"
    by (auto simp: read_document_def split: option.splits)
  with assms obtain names entries where *:
      "map_from 0 permission_of names = Inr (m_permissions m)" "all_fit (m_permissions m) (m_permissions m) = Inr ()"
      "map_from 0 (setting_of (m_permissions m)) entries = Inr (m_settings m)" "dependencies (m_settings m) = Inr ()"
      "text_where ID t ''id'' In_manifest = Inr (m_id m)" "text_of t ''name'' In_manifest = Inr (m_name m)"
      "text_of t ''version'' In_manifest = Inr (m_version m)" "m_api m = api"
      "shortcuts_of t = Inr (m_shortcuts m)" "helper_of t = Inr (m_helper m)" "network_of t = Inr (m_network m)"
    by (auto simp: read_document_def)
  have settings: "\<forall>s \<in> set (m_settings m). setting_ok (m_permissions m) s"
    using map_from_all [OF *(3)] setting_of_ok by blast
  show ?thesis
    using api_of_known [OF api] all_fit_ok [OF *(2)] settings dependencies_ok [OF *(4) settings]
      text_where_Inr [OF *(5)] text_where_Inr [OF *(6)] text_where_Inr [OF *(7)] *(8) shortcuts_of_ok [OF *(9)]
      helper_of_ok network_of_ok *(10,11)
    unfolding manifest_ok_def by metis
qed

lemma accepted_ok: "parseManifest parse source = Inr m \<Longrightarrow> manifest_ok m"
  by (auto simp: parseManifest_def intro: read_document_ok split: sum.splits)

text \<open>The name of an extension is one segment of a path: its folder lies in the folder of extensions.\<close>

lemma ID_is_segment:
  assumes "ID s" shows "CHR ''/'' \<notin> set s \<and> s \<noteq> [] \<and> s \<noteq> ''.'' \<and> s \<noteq> ''..''"
proof -
  have no: "CHR ''/'' \<notin> set w" if "w \<in> set (split_on (CHR ''.'') s)" for w
  proof -
    from assms that have "headed (lower @ upper) (lower @ upper @ digits @ ''_-'') w"
      by (auto simp: ID_def Let_def list_all_iff)
    then have "set w \<subseteq> set (lower @ upper @ digits @ ''_-'')"
      by (auto simp: headed_def only_def list_all_iff split: list.splits)
    moreover have "CHR ''/'' \<notin> set (lower @ upper @ digits @ ''_-'')" by code_simp
    ultimately show ?thesis by blast
  qed
  have "CHR ''/'' \<notin> set s"
    using split_on_covers [of "CHR ''/''" s "CHR ''.''"] no by auto
  moreover have "length (split_on (CHR ''.'') s) \<ge> 3" "list_all (\<lambda>w. w \<noteq> []) (split_on (CHR ''.'') s)"
    using assms by (auto simp: ID_def Let_def headed_def list_all_iff)
  ultimately show ?thesis by auto
qed

end
