(* ===== verification/Extension_Settings.thy ===== *)
theory Extension_Settings
  imports Extension_Facts
begin

text \<open>
  The values of settings: what is read is always a value that fits, what is set is what is read
  next, and whether a setting shows is decided in a bounded number of steps, for settings that
  only depend on earlier ones.
\<close>

section \<open>Looking settings up\<close>

lemma described_distinct:
  assumes "distinct (map s_key ss)"
  shows "described ss = map (\<lambda>s. (s_key s, s)) ss"
proof -
  have put: "map_put (s_key s) s d = d @ [(s_key s, s)]" if "s_key s \<notin> fst ` set d" for d :: "(string \<times> setting) list" and s
    using that by (induction d) auto
  have "foldl (\<lambda>d s. map_put (s_key s) s d) d ss = d @ map (\<lambda>s. (s_key s, s)) ss"
    if "distinct (map s_key ss)" "fst ` set d \<inter> s_key ` set ss = {}" for d
    using that
  proof (induction ss arbitrary: d)
    case (Cons s ss)
    then have "s_key s \<notin> fst ` set d" by auto
    moreover have "foldl (\<lambda>d s. map_put (s_key s) s d) (d @ [(s_key s, s)]) ss = (d @ [(s_key s, s)]) @ map (\<lambda>s. (s_key s, s)) ss"
      using Cons.prems by (intro Cons.IH) auto
    ultimately show ?case by (simp add: put)
  qed simp
  from this [of "[]"] assms show ?thesis by (simp add: described_def)
qed

lemma describe_nth:
  "distinct (map s_key ss) \<Longrightarrow> i < length ss \<Longrightarrow> describe (described ss) (s_key (ss ! i)) = Inr (ss ! i)"
  by (simp add: described_distinct describe_def map_of_eq_None_iff
      map_of_is_SomeI [of "map (\<lambda>s. (s_key s, s)) ss" _ "ss ! i"] comp_def)

lemma describe_member:
  "distinct (map s_key ss) \<Longrightarrow> s \<in> set ss \<Longrightarrow> describe (described ss) (s_key s) = Inr s"
  by (metis describe_nth in_set_conv_nth)

lemma get_setting_member:
  "distinct (map s_key ss) \<Longrightarrow> s \<in> set ss \<Longrightarrow> get_setting (described ss) ext st (s_key s) = Inr (value_of st ext s)"
  by (simp add: get_setting_def describe_member)

lemma value_of_valid: "validValue s (s_default s) \<Longrightarrow> validValue s (value_of st ext s)"
  by (auto simp: value_of_def Let_def)

section \<open>Setting a value\<close>

lemma own_values_put [simp]: "own_values (map_put ext t vs) other = (if other = ext then t else own_values vs other)"
  by (simp add: own_values_def)

lemma store_value_own: "store_value st ext key = map_of (own_values (st_values st) ext) key"
  by (simp add: store_value_def own_values_def otherwise_def split: option.split)

lemma setValue_read: "store_value (fst (values_changed (setValue ext key v st))) other k =
    (if other = ext \<and> k = key then Some v else store_value st other k)"
  by (simp add: store_value_own values_changed_def Let_def setValue_def setValues_def)

lemma in_declared_order_simps [simp]:
  "s_kind s = Choices options least \<Longrightarrow> in_declared_order s (VList xs) =
    VList (filter (\<lambda>w. list_ex (same_value w) xs) (map (VStr \<circ> o_value) options))"
  by (simp add: in_declared_order_def)

lemma in_declared_order_valid:
  assumes "validValue s (Some v)" and distinct: "\<And>options least. s_kind s = Choices options least \<Longrightarrow> distinct (map o_value options)"
  shows "validValue s (Some (in_declared_order s v))"
proof (cases "\<exists>options least xs. s_kind s = Choices options least \<and> v = VList xs")
  case True
  then obtain options least xs where k: "s_kind s = Choices options least" "v = VList xs" by blast
  let ?ys = "filter (\<lambda>w. list_ex (same_value w) xs) (map (VStr \<circ> o_value) options)"
  from assms(1) k have xs: "otherwise least 0 \<le> of_nat (length xs)" "distinct xs" "list_all (offers options) xs"
    by (auto simp: validValue_def)
  have "distinct (map (VStr \<circ> o_value) options)"
    using distinct [OF k(1)] by (simp add: distinct_map inj_on_def)
  then have "distinct ?ys" by simp
  moreover have set: "set ?ys = set xs"
    using xs(3) by (force simp: list_all_iff list_ex_iff offers_Str)
  ultimately have "length ?ys = length xs"
    using xs(2) by (metis distinct_card)
  moreover have "list_all (offers options) ?ys"
    by (auto simp: list_all_iff offers_Str)
  ultimately show ?thesis
    using xs(1) \<open>distinct ?ys\<close> k by (simp add: validValue_def)
next
  case False
  then have "in_declared_order s v = v"
    by (auto simp: in_declared_order_def split: kind.splits val.splits)
  with assms(1) show ?thesis by simp
qed

lemma set_setting_Inr:
  assumes "set_setting d ext key v st = Inr st'"
  obtains s where "describe d key = Inr s" "validValue s (Some v)"
    "st' = (if value_of st ext s \<noteq> Some (in_declared_order s v) then setValue ext key (in_declared_order s v) st else st)"
  using assms by (auto simp: set_setting_def Let_def)

lemma values_changed_synced: "st_written st = st_values st \<Longrightarrow> fst (values_changed st) = st"
  by (simp add: values_changed_def Let_def)

lemma set_then_value:
  assumes "set_setting d ext key v st = Inr st'" and "st_written st = st_values st"
    and "describe d key = Inr s" and "s_key s = key"
    and "\<And>options least. s_kind s = Choices options least \<Longrightarrow> distinct (map o_value options)"
  shows "value_of (fst (values_changed st')) ext s = Some (in_declared_order s v)"
    and "other \<noteq> ext \<or> k \<noteq> key \<Longrightarrow> store_value (fst (values_changed st')) other k = store_value st other k"
proof -
  from assms(1) obtain s' where s': "describe d key = Inr s'" "validValue s' (Some v)"
    "st' = (if value_of st ext s' \<noteq> Some (in_declared_order s' v) then setValue ext key (in_declared_order s' v) st else st)"
    by (rule set_setting_Inr)
  with assms(3) have [simp]: "s' = s" by simp
  have valid: "validValue s (Some (in_declared_order s v))"
    using in_declared_order_valid [of s v] s'(2) assms(5) by simp
  show "value_of (fst (values_changed st')) ext s = Some (in_declared_order s v)"
  proof (cases "value_of st ext s = Some (in_declared_order s v)")
    case True
    with s'(3) show ?thesis by (simp add: values_changed_synced assms(2))
  next
    case False
    with s'(3) valid show ?thesis by (simp add: value_of_def Let_def setValue_read assms(4))
  qed
  show "store_value (fst (values_changed st')) other k = store_value st other k" if "other \<noteq> ext \<or> k \<noteq> key"
    using that by (auto simp: s'(3) setValue_read values_changed_synced assms(2))
qed

section \<open>Whether a setting shows\<close>

lemma shown_step:
  assumes "distinct (map s_key ss)" and "i < length ss"
  shows "s_depends (ss ! i) = None \<Longrightarrow> shown (described ss) ext st (s_key (ss ! i)) a = Some (Inr True)"
    and "s_depends (ss ! i) = Some (s_key (ss ! j)) \<Longrightarrow> j < length ss \<Longrightarrow>
      shown (described ss) ext st (s_key (ss ! i)) a =
        (if Some (s_key (ss ! j)) = a then Some (Inr (met (s_when (ss ! i)) (Some (VBool True))))
         else if met (s_when (ss ! i)) (value_of st ext (ss ! j)) then shown (described ss) ext st (s_key (ss ! j)) a
         else Some (Inr False))"
  using assms by (subst shown.simps; simp add: describe_nth get_setting_member)+

lemma depends_ok_nth: "depends_ok ss \<Longrightarrow> i < length ss \<Longrightarrow> s_depends (ss ! i) = None \<or>
    (\<exists>j < i. s_depends (ss ! i) = Some (s_key (ss ! j)) \<and> can_show (ss ! i) (ss ! j))"
  by (cases "s_depends (ss ! i)") (fastforce simp: depends_ok_def dest: spec [of _ i])+

lemma shown_defined:
  assumes "depends_ok ss" and "i < length ss"
  shows "\<exists>b. shown (described ss) ext st (s_key (ss ! i)) a = Some (Inr b)"
  using assms(2)
proof (induction i rule: less_induct)
  case (less i)
  have d: "distinct (map s_key ss)" using assms(1) by (simp add: depends_ok_def)
  from depends_ok_nth [OF assms(1) less.prems] show ?case
  proof (elim disjE exE conjE)
    fix j assume "j < i" "s_depends (ss ! i) = Some (s_key (ss ! j))"
    with less.IH [of j] less.prems show ?thesis by (auto simp: shown_step(2) [OF d less.prems])
  qed (auto simp: shown_step(1) [OF d less.prems])
qed

text \<open>It is decided by the values of the settings before it.\<close>

lemma shown_cong:
  assumes "depends_ok ss" and "i < length ss"
    and "\<And>j. j < i \<Longrightarrow> value_of st ext (ss ! j) = value_of st' ext (ss ! j)"
  shows "shown (described ss) ext st (s_key (ss ! i)) a = shown (described ss) ext st' (s_key (ss ! i)) a"
  using assms(2,3)
proof (induction i rule: less_induct)
  case (less i)
  have d: "distinct (map s_key ss)" using assms(1) by (simp add: depends_ok_def)
  from depends_ok_nth [OF assms(1) less.prems(1)] show ?case
  proof (elim disjE exE conjE)
    fix j assume j: "j < i" "s_depends (ss ! i) = Some (s_key (ss ! j))"
    with less.IH [of j] less.prems have
      "shown (described ss) ext st (s_key (ss ! j)) a = shown (described ss) ext st' (s_key (ss ! j)) a" by simp
    with j less.prems show ?thesis by (simp add: shown_step(2) [OF d less.prems(1) j(2)])
  qed (simp add: shown_step(1) [OF d less.prems(1)])
qed

definition store_with :: "string \<Rightarrow> table \<Rightarrow> store" where
  "store_with ext own = \<lparr>st_values = [(ext, own)], st_written = [(ext, own)], st_disabled = [], st_troubles = [], st_shortcuts = []\<rparr>"

lemma value_of_store_with: "value_of (store_with ext own) ext s =
    (let stored = map_of own (s_key s) in if stored \<noteq> None \<and> validValue s stored then stored else s_default s)"
  by (simp add: value_of_def store_value_def store_with_def)

lemma some_values_show:
  assumes "depends_ok ss" and "i < length ss"
  shows "\<exists>own. shown (described ss) ext (store_with ext own) (s_key (ss ! i)) None = Some (Inr True)"
  using assms(2)
proof (induction i rule: less_induct)
  case (less i)
  have d: "distinct (map s_key ss)" using assms(1) by (simp add: depends_ok_def)
  from depends_ok_nth [OF assms(1) less.prems] show ?case
  proof (elim disjE exE conjE)
    fix j assume j: "j < i" "s_depends (ss ! i) = Some (s_key (ss ! j))" "can_show (ss ! i) (ss ! j)"
    then obtain v where v: "validValue (ss ! j) (Some v)" "met (s_when (ss ! i)) (Some v)"
      by (auto simp: can_show_def)
    from less.IH [OF j(1)] j(1) less.prems obtain own where
      own: "shown (described ss) ext (store_with ext own) (s_key (ss ! j)) None = Some (Inr True)" by auto
    let ?own = "map_put (s_key (ss ! j)) v own"
    have "shown (described ss) ext (store_with ext ?own) (s_key (ss ! j)) None =
        shown (described ss) ext (store_with ext own) (s_key (ss ! j)) None"
      using d j(1) less.prems
      by (intro shown_cong [OF assms(1)]) (auto simp: value_of_store_with distinct_conv_nth)
    moreover have "value_of (store_with ext ?own) ext (ss ! j) = Some v"
      using v(1) by (simp add: value_of_store_with)
    ultimately have "shown (described ss) ext (store_with ext ?own) (s_key (ss ! i)) None = Some (Inr True)"
      using own v(2) j less.prems by (simp add: shown_step(2) [OF d less.prems j(2)])
    then show ?thesis by blast
  qed (simp add: shown_step(1) [OF d less.prems])
qed

section \<open>Telling the listeners\<close>

lemma snapshot_lookup: "map_of (snapshot d ext st) key = map_option (value_of st ext) (map_of d key)"
  by (induction d) (auto simp: snapshot_def)

lemma refresh_calls:
  assumes "distinct (map fst (v_described vs))" and "v_known vs = snapshot (v_described vs) (v_id vs) before"
  shows "(l, key) \<in> set (snd (refresh st vs)) \<longleftrightarrow>
    l \<in> set (v_listeners vs) \<and> (\<exists>s. (key, s) \<in> set (v_described vs) \<and> value_of before (v_id vs) s \<noteq> value_of st (v_id vs) s)"
proof -
  have now: "set (snapshot (v_described vs) (v_id vs) st) = {(k, value_of st (v_id vs) s) |k s. (k, s) \<in> set (v_described vs)}"
    by (auto simp: snapshot_def)
  have before: "otherwise (map_of (v_known vs) k) None = value_of before (v_id vs) s" if "(k, s) \<in> set (v_described vs)" for k s
    using that assms by (simp add: snapshot_lookup)
  have "(l, key) \<in> set (snd (refresh st vs)) \<longleftrightarrow> l \<in> set (v_listeners vs) \<and>
      (\<exists>v. (key, v) \<in> set (snapshot (v_described vs) (v_id vs) st) \<and> otherwise (map_of (v_known vs) key) None \<noteq> v)"
    by (auto simp: refresh_def Let_def split: if_splits)
  with before show ?thesis by (auto simp: now)
qed

end
