(* ===== verification/Extension_Shortcuts.thy ===== *)
theory Extension_Shortcuts
  imports Extension_Store
begin

text \<open>
  The shortcuts of an extension: reading an accelerator, and whether one may be claimed
  (\<^verbatim>\<open>kestrel/ui/src/portal/shortcuts/accelerators.ts\<close>), and what each shortcut is set to
  (\<^verbatim>\<open>extensions/runtime/shortcuts.ts\<close>).

  What the settings service, the apps and the keyboard say are arguments: the string keys of
  the schemas with their accelerators, the accelerators of apps, the answer of the compositor
  to a grab.
\<close>

section \<open>Accelerators\<close>

definition MODIFIERS :: "(string \<times> string) list" where
  "MODIFIERS = [(''ctrl'', ''ctrl''), (''control'', ''ctrl''), (''primary'', ''ctrl''), (''shift'', ''shift''),
    (''alt'', ''alt''), (''mod1'', ''alt''), (''super'', ''super''), (''mod4'', ''super''), (''logo'', ''super''),
    (''meta'', ''meta''), (''hyper'', ''hyper'')]"

definition TYPING_MODIFIERS :: "string list" where
  "TYPING_MODIFIERS = [''shift'', ''mod2'', ''lock'']"

definition EDITING_LETTERS :: "string list" where
  "EDITING_LETTERS = [''a'', ''c'', ''v'', ''x'', ''y'', ''z'']"

definition EDITING_KEYS :: "string list" where
  "EDITING_KEYS = [''left'', ''right'', ''up'', ''down'', ''home'', ''end'', ''page_up'', ''page_down'', ''prior'',
    ''next'', ''backspace'', ''delete'', ''insert'', ''tab'', ''return'', ''escape'', ''space'', ''f4'']"

text \<open>\<^verbatim>\<open>/^(f\d{1,2}|kp_.+)$/\<close>.\<close>

definition BARE_KEY :: "string \<Rightarrow> bool" where
  "BARE_KEY key \<longleftrightarrow>
    (case key of [] \<Rightarrow> False | c # cs \<Rightarrow> c = CHR ''f'' \<and> (length cs = 1 \<or> length cs = 2) \<and> only digits cs) \<or>
    (starts_with ''kp_'' key \<and> length key > 3)"

definition LABEL_ORDER :: "string list" where
  "LABEL_ORDER = [''super'', ''ctrl'', ''alt'', ''shift'', ''meta'', ''hyper'']"

text \<open>
  The names between \<open><\<close> and \<open>>\<close>, and what is left without them.  A \<open><\<close> that no \<open>>\<close> closes, or
  that one closes at once, is left.
\<close>

function modifiers_and_key :: "string \<Rightarrow> string list \<times> string" where
  "modifiers_and_key [] = ([], [])"
| "modifiers_and_key (c # cs) =
    (let name = takeWhile (\<lambda>d. d \<noteq> CHR ''>'') cs; rest = dropWhile (\<lambda>d. d \<noteq> CHR ''>'') cs in
     if c = CHR ''<'' \<and> name \<noteq> [] \<and> rest \<noteq> []
     then let (names, key) = modifiers_and_key (tl rest) in (name # names, key)
     else let (names, key) = modifiers_and_key cs in (names, c # key))"
  by pat_completeness auto
termination
proof (relation "measure length")
  fix c :: char and cs :: string and name rest :: string
  assume "rest = dropWhile (\<lambda>d. d \<noteq> CHR ''>'') cs"
  then have "length rest \<le> length cs" by (simp add: length_dropWhile_le)
  then show "(tl rest, c # cs) \<in> measure length" by simp
qed auto

definition modifier_name :: "string \<Rightarrow> string" where
  "modifier_name name = otherwise (map_of MODIFIERS (map to_lower name)) (map to_lower name)"

definition parse_accelerator :: "string \<Rightarrow> string list \<times> string" where
  "parse_accelerator accelerator = (let (names, key) = modifiers_and_key accelerator in
    (sort (remdups (map modifier_name names)), key))"

fun join :: "string \<Rightarrow> string list \<Rightarrow> string" where
  "join sep [] = []"
| "join sep [w] = w"
| "join sep (w # ws) = w @ sep @ join sep ws"

definition canonical :: "string \<Rightarrow> string" where
  "canonical accelerator = (let (modifiers, key) = parse_accelerator accelerator in
    join ''+'' (modifiers @ [map to_lower key]))"

definition accelerator_label :: "(string \<Rightarrow> string) \<Rightarrow> string \<Rightarrow> string" where
  "accelerator_label keyLabel accelerator = (let (modifiers, key) = parse_accelerator accelerator in
    join ''+'' (map keyLabel (filter (\<lambda>m. m \<in> set modifiers) LABEL_ORDER @ [key])))"

definition claimable :: "string \<Rightarrow> bool" where
  "claimable accelerator = (let (modifiers, key) = parse_accelerator accelerator;
      held = filter (\<lambda>m. m \<notin> set TYPING_MODIFIERS) modifiers; name = map to_lower key in
    if name = [] then False
    else if held = [] then BARE_KEY name
    else if held = [''ctrl''] \<and> name \<in> set EDITING_LETTERS then False
    else \<not> (list_all (\<lambda>m. m = ''ctrl'' \<or> m = ''alt'') held \<and> name \<in> set EDITING_KEYS))"

text \<open>
  The keys of the schemas are given by name, whether they hold a list of strings, and the list.
\<close>

definition reservedAccelerators :: "(string \<times> bool \<times> string list) list \<Rightarrow> string list \<Rightarrow> string list" where
  "reservedAccelerators keys custom =
    map canonical (filter (\<lambda>a. a \<noteq> [])
      (concat (map (\<lambda>(key, strings, accelerators). if key = ''custom-keybindings'' \<or> \<not> strings then [] else accelerators) keys)
       @ custom))"

record key_event =
  k_name :: "string option"
  k_control :: bool
  k_alt :: bool
  k_shift :: bool
  k_super :: bool

text \<open>
  \<^verbatim>\<open>/^(Shift|Control|Alt|Super|Meta|Hyper|ISO_Level3)_[LR]$|^Caps_Lock$/\<close>: a modifier by itself.
\<close>

definition modifier_key :: "string \<Rightarrow> bool" where
  "modifier_key name \<longleftrightarrow> name = ''Caps_Lock'' \<or>
    list_ex (\<lambda>m. name = m @ ''_L'' \<or> name = m @ ''_R'')
      [''Shift'', ''Control'', ''Alt'', ''Super'', ''Meta'', ''Hyper'', ''ISO_Level3'']"

definition from_event :: "key_event \<Rightarrow> string option" where
  "from_event e = (let name = (case k_name e of Some n \<Rightarrow> Some (if length n = 1 then map to_lower n else n) | None \<Rightarrow> None) in
    case name of
      None \<Rightarrow> None
    | Some n \<Rightarrow> if n = [] \<or> modifier_key n then None
        else Some (concat (map snd (filter fst
          [(k_control e, ''<Control>''), (k_alt e, ''<Alt>''), (k_shift e, ''<Shift>''), (k_super e, ''<Super>'')])) @ n))"

section \<open>What each shortcut is set to\<close>

definition accelerators_of :: "(string \<times> string list) list \<Rightarrow> string list" where
  "accelerators_of keys = concat (map snd keys)"

text \<open>The shortcuts in turn: a default is taken once it is given.\<close>

fun assign :: "(string \<times> string list) list \<Rightarrow> string list \<Rightarrow> shortcut list \<Rightarrow> (string \<times> string list) list" where
  "assign own taken [] = []"
| "assign own taken (c # cs) = (case map_of own (c_key c) of
      Some chosen \<Rightarrow> (c_key c, chosen) # assign own taken cs
    | None \<Rightarrow> (case c_default c of
        Some fallback \<Rightarrow>
          if fallback \<noteq> [] \<and> claimable fallback \<and> canonical fallback \<notin> set taken
          then (c_key c, [fallback]) # assign own (canonical fallback # taken) cs
          else (c_key c, []) # assign own taken cs
      | None \<Rightarrow> (c_key c, []) # assign own taken cs))"

definition taken_accelerators :: "string list \<Rightarrow> string list \<Rightarrow> string \<Rightarrow> (string \<times> (string \<times> string list) list) list \<Rightarrow> string list" where
  "taken_accelerators reserved app_shortcuts ext choices =
    reserved @ map canonical app_shortcuts
    @ map canonical (concat (map (accelerators_of \<circ> snd) (filter (\<lambda>e. fst e \<noteq> ext) choices)))
    @ map canonical (accelerators_of (otherwise (map_of choices ext) []))"

definition chosenShortcuts :: "string list \<Rightarrow> string list \<Rightarrow> string \<Rightarrow> manifest \<Rightarrow> store \<Rightarrow> (string \<times> string list) list" where
  "chosenShortcuts reserved app_shortcuts ext m st = (let choices = st_shortcuts st in
    from_entries (assign (otherwise (map_of choices ext) []) (taken_accelerators reserved app_shortcuts ext choices) (m_shortcuts m)))"

subsection \<open>Grabbing them\<close>

text \<open>
  The compositor answers a grab with an action, or \<open>None\<close> when someone else has the
  accelerator; \<open>answers\<close> gives its answer to each grab, in order.
\<close>

record grabs =
  b_grabs :: "(nat \<times> string) list"
  b_bound :: "(string \<times> string list) list"

fun grab_each :: "string \<Rightarrow> string list \<Rightarrow> nat option list \<Rightarrow> (nat \<times> string) list \<Rightarrow> string list \<times> nat option list \<times> (nat \<times> string) list" where
  "grab_each key [] answers grabs = ([], answers, grabs)"
| "grab_each key (a # as) answers grabs = (case answers of
      [] \<Rightarrow> ([], [], grabs)
    | None # rest \<Rightarrow> grab_each key as rest grabs
    | Some action # rest \<Rightarrow>
        (let (bound, rest', grabs') = grab_each key as rest (map_put action key grabs) in (a # bound, rest', grabs')))"

fun grab_all :: "(string \<times> string list) list \<Rightarrow> nat option list \<Rightarrow> (nat \<times> string) list \<Rightarrow> (string \<times> string list) list \<times> (nat \<times> string) list" where
  "grab_all [] answers grabs = ([], grabs)"
| "grab_all ((key, as) # wanted) answers grabs =
    (let (bound, rest, grabs') = grab_each key as answers grabs; (others, grabs'') = grab_all wanted rest grabs'
     in ((key, bound) # others, grabs''))"

text \<open>Releasing ungrabs every action; grabbing starts from none.\<close>

definition release_grabs :: "grabs \<Rightarrow> grabs \<times> nat list" where
  "release_grabs g = (g\<lparr>b_grabs := []\<rparr>, map fst (b_grabs g))"

definition grab_wanted :: "(string \<times> string list) list \<Rightarrow> nat option list \<Rightarrow> grabs \<Rightarrow> grabs \<times> nat list" where
  "grab_wanted wanted answers g = (let (g', released) = release_grabs g; (bound, grabs) = grab_all wanted answers (b_grabs g') in
    (\<lparr>b_grabs = grabs, b_bound = bound\<rparr>, released))"

definition activated :: "grabs \<Rightarrow> nat \<Rightarrow> string option" where
  "activated g action = map_of (b_grabs g) action"

section \<open>No default is given twice\<close>

lemma keys_assign: "map fst (assign own taken cs) = map c_key cs"
proof (induction cs arbitrary: taken)
  case (Cons d cs)
  then show ?case by (cases "map_of own (c_key d)"; cases "c_default d") auto
qed simp

lemma from_entries_distinct: "distinct (map fst es) \<Longrightarrow> from_entries es = es"
proof -
  have put: "map_put k v m = m @ [(k, v)]" if "k \<notin> fst ` set m" for k :: 'a and v :: 'b and m
    using that by (induction m) auto
  have "foldl (\<lambda>m (k, v). map_put k v m) d es = d @ es" if "distinct (map fst es)" "fst ` set d \<inter> fst ` set es = {}" for d es :: "('a \<times> 'b) list"
    using that
  proof (induction es arbitrary: d)
    case (Cons e es)
    obtain k v where e: "e = (k, v)" by (cases e)
    with Cons.prems have "k \<notin> fst ` set d" by auto
    moreover have "foldl (\<lambda>m (k, v). map_put k v m) (d @ [e]) es = (d @ [e]) @ es"
      using Cons.prems by (intro Cons.IH) auto
    ultimately show ?case by (simp add: e put)
  qed simp
  from this [of es "[]"] show "distinct (map fst es) \<Longrightarrow> from_entries es = es" by (simp add: from_entries_def)
qed

text \<open>The accelerators that \<open>assign\<close> gives to shortcuts without a choice, in order.\<close>

fun defaults_of :: "(string \<times> string list) list \<Rightarrow> (string \<times> string list) list \<Rightarrow> string list" where
  "defaults_of own [] = []"
| "defaults_of own ((key, as) # es) = (if map_of own key = None then as else []) @ defaults_of own es"

lemma defaults_assign_Cons: "defaults_of own (assign own taken (c # cs)) =
    (if map_of own (c_key c) = None \<and> (\<exists>a. c_default c = Some a \<and> a \<noteq> [] \<and> claimable a \<and> canonical a \<notin> set taken)
     then the (c_default c) # defaults_of own (assign own (canonical (the (c_default c)) # taken) cs)
     else defaults_of own (assign own taken cs))"
  by (cases "map_of own (c_key c)"; cases "c_default c") simp_all

lemma assign_defaults:
  "distinct (map canonical (defaults_of own (assign own taken cs))) \<and>
   (\<forall>a \<in> set (defaults_of own (assign own taken cs)). claimable a \<and> canonical a \<notin> set taken)"
proof (induction cs arbitrary: taken)
  case (Cons c cs)
  show ?case
  proof (cases "map_of own (c_key c) = None \<and> (\<exists>a. c_default c = Some a \<and> a \<noteq> [] \<and> claimable a \<and> canonical a \<notin> set taken)")
    case True
    then obtain a where a: "c_default c = Some a" "claimable a" "canonical a \<notin> set taken" by blast
    have eq: "defaults_of own (assign own taken (c # cs)) = a # defaults_of own (assign own (canonical a # taken) cs)"
      using True a(1) by (simp only: defaults_assign_Cons if_True) simp
    from Cons.IH [of "canonical a # taken"] a(2,3) show ?thesis unfolding eq by auto
  next
    case False
    then have "defaults_of own (assign own taken (c # cs)) = defaults_of own (assign own taken cs)"
      by (simp only: defaults_assign_Cons if_False)
    with Cons.IH show ?thesis by simp
  qed
qed simp

lemma assign_own: "c \<in> set cs \<Longrightarrow> map_of own (c_key c) = Some chosen \<Longrightarrow> (c_key c, chosen) \<in> set (assign own taken cs)"
proof (induction cs arbitrary: taken)
  case (Cons d cs)
  then show ?case by (cases "map_of own (c_key d)"; cases "c_default d") auto
qed simp

end
