(* ===== verification/Extension_Manager.thy ===== *)
theory Extension_Manager
  imports Extension_Settings Extension_Shortcuts
begin

text \<open>
  Finding the installed extensions (\<^verbatim>\<open>extensions/runtime/folders.ts\<close>), one instance of each with
  a valid manifest (\<^verbatim>\<open>runtime/instance.ts\<close>), and the manager that runs the ones that are on
  (\<^verbatim>\<open>runtime/manager.ts\<close>), with what the listing says of one (\<^verbatim>\<open>listing.ts\<close>).

  An instance and each of its runs (a \<^verbatim>\<open>Scope\<close>) have a number, since the code compares objects
  by identity when a load comes back.  Starting leaves a load under way; that it came back, or
  failed, is an event of its own, and so are the signals of the settings service: an operation
  that writes the disabled extensions or their problems leaves \<open>g_pending\<close> set until the handler
  of the signal runs.  What happens outside (disposing a scope, removing a folder, running a
  helper, telling the person) is a list of calls.  Folders, the TOML parser, the wording of a
  problem and the collation of names are parameters.
\<close>

section \<open>Installed extensions\<close>

record installed =
  x_id :: string
  x_path :: string
  x_manifest :: "manifest option"
  x_problem :: "string option"

text \<open>The manifest's file: its contents, or the message of the error of reading it.\<close>

definition read_folder :: "(string \<Rightarrow> string + table) \<Rightarrow> (problem \<Rightarrow> string) \<Rightarrow> string \<Rightarrow> string \<Rightarrow> string + string \<Rightarrow> installed" where
  "read_folder parse says folder ext file = (let path = folder @ ''/'' @ ext in (case file of
      Inl message \<Rightarrow> \<lparr>x_id = ext, x_path = path, x_manifest = None,
        x_problem = Some (''extension.toml can't be read: '' @ message)\<rparr>
    | Inr contents \<Rightarrow> (case parseManifest parse contents of
        Inl p \<Rightarrow> \<lparr>x_id = ext, x_path = path, x_manifest = None, x_problem = Some (says p)\<rparr>
      | Inr m \<Rightarrow>
          if m_id m \<noteq> ext then \<lparr>x_id = ext, x_path = path, x_manifest = None,
            x_problem = Some (''its manifest names '' @ m_id m @ '', not its folder's name'')\<rparr>
          else \<lparr>x_id = ext, x_path = path, x_manifest = Some m, x_problem = None\<rparr>)))"

definition discover :: "(string \<Rightarrow> string + table) \<Rightarrow> (problem \<Rightarrow> string) \<Rightarrow> string \<Rightarrow> (string \<Rightarrow> string + string) \<Rightarrow> string list \<Rightarrow> installed list" where
  "discover parse says folder files children = map (\<lambda>ext. read_folder parse says folder ext (files ext)) (sort children)"

lemma read_folder_id [simp]: "x_id (read_folder parse says folder ext file) = ext"
  by (auto simp: read_folder_def Let_def split: sum.split)

lemma read_folder_manifest: "x_manifest (read_folder parse says folder ext file) = Some m \<Longrightarrow>
    m_id m = ext \<and> (\<exists>contents. parseManifest parse contents = Inr m)"
  by (auto simp: read_folder_def Let_def split: sum.splits if_splits)

section \<open>Instances and the state of the manager\<close>

record run_instance =
  i_object :: nat
  i_installed :: installed
  i_manifest :: manifest
  i_values :: setting_values
  i_scope :: "nat option"

datatype call =
    Scope_disposed string nat
  | Stored_flushed string
  | Stored_forgotten string
  | Module_loaded string nat
  | Listeners_told
  | Setting_told string "(nat \<times> string) list"
  | Page_changed string
  | Notice string problem_kind
  | Helper_run string "string list"
  | Folder_removed string
  | Data_removed string
  | Secrets_forgotten string

record manager =
  g_store :: store
  g_installed :: "installed list"
  g_instances :: "(string \<times> run_instance) list"
  g_crashes :: crash_record
  g_next :: nat
  g_loading :: "(string \<times> nat \<times> nat) list"
  g_pending :: bool
  g_calls :: "call list"

definition say :: "call list \<Rightarrow> manager \<Rightarrow> manager" where
  "say calls g = g\<lparr>g_calls := g_calls g @ calls\<rparr>"

text \<open>Writing the disabled extensions and the problems: a write that changes them is signalled.\<close>

definition set_states :: "store \<Rightarrow> manager \<Rightarrow> manager" where
  "set_states st g = g\<lparr>g_store := st, g_pending := (g_pending g \<or>
     st_disabled st \<noteq> st_disabled (g_store g) \<or> st_troubles st \<noteq> st_troubles (g_store g))\<rparr>"

definition keep_off :: "string \<Rightarrow> trouble \<Rightarrow> manager \<Rightarrow> manager" where
  "keep_off ext t g = set_states (setDisabled ext True (setProblem ext (Some t) (g_store g))) g"

definition new_instance :: "installed \<Rightarrow> manifest \<Rightarrow> manager \<Rightarrow> run_instance" where
  "new_instance x m g = \<lparr>i_object = g_next g, i_installed = x, i_manifest = m,
     i_values = setting_values (x_id x) (m_settings m) (g_store g), i_scope = None\<rparr>"

text \<open>\<^verbatim>\<open>ExtensionInstance.stop\<close>, of the instance the map holds.\<close>

definition stop_instance :: "string \<Rightarrow> manager \<Rightarrow> manager" where
  "stop_instance ext g = (case map_of (g_instances g) ext of
      None \<Rightarrow> g
    | Some i \<Rightarrow> say ((case i_scope i of None \<Rightarrow> [] | Some n \<Rightarrow> [Scope_disposed ext n]) @ [Stored_flushed ext])
        (g\<lparr>g_instances := map_put ext (i\<lparr>i_scope := None\<rparr>) (g_instances g)\<rparr>))"

definition drop_instance :: "string \<Rightarrow> manager \<Rightarrow> manager" where
  "drop_instance ext g = (let g' = stop_instance ext g in g'\<lparr>g_instances := map_drop ext (g_instances g')\<rparr>)"

definition replace_instance :: "installed \<Rightarrow> manifest \<Rightarrow> manager \<Rightarrow> manager" where
  "replace_instance x m g = (let g' = drop_instance (x_id x) g in
     g'\<lparr>g_instances := map_put (x_id x) (new_instance x m g') (g_instances g'), g_next := Suc (g_next g')\<rparr>)"

section \<open>Running the extensions that are on\<close>

definition start_instance :: "string \<Rightarrow> manager \<Rightarrow> manager" where
  "start_instance ext g = (case map_of (g_instances g) ext of
      None \<Rightarrow> g
    | Some i \<Rightarrow> if i_scope i \<noteq> None then g
        else say [Module_loaded ext (g_next g)]
          (g\<lparr>g_instances := map_put ext (i\<lparr>i_scope := Some (g_next g)\<rparr>) (g_instances g),
             g_loading := (ext, i_object i, g_next g) # g_loading g, g_next := Suc (g_next g)\<rparr>))"

definition sync_instance :: "string list \<Rightarrow> string \<Rightarrow> manager \<Rightarrow> manager" where
  "sync_instance disabled ext g = (case map_of (g_instances g) ext of
      None \<Rightarrow> g
    | Some i \<Rightarrow>
        if ext \<notin> set disabled \<and> i_scope i = None then start_instance ext g
        else if ext \<in> set disabled \<and> i_scope i \<noteq> None then stop_instance ext g
        else g)"

definition running :: "manager \<Rightarrow> string list" where
  "running g = map fst (filter (\<lambda>(ext, i). i_scope i \<noteq> None) (g_instances g))"

definition sync :: "manager \<Rightarrow> manager" where
  "sync g = (let g' = fold (sync_instance (st_disabled (g_store g))) (map fst (g_instances g)) g in
     say [Listeners_told] (g'\<lparr>g_crashes := note_running (running g') (g_crashes g')\<rparr>))"

text \<open>The handler of the signal that the disabled extensions or their problems changed.\<close>

definition states_changed :: "manager \<Rightarrow> manager" where
  "states_changed g = sync (g\<lparr>g_pending := False\<rparr>)"

definition failed :: "string \<Rightarrow> string \<Rightarrow> manager \<Rightarrow> manager" where
  "failed ext message g = say [Notice ext Error_problem]
     (keep_off ext \<lparr>t_kind = Error_problem, t_detail = message\<rparr> (stop_instance ext g))"

text \<open>
  A load came back.  When it failed, its run is stopped if it is still the one under way, and
  the extension is turned off if its instance is still there.
\<close>

definition loaded :: "string \<Rightarrow> nat \<Rightarrow> nat \<Rightarrow> manager \<Rightarrow> manager" where
  "loaded ext obj scope g = say [Listeners_told] (g\<lparr>g_loading := removeAll (ext, obj, scope) (g_loading g)\<rparr>)"

definition load_failed :: "string \<Rightarrow> nat \<Rightarrow> nat \<Rightarrow> string \<Rightarrow> manager \<Rightarrow> manager" where
  "load_failed ext obj scope message g =
    (let g1 = g\<lparr>g_loading := removeAll (ext, obj, scope) (g_loading g)\<rparr> in
     case map_of (g_instances g1) ext of
       None \<Rightarrow> g1
     | Some i \<Rightarrow>
         if i_object i \<noteq> obj then g1
         else failed ext message (if i_scope i = Some scope then stop_instance ext g1 else g1))"

text \<open>A callback of the extension threw while its run was under way (\<^verbatim>\<open>Scope.fail\<close>).\<close>

definition run_failed :: "string \<Rightarrow> nat \<Rightarrow> string \<Rightarrow> manager \<Rightarrow> manager" where
  "run_failed ext scope message g = (case map_of (g_instances g) ext of
      None \<Rightarrow> g
    | Some i \<Rightarrow> if i_scope i = Some scope then failed ext message g else g)"

section \<open>Keeping up with what is installed\<close>

definition rescan_instance :: "installed \<Rightarrow> manager \<Rightarrow> manager" where
  "rescan_instance x g = (case x_manifest x of
      None \<Rightarrow> g
    | Some m \<Rightarrow> (case map_of (g_instances g) (x_id x) of
        None \<Rightarrow> replace_instance x m g
      | Some i \<Rightarrow>
          if x_path (i_installed i) = x_path x \<and> m_version (i_manifest i) = m_version m then g
          else replace_instance x m g))"

definition rescan :: "installed list \<Rightarrow> manager \<Rightarrow> manager" where
  "rescan found g = (let
      g1 = g\<lparr>g_installed := found\<rparr>;
      g2 = fold drop_instance (filter (\<lambda>ext. ext \<notin> x_id ` set found) (map fst (g_instances g1))) g1
    in sync (fold rescan_instance found g2))"

definition reload :: "(string \<Rightarrow> string) \<Rightarrow> string \<Rightarrow> installed option \<Rightarrow> manager \<Rightarrow> manager" where
  "reload collation ext found g = (let
      fixed = (case (Option.bind found x_manifest, map_of (g_instances g) ext) of
          (Some m, Some i) \<Rightarrow> map_of (st_troubles (g_store g)) ext \<noteq> None \<and> m_version (i_manifest i) \<noteq> m_version m
        | _ \<Rightarrow> False);
      g1 = (if fixed then set_states (setDisabled ext False (setProblem ext None (g_store g))) g else g);
      g2 = g1\<lparr>g_installed := sort_key (\<lambda>x. collation (x_id x))
        (filter (\<lambda>x. x_id x \<noteq> ext) (g_installed g1) @ (case found of None \<Rightarrow> [] | Some x \<Rightarrow> [x]))\<rparr>
    in sync (case List.find (\<lambda>x. x_id x = ext) (g_installed g2) of
        None \<Rightarrow> drop_instance ext g2
      | Some x \<Rightarrow> (case x_manifest x of Some m \<Rightarrow> replace_instance x m g2 | None \<Rightarrow> drop_instance ext g2)))"

definition restart_all :: "manager \<Rightarrow> manager" where
  "restart_all g = sync (fold (\<lambda>x. case x_manifest x of None \<Rightarrow> (\<lambda>g. g) | Some m \<Rightarrow> replace_instance x m) (g_installed g) g)"

section \<open>What the person asks for\<close>

definition enable :: "string \<Rightarrow> manager \<Rightarrow> manager" where
  "enable ext g = set_states (setDisabled ext False (setProblem ext None (g_store g))) g"

definition undo_elsewhere :: "string \<Rightarrow> manager \<Rightarrow> manager" where
  "undo_elsewhere ext g = (case List.find (\<lambda>x. x_id x = ext) (g_installed g) of
      None \<Rightarrow> g
    | Some x \<Rightarrow> (case Option.bind (x_manifest x) m_helper of
        None \<Rightarrow> g
      | Some h \<Rightarrow> (case h_turned_off h of
          None \<Rightarrow> g
        | Some args \<Rightarrow> say [Helper_run (x_path x @ ''/'' @ h_path h) args] g)))"

definition disable :: "string \<Rightarrow> manager \<Rightarrow> manager" where
  "disable ext g = undo_elsewhere ext (set_states (setDisabled ext True (g_store g)) g)"

text \<open>
  Erasing goes on only when the folders could be removed; \<open>None\<close> is the error of removing one.
  A data folder that is not there is left.
\<close>

definition forget :: "string \<Rightarrow> manager \<Rightarrow> manager" where
  "forget ext g = set_states (setDisabled ext False (setProblem ext None (forgetShortcuts ext (forgetValues ext (g_store g))))) g"

definition erase :: "bool \<Rightarrow> bool \<Rightarrow> installed \<Rightarrow> manager \<Rightarrow> manager \<times> bool" where
  "erase removable has_data x g = (let
      g1 = (if map_of (g_instances g) (x_id x) = None then g else say [Stored_forgotten (x_id x)] g);
      g2 = drop_instance (x_id x) g1
    in if \<not> removable then (g2, False)
       else (forget (x_id x) (say ([Folder_removed (x_path x)] @ (if has_data then [Data_removed (x_id x)] else [])
              @ [Secrets_forgotten (x_id x)]) g2), True))"

definition remove_extension :: "bool \<Rightarrow> bool \<Rightarrow> installed list \<Rightarrow> string \<Rightarrow> manager \<Rightarrow> manager" where
  "remove_extension removable has_data found ext g = (case List.find (\<lambda>x. x_id x = ext) (g_installed g) of
      None \<Rightarrow> g
    | Some x \<Rightarrow> (let (g', erased) = erase removable has_data x (undo_elsewhere ext g) in
        if erased then rescan found g' else g'))"

datatype manager_error = Not_installed string | Not_its_shortcut string string | Value_error value_error

definition installed_instance :: "string \<Rightarrow> manager \<Rightarrow> manager_error + run_instance" where
  "installed_instance ext g = (case map_of (g_instances g) ext of None \<Rightarrow> Inl (Not_installed ext) | Some i \<Rightarrow> Inr i)"

definition set_extension_setting :: "string \<Rightarrow> string \<Rightarrow> val \<Rightarrow> manager \<Rightarrow> manager_error + manager" where
  "set_extension_setting ext key v g = also_then (installed_instance ext g) (\<lambda>i.
     case set_setting (v_described (i_values i)) ext key v (g_store g) of
       Inl e \<Rightarrow> Inl (Value_error e)
     | Inr st \<Rightarrow> Inr (g\<lparr>g_store := st\<rparr>))"

definition set_extension_shortcut :: "string \<Rightarrow> string \<Rightarrow> string list option \<Rightarrow> manager \<Rightarrow> manager_error + manager" where
  "set_extension_shortcut ext key accelerators g = also_then (installed_instance ext g) (\<lambda>i.
     if key \<in> c_key ` set (m_shortcuts (i_manifest i))
     then Inr (g\<lparr>g_store := setShortcut ext key accelerators (g_store g)\<rparr>)
     else Inl (Not_its_shortcut key ext))"

text \<open>The handler of the signal that values changed: each instance looks at its own again.\<close>

definition settings_changed :: "string \<Rightarrow> manager \<Rightarrow> manager" where
  "settings_changed ext g = (case map_of (g_instances g) ext of
      None \<Rightarrow> say [Listeners_told] g
    | Some i \<Rightarrow> (let (vs, told) = refresh (g_store g) (i_values i) in
        say [Setting_told ext told, Page_changed ext, Listeners_told]
          (g\<lparr>g_instances := map_put ext (i\<lparr>i_values := vs\<rparr>) (g_instances g)\<rparr>)))"

definition extension_values_changed :: "manager \<Rightarrow> manager" where
  "extension_values_changed g = (let (st, changed) = values_changed (g_store g) in
     fold settings_changed changed (g\<lparr>g_store := st\<rparr>))"

section \<open>Coming up and going down\<close>

definition boot :: "bool \<Rightarrow> crash_record option \<Rightarrow> store \<Rightarrow> installed list \<Rightarrow> manager" where
  "boot restarted_after_crash file st found = (let
      crashes = crash_guard restarted_after_crash file;
      g0 = \<lparr>g_store = st\<lparr>st_values := st_written st\<rparr>, g_installed = [], g_instances = [], g_crashes = crashes, g_next = 0,
        g_loading = [], g_pending = False, g_calls = []\<rparr>;
      g1 = fold (\<lambda>ext. keep_off ext \<lparr>t_kind = Crash_problem, t_detail = []\<rparr>) (culprits crashes) g0
    in say (map (\<lambda>ext. Notice ext Crash_problem) (culprits crashes)) (rescan found (g1\<lparr>g_pending := False\<rparr>)))"

definition shutdown :: "manager \<Rightarrow> manager" where
  "shutdown g = fold drop_instance (map fst (g_instances g)) g"

section \<open>What the listing says\<close>

datatype listed_state = Invalid | Running | Crashed | Failed | Off

definition listed_state :: "installed \<Rightarrow> manager \<Rightarrow> listed_state" where
  "listed_state x g = (case map_of (g_instances g) (x_id x) of
      None \<Rightarrow> Invalid
    | Some i \<Rightarrow>
        if i_scope i \<noteq> None then Running
        else (case map_of (st_troubles (g_store g)) (x_id x) of
            Some t \<Rightarrow> if t_kind t = Crash_problem then Crashed else Failed
          | None \<Rightarrow> Off))"

section \<open>The manager as a machine\<close>

text \<open>What can happen: what the person asks for, what comes back from a run, and the signals.\<close>

datatype event =
    Rescan "installed list"
  | Reload string "installed option"
  | Enable string
  | Disable string
  | Remove bool bool "installed list" string
  | Set_setting string string val
  | Set_shortcut string string "string list option"
  | Loaded string nat nat
  | Load_failed string nat nat string
  | Run_failed string nat string
  | States_changed
  | Values_changed
  | Shortcuts_changed
  | Locale_changed
  | Outside store

text \<open>
  Folders have different names, and what is found of one is what \<open>read_folder\<close> says of it.  From
  outside, another program can write the settings.
\<close>

definition found_ok :: "installed list \<Rightarrow> bool" where
  "found_ok found \<longleftrightarrow> distinct (map x_id found) \<and> (\<forall>x \<in> set found. \<forall>m. x_manifest x = Some m \<longrightarrow> m_id m = x_id x \<and> manifest_ok m)"

fun can_occur :: "event \<Rightarrow> manager \<Rightarrow> bool" where
  "can_occur (Rescan found) g = found_ok found"
| "can_occur (Reload ext (Some x)) g = (x_id x = ext \<and> found_ok [x])"
| "can_occur (Remove removable has_data found ext) g = found_ok found"
| "can_occur (Loaded ext obj scope) g = ((ext, obj, scope) \<in> set (g_loading g))"
| "can_occur (Load_failed ext obj scope message) g = ((ext, obj, scope) \<in> set (g_loading g))"
| "can_occur (Outside st) g = (st_values st = st_values (g_store g))"
| "can_occur _ g = True"

definition or_same :: "'e + manager \<Rightarrow> manager \<Rightarrow> manager" where
  "or_same r g = (case r of Inl _ \<Rightarrow> g | Inr g' \<Rightarrow> g')"

fun occur :: "(string \<Rightarrow> string) \<Rightarrow> event \<Rightarrow> manager \<Rightarrow> manager" where
  "occur collation (Rescan found) g = rescan found g"
| "occur collation (Reload ext found) g = reload collation ext found g"
| "occur collation (Enable ext) g = enable ext g"
| "occur collation (Disable ext) g = disable ext g"
| "occur collation (Remove removable has_data found ext) g = remove_extension removable has_data found ext g"
| "occur collation (Set_setting ext key v) g = or_same (set_extension_setting ext key v g) g"
| "occur collation (Set_shortcut ext key accelerators) g = or_same (set_extension_shortcut ext key accelerators g) g"
| "occur collation (Loaded ext obj scope) g = loaded ext obj scope g"
| "occur collation (Load_failed ext obj scope message) g = load_failed ext obj scope message g"
| "occur collation (Run_failed ext scope message) g = run_failed ext scope message g"
| "occur collation States_changed g = states_changed g"
| "occur collation Values_changed g = extension_values_changed g"
| "occur collation Shortcuts_changed g = say [Listeners_told] g"
| "occur collation Locale_changed g = restart_all g"
| "occur collation (Outside st) g = set_states st g"

inductive manager_reach :: "(string \<Rightarrow> string) \<Rightarrow> manager \<Rightarrow> bool" for collation where
  booted: "found_ok found \<Longrightarrow> manager_reach collation (boot restarted file st found)"
| occurred: "manager_reach collation g \<Longrightarrow> can_occur e g \<Longrightarrow> manager_reach collation (occur collation e g)"

end
