(* ===== verification/Extension_Running.thy ===== *)
theory Extension_Running
  imports Extension_Manager
begin

text \<open>
  What holds of the manager in every state it reaches: each instance belongs to an installed
  extension and has its manifest, every running extension is named in the record a crash is
  blamed by, and once the signals of the settings have been handled the extensions that run are
  the ones that are on.
\<close>

section \<open>What each operation does to the instances\<close>

abbreviation inst :: "manager \<Rightarrow> string \<Rightarrow> run_instance option" where
  "inst g \<equiv> map_of (g_instances g)"

definition one_each :: "manager \<Rightarrow> bool" where
  "one_each g \<longleftrightarrow> distinct (map fst (g_instances g))"

lemma say_rest [simp]:
  "g_store (say cs g) = g_store g" "g_installed (say cs g) = g_installed g" "g_instances (say cs g) = g_instances g"
  "g_crashes (say cs g) = g_crashes g" "g_pending (say cs g) = g_pending g" "g_loading (say cs g) = g_loading g"
  "one_each (say cs g) = one_each g"
  by (simp_all add: say_def one_each_def)

lemma set_states_rest [simp]:
  "g_store (set_states st g) = st" "g_installed (set_states st g) = g_installed g" "g_instances (set_states st g) = g_instances g"
  "g_crashes (set_states st g) = g_crashes g" "one_each (set_states st g) = one_each g"
  by (simp_all add: set_states_def one_each_def)

lemma stop_rest [simp]:
  "g_store (stop_instance ext g) = g_store g" "g_installed (stop_instance ext g) = g_installed g"
  "g_crashes (stop_instance ext g) = g_crashes g" "g_pending (stop_instance ext g) = g_pending g"
  by (simp_all add: stop_instance_def split: option.split)

lemma inst_stop [simp]: "inst (stop_instance ext g) = (inst g)(ext := map_option (\<lambda>i. i\<lparr>i_scope := None\<rparr>) (inst g ext))"
  by (auto simp: stop_instance_def fun_eq_iff split: option.split)

lemma one_each_stop [simp]: "one_each g \<Longrightarrow> one_each (stop_instance ext g)"
  by (auto simp: stop_instance_def one_each_def distinct_put split: option.split)

lemma drop_rest [simp]:
  "g_store (drop_instance ext g) = g_store g" "g_installed (drop_instance ext g) = g_installed g"
  "g_crashes (drop_instance ext g) = g_crashes g" "g_pending (drop_instance ext g) = g_pending g"
  by (simp_all add: drop_instance_def Let_def)

lemma inst_drop [simp]: "inst (drop_instance ext g) = (inst g)(ext := None)"
  by (auto simp: drop_instance_def Let_def)

lemma one_each_drop [simp]: "one_each g \<Longrightarrow> one_each (drop_instance ext g)"
  using one_each_stop [of g ext] by (simp add: drop_instance_def Let_def one_each_def distinct_drop)

lemma replace_rest [simp]:
  "g_store (replace_instance x m g) = g_store g" "g_installed (replace_instance x m g) = g_installed g"
  "g_crashes (replace_instance x m g) = g_crashes g" "g_pending (replace_instance x m g) = g_pending g"
  by (simp_all add: replace_instance_def Let_def)

lemma inst_replace [simp]: "inst (replace_instance x m g) = (inst g)(x_id x \<mapsto> new_instance x m (drop_instance (x_id x) g))"
  by (auto simp: replace_instance_def Let_def)

lemma one_each_replace [simp]: "one_each g \<Longrightarrow> one_each (replace_instance x m g)"
  using one_each_drop [of g "x_id x"] by (simp add: replace_instance_def Let_def one_each_def distinct_put)

lemma start_rest [simp]:
  "g_store (start_instance ext g) = g_store g" "g_installed (start_instance ext g) = g_installed g"
  "g_crashes (start_instance ext g) = g_crashes g" "g_pending (start_instance ext g) = g_pending g"
  by (simp_all add: start_instance_def split: option.split)

lemma one_each_start [simp]: "one_each g \<Longrightarrow> one_each (start_instance ext g)"
  by (auto simp: start_instance_def one_each_def say_def distinct_put split: option.split)

lemma sync_instance_rest [simp]:
  "g_store (sync_instance off ext g) = g_store g" "g_installed (sync_instance off ext g) = g_installed g"
  "g_crashes (sync_instance off ext g) = g_crashes g" "g_pending (sync_instance off ext g) = g_pending g"
  by (simp_all add: sync_instance_def split: option.split)

lemma one_each_sync_instance [simp]: "one_each g \<Longrightarrow> one_each (sync_instance off ext g)"
  by (simp add: sync_instance_def split: option.split)

text \<open>An instance differs from another at most in its run.\<close>

definition same_but_run :: "run_instance \<Rightarrow> run_instance \<Rightarrow> bool" where
  "same_but_run i j \<longleftrightarrow> (\<exists>s. j = i\<lparr>i_scope := s\<rparr>)"

lemma same_but_run_refl [simp]: "same_but_run i i"
  by (auto simp: same_but_run_def intro: exI [of _ "i_scope i"])

lemma same_but_run_upd [simp]: "same_but_run i (i\<lparr>i_scope := s\<rparr>)"
  by (auto simp: same_but_run_def)

lemma same_but_run_rest: "same_but_run i j \<Longrightarrow>
    i_installed j = i_installed i \<and> i_manifest j = i_manifest i \<and> i_values j = i_values i \<and> i_object j = i_object i"
  by (auto simp: same_but_run_def)

lemma sync_instance_other [simp]: "k \<noteq> ext \<Longrightarrow> inst (sync_instance off ext g) k = inst g k"
  by (auto simp: sync_instance_def start_instance_def split: option.split)

lemma sync_instance_self: "inst g ext = Some i \<Longrightarrow>
    \<exists>j. inst (sync_instance off ext g) ext = Some j \<and> same_but_run i j \<and> (i_scope j \<noteq> None \<longleftrightarrow> ext \<notin> set off)"
  by (auto simp: sync_instance_def start_instance_def)

lemma fold_sync_rest [simp]:
  "g_store (fold (sync_instance off) es g) = g_store g" "g_installed (fold (sync_instance off) es g) = g_installed g"
  "g_crashes (fold (sync_instance off) es g) = g_crashes g" "g_pending (fold (sync_instance off) es g) = g_pending g"
  by (induction es arbitrary: g) auto

lemma fold_sync_other: "k \<notin> set es \<Longrightarrow> inst (fold (sync_instance off) es g) k = inst g k"
  by (induction es arbitrary: g) auto

lemma one_each_fold_sync: "one_each g \<Longrightarrow> one_each (fold (sync_instance off) es g)"
  by (induction es arbitrary: g) auto

lemma fold_sync_self:
  assumes "inst g k = Some i" "k \<in> set es" "distinct es"
  shows "\<exists>j. inst (fold (sync_instance off) es g) k = Some j \<and> same_but_run i j \<and> (i_scope j \<noteq> None \<longleftrightarrow> k \<notin> set off)"
  using assms
proof (induction es arbitrary: g)
  case (Cons e es)
  show ?case
  proof (cases "e = k")
    case True
    with Cons.prems sync_instance_self [of g k i off] show ?thesis
      by (auto simp: fold_sync_other)
  next
    case False
    with Cons.prems show ?thesis using Cons.IH [of "sync_instance off e g"] by auto
  qed
qed simp

lemma running_iff: "one_each g \<Longrightarrow> k \<in> set (running g) \<longleftrightarrow> (\<exists>i. inst g k = Some i \<and> i_scope i \<noteq> None)"
  unfolding one_each_def running_def
  by (force simp: map_of_eq_Some_iff image_iff)

lemma sync_rest [simp]:
  "g_store (sync g) = g_store g" "g_installed (sync g) = g_installed g" "g_pending (sync g) = g_pending g"
  by (simp_all add: sync_def Let_def)

lemma one_each_sync [simp]: "one_each g \<Longrightarrow> one_each (sync g)"
  using one_each_fold_sync [of g] by (simp add: sync_def Let_def one_each_def)

lemma inst_sync:
  assumes "one_each g"
  shows "inst g k = None \<Longrightarrow> inst (sync g) k = None"
    and "inst g k = Some i \<Longrightarrow> \<exists>j. inst (sync g) k = Some j \<and> same_but_run i j \<and>
      (i_scope j \<noteq> None \<longleftrightarrow> k \<notin> set (st_disabled (g_store g)))"
proof -
  show "inst (sync g) k = None" if "inst g k = None"
    using that by (simp add: sync_def Let_def fold_sync_other map_of_eq_None_iff)
  show "\<exists>j. inst (sync g) k = Some j \<and> same_but_run i j \<and> (i_scope j \<noteq> None \<longleftrightarrow> k \<notin> set (st_disabled (g_store g)))"
    if "inst g k = Some i"
  proof -
    have "k \<in> set (map fst (g_instances g))" using map_of_SomeD [OF that] by force
    from fold_sync_self [OF that this, of "st_disabled (g_store g)"] assms show ?thesis
      by (simp add: sync_def Let_def one_each_def)
  qed
qed

lemma sync_blames: "set (running (sync g)) \<subseteq> set (r_running (g_crashes (sync g)))"
  by (simp add: sync_def Let_def note_running_def running_def)

section \<open>The invariant\<close>

definition instance_ok :: "string \<Rightarrow> run_instance \<Rightarrow> bool" where
  "instance_ok k i \<longleftrightarrow> x_id (i_installed i) = k \<and> m_id (i_manifest i) = k \<and> manifest_ok (i_manifest i) \<and>
    v_id (i_values i) = k \<and> v_described (i_values i) = described (m_settings (i_manifest i))"

definition fits :: "installed \<Rightarrow> run_instance \<Rightarrow> bool" where
  "fits x i \<longleftrightarrow> (\<forall>m. x_manifest x = Some m \<longrightarrow> x_path (i_installed i) = x_path x \<and> m_version (i_manifest i) = m_version m)"

definition instances_ok :: "manager \<Rightarrow> bool" where
  "instances_ok g \<longleftrightarrow> one_each g \<and> (\<forall>k i. inst g k = Some i \<longrightarrow> instance_ok k i)"

definition in_place :: "manager \<Rightarrow> bool" where
  "in_place g \<longleftrightarrow> (\<forall>k i. inst g k = Some i \<longrightarrow> (\<exists>x \<in> set (g_installed g). x_id x = k \<and> fits x i))"

definition settled :: "manager \<Rightarrow> bool" where
  "settled g \<longleftrightarrow> (\<forall>k i. inst g k = Some i \<longrightarrow> (i_scope i \<noteq> None \<longleftrightarrow> k \<notin> set (st_disabled (g_store g))))"

definition blamable :: "manager \<Rightarrow> bool" where
  "blamable g \<longleftrightarrow> set (running g) \<subseteq> set (r_running (g_crashes g))"

definition manager_ok :: "manager \<Rightarrow> bool" where
  "manager_ok g \<longleftrightarrow> found_ok (g_installed g) \<and> instances_ok g \<and> in_place g \<and> blamable g \<and> (\<not> g_pending g \<longrightarrow> settled g)"

lemma same_but_run_ok: "same_but_run i j \<Longrightarrow> instance_ok k j = instance_ok k i \<and> fits x j = fits x i"
  by (simp add: instance_ok_def fits_def same_but_run_rest)

lemma sync_ok:
  assumes "found_ok (g_installed g)" "instances_ok g" "in_place g"
  shows "manager_ok (sync g) \<and> settled (sync g)"
proof -
  have one: "one_each g" using assms(2) by (simp add: instances_ok_def)
  have was: "\<exists>i. inst g k = Some i \<and> same_but_run i j \<and> (i_scope j \<noteq> None \<longleftrightarrow> k \<notin> set (st_disabled (g_store g)))"
    if "inst (sync g) k = Some j" for k j
    using that inst_sync [OF one, of k] by (cases "inst g k") auto
  have "instances_ok (sync g)" "in_place (sync g)" "settled (sync g)"
    using assms(2,3) one
    by (auto simp: instances_ok_def in_place_def settled_def dest!: was simp: same_but_run_ok)
  moreover have "blamable (sync g)" by (simp add: blamable_def sync_blames)
  ultimately show ?thesis using assms(1) by (simp add: manager_ok_def)
qed

text \<open>Operations that start nothing and leave the record of crashes keep every running extension named.\<close>

lemma blamable_fewer:
  assumes "blamable g" "instances_ok g" "one_each g'" "g_crashes g' = g_crashes g"
    and "\<And>k j. inst g' k = Some j \<Longrightarrow> i_scope j \<noteq> None \<Longrightarrow> \<exists>i. inst g k = Some i \<and> i_scope i \<noteq> None"
  shows "blamable g'"
  using assms by (auto simp: blamable_def instances_ok_def running_iff subset_iff)

section \<open>Keeping the invariant\<close>

lemma instances_drop: "instances_ok g \<Longrightarrow> instances_ok (drop_instance ext g)"
  unfolding instances_ok_def by simp

lemma new_instance_ok: "x_manifest x = Some m \<Longrightarrow> found_ok found \<Longrightarrow> x \<in> set found \<Longrightarrow> instance_ok (x_id x) (new_instance x m g)"
  by (auto simp: instance_ok_def new_instance_def setting_values_def found_ok_def)

lemma new_instance_fits [simp]: "x_manifest x = Some m \<Longrightarrow> fits x (new_instance x m g)"
  by (simp add: fits_def new_instance_def)

lemma instances_replace: "instances_ok g \<Longrightarrow> x_manifest x = Some m \<Longrightarrow> found_ok found \<Longrightarrow> x \<in> set found \<Longrightarrow>
    instances_ok (replace_instance x m g)"
  unfolding instances_ok_def by (simp add: new_instance_ok)

lemma parts_say [simp]:
  "instances_ok (say cs g) = instances_ok g" "in_place (say cs g) = in_place g" "settled (say cs g) = settled g"
  "blamable (say cs g) = blamable g" "running (say cs g) = running g"
  by (simp_all add: instances_ok_def in_place_def settled_def blamable_def running_def)

lemma parts_set_states [simp]:
  "instances_ok (set_states st g) = instances_ok g" "in_place (set_states st g) = in_place g"
  "running (set_states st g) = running g" "blamable (set_states st g) = blamable g"
  by (simp_all add: instances_ok_def in_place_def blamable_def running_def)

lemma parts_store [simp]:
  "instances_ok (g\<lparr>g_store := st\<rparr>) = instances_ok g" "in_place (g\<lparr>g_store := st\<rparr>) = in_place g"
  "blamable (g\<lparr>g_store := st\<rparr>) = blamable g"
  by (simp_all add: instances_ok_def in_place_def blamable_def running_def one_each_def)

lemma parts_loading [simp]:
  "instances_ok (g\<lparr>g_loading := l\<rparr>) = instances_ok g" "in_place (g\<lparr>g_loading := l\<rparr>) = in_place g"
  "settled (g\<lparr>g_loading := l\<rparr>) = settled g" "blamable (g\<lparr>g_loading := l\<rparr>) = blamable g"
  by (simp_all add: instances_ok_def in_place_def settled_def blamable_def running_def one_each_def)

lemma parts_pending [simp]:
  "instances_ok (g\<lparr>g_pending := p\<rparr>) = instances_ok g" "in_place (g\<lparr>g_pending := p\<rparr>) = in_place g"
  by (simp_all add: instances_ok_def in_place_def one_each_def)

lemma manager_ok_say [simp]: "manager_ok (say cs g) = manager_ok g"
  by (simp add: manager_ok_def)

lemma manager_ok_loading [simp]: "manager_ok (g\<lparr>g_loading := l\<rparr>) = manager_ok g"
  by (simp add: manager_ok_def)

lemma manager_okD: "manager_ok g \<Longrightarrow> instances_ok g" "manager_ok g \<Longrightarrow> in_place g" "manager_ok g \<Longrightarrow> blamable g"
  "manager_ok g \<Longrightarrow> found_ok (g_installed g)" "manager_ok g \<Longrightarrow> \<not> g_pending g \<Longrightarrow> settled g"
  by (simp_all add: manager_ok_def)

text \<open>Writing the settings, with the signal.\<close>

lemma manager_ok_set_states:
  assumes "found_ok (g_installed g)" "instances_ok g" "in_place g" "blamable g"
    and "\<not> g_pending g \<Longrightarrow> st_disabled st = st_disabled (g_store g) \<Longrightarrow> settled g"
  shows "manager_ok (set_states st g)"
proof -
  have "settled (set_states st g)" if "\<not> g_pending (set_states st g)"
  proof -
    from that have "\<not> g_pending g" "st_disabled st = st_disabled (g_store g)" by (auto simp: set_states_def)
    with assms(5) show ?thesis by (simp add: settled_def)
  qed
  with assms(1-4) show ?thesis by (simp add: manager_ok_def)
qed

text \<open>A state with fewer instances or runs.\<close>

definition fewer :: "manager \<Rightarrow> manager \<Rightarrow> bool" where
  "fewer g' g \<longleftrightarrow> one_each g' \<and> g_installed g' = g_installed g \<and> g_crashes g' = g_crashes g \<and>
    (\<forall>k j. inst g' k = Some j \<longrightarrow> (\<exists>i. inst g k = Some i \<and> same_but_run i j \<and> (i_scope j \<noteq> None \<longrightarrow> i_scope i \<noteq> None)))"

lemma fewer_stop: "one_each g \<Longrightarrow> fewer (stop_instance ext g) g"
  by (auto simp: fewer_def)

lemma fewer_drop: "one_each g \<Longrightarrow> fewer (drop_instance ext g) g"
  by (auto simp: fewer_def)

lemma fewer_parts:
  assumes "fewer g' g" "instances_ok g" "in_place g" "blamable g"
  shows "instances_ok g'" "in_place g'" "blamable g'"
proof -
  have was: "\<exists>i. inst g k = Some i \<and> same_but_run i j" if "inst g' k = Some j" for k j
    using that assms(1) unfolding fewer_def by blast
  show "instances_ok g'"
    unfolding instances_ok_def
  proof (intro conjI allI impI)
    fix k j assume "inst g' k = Some j"
    from was [OF this] assms(2) show "instance_ok k j" by (auto simp: instances_ok_def same_but_run_ok)
  qed (use assms(1) in \<open>simp add: fewer_def\<close>)
  show "in_place g'"
    unfolding in_place_def
  proof (intro allI impI)
    fix k j assume "inst g' k = Some j"
    from was [OF this] obtain i where i: "inst g k = Some i" "same_but_run i j" by blast
    with assms(3) obtain x where "x \<in> set (g_installed g)" "x_id x = k" "fits x i" unfolding in_place_def by blast
    with i(2) assms(1) show "\<exists>x \<in> set (g_installed g'). x_id x = k \<and> fits x j"
      by (auto simp: fewer_def same_but_run_ok)
  qed
  show "blamable g'"
  proof (rule blamable_fewer [OF assms(4,2)])
    show "one_each g'" "g_crashes g' = g_crashes g" using assms(1) by (simp_all add: fewer_def)
    show "\<exists>i. inst g k = Some i \<and> i_scope i \<noteq> None" if "inst g' k = Some j" "i_scope j \<noteq> None" for k j
      using that assms(1) unfolding fewer_def by blast
  qed
qed

lemma settled_drop: "settled g \<Longrightarrow> settled (drop_instance ext g)"
  unfolding settled_def by (simp del: not_None_eq)

lemma settled_stop: "settled g \<Longrightarrow> ext \<in> set (st_disabled (g_store g)) \<Longrightarrow> settled (stop_instance ext g)"
  unfolding settled_def by (simp del: not_None_eq) auto

lemma instances_one: "instances_ok g \<Longrightarrow> one_each g"
  by (simp add: instances_ok_def)

lemma manager_ok_drop: "manager_ok g \<Longrightarrow> manager_ok (drop_instance ext g)"
  using fewer_parts [OF fewer_drop, of g] settled_drop [of g ext]
  by (simp add: manager_ok_def instances_one)

text \<open>A failure after any number of stops.\<close>

lemma manager_ok_keep_off:
  assumes "manager_ok g" shows "manager_ok (keep_off ext t (stop_instance ext g))"
proof -
  have disabled: "ext \<in> set (st_disabled (g_store g))"
    if "st_disabled (setDisabled ext True (setProblem ext (Some t) (g_store g))) = st_disabled (g_store g)"
    using that set_disabled [of ext True "setProblem ext (Some t) (g_store g)"] by auto
  show ?thesis
    unfolding keep_off_def
    using fewer_parts [OF fewer_stop, of g] manager_okD [OF assms] disabled
    by (intro manager_ok_set_states) (simp_all add: instances_one settled_stop)
qed

lemma stop_twice: "inst (stop_instance ext (stop_instance ext g)) = inst (stop_instance ext g)"
  by (auto simp: fun_eq_iff option.map_comp comp_def)

lemma manager_ok_failed: "manager_ok g \<Longrightarrow> manager_ok (failed ext message g)"
  by (simp add: failed_def manager_ok_keep_off)

text \<open>A second stop changes nothing that the invariant sees.\<close>

lemma manager_ok_failed_stopped:
  assumes "manager_ok g" shows "manager_ok (failed ext message (stop_instance ext g))"
proof -
  let ?h = "stop_instance ext (stop_instance ext g)"
  have "fewer ?h g"
    using instances_one [OF manager_okD(1) [OF assms]] by (auto simp: fewer_def)
  then have parts: "instances_ok ?h" "in_place ?h" "blamable ?h"
    using fewer_parts manager_okD [OF assms] by blast+
  have "settled ?h" if "\<not> g_pending g" "ext \<in> set (st_disabled (g_store g))"
    using settled_stop [OF settled_stop] manager_okD(5) [OF assms] that by simp
  moreover have "ext \<in> set (st_disabled (g_store g))"
    if "st_disabled (setDisabled ext True (setProblem ext t (g_store g))) = st_disabled (g_store g)" for t
    using that set_disabled [of ext True "setProblem ext t (g_store g)"] by auto
  ultimately show ?thesis
    using parts manager_okD(4) [OF assms]
    unfolding failed_def keep_off_def manager_ok_say
    by (intro manager_ok_set_states) (simp_all)
qed

lemma manager_ok_enable: "manager_ok g \<Longrightarrow> manager_ok (enable ext g)"
  unfolding enable_def by (intro manager_ok_set_states) (auto simp: manager_ok_def)

lemma manager_ok_undo: "manager_ok g \<Longrightarrow> manager_ok (undo_elsewhere ext g)"
  by (auto simp: undo_elsewhere_def split: option.split)

lemma manager_ok_disable: "manager_ok g \<Longrightarrow> manager_ok (disable ext g)"
  unfolding disable_def by (intro manager_ok_undo manager_ok_set_states) (auto simp: manager_ok_def)

lemma manager_ok_load_failed: "manager_ok g \<Longrightarrow> manager_ok (load_failed ext obj scope message g)"
  by (simp add: load_failed_def Let_def manager_ok_failed manager_ok_failed_stopped split: option.split)

lemma manager_ok_run_failed: "manager_ok g \<Longrightarrow> manager_ok (run_failed ext scope message g)"
  by (auto simp: run_failed_def manager_ok_failed split: option.split)

subsection \<open>Installing\<close>

lemma rescan_instance_rest [simp]:
  "g_store (rescan_instance x g) = g_store g" "g_installed (rescan_instance x g) = g_installed g"
  "g_pending (rescan_instance x g) = g_pending g"
  by (auto simp: rescan_instance_def split: option.split)

lemma rescan_instance_other [simp]: "k \<noteq> x_id x \<Longrightarrow> inst (rescan_instance x g) k = inst g k"
  by (auto simp: rescan_instance_def split: option.split)

lemma rescan_instance_ok:
  "instances_ok g \<Longrightarrow> found_ok found \<Longrightarrow> x \<in> set found \<Longrightarrow> instances_ok (rescan_instance x g)"
  by (auto simp: rescan_instance_def intro: instances_replace split: option.split)

lemma rescan_instance_fits: "inst (rescan_instance x g) (x_id x) = Some i \<Longrightarrow> fits x i"
  by (auto simp: rescan_instance_def fits_def new_instance_def split: option.splits if_splits)

lemma rescan_instance_there: "x_manifest x \<noteq> None \<Longrightarrow> inst (rescan_instance x g) (x_id x) \<noteq> None"
  by (auto simp: rescan_instance_def split: option.splits)

lemma fold_rescan_rest [simp]:
  "g_store (fold rescan_instance xs g) = g_store g" "g_installed (fold rescan_instance xs g) = g_installed g"
  "g_pending (fold rescan_instance xs g) = g_pending g"
  by (induction xs arbitrary: g) auto

lemma fold_rescan_other: "k \<notin> x_id ` set xs \<Longrightarrow> inst (fold rescan_instance xs g) k = inst g k"
  by (induction xs arbitrary: g) auto

lemma fold_rescan_ok: "instances_ok g \<Longrightarrow> found_ok found \<Longrightarrow> set xs \<subseteq> set found \<Longrightarrow> instances_ok (fold rescan_instance xs g)"
  by (induction xs arbitrary: g) (auto intro: rescan_instance_ok)

lemma fold_rescan_each:
  assumes "distinct (map x_id xs)" "x \<in> set xs"
  shows "inst (fold rescan_instance xs g) (x_id x) = Some i \<Longrightarrow> fits x i"
    and "x_manifest x \<noteq> None \<Longrightarrow> inst (fold rescan_instance xs g) (x_id x) \<noteq> None"
proof -
  from split_list [OF assms(2)] obtain us vs where xs: "xs = us @ x # vs" by blast
  with assms(1) have "x_id x \<notin> x_id ` set vs" by auto
  then have "inst (fold rescan_instance xs g) (x_id x) = inst (rescan_instance x (fold rescan_instance us g)) (x_id x)"
    by (simp add: xs fold_rescan_other)
  then show "inst (fold rescan_instance xs g) (x_id x) = Some i \<Longrightarrow> fits x i"
    and "x_manifest x \<noteq> None \<Longrightarrow> inst (fold rescan_instance xs g) (x_id x) \<noteq> None"
    by (auto dest: rescan_instance_fits simp: rescan_instance_there)
qed

lemma fold_drop_rest [simp]:
  "g_store (fold drop_instance es g) = g_store g" "g_installed (fold drop_instance es g) = g_installed g"
  "g_pending (fold drop_instance es g) = g_pending g"
  by (induction es arbitrary: g) auto

lemma inst_fold_drop: "inst (fold drop_instance es g) k = (if k \<in> set es then None else inst g k)"
  by (induction es arbitrary: g) auto

lemma fold_drop_ok: "instances_ok g \<Longrightarrow> instances_ok (fold drop_instance es g)"
  by (induction es arbitrary: g) (auto intro: instances_drop)

definition after_rescan :: "installed list \<Rightarrow> manager \<Rightarrow> manager" where
  "after_rescan found g = fold rescan_instance found
     (fold drop_instance (filter (\<lambda>ext. ext \<notin> x_id ` set found) (map fst (g_instances g))) (g\<lparr>g_installed := found\<rparr>))"

lemma rescan_after: "rescan found g = sync (after_rescan found g)"
  by (simp add: rescan_def after_rescan_def Let_def)

lemma after_rescan_rest [simp]:
  "g_store (after_rescan found g) = g_store g" "g_installed (after_rescan found g) = found"
  "g_pending (after_rescan found g) = g_pending g"
  by (simp_all add: after_rescan_def)

lemma after_rescan_ok:
  assumes "instances_ok g" "found_ok found"
  shows "instances_ok (after_rescan found g)" "in_place (after_rescan found g)"
    and "x \<in> set found \<Longrightarrow> x_manifest x \<noteq> None \<Longrightarrow> inst (after_rescan found g) (x_id x) \<noteq> None"
proof -
  let ?es = "filter (\<lambda>ext. ext \<notin> x_id ` set found) (map fst (g_instances g))"
  let ?g = "fold drop_instance ?es (g\<lparr>g_installed := found\<rparr>)"
  have "instances_ok (g\<lparr>g_installed := found\<rparr>)"
    using assms(1) by (simp add: instances_ok_def one_each_def)
  then have "instances_ok ?g" by (rule fold_drop_ok)
  then show "instances_ok (after_rescan found g)"
    unfolding after_rescan_def using assms(2) by (intro fold_rescan_ok) auto
  have d: "distinct (map x_id found)" using assms(2) by (simp add: found_ok_def)
  have known: "k \<in> x_id ` set found" if "inst (after_rescan found g) k = Some i" for k i
  proof (rule ccontr)
    assume k: "k \<notin> x_id ` set found"
    then have "inst ?g k = Some i"
      using that unfolding after_rescan_def by (simp add: fold_rescan_other)
    then have "inst g k = Some i" "k \<notin> set ?es" by (auto simp: inst_fold_drop split: if_splits)
    with k show False by (force dest: map_of_SomeD)
  qed
  show "in_place (after_rescan found g)"
    unfolding in_place_def
  proof (intro allI impI)
    fix k i assume i: "inst (after_rescan found g) k = Some i"
    from known [OF this] obtain x where x: "x \<in> set found" "x_id x = k" by auto
    from fold_rescan_each(1) [OF d x(1)] i x(2) have "fits x i" unfolding after_rescan_def by blast
    with x show "\<exists>x \<in> set (g_installed (after_rescan found g)). x_id x = k \<and> fits x i" by auto
  qed
  show "x \<in> set found \<Longrightarrow> x_manifest x \<noteq> None \<Longrightarrow> inst (after_rescan found g) (x_id x) \<noteq> None"
    unfolding after_rescan_def by (rule fold_rescan_each(2) [OF d])
qed

lemma rescan_ok: "instances_ok g \<Longrightarrow> found_ok found \<Longrightarrow> manager_ok (rescan found g) \<and> settled (rescan found g)"
  unfolding rescan_after by (intro sync_ok) (auto intro: after_rescan_ok)

lemma found_ok_reload:
  assumes "found_ok xs" "\<And>x. found = Some x \<Longrightarrow> x_id x = ext \<and> found_ok [x]"
  shows "found_ok (sort_key f (filter (\<lambda>x. x_id x \<noteq> ext) xs @ (case found of None \<Rightarrow> [] | Some x \<Rightarrow> [x])))"
proof -
  let ?ys = "filter (\<lambda>x. x_id x \<noteq> ext) xs @ (case found of None \<Rightarrow> [] | Some x \<Rightarrow> [x])"
  have "found_ok ?ys"
    using assms by (auto simp: found_ok_def distinct_map_filter split: option.splits)
  then have "distinct (map x_id ?ys)" "\<forall>x \<in> set ?ys. \<forall>m. x_manifest x = Some m \<longrightarrow> m_id m = x_id x \<and> manifest_ok m"
    unfolding found_ok_def by blast+
  moreover have "mset (map x_id (sort_key f ?ys)) = mset (map x_id ?ys)" by (simp only: mset_map mset_sort)
  ultimately show ?thesis
    unfolding found_ok_def by (metis mset_eq_imp_distinct_iff set_sort)
qed

lemma manager_ok_reload:
  assumes "manager_ok g" "\<And>x. found = Some x \<Longrightarrow> x_id x = ext \<and> found_ok [x]"
  shows "manager_ok (reload collation ext found g)"
proof -
  define fixed where "fixed = (case (Option.bind found x_manifest, inst g ext) of
          (Some m, Some i) \<Rightarrow> map_of (st_troubles (g_store g)) ext \<noteq> None \<and> m_version (i_manifest i) \<noteq> m_version m
        | _ \<Rightarrow> False)"
  define g1 where "g1 = (if fixed then set_states (setDisabled ext False (setProblem ext None (g_store g))) g else g)"
  define xs where "xs = sort_key (\<lambda>x. collation (x_id x))
        (filter (\<lambda>x. x_id x \<noteq> ext) (g_installed g1) @ (case found of None \<Rightarrow> [] | Some x \<Rightarrow> [x]))"
  define g2 where "g2 = g1\<lparr>g_installed := xs\<rparr>"
  have g1: "instances_ok g1" "in_place g1" "g_installed g1 = g_installed g"
    using assms(1) by (auto simp: g1_def manager_ok_def instances_ok_def in_place_def)
  have xs: "found_ok xs"
    unfolding xs_def g1(3) using assms by (intro found_ok_reload) (auto simp: manager_ok_def)
  have g2: "instances_ok g2" using g1(1) by (simp add: g2_def instances_ok_def one_each_def)
  have others: "\<exists>x \<in> set xs. x_id x = k \<and> fits x i" if "k \<noteq> ext" "inst g2 k = Some i" for k i
    using that g1(2) by (fastforce simp: g2_def in_place_def xs_def g1(3))
  have i2: "g_installed g2 = xs" by (simp add: g2_def)
  let ?h = "case List.find (\<lambda>x. x_id x = ext) (g_installed g2) of
        None \<Rightarrow> drop_instance ext g2
      | Some x \<Rightarrow> (case x_manifest x of Some m \<Rightarrow> replace_instance x m g2 | None \<Rightarrow> drop_instance ext g2)"
  have h: "reload collation ext found g = sync ?h"
    unfolding reload_def g2_def xs_def g1_def fixed_def Let_def by (rule refl)
  have dropped: "instances_ok (drop_instance ext g2)" "in_place (drop_instance ext g2)" "g_installed (drop_instance ext g2) = xs"
    using g2 others by (auto simp: instances_drop in_place_def g2_def)
  have replaced: "instances_ok (replace_instance x m g2) \<and> in_place (replace_instance x m g2) \<and> g_installed (replace_instance x m g2) = xs"
    if "x \<in> set xs" "x_id x = ext" "x_manifest x = Some m" for x m
    using g2 others that xs by (auto intro: instances_replace simp: in_place_def g2_def)
  have "instances_ok ?h \<and> in_place ?h \<and> g_installed ?h = xs"
    unfolding i2 using dropped replaced by (auto dest: find_SomeD split: option.split)
  then show ?thesis using xs unfolding h by (simp add: sync_ok)
qed

lemma manager_ok_restart:
  assumes "manager_ok g" shows "manager_ok (restart_all g)"
proof -
  let ?f = "\<lambda>x. case x_manifest x of None \<Rightarrow> (\<lambda>g. g) | Some m \<Rightarrow> replace_instance x m"
  let ?P = "\<lambda>h. instances_ok h \<and> in_place h \<and> g_installed h = g_installed g"
  have "?P (fold ?f (g_installed g) g)"
  proof (rule fold_invariant [where Q = "\<lambda>x. x \<in> set (g_installed g)"])
    show "?P g" using assms by (simp add: manager_ok_def)
  next
    fix x h assume "x \<in> set (g_installed g)" "?P h"
    then show "?P (?f x h)"
      using assms by (auto simp: manager_ok_def in_place_def intro: instances_replace split: option.split)
  qed auto
  then show ?thesis
    unfolding restart_all_def using manager_okD(4) [OF assms] by (intro sync_ok [THEN conjunct1]) simp_all
qed

lemma manager_ok_remove:
  assumes "manager_ok g" "found_ok found"
  shows "manager_ok (remove_extension removable has_data found ext g)"
proof (cases "List.find (\<lambda>x. x_id x = ext) (g_installed g)")
  case None
  with assms show ?thesis by (simp add: remove_extension_def)
next
  case (Some x)
  let ?g = "undo_elsewhere ext g"
  let ?g1 = "if inst ?g (x_id x) = None then ?g else say [Stored_forgotten (x_id x)] ?g"
  have g: "manager_ok (drop_instance (x_id x) ?g1)"
    using manager_ok_undo [OF assms(1)] by (auto intro: manager_ok_drop)
  then have "instances_ok (fst (erase True has_data x ?g))"
    by (simp add: erase_def Let_def forget_def manager_ok_def instances_ok_def)
  with assms(2) have "manager_ok (rescan found (fst (erase True has_data x ?g)))"
    by (simp add: rescan_ok)
  with g Some show ?thesis
    by (cases removable) (simp_all add: remove_extension_def erase_def Let_def)
qed

subsection \<open>Settings\<close>

lemma manager_ok_store:
  "manager_ok g \<Longrightarrow> st_disabled st = st_disabled (g_store g) \<Longrightarrow> manager_ok (g\<lparr>g_store := st\<rparr>)"
  by (simp add: manager_ok_def settled_def)

lemma set_setting_disabled: "set_setting d ext key v st = Inr st' \<Longrightarrow> st_disabled st' = st_disabled st"
  by (erule set_setting_Inr) (simp add: setValue_def setValues_def)

lemma manager_ok_setting:
  assumes "manager_ok g" shows "manager_ok (or_same (set_extension_setting ext key v g) g)"
proof (cases "set_extension_setting ext key v g")
  case (Inr g')
  then obtain st d where "set_setting d ext key v (g_store g) = Inr st" "g' = g\<lparr>g_store := st\<rparr>"
    by (cases "installed_instance ext g"; cases "set_setting (v_described (i_values (projr (installed_instance ext g)))) ext key v (g_store g)")
      (auto simp: set_extension_setting_def)
  with assms Inr show ?thesis by (simp add: or_same_def manager_ok_store set_setting_disabled)
qed (simp add: or_same_def assms)

lemma manager_ok_shortcut:
  "manager_ok g \<Longrightarrow> manager_ok (or_same (set_extension_shortcut ext key accelerators g) g)"
  by (auto simp: or_same_def set_extension_shortcut_def setShortcut_def Let_def
      split: sum.split if_splits intro!: manager_ok_store)

lemma manager_ok_settings_changed:
  assumes "manager_ok g" shows "manager_ok (settings_changed ext g)"
proof (cases "inst g ext")
  case None
  with assms show ?thesis by (simp add: settings_changed_def)
next
  case (Some i)
  let ?i = "i\<lparr>i_values := fst (refresh (g_store g) (i_values i))\<rparr>"
  let ?g = "g\<lparr>g_instances := map_put ext ?i (g_instances g)\<rparr>"
  have i: "instance_ok ext ?i = instance_ok ext i" "fits x ?i = fits x i" for x
    by (simp_all add: instance_ok_def fits_def refresh_def Let_def)
  have one: "one_each ?g"
    using instances_one [OF manager_okD(1) [OF assms]] by (simp add: one_each_def distinct_put)
  have inst: "inst ?g k = Some j \<longleftrightarrow> (if k = ext then j = ?i else inst g k = Some j)" for k j
    by auto
  have "instances_ok ?g"
    using one Some i(1) manager_okD(1) [OF assms] unfolding instances_ok_def inst by (metis (full_types))
  moreover have "in_place ?g"
    using Some i(2) manager_okD(2) [OF assms] unfolding in_place_def inst
    by (metis (no_types, lifting) manager.select_convs(2) manager.surjective manager.update_convs(3))
  moreover have "blamable ?g"
    by (rule blamable_fewer [OF manager_okD(3) [OF assms] manager_okD(1) [OF assms] one])
      (use Some in \<open>auto simp: inst split: if_splits\<close>)
  moreover have "settled ?g" if "\<not> g_pending ?g"
    using Some that manager_okD(5) [OF assms] unfolding settled_def inst by (auto split: if_splits)
  ultimately have "manager_ok ?g"
    using manager_okD(4) [OF assms] by (simp add: manager_ok_def)
  with Some show ?thesis by (simp add: settings_changed_def split_beta Let_def)
qed

lemma manager_ok_values_changed:
  assumes "manager_ok g" shows "manager_ok (extension_values_changed g)"
proof -
  have "manager_ok (g\<lparr>g_store := fst (values_changed (g_store g))\<rparr>)"
    using assms by (intro manager_ok_store) (simp_all add: values_changed_def Let_def)
  then show ?thesis
    unfolding extension_values_changed_def
    by (auto simp: split_beta Let_def intro!: fold_invariant [where Q = "\<lambda>_. True"] manager_ok_settings_changed)
qed

section \<open>Every state that is reached\<close>

lemma manager_ok_boot: "found_ok found \<Longrightarrow> manager_ok (boot restarted saved st found)"
  unfolding boot_def Let_def manager_ok_say
proof (rule rescan_ok [THEN conjunct1])
  have keep: "instances_ok (keep_off ext t g) = instances_ok g" for ext t g
    by (simp add: keep_off_def instances_ok_def)
  have "instances_ok (fold (\<lambda>ext. keep_off ext t) es g) = instances_ok g" for es t g
    by (induction es arbitrary: g) (simp_all add: keep)
  moreover have "instances_ok (g\<lparr>g_pending := p\<rparr>) = instances_ok g" for g p
    by (simp add: instances_ok_def one_each_def)
  ultimately show "instances_ok ((fold (\<lambda>ext. keep_off ext \<lparr>t_kind = Crash_problem, t_detail = []\<rparr>) (culprits (crash_guard restarted saved))
     \<lparr>g_store = st\<lparr>st_values := st_written st\<rparr>, g_installed = [], g_instances = [], g_crashes = crash_guard restarted saved, g_next = 0,
      g_loading = [], g_pending = False, g_calls = []\<rparr>)\<lparr>g_pending := False\<rparr>)"
    by (simp add: instances_ok_def one_each_def)
qed

lemma manager_ok_occur:
  assumes "manager_ok g" "can_occur e g" shows "manager_ok (occur collation e g)"
proof (cases e)
  case (Rescan found)
  with assms(2) manager_okD(1) [OF assms(1)] show ?thesis by (simp add: rescan_ok)
next
  case (Reload ext found)
  with assms show ?thesis by (auto intro!: manager_ok_reload)
next
  case (Outside st)
  have "manager_ok (set_states st g)"
    using manager_okD [OF assms(1)] by (intro manager_ok_set_states) simp_all
  with Outside show ?thesis by simp
next
  case (Loaded ext obj scope)
  with assms show ?thesis by (simp add: loaded_def)
next
  case States_changed
  have "manager_ok (sync (g\<lparr>g_pending := False\<rparr>))"
    using manager_okD [OF assms(1)] by (intro sync_ok [THEN conjunct1]) simp_all
  with States_changed show ?thesis by (simp add: states_changed_def)
qed (use assms in \<open>simp_all add: manager_ok_enable manager_ok_disable manager_ok_remove manager_ok_setting manager_ok_shortcut
    manager_ok_load_failed manager_ok_run_failed manager_ok_values_changed manager_ok_restart\<close>)

lemma manager_reach_ok: "manager_reach collation g \<Longrightarrow> manager_ok g"
  by (induction rule: manager_reach.induct) (simp_all add: manager_ok_boot manager_ok_occur)

section \<open>Crashes\<close>

text \<open>
  A session of the shell: which extensions it last said were running, and whether it crashed.
  What the saved holds after some sessions, and whether the last one crashed.
\<close>

fun after_sessions :: "(string list \<times> bool) list \<Rightarrow> crash_record option \<times> bool" where
  "after_sessions [] = (None, False)"
| "after_sessions ((ids, crashed) # before) =
    (let (saved, restarted) = after_sessions before in (Some (note_running ids (crash_guard restarted saved)), crashed))"

text \<open>In how many of the last sessions, in a row, an extension ran when the shell crashed.\<close>

fun crashes_in_a_row :: "string \<Rightarrow> (string list \<times> bool) list \<Rightarrow> nat" where
  "crashes_in_a_row ext [] = 0"
| "crashes_in_a_row ext ((ids, crashed) # before) =
    (if crashed \<and> ext \<in> set ids then Suc (crashes_in_a_row ext before) else 0)"

lemma from_entries_map: "map_of (from_entries (map (\<lambda>k. (k, f k)) ks)) k = (if k \<in> set ks then Some (f k) else None)"
proof -
  have "map_of (foldl (\<lambda>m (k, v). map_put k v m) d (map (\<lambda>k. (k, f k)) ks)) k = (if k \<in> set ks then Some (f k) else map_of d k)" for d
    by (induction ks arbitrary: d) auto
  from this [of "[]"] show ?thesis by (simp add: from_entries_def)
qed

lemma crash_guard_next: "map_of (r_crashes (crash_guard crashed (Some (note_running ids r)))) ext =
    (if crashed \<and> ext \<in> set ids then Some (otherwise (map_of (r_crashes r) ext) 0 + 1) else None)"
  by (simp add: crash_guard_def after_crash_def note_running_def from_entries_map)

lemma crash_guard_counts:
  "after_sessions h = (saved, restarted) \<Longrightarrow>
    map_of (r_crashes (crash_guard restarted saved)) ext = (if crashes_in_a_row ext h = 0 then None else Some (crashes_in_a_row ext h))"
proof (induction h arbitrary: saved restarted)
  case (Cons s before)
  obtain ids crashed where s: "s = (ids, crashed)" by (cases s)
  obtain saved' restarted' where b: "after_sessions before = (saved', restarted')" by (cases "after_sessions before")
  from Cons.prems s b have f: "saved = Some (note_running ids (crash_guard restarted' saved'))" "restarted = crashed" by auto
  show ?case
    by (simp add: s f crash_guard_next Cons.IH [OF b])
qed (simp add: crash_guard_def)

lemma distinct_from_entries: "distinct (map fst (from_entries es))"
proof -
  have "distinct (map fst d) \<Longrightarrow> distinct (map fst (foldl (\<lambda>m (k, v). map_put k v m) d es))" for d
    by (induction es arbitrary: d) (auto intro: distinct_put)
  then show ?thesis by (simp add: from_entries_def)
qed

lemma crashes_once: "distinct (map fst (r_crashes (crash_guard restarted saved)))"
  by (auto simp: crash_guard_def after_crash_def distinct_from_entries split: option.split)

lemma culprits_iff: "ext \<in> set (culprits (crash_guard restarted saved)) \<longleftrightarrow>
    (\<exists>n \<ge> 2. map_of (r_crashes (crash_guard restarted saved)) ext = Some n)"
  using crashes_once [of restarted saved]
  by (force simp: culprits_def CRASHES_BEFORE_OFF_def map_of_eq_Some_iff)

lemma keep_off_store:
  "ext \<in> set (st_disabled (g_store (fold (\<lambda>e. keep_off e t) es g))) \<longleftrightarrow> ext \<in> set es \<or> ext \<in> set (st_disabled (g_store g))"
  "map_of (st_troubles (g_store (fold (\<lambda>e. keep_off e t) es g))) ext = (if ext \<in> set es then Some t else map_of (st_troubles (g_store g)) ext)"
  by (induction es arbitrary: g) (auto simp: keep_off_def)

lemma rescan_store [simp]: "g_store (rescan found g) = g_store g"
  by (simp add: rescan_after)

lemma boot_keeps_off:
  "ext \<in> set (culprits (crash_guard restarted saved)) \<Longrightarrow>
    ext \<in> set (st_disabled (g_store (boot restarted saved st found))) \<and>
    map_of (st_troubles (g_store (boot restarted saved st found))) ext = Some \<lparr>t_kind = Crash_problem, t_detail = []\<rparr>"
  by (simp add: boot_def Let_def keep_off_store)

lemma boot_settled: "found_ok found \<Longrightarrow> settled (boot restarted saved st found)"
  using manager_ok_boot [of found restarted saved st] by (simp add: manager_ok_def boot_def Let_def rescan_after)

section \<open>Removing\<close>

lemma undo_rest [simp]: "g_store (undo_elsewhere ext g) = g_store g" "g_instances (undo_elsewhere ext g) = g_instances g"
  by (auto simp: undo_elsewhere_def split: option.split)

lemma remove_store: "List.find (\<lambda>x. x_id x = ext) (g_installed g) = Some x \<Longrightarrow>
    g_store (remove_extension True has_data found ext g) =
      setDisabled (x_id x) False (setProblem (x_id x) None (forgetShortcuts (x_id x) (forgetValues (x_id x) (g_store g))))"
  by (simp add: remove_extension_def erase_def forget_def Let_def)

lemma after_rescan_known:
  assumes "inst (after_rescan found g) k = Some i" shows "k \<in> x_id ` set found"
proof (rule ccontr)
  assume k: "k \<notin> x_id ` set found"
  let ?es = "filter (\<lambda>ext. ext \<notin> x_id ` set found) (map fst (g_instances g))"
  have "inst (fold drop_instance ?es (g\<lparr>g_installed := found\<rparr>)) k = Some i"
    using assms k unfolding after_rescan_def by (simp add: fold_rescan_other)
  then have "inst g k = Some i" "k \<notin> set ?es" by (auto simp: inst_fold_drop split: if_splits)
  with k show False by (force dest: map_of_SomeD)
qed

lemma remove_no_instance:
  assumes "instances_ok g" "found_ok found" "ext \<notin> x_id ` set found"
    and "List.find (\<lambda>x. x_id x = ext) (g_installed g) = Some x"
  shows "inst (remove_extension True has_data found ext g) ext = None"
proof -
  let ?e = "fst (erase True has_data x (undo_elsewhere ext g))"
  have "instances_ok (undo_elsewhere ext g)" using assms(1) by (simp add: instances_ok_def one_each_def)
  then have "instances_ok ?e" by (simp add: erase_def forget_def Let_def instances_drop)
  then have "one_each (after_rescan found ?e)" using after_rescan_ok(1) [OF _ assms(2)] instances_one by blast
  moreover have "inst (after_rescan found ?e) ext = None"
    using after_rescan_known [of found ?e ext] assms(3) by (cases "inst (after_rescan found ?e) ext") auto
  ultimately have "inst (rescan found ?e) ext = None" unfolding rescan_after by (rule inst_sync(1))
  then show ?thesis by (simp add: remove_extension_def assms(4) erase_def Let_def)
qed

lemma settings_changed_store [simp]: "g_store (settings_changed ext g) = g_store g"
  by (simp add: settings_changed_def split_beta Let_def split: option.split)

lemma settings_changed_none: "inst g k = None \<Longrightarrow> inst (settings_changed ext g) k = None"
  by (auto simp: settings_changed_def split_beta Let_def split: option.split)

lemma fold_settings_changed:
  "g_store (fold settings_changed es g) = g_store g" "inst g k = None \<Longrightarrow> inst (fold settings_changed es g) k = None"
  by (induction es arbitrary: g) (auto simp: settings_changed_none)

lemma store_after_values_changed: "g_store (extension_values_changed g) = (g_store g)\<lparr>st_values := st_written (g_store g)\<rparr>"
  by (simp add: extension_values_changed_def values_changed_def Let_def fold_settings_changed)

lemma values_changed_none: "inst g k = None \<Longrightarrow> inst (extension_values_changed g) k = None"
  by (simp add: extension_values_changed_def values_changed_def Let_def fold_settings_changed)

end
