(* ===== verification/Extension_Properties.thy ===== *)
theory Extension_Properties
  imports Extension_Running
begin

text \<open>
  What holds of extensions: of a manifest that is accepted, of the values of its settings, of
  the shortcuts it gets, of the manager in every state it reaches, and where the code does not
  do what it means to.
\<close>

section \<open>An example\<close>

definition text_entry :: "string \<Rightarrow> string \<Rightarrow> string \<times> val" where
  "text_entry key v = (key, VStr v)"

definition sample_option :: "string \<Rightarrow> val" where
  "sample_option v = VTable [(''value'', VStr v), (''label'', VStr ''edge'')]"

definition sample_settings :: "val list" where
  "sample_settings = [
    VTable [(''key'', VStr ''show''), (''label'', VStr ''show''), (''type'', VStr ''switch''), (''default'', VBool False)],
    VTable [(''key'', VStr ''edges''), (''label'', VStr ''edges''), (''type'', VStr ''choices''), (''depends'', VStr ''show''),
      (''options'', VList [sample_option ''top'', sample_option ''bottom'']), (''default'', VList [VStr ''top''])],
    VTable [(''key'', VStr ''width''), (''label'', VStr ''width''), (''type'', VStr ''slider''), (''depends'', VStr ''edges''),
      (''when'', VList [VStr ''bottom'']), (''min'', VNum (Finite 1)), (''max'', VNum (Finite 9)), (''default'', VNum (Finite 4)),
      (''page'', VStr ''taskbar'')]]"

definition sample_document :: table where
  "sample_document = [
    (''id'', VStr ''com.example.Clock''), (''name'', VStr ''Clock''), (''version'', VStr ''1.0''), (''api'', VNum (Finite 1)),
    (''permissions'', VList [VStr ''taskbar'']), (''settings'', VList sample_settings),
    (''shortcuts'', VList [VTable [(''key'', VStr ''open''), (''label'', VStr ''open''), (''default'', VStr ''<Super><Alt>k'')]]),
    (''helper'', VTable [(''path'', VStr ''bin/clock''), (''turned-off'', VList [VStr ''--undo''])])]"

definition sample_manifest :: manifest where
  "sample_manifest = projr (read_document sample_document)"

lemma sample_read: "parseManifest (\<lambda>_. Inr sample_document) [] = Inr sample_manifest"
  by code_simp


section \<open>Manifests\<close>

text \<open>C22. A manifest that is accepted is well-formed: its id, name, version and API are there, every permission has those
  it needs and none it must be apart from, every setting has a default that fits it and keys, labels, options, ranges and
  pages of the right form, the keys are different, a setting only depends on an earlier one under a condition that some
  value of it meets, shortcuts have different keys, the helper stays in the folder, and the network names hosts and ports
  of the right form, none twice.\<close>

theorem accepted_manifest_ok:
  assumes "parseManifest parse source = Inr m"
  shows "manifest_ok m"
  by (rule accepted_ok [OF assms])

theorem accepted_manifest_ok_witness: "manifest_ok sample_manifest"
  by (rule accepted_manifest_ok [OF sample_read])

text \<open>The paths a manifest names: its helper and the pictures of its options.\<close>

definition pictures_of :: "kind \<Rightarrow> string list" where
  "pictures_of k = (case k of
      Choice options \<Rightarrow> List.map_filter o_image options
    | Choices options least \<Rightarrow> List.map_filter o_image options
    | Color swatches \<Rightarrow> List.map_filter o_image swatches
    | _ \<Rightarrow> [])"

definition paths_of :: "manifest \<Rightarrow> string list" where
  "paths_of m = (case m_helper m of None \<Rightarrow> [] | Some h \<Rightarrow> [h_path h])
    @ concat (map (pictures_of \<circ> s_kind) (m_settings m))"

lemma pictures_inside: "kind_ok k \<Longrightarrow> p \<in> set (pictures_of k) \<Longrightarrow> insideFolder p"
  by (auto simp: kind_ok_def pictures_of_def option_ok_def map_filter_def split: kind.splits option.splits)

text \<open>C23. Following any part of a path that an accepted manifest names never leaves the folder it starts from, and its
  id is one segment of a path, so that the folders and files named after it lie where they should.\<close>

theorem accepted_paths_stay_inside:
  assumes "parseManifest parse source = Inr m"
  shows "(\<forall>p \<in> set (paths_of m). \<forall>folder n. \<exists>below. go folder (take n (split_on (CHR ''/'') p)) = below @ folder)
    \<and> CHR ''/'' \<notin> set (m_id m) \<and> m_id m \<noteq> [] \<and> m_id m \<noteq> ''.'' \<and> m_id m \<noteq> ''..''"
proof -
  note ok = accepted_ok [OF assms]
  have "CHR ''/'' \<notin> set (m_id m) \<and> m_id m \<noteq> [] \<and> m_id m \<noteq> ''.'' \<and> m_id m \<noteq> ''..''"
    using ok by (intro ID_is_segment) (simp add: manifest_ok_def)
  moreover have "insideFolder p" if "p \<in> set (paths_of m)" for p
    using that ok by (auto simp: paths_of_def manifest_ok_def setting_ok_def dest: pictures_inside split: option.splits)
  ultimately show ?thesis using inside_goes_below by blast
qed

theorem accepted_paths_stay_inside_witness:
  "\<exists>below. go [''com.example.Clock'', ''extensions''] (split_on (CHR ''/'') ''bin/clock'') = below @ [''com.example.Clock'', ''extensions'']"
proof -
  have "''bin/clock'' \<in> set (paths_of sample_manifest)" by code_simp
  with accepted_paths_stay_inside [OF sample_read]
  have "\<exists>below. go [''com.example.Clock'', ''extensions''] (take 2 (split_on (CHR ''/'') ''bin/clock'')) = below @ [''com.example.Clock'', ''extensions'']"
    by blast
  moreover have "take 2 (split_on (CHR ''/'') ''bin/clock'') = split_on (CHR ''/'') ''bin/clock''" by code_simp
  ultimately show ?thesis by simp
qed

section \<open>Settings\<close>

lemma accepted_settings:
  assumes "parseManifest parse source = Inr m"
  shows "depends_ok (m_settings m)" "distinct (map s_key (m_settings m))" "\<forall>s \<in> set (m_settings m). validValue s (s_default s)"
proof -
  have "manifest_ok m" by (rule accepted_ok [OF assms])
  then show "depends_ok (m_settings m)" "distinct (map s_key (m_settings m))" "\<forall>s \<in> set (m_settings m). validValue s (s_default s)"
    by (simp_all add: manifest_ok_def depends_ok_def setting_ok_def)
qed

text \<open>C24. Asking whether a setting of an accepted manifest shows always comes to an end with an answer, whatever is stored
  and whichever switch is taken to be on.\<close>

theorem shown_comes_to_an_end:
  assumes "parseManifest parse source = Inr m" and "s \<in> set (m_settings m)"
  shows "\<exists>b. shown (described (m_settings m)) ext st (s_key s) assumed_on = Some (Inr b)"
proof -
  from assms(2) obtain i where "i < length (m_settings m)" "s = m_settings m ! i" by (metis in_set_conv_nth)
  with shown_defined [OF accepted_settings(1) [OF assms(1)]] show ?thesis by blast
qed

theorem shown_comes_to_an_end_witness:
  "\<exists>b. shown (described (m_settings sample_manifest)) ''com.example.Clock'' (store_with ''com.example.Clock'' []) ''width'' None = Some (Inr b)"
proof -
  have "\<exists>s \<in> set (m_settings sample_manifest). s_key s = ''width''" by code_simp
  then obtain s where "s \<in> set (m_settings sample_manifest)" "s_key s = ''width''" by blast
  with shown_comes_to_an_end [OF sample_read this(1)] show ?thesis by simp
qed

text \<open>C25. For every setting of an accepted manifest there are values of the settings it depends on, each one that fits,
  with which it shows: no setting is hidden for good by its conditions.\<close>

theorem every_setting_can_show:
  assumes "parseManifest parse source = Inr m" and "s \<in> set (m_settings m)"
  shows "\<exists>own. shown (described (m_settings m)) ext (store_with ext own) (s_key s) None = Some (Inr True) \<and>
    (\<forall>t \<in> set (m_settings m). validValue t (value_of (store_with ext own) ext t))"
proof -
  from assms(2) obtain i where "i < length (m_settings m)" "s = m_settings m ! i" by (metis in_set_conv_nth)
  with some_values_show [OF accepted_settings(1) [OF assms(1)]] accepted_settings(3) [OF assms(1)] show ?thesis
    by (metis value_of_valid)
qed

theorem every_setting_can_show_witness:
  "\<exists>own. shown (described (m_settings sample_manifest)) ''com.example.Clock'' (store_with ''com.example.Clock'' own) ''width'' None = Some (Inr True)"
proof -
  have "\<exists>s \<in> set (m_settings sample_manifest). s_key s = ''width''" by code_simp
  then obtain s where "s \<in> set (m_settings sample_manifest)" "s_key s = ''width''" by blast
  with every_setting_can_show [OF sample_read this(1)] show ?thesis by simp blast
qed




text \<open>The example with two options of one value.\<close>

definition doubled_document :: table where
  "doubled_document = map (\<lambda>(key, v). (key, if key = ''settings'' then VList [
    VTable [(''key'', VStr ''edges''), (''label'', VStr ''edges''), (''type'', VStr ''choices''),
      (''options'', VList [sample_option ''top'', sample_option ''top'', sample_option ''left'']), (''default'', VList [VStr ''left''])]] else v))
    sample_document"

definition doubled_settings :: "(string \<times> setting) list" where
  "doubled_settings = described (m_settings (projr (read_document doubled_document)))"

text \<open>A manifest that offers two options with one value is accepted, and what is picked of them is not kept: it is stored
  twice, which does not fit, so the default is read.\<close>

theorem doubled_option_is_not_kept:
  "isl (read_document doubled_document) = False \<and>
   (\<exists>st'. set_setting doubled_settings ''c'' ''edges'' (VList [VStr ''top'']) (store_with ''c'' []) = Inr st' \<and>
     get_setting doubled_settings ''c'' (fst (values_changed st')) ''edges'' = Inr (Some (VList [VStr ''left''])))"
proof -
  have "isl (read_document doubled_document) = False" by code_simp
  moreover have "set_setting doubled_settings ''c'' ''edges'' (VList [VStr ''top'']) (store_with ''c'' []) =
      Inr (setValue ''c'' ''edges'' (VList [VStr ''top'', VStr ''top'']) (store_with ''c'' []))" by code_simp
  moreover have "get_setting doubled_settings ''c''
      (fst (values_changed (setValue ''c'' ''edges'' (VList [VStr ''top'', VStr ''top'']) (store_with ''c'' [])))) ''edges''
      = Inr (Some (VList [VStr ''left'']))" by code_simp
  ultimately show ?thesis by blast
qed

section \<open>Running extensions\<close>

definition sample_found :: "installed list" where
  "sample_found = discover (\<lambda>_. Inr sample_document) (\<lambda>_. []) ''extensions'' (\<lambda>_. Inr [])
     [''com.example.Clock'', ''org.example.Old'']"

definition empty_store :: store where
  "empty_store = \<lparr>st_values = [], st_written = [], st_disabled = [], st_troubles = [], st_shortcuts = []\<rparr>"

lemma discover_found_ok:
  assumes "distinct children" shows "found_ok (discover parse says folder files children)"
proof -
  have "distinct (map x_id (discover parse says folder files children))"
    using assms by (simp add: discover_def comp_def)
  moreover have "m_id m = x_id x \<and> manifest_ok m"
    if "x \<in> set (discover parse says folder files children)" "x_manifest x = Some m" for x m
    using that by (auto simp: discover_def dest!: read_folder_manifest intro: accepted_ok)
  ultimately show ?thesis by (simp add: found_ok_def)
qed

lemma sample_found_ok: "found_ok sample_found"
  unfolding sample_found_def by (rule discover_found_ok) simp

definition sample_boot :: manager where
  "sample_boot = boot False None empty_store sample_found"

lemma sample_boot_reach: "manager_reach (\<lambda>s. s) sample_boot"
  unfolding sample_boot_def by (rule manager_reach.booted [OF sample_found_ok])

text \<open>C27. In every state the manager reaches, through any order of requests, failures, signals and writes from outside: each
  instance has an accepted manifest with its id and belongs to an installed extension, whose folder and version it has;
  an extension that runs is named in the record that a crash is blamed by; and unless a signal of the settings is still
  to be handled, the extensions that run are the ones that are not turned off.\<close>

theorem manager_in_step:
  assumes "manager_reach collation g" and "map_of (g_instances g) ext = Some i"
  shows "m_id (i_manifest i) = ext \<and> manifest_ok (i_manifest i) \<and>
    (\<exists>x \<in> set (g_installed g). x_id x = ext \<and>
       (\<forall>m. x_manifest x = Some m \<longrightarrow> x_path (i_installed i) = x_path x \<and> m_version (i_manifest i) = m_version m)) \<and>
    (i_scope i \<noteq> None \<longrightarrow> ext \<in> set (r_running (g_crashes g))) \<and>
    (\<not> g_pending g \<longrightarrow> (i_scope i \<noteq> None \<longleftrightarrow> ext \<notin> set (st_disabled (g_store g))))"
proof -
  note ok = manager_okD [OF manager_reach_ok [OF assms(1)]]
  have "i_scope i \<noteq> None \<Longrightarrow> ext \<in> set (running g)"
    using assms(2) by (simp add: running_iff [OF instances_one [OF ok(1)]])
  then show ?thesis
    using ok assms(2) unfolding instances_ok_def in_place_def settled_def blamable_def instance_ok_def fits_def by blast
qed

theorem manager_in_step_witness:
  "\<exists>i. map_of (g_instances sample_boot) ''com.example.Clock'' = Some i \<and> i_scope i \<noteq> None"
proof -
  have "map_of (g_instances sample_boot) ''com.example.Clock'' \<noteq> None" by code_simp
  then obtain i where i: "map_of (g_instances sample_boot) ''com.example.Clock'' = Some i" by blast
  have "\<not> g_pending sample_boot" "''com.example.Clock'' \<notin> set (st_disabled (g_store sample_boot))" by code_simp+
  with manager_in_step [OF sample_boot_reach i] i show ?thesis by blast
qed

text \<open>C28. An extension is blamed for crashes exactly when it was running as the shell crashed in the last two sessions, in
  whatever order extensions ran in the sessions before; and when the shell then comes up, it is turned off with that
  problem, does not run, and the listing says so.\<close>

theorem blamed_after_two_crashes:
  fixes st :: store
  assumes "after_sessions history = (saved, restarted)" and "found_ok found"
  defines "g \<equiv> boot restarted saved st found"
  shows "(ext \<in> set (culprits (crash_guard restarted saved)) \<longleftrightarrow> 2 \<le> crashes_in_a_row ext history) \<and>
    (2 \<le> crashes_in_a_row ext history \<longrightarrow> ext \<in> set (st_disabled (g_store g)) \<and>
       map_of (st_troubles (g_store g)) ext = Some \<lparr>t_kind = Crash_problem, t_detail = []\<rparr> \<and>
       ext \<notin> set (running g) \<and>
       (\<forall>x. x_id x = ext \<longrightarrow> listed_state x g \<in> {Crashed, Invalid}))"
proof -
  have iff: "ext \<in> set (culprits (crash_guard restarted saved)) \<longleftrightarrow> 2 \<le> crashes_in_a_row ext history"
    by (auto simp: culprits_iff crash_guard_counts [OF assms(1)])
  have kept: "ext \<in> set (st_disabled (g_store g)) \<and>
      map_of (st_troubles (g_store g)) ext = Some \<lparr>t_kind = Crash_problem, t_detail = []\<rparr>"
    if "ext \<in> set (culprits (crash_guard restarted saved))"
    unfolding g_def using that by (rule boot_keeps_off)
  have settled: "settled g" and one: "one_each g"
    using boot_settled [OF assms(2)] manager_ok_boot [OF assms(2)] unfolding g_def by (simp_all add: manager_ok_def instances_one)
  have "ext \<notin> set (running g) \<and> (\<forall>x. x_id x = ext \<longrightarrow> listed_state x g \<in> {Crashed, Invalid})"
    if "ext \<in> set (culprits (crash_guard restarted saved))"
    using kept [OF that] settled
    by (auto simp: running_iff [OF one] settled_def listed_state_def split: option.split)
  with iff kept show ?thesis by blast
qed

theorem blamed_after_two_crashes_witness:
  "''a'' \<in> set (culprits (crash_guard True (fst (after_sessions [([''b'', ''a''], True), ([''a''], True), ([''a'', ''b''], False)])))) \<and>
   ''a'' \<notin> set (running (boot True (fst (after_sessions [([''b'', ''a''], True), ([''a''], True), ([''a'', ''b''], False)])) empty_store sample_found))"
proof -
  have "after_sessions [([''b'', ''a''], True), ([''a''], True), ([''a'', ''b''], False)] =
      (fst (after_sessions [([''b'', ''a''], True), ([''a''], True), ([''a'', ''b''], False)]), True)" by code_simp
  from blamed_after_two_crashes [OF this sample_found_ok, where ext = "''a''" and st = empty_store]
  show ?thesis by simp
qed





section \<open>Where the code does not do what it means to\<close>

text \<open>
  A load of a run that is over: the instance guards its own run against it, the manager does
  not, and turns off the extension with the error of the old run, the new run included.
\<close>

theorem late_failure_stops_newer_run:
  assumes "map_of (g_instances g) ext = Some i" and "i_object i = obj" and "i_scope i = Some newer" and "newer \<noteq> older"
  shows "map_of (g_instances (load_failed ext obj older message g)) ext = Some (i\<lparr>i_scope := None\<rparr>) \<and>
    ext \<in> set (st_disabled (g_store (load_failed ext obj older message g)))"
  using assms by (simp add: load_failed_def failed_def keep_off_def)

text \<open>What erasing an extension does with what it stored: the run stops after the values were forgotten.\<close>

definition erase_stored :: "((string \<times> 'v) list \<Rightarrow> string) \<Rightarrow> ('v stored \<Rightarrow> 'v stored) \<Rightarrow> 'v stored \<Rightarrow> 'v stored" where
  "erase_stored encode cleanup sv = stored_flush encode (cleanup (stored_forget sv))"

theorem cleanup_brings_file_back:
  assumes "\<And>vs. decode (encode vs) = Some vs" and "length (encode [(key, v)]) \<le> LIMIT_BYTES"
  shows "sv_file (erase_stored encode (\<lambda>sv. otherwise (stored_set encode decode key v sv) sv) sv) = Some (encode [(key, v)])"
  using assms by (simp add: erase_stored_def stored_forget_def stored_set_def stored_flush_def stored_write_def Let_def)

end
