(* ===== verification/Board_Geometry.thy ===== *)
theory Board_Geometry
  imports Tiling_Geometry
begin

text \<open>
  The geometry of the board, a canvas of windows seen through a view
  (\<^verbatim>\<open>kestrel/ui/src/desktop/board/view/geometry.ts\<close>): views, free spots, pushing windows apart,
  snapping, and what becomes of the windows when the board is left.

  Distances are compared by their squares, and so is the cone of \<^verbatim>\<open>nearestInDirection\<close>, whose
  slope is the root of three.  An infinite bound that is not reached is \<open>None\<close>.
\<close>

section \<open>Views\<close>

record view =
  w_x :: number
  w_y :: number
  w_scale :: number

definition MIN_SCALE :: number where "MIN_SCALE = 8 / 100"
definition FULL_SIZE :: number where "FULL_SIZE = 1"
definition PLACEMENT_GAP :: number where "PLACEMENT_GAP = 32"
definition MAGNIFIED_FILL :: number where "MAGNIFIED_FILL = 9 / 10"

definition clampScale :: "number \<Rightarrow> number \<Rightarrow> number" where
  "clampScale scale most = max MIN_SCALE (min most scale)"

definition magnifiedScale :: "box \<Rightarrow> box \<Rightarrow> number" where
  "magnifiedScale box viewport = max FULL_SIZE (MAGNIFIED_FILL * min (b_w viewport / b_w box) (b_h viewport / b_h box))"

definition zoomAround :: "view \<Rightarrow> box \<Rightarrow> number \<Rightarrow> number \<Rightarrow> number \<Rightarrow> view" where
  "zoomAround v viewport scale sx sy = (let ox = sx - b_x viewport; oy = sy - b_y viewport in
    \<lparr>w_x = w_x v + (ox / w_scale v - ox / scale), w_y = w_y v + (oy / w_scale v - oy / scale), w_scale = scale\<rparr>)"

definition centerOn :: "view \<Rightarrow> box \<Rightarrow> box \<Rightarrow> number \<Rightarrow> view" where
  "centerOn v viewport box amount = v\<lparr>
    w_x := w_x v + (b_x box + b_w box / 2 - b_w viewport / 2 / w_scale v - w_x v) * amount,
    w_y := w_y v + (b_y box + b_h box / 2 - b_h viewport / 2 / w_scale v - w_y v) * amount\<rparr>"

definition fitView :: "box \<Rightarrow> box \<Rightarrow> number \<Rightarrow> view" where
  "fitView bounds viewport padding = (let
     scale = clampScale (min ((b_w viewport - 2 * padding) / max 1 (b_w bounds)) ((b_h viewport - 2 * padding) / max 1 (b_h bounds))) FULL_SIZE
   in \<lparr>w_x = b_x bounds + b_w bounds / 2 - b_w viewport / 2 / scale,
       w_y = b_y bounds + b_h bounds / 2 - b_h viewport / 2 / scale, w_scale = scale\<rparr>)"

definition screenBox :: "view \<Rightarrow> box \<Rightarrow> box \<Rightarrow> box" where
  "screenBox v viewport box = \<lparr>b_x = b_x viewport + (b_x box - w_x v) * w_scale v,
     b_y = b_y viewport + (b_y box - w_y v) * w_scale v, b_w = b_w box * w_scale v, b_h = b_h box * w_scale v\<rparr>"

fun bounds_from :: "(number \<times> number \<times> number \<times> number) option \<Rightarrow> box list \<Rightarrow> (number \<times> number \<times> number \<times> number) option" where
  "bounds_from ends [] = ends"
| "bounds_from None (b # bs) = bounds_from (Some (b_x b, b_y b, b_x b + b_w b, b_y b + b_h b)) bs"
| "bounds_from (Some (l, t, r, d)) (b # bs) =
    bounds_from (Some (min l (b_x b), min t (b_y b), max r (b_x b + b_w b), max d (b_y b + b_h b))) bs"

definition boundsOf :: "box list \<Rightarrow> box option" where
  "boundsOf boxes = (case bounds_from None boxes of
      None \<Rightarrow> None
    | Some (l, t, r, d) \<Rightarrow> Some \<lparr>b_x = l, b_y = t, b_w = r - l, b_h = d - t\<rparr>)"

section \<open>Neighbours\<close>

definition SIDEWAYS_WEIGHT :: number where "SIDEWAYS_WEIGHT = 2"

definition toward :: "box \<Rightarrow> number \<Rightarrow> number \<Rightarrow> box \<Rightarrow> number option" where
  "toward here dx dy box = (let
      ox = b_x box + b_w box / 2 - (b_x here + b_w here / 2);
      oy = b_y box + b_h box / 2 - (b_y here + b_h here / 2);
      forth = ox * dx + oy * dy; sideways = \<bar>ox * dy - oy * dx\<bar>
    in if forth \<le> 0 \<or> sideways * sideways > 3 * (forth * forth) then None else Some (forth + sideways * SIDEWAYS_WEIGHT))"

fun nearest_from :: "box \<Rightarrow> number \<Rightarrow> number \<Rightarrow> nat \<Rightarrow> (nat \<times> number) option \<Rightarrow> box list \<Rightarrow> (nat \<times> number) option" where
  "nearest_from here dx dy i best [] = best"
| "nearest_from here dx dy i best (b # bs) = nearest_from here dx dy (Suc i)
    (case toward here dx dy b of
       None \<Rightarrow> best
     | Some s \<Rightarrow> (case best of None \<Rightarrow> Some (i, s) | Some (j, t) \<Rightarrow> if s < t then Some (i, s) else best)) bs"

text \<open>\<open>None\<close> is -1.\<close>

definition nearestInDirection :: "box \<Rightarrow> box list \<Rightarrow> number \<Rightarrow> number \<Rightarrow> nat option" where
  "nearestInDirection here candidates dx dy = map_option fst (nearest_from here dx dy 0 None candidates)"

section \<open>Overlaps\<close>

definition intersection :: "box \<Rightarrow> box \<Rightarrow> number" where
  "intersection a b = (let
      width = min (b_x a + b_w a) (b_x b + b_w b) - max (b_x a) (b_x b);
      height = min (b_y a + b_h a) (b_y b + b_h b) - max (b_y a) (b_y b)
    in if width > 0 \<and> height > 0 then width * height else 0)"

definition overlaps :: "box \<Rightarrow> box \<Rightarrow> number \<Rightarrow> bool" where
  "overlaps a b gap \<longleftrightarrow> b_x a < b_x b + b_w b + gap \<and> b_x b < b_x a + b_w a + gap \<and>
    b_y a < b_y b + b_h b + gap \<and> b_y b < b_y a + b_h a + gap"

definition pushOut :: "box \<Rightarrow> number \<Rightarrow> box \<Rightarrow> box" where
  "pushOut fixed gap moving = (let
      right = b_x fixed + b_w fixed + gap - b_x moving;
      left = b_x moving + b_w moving + gap - b_x fixed;
      down = b_y fixed + b_h fixed + gap - b_y moving;
      up = b_y moving + b_h moving + gap - b_y fixed
    in if min right left \<le> min down up
       then moving\<lparr>b_x := b_x moving + (if right \<le> left then right else - left)\<rparr>
       else moving\<lparr>b_y := b_y moving + (if down \<le> up then down else - up)\<rparr>)"

text \<open>One turn of the loop: the box \<open>p\<close> pushes the others away, and whoever moved waits for its turn.\<close>

fun push_each :: "nat \<Rightarrow> nat \<Rightarrow> number \<Rightarrow> nat list \<Rightarrow> box list \<Rightarrow> box list \<times> nat list" where
  "push_each p anchor gap [] boxes = (boxes, [])"
| "push_each p anchor gap (i # is) boxes =
    (if i = anchor \<or> i = p \<or> \<not> overlaps (boxes ! p) (boxes ! i) gap then push_each p anchor gap is boxes
     else (let (boxes', queue) = push_each p anchor gap is (boxes[i := pushOut (boxes ! p) gap (boxes ! i)]) in (boxes', i # queue)))"

fun push_loop :: "nat \<Rightarrow> nat \<Rightarrow> number \<Rightarrow> nat list \<Rightarrow> box list \<Rightarrow> box list \<times> nat list" where
  "push_loop 0 anchor gap queue boxes = (boxes, queue)"
| "push_loop (Suc budget) anchor gap [] boxes = (boxes, [])"
| "push_loop (Suc budget) anchor gap (p # queue) boxes =
    (let (boxes', pushed) = push_each p anchor gap [0..<length boxes] boxes
     in push_loop budget anchor gap (queue @ pushed) boxes')"

definition pushApart :: "box list \<Rightarrow> nat \<Rightarrow> number \<Rightarrow> box list" where
  "pushApart boxes anchor gap = fst (push_loop (length boxes * length boxes * 4) anchor gap [anchor] boxes)"

section \<open>Free spots\<close>

definition spot_box :: "number \<Rightarrow> number \<Rightarrow> number \<times> number \<Rightarrow> box" where
  "spot_box width height p = \<lparr>b_x = fst p, b_y = snd p, b_w = width, b_h = height\<rparr>"

definition spot_distance :: "number \<Rightarrow> number \<Rightarrow> number \<Rightarrow> number \<Rightarrow> number \<times> number \<Rightarrow> number" where
  "spot_distance width height cx cy p = (fst p + width / 2 - cx)\<^sup>2 + (snd p + height / 2 - cy)\<^sup>2"

definition spots_beside :: "number \<Rightarrow> number \<Rightarrow> number \<Rightarrow> number \<times> number \<Rightarrow> box \<Rightarrow> (number \<times> number) list" where
  "spots_beside width height gap wanted b = (let
      xs = [b_x b + b_w b + gap, b_x b - width - gap, b_x b, b_x b + b_w b - width, fst wanted];
      ys = [b_y b + b_h b + gap, b_y b - height - gap, b_y b, b_y b + b_h b - height, snd wanted]
    in concat (map (\<lambda>x. map (\<lambda>y. (x, y)) ys) xs))"

definition clear :: "box list \<Rightarrow> number \<Rightarrow> box \<Rightarrow> bool" where
  "clear occupied gap b \<longleftrightarrow> \<not> list_ex (\<lambda>other. overlaps other b gap) occupied"

fun consider_spots :: "(number \<times> number \<Rightarrow> bool) \<Rightarrow> (number \<times> number \<Rightarrow> number) \<Rightarrow> (number \<times> number) option \<Rightarrow>
    (number \<times> number) list \<Rightarrow> (number \<times> number) option" where
  "consider_spots free distance best [] = best"
| "consider_spots free distance best (p # ps) = consider_spots free distance
    (if free p \<and> (case best of None \<Rightarrow> True | Some q \<Rightarrow> distance p < distance q) then Some p else best) ps"

definition freeSpot :: "box list \<Rightarrow> number \<Rightarrow> number \<Rightarrow> number \<Rightarrow> number \<Rightarrow> number \<Rightarrow> number \<times> number" where
  "freeSpot occupied width height cx cy gap = (let
      wanted = (of_int (round (cx - width / 2)), of_int (round (cy - height / 2)))
    in if clear occupied gap (spot_box width height wanted) then wanted
       else otherwise (consider_spots (\<lambda>p. clear occupied (gap - 1/2) (spot_box width height p)) (spot_distance width height cx cy) None
         (concat (map (spots_beside width height gap wanted) occupied))) wanted)"

fun settle_from :: "number \<Rightarrow> box list \<Rightarrow> box list \<Rightarrow> box list" where
  "settle_from gap placed [] = placed"
| "settle_from gap placed (b # bs) = settle_from gap (placed @
    [if clear placed (gap - 1/2) b then b
     else (let p = freeSpot placed (b_w b) (b_h b) (b_x b + b_w b / 2) (b_y b + b_h b / 2) gap in b\<lparr>b_x := fst p, b_y := snd p\<rparr>)]) bs"

definition settle_boxes :: "box list \<Rightarrow> number \<Rightarrow> box list" where
  "settle_boxes boxes gap = settle_from gap [] boxes"

section \<open>Snapping\<close>

fun nearer_shift :: "number \<times> number \<Rightarrow> number list \<Rightarrow> number \<times> number" where
  "nearer_shift best [] = best"
| "nearer_shift (least, shift) (s # ss) = nearer_shift (if \<bar>s\<bar> < least then (\<bar>s\<bar>, s) else (least, shift)) ss"

definition shifts :: "number \<Rightarrow> number \<Rightarrow> number \<Rightarrow> number \<Rightarrow> number list" where
  "shifts other_at other_long moving_at moving_long =
    [other_at + other_long - moving_at, other_at - moving_at - moving_long, other_at - moving_at,
     other_at + other_long - moving_at - moving_long]"

definition beside :: "number \<Rightarrow> number \<Rightarrow> number \<Rightarrow> number \<Rightarrow> number \<Rightarrow> bool" where
  "beside threshold moving_at moving_long other_at other_long \<longleftrightarrow>
    moving_at < other_at + other_long + threshold \<and> other_at < moving_at + moving_long + threshold"

fun snap_from :: "number \<Rightarrow> box \<Rightarrow> box list \<Rightarrow> (number \<times> number) \<times> (number \<times> number) \<Rightarrow> (number \<times> number) \<times> (number \<times> number)" where
  "snap_from threshold moving [] best = best"
| "snap_from threshold moving (b # bs) (bx, byy) = snap_from threshold moving bs
    ((if beside threshold (b_y moving) (b_h moving) (b_y b) (b_h b) then nearer_shift bx (shifts (b_x b) (b_w b) (b_x moving) (b_w moving)) else bx),
     (if beside threshold (b_x moving) (b_w moving) (b_x b) (b_w b) then nearer_shift byy (shifts (b_y b) (b_h b) (b_y moving) (b_h moving)) else byy))"

definition snapEdges :: "box \<Rightarrow> box list \<Rightarrow> number \<Rightarrow> box" where
  "snapEdges moving others threshold = (let ((_, sx), (_, sy)) = snap_from threshold moving others ((threshold, 0), (threshold, 0))
    in moving\<lparr>b_x := b_x moving + sx, b_y := b_y moving + sy\<rparr>)"

section \<open>Leaving the board\<close>

record 'k exit_plan =
  e_placed :: "('k \<times> box) list"
  e_minimized :: "'k list"
  e_maximized :: "'k option"

definition VISIBLE_FRACTION :: number where "VISIBLE_FRACTION = 1/2"
definition FILLING_FRACTION :: number where "FILLING_FRACTION = 6 / 10"

definition fits_view :: "view \<Rightarrow> box \<Rightarrow> box \<Rightarrow> number \<Rightarrow> bool" where
  "fits_view v box viewport padding \<longleftrightarrow> (let fitted = fitView box viewport padding in
    \<bar>w_scale fitted - w_scale v\<bar> < 5 / 1000 \<and> \<bar>w_x fitted - w_x v\<bar> * w_scale v < 2 \<and> \<bar>w_y fitted - w_y v\<bar> * w_scale v < 2)"

definition kept_inside :: "box \<Rightarrow> box \<Rightarrow> box \<Rightarrow> box" where
  "kept_inside area screen box = (let width = min (b_w box) (b_w area); height = min (b_h box) (b_h area);
      cx = b_x screen + b_w screen / 2; cy = b_y screen + b_h screen / 2
    in \<lparr>b_x = of_int (round (max (b_x area) (min (cx - width / 2) (b_x area + b_w area - width)))),
        b_y = of_int (round (max (b_y area) (min (cy - height / 2) (b_y area + b_h area - height)))),
        b_w = width, b_h = height\<rparr>)"

fun exit_each :: "view \<Rightarrow> box \<Rightarrow> box \<Rightarrow> 'k option \<Rightarrow> ('k \<times> box) list \<Rightarrow> 'k exit_plan \<Rightarrow> 'k exit_plan" where
  "exit_each v viewport area fitted [] plan = plan"
| "exit_each v viewport area fitted ((key, box) # windows) plan = exit_each v viewport area fitted windows
    (if Some key = fitted then plan
     else (let screen = screenBox v viewport box; visible = intersection screen viewport in
       if e_maximized plan = None \<and> visible \<ge> b_w viewport * b_h viewport * FILLING_FRACTION then plan\<lparr>e_maximized := Some key\<rparr>
       else if visible < b_w screen * b_h screen * VISIBLE_FRACTION then plan\<lparr>e_minimized := e_minimized plan @ [key]\<rparr>
       else plan\<lparr>e_placed := e_placed plan @ [(key, kept_inside area screen box)]\<rparr>))"

definition planExit :: "('k \<times> box) list \<Rightarrow> view \<Rightarrow> box \<Rightarrow> box \<Rightarrow> 'k option \<Rightarrow> 'k exit_plan" where
  "planExit windows v viewport area fitted = (let
      plan = exit_each v viewport area fitted windows \<lparr>e_placed = [], e_minimized = [], e_maximized = fitted\<rparr>
    in if e_maximized plan \<noteq> None then plan\<lparr>e_minimized := e_minimized plan @ map fst (e_placed plan), e_placed := []\<rparr> else plan)"

section \<open>Pushing apart\<close>

lemma overlaps_sym: "overlaps a b gap \<longleftrightarrow> overlaps b a gap"
  by (auto simp: overlaps_def)

lemma pushOut_size [simp]: "b_w (pushOut f gap m) = b_w m" "b_h (pushOut f gap m) = b_h m"
  by (simp_all add: pushOut_def Let_def)

lemma pushOut_clear: "\<not> overlaps f (pushOut f gap m) gap"
  by (auto simp: pushOut_def overlaps_def Let_def)

lemma push_each_length [simp]: "length (fst (push_each p anchor gap is boxes)) = length boxes"
  by (induction p anchor gap "is" boxes rule: push_each.induct) (auto simp: split_beta Let_def)

lemma push_each_keeps:
  "j = anchor \<or> j = p \<or> j \<notin> set is \<Longrightarrow> fst (push_each p anchor gap is boxes) ! j = boxes ! j"
  by (induction p anchor gap "is" boxes rule: push_each.induct) (auto simp: split_beta Let_def)

lemma push_each_size: "b_w (fst (push_each p anchor gap is boxes) ! j) = b_w (boxes ! j) \<and> b_h (fst (push_each p anchor gap is boxes) ! j) = b_h (boxes ! j)"
proof (induction p anchor gap "is" boxes rule: push_each.induct)
  case (2 p anchor gap i "is" boxes)
  have "b_w (boxes[i := pushOut (boxes ! p) gap (boxes ! i)] ! j) = b_w (boxes ! j) \<and>
      b_h (boxes[i := pushOut (boxes ! p) gap (boxes ! i)] ! j) = b_h (boxes ! j)"
    by (cases "i < length boxes"; cases "i = j") (simp_all add: not_less list_update_beyond)
  with 2 show ?case by (auto simp: split_beta Let_def)
qed simp

text \<open>A box that is not queued has not moved, and every other box that was looked at is clear of the one that pushed.\<close>

lemma push_each_unmoved: "distinct is \<Longrightarrow> j \<notin> set (snd (push_each p anchor gap is boxes)) \<Longrightarrow> fst (push_each p anchor gap is boxes) ! j = boxes ! j"
  by (induction p anchor gap "is" boxes rule: push_each.induct) (auto simp: split_beta Let_def)

lemma push_each_clear:
  "distinct is \<Longrightarrow> set is \<subseteq> {..<length boxes} \<Longrightarrow> p < length boxes \<Longrightarrow> j \<in> set is \<Longrightarrow> j \<noteq> anchor \<Longrightarrow> j \<noteq> p \<Longrightarrow>
    \<not> overlaps (boxes ! p) (fst (push_each p anchor gap is boxes) ! j) gap"
proof (induction p anchor gap "is" boxes rule: push_each.induct)
  case (2 p anchor gap i "is" boxes)
  show ?case
  proof (cases "i = anchor \<or> i = p \<or> \<not> overlaps (boxes ! p) (boxes ! i) gap")
    case True
    show ?thesis
    proof (cases "j = i")
      case True': True
      with 2 True have "\<not> overlaps (boxes ! p) (boxes ! i) gap" by auto
      with True True' 2 show ?thesis by (simp add: push_each_keeps)
    next
      case False
      with True 2 show ?thesis by auto
    qed
  next
    case False
    let ?boxes = "boxes[i := pushOut (boxes ! p) gap (boxes ! i)]"
    have p: "?boxes ! p = boxes ! p" using False by auto
    show ?thesis
    proof (cases "j = i")
      case True
      with 2 have "fst (push_each p anchor gap is ?boxes) ! j = pushOut (boxes ! p) gap (boxes ! i)"
        by (simp add: push_each_keeps)
      with False show ?thesis by (simp add: split_beta Let_def pushOut_clear)
    next
      case j: False
      with 2 False p have "\<not> overlaps (?boxes ! p) (fst (push_each p anchor gap is ?boxes) ! j) gap"
        by (intro 2(2)) auto
      with False p show ?thesis by (simp add: split_beta Let_def)
    qed
  qed
qed simp

text \<open>Every pair of boxes besides the anchor that overlaps has one that waits for its turn.\<close>

definition pending_overlaps :: "nat \<Rightarrow> number \<Rightarrow> nat list \<Rightarrow> box list \<Rightarrow> bool" where
  "pending_overlaps anchor gap queue boxes \<longleftrightarrow> (\<forall>i < length boxes. \<forall>j < length boxes.
    i \<noteq> j \<longrightarrow> i \<noteq> anchor \<longrightarrow> j \<noteq> anchor \<longrightarrow> overlaps (boxes ! i) (boxes ! j) gap \<longrightarrow> i \<in> set queue \<or> j \<in> set queue)"

lemma push_each_pending:
  assumes "pending_overlaps anchor gap (p # queue) boxes" and "p < length boxes"
    and "push_each p anchor gap [0..<length boxes] boxes = (boxes', pushed)"
  shows "pending_overlaps anchor gap (queue @ pushed) boxes'"
  unfolding pending_overlaps_def
proof (intro allI impI)
  fix i j assume ij: "i < length boxes'" "j < length boxes'" "i \<noteq> j" "i \<noteq> anchor" "j \<noteq> anchor" "overlaps (boxes' ! i) (boxes' ! j) gap"
  have b: "boxes' = fst (push_each p anchor gap [0..<length boxes] boxes)" "pushed = snd (push_each p anchor gap [0..<length boxes] boxes)"
    using assms(3) by simp_all
  have len: "length boxes' = length boxes" by (simp add: b(1))
  have pp: "boxes' ! p = boxes ! p" by (simp add: b(1) push_each_keeps)
  have clear: "\<not> overlaps (boxes ! p) (boxes' ! k) gap" if "k < length boxes" "k \<noteq> anchor" "k \<noteq> p" for k
    unfolding b(1) using that assms(2) by (intro push_each_clear) auto
  show "i \<in> set (queue @ pushed) \<or> j \<in> set (queue @ pushed)"
  proof (rule ccontr)
    assume "\<not> (i \<in> set (queue @ pushed) \<or> j \<in> set (queue @ pushed))"
    then have out: "i \<notin> set queue" "j \<notin> set queue" "i \<notin> set pushed" "j \<notin> set pushed" by auto
    then have same: "boxes' ! i = boxes ! i" "boxes' ! j = boxes ! j"
      unfolding b by (simp_all add: push_each_unmoved)
    with ij len assms(1) out(1,2) have "i = p \<or> j = p" unfolding pending_overlaps_def by (metis set_ConsD)
    with ij len pp same clear [of i] clear [of j] show False by (auto simp: overlaps_sym)
  qed
qed

lemma push_each_pushed: "set (snd (push_each p anchor gap is boxes)) \<subseteq> set is"
  by (induction p anchor gap "is" boxes rule: push_each.induct) (auto simp: split_beta Let_def)

lemma push_loop_rest:
  "push_loop budget anchor gap queue boxes = (boxes', left) \<Longrightarrow>
    length boxes' = length boxes \<and> boxes' ! anchor = boxes ! anchor \<and>
    (\<forall>j. b_w (boxes' ! j) = b_w (boxes ! j) \<and> b_h (boxes' ! j) = b_h (boxes ! j))"
proof (induction budget anchor gap queue boxes arbitrary: boxes' left rule: push_loop.induct)
  case (3 budget anchor gap p queue boxes)
  let ?r = "push_each p anchor gap [0..<length boxes] boxes"
  from "3.prems" have "push_loop budget anchor gap (queue @ snd ?r) (fst ?r) = (boxes', left)" by (simp add: split_beta Let_def)
  from "3.IH" [OF _ refl this] show ?case by (simp add: push_each_keeps push_each_size)
qed simp_all

lemma push_loop_apart:
  "pending_overlaps anchor gap queue boxes \<Longrightarrow> set queue \<subseteq> {..<length boxes} \<Longrightarrow>
    push_loop budget anchor gap queue boxes = (boxes', []) \<Longrightarrow> pending_overlaps anchor gap [] boxes'"
proof (induction budget anchor gap queue boxes arbitrary: boxes' rule: push_loop.induct)
  case (3 budget anchor gap p queue boxes)
  let ?r = "push_each p anchor gap [0..<length boxes] boxes"
  from "3.prems" have loop: "push_loop budget anchor gap (queue @ snd ?r) (fst ?r) = (boxes', [])" by (simp add: split_beta Let_def)
  have "pending_overlaps anchor gap (queue @ snd ?r) (fst ?r)"
    using "3.prems" by (intro push_each_pending) auto
  moreover have "set (queue @ snd ?r) \<subseteq> {..<length (fst ?r)}"
    using "3.prems"(2) push_each_pushed [of p anchor gap "[0..<length boxes]" boxes] by auto
  ultimately show ?case using "3.IH" [OF _ refl _ _ loop] by simp
qed simp_all

text \<open>Nothing moves while nothing overlaps the anchor.\<close>

lemma push_each_nothing: "(\<And>i. i \<in> set is \<Longrightarrow> i \<noteq> anchor \<Longrightarrow> i \<noteq> p \<Longrightarrow> \<not> overlaps (boxes ! p) (boxes ! i) gap) \<Longrightarrow> push_each p anchor gap is boxes = (boxes, [])"
  by (induction "is") auto

lemma push_loop_empty [simp]: "push_loop budget anchor gap [] boxes = (boxes, [])"
  by (cases budget) auto

lemma pushApart_nothing:
  assumes "\<And>i. i < length boxes \<Longrightarrow> i \<noteq> anchor \<Longrightarrow> \<not> overlaps (boxes ! anchor) (boxes ! i) gap"
  shows "pushApart boxes anchor gap = boxes"
proof -
  have "push_each anchor anchor gap [0..<length boxes] boxes = (boxes, [])"
    using assms by (intro push_each_nothing) auto
  then have "fst (push_loop budget anchor gap [anchor] boxes) = boxes" for budget
    by (cases budget) auto
  then show ?thesis by (simp add: pushApart_def)
qed

section \<open>Free spots\<close>

lemma consider_result:
  assumes "consider_spots free distance best ps = Some q"
  shows "(Some q = best \<or> q \<in> set ps \<and> free q) \<and> (\<forall>p \<in> set ps. free p \<longrightarrow> distance q \<le> distance p) \<and>
    (\<forall>p. best = Some p \<longrightarrow> distance q \<le> distance p)"
  using assms
proof (induction free distance best ps rule: consider_spots.induct)
  case (2 free distance best p ps)
  let ?take = "free p \<and> (case best of None \<Rightarrow> True | Some q \<Rightarrow> distance p < distance q)"
  show ?case
  proof (cases ?take)
    case True
    with 2 have "(Some q = Some p \<or> q \<in> set ps \<and> free q) \<and> (\<forall>p \<in> set ps. free p \<longrightarrow> distance q \<le> distance p) \<and> distance q \<le> distance p"
      by simp
    with True show ?thesis by (auto split: option.splits)
  next
    case False
    with 2 have "(Some q = best \<or> q \<in> set ps \<and> free q) \<and> (\<forall>p \<in> set ps. free p \<longrightarrow> distance q \<le> distance p) \<and>
        (\<forall>p. best = Some p \<longrightarrow> distance q \<le> distance p)"
      by simp
    with False show ?thesis by (auto split: option.splits)
  qed
qed simp

lemma consider_None: "consider_spots free distance best ps = None \<longleftrightarrow> best = None \<and> (\<forall>p \<in> set ps. \<not> free p)"
  by (induction free distance best ps rule: consider_spots.induct) auto

lemma clear_iff: "clear occupied gap b \<longleftrightarrow> (\<forall>other \<in> set occupied. \<not> overlaps other b gap)"
  by (simp add: clear_def list_ex_iff)

lemma clear_less: "clear occupied gap b \<Longrightarrow> gap' \<le> gap \<Longrightarrow> clear occupied gap' b"
  by (force simp: clear_iff overlaps_def)

text \<open>Right of the box that reaches farthest to the right there is room.\<close>

lemma some_spot_clear:
  assumes "occupied \<noteq> []"
  shows "\<exists>p \<in> set (concat (map (spots_beside width height gap wanted) occupied)). clear occupied (gap - 1/2) (spot_box width height p)"
proof -
  let ?ends = "(\<lambda>b. b_x b + b_w b) ` set occupied"
  have "Max ?ends \<in> ?ends" using assms by (intro Max_in) auto
  then obtain b where b: "b \<in> set occupied" "b_x b + b_w b = Max ?ends" by auto
  have most: "b_x other + b_w other \<le> b_x b + b_w b" if "other \<in> set occupied" for other
    using that unfolding b(2) by (intro Max_ge) auto
  let ?p = "(b_x b + b_w b + gap, snd wanted)"
  have "?p \<in> set (concat (map (spots_beside width height gap wanted) occupied))"
    using b(1) by (auto simp: spots_beside_def Let_def)
  moreover have "clear occupied (gap - 1/2) (spot_box width height ?p)"
    using most by (force simp: clear_iff overlaps_def spot_box_def)
  ultimately show ?thesis by blast
qed

lemma freeSpot_clear: "clear occupied (gap - 1/2) (spot_box width height (freeSpot occupied width height cx cy gap))"
proof -
  let ?wanted = "(of_int (round (cx - width / 2)), of_int (round (cy - height / 2)))"
  show ?thesis
  proof (cases "clear occupied gap (spot_box width height ?wanted)")
    case True
    then show ?thesis by (simp add: freeSpot_def Let_def clear_less [OF True])
  next
    case False
    then have "occupied \<noteq> []" by (auto simp: clear_iff)
    from some_spot_clear [OF this, of width height gap ?wanted] obtain q where
      q: "consider_spots (\<lambda>p. clear occupied (gap - 1/2) (spot_box width height p)) (spot_distance width height cx cy) None
        (concat (map (spots_beside width height gap ?wanted) occupied)) = Some q"
      by (metis (no_types, lifting) consider_None not_Some_eq)
    from consider_result [OF q] q False show ?thesis by (simp add: freeSpot_def Let_def)
  qed
qed

lemma freeSpot_wanted: "clear occupied gap (spot_box width height (of_int (round (cx - width / 2)), of_int (round (cy - height / 2)))) \<Longrightarrow>
    freeSpot occupied width height cx cy gap = (of_int (round (cx - width / 2)), of_int (round (cy - height / 2)))"
  by (simp add: freeSpot_def Let_def)

lemma freeSpot_nearest:
  assumes "\<not> clear occupied gap (spot_box width height wanted)"
    and "wanted = (of_int (round (cx - width / 2)), of_int (round (cy - height / 2)))"
    and "p \<in> set (concat (map (spots_beside width height gap wanted) occupied))" and "clear occupied (gap - 1/2) (spot_box width height p)"
  shows "spot_distance width height cx cy (freeSpot occupied width height cx cy gap) \<le> spot_distance width height cx cy p"
proof -
  obtain q where q: "consider_spots (\<lambda>p. clear occupied (gap - 1/2) (spot_box width height p)) (spot_distance width height cx cy) None
        (concat (map (spots_beside width height gap wanted) occupied)) = Some q"
    using assms(3,4) by (metis (no_types, lifting) consider_None not_Some_eq)
  with assms(1,2) have "freeSpot occupied width height cx cy gap = q"
    by (simp add: freeSpot_def Let_def)
  with consider_result [OF q] assms(3,4) show ?thesis by blast
qed

section \<open>Settling\<close>

fun all_apart :: "number \<Rightarrow> box list \<Rightarrow> bool" where
  "all_apart gap [] = True"
| "all_apart gap (b # bs) = (list_all (\<lambda>c. \<not> overlaps b c gap) bs \<and> all_apart gap bs)"

lemma all_apart_snoc: "all_apart gap (bs @ [b]) \<longleftrightarrow> all_apart gap bs \<and> clear bs gap b"
  by (induction bs) (auto simp: clear_def list_all_iff list_ex_iff)

lemma settle_from_apart: "all_apart (gap - 1/2) placed \<Longrightarrow> all_apart (gap - 1/2) (settle_from gap placed bs)"
proof (induction gap placed bs rule: settle_from.induct)
  case (2 gap placed b bs)
  let ?p = "freeSpot placed (b_w b) (b_h b) (b_x b + b_w b / 2) (b_y b + b_h b / 2) gap"
  have "b\<lparr>b_x := fst ?p, b_y := snd ?p\<rparr> = spot_box (b_w b) (b_h b) ?p" by (simp add: spot_box_def)
  then have "clear placed (gap - 1/2) (b\<lparr>b_x := fst ?p, b_y := snd ?p\<rparr>)" by (simp add: freeSpot_clear)
  with 2 show ?case by (simp add: all_apart_snoc Let_def)
qed simp

lemma settle_from_sizes: "map (\<lambda>b. (b_w b, b_h b)) (settle_from gap placed bs) = map (\<lambda>b. (b_w b, b_h b)) (placed @ bs)"
  by (induction gap placed bs rule: settle_from.induct) (auto simp: Let_def)

lemma settle_from_idle: "all_apart (gap - 1/2) (placed @ bs) \<Longrightarrow> settle_from gap placed bs = placed @ bs"
proof (induction gap placed bs rule: settle_from.induct)
  case (2 gap placed b bs)
  have "all_apart g (xs @ ys) \<Longrightarrow> all_apart g xs" for g xs ys
    by (induction xs) auto
  from this [of "gap - 1/2" "placed @ [b]" bs] "2.prems" have "clear placed (gap - 1/2) b" by (simp add: all_apart_snoc)
  with 2 show ?case by simp
qed simp

end
