(* ===== verification/Board_Camera.thy ===== *)
theory Board_Camera
  imports Board_Geometry
begin

text \<open>
  The camera of the board (\<^verbatim>\<open>board/view/camera.ts\<close>) and the window it is close to
  (\<^verbatim>\<open>board/windows/focus.ts\<close>).

  A timeline is a state of its own: a tween has the views it goes between, a glide its velocity,
  and their frames are operations.  What comes from \<^verbatim>\<open>Math.pow\<close>, \<^verbatim>\<open>Math.sin\<close>, \<^verbatim>\<open>Math.exp\<close> and
  \<^verbatim>\<open>Math.hypot\<close> is an argument.  Whether animations are on, and the windows with their frames,
  are arguments as well.
\<close>

section \<open>The camera\<close>

definition CAMERA_DURATION :: number where "CAMERA_DURATION = 360"
definition MOMENTUM_MIN_SPEED :: number where "MOMENTUM_MIN_SPEED = 2 / 100"
definition REVEAL_MARGIN :: number where "REVEAL_MARGIN = 32"
definition FULL_SIZE_SNAP :: number where "FULL_SIZE_SNAP = 6 / 100"

record camera =
  c_view :: view
  c_shown :: view
  c_viewport :: box
  c_pixel :: number
  c_engaged :: bool
  c_tween :: "(view \<times> view \<times> number) option"
  c_glide :: "(number \<times> number) option"
  c_group_scale :: number
  c_translation :: "number \<times> number"
  c_settling :: bool

definition stop_camera :: "camera \<Rightarrow> camera" where
  "stop_camera c = c\<lparr>c_tween := None, c_glide := None\<rparr>"

text \<open>What is shown is the view with its translation rounded to pixels.\<close>

definition apply_camera :: "camera \<Rightarrow> camera" where
  "apply_camera c = (let v = c_view c; viewport = c_viewport c; pixel = c_pixel c;
      tx = of_int (round ((b_x viewport - w_x v * w_scale v) / pixel)) * pixel;
      ty = of_int (round ((b_y viewport - w_y v * w_scale v) / pixel)) * pixel
    in c\<lparr>c_shown := \<lparr>w_x = (b_x viewport - tx) / w_scale v, w_y = (b_y viewport - ty) / w_scale v, w_scale = w_scale v\<rparr>,
         c_group_scale := w_scale v, c_translation := (tx, ty), c_settling := True\<rparr>)"

definition engage_camera :: "view \<Rightarrow> number \<Rightarrow> camera \<Rightarrow> camera" where
  "engage_camera v pixel_scale c = apply_camera (c\<lparr>c_engaged := True, c_pixel := 1 / pixel_scale, c_view := v\<rparr>)"

definition release_camera :: "camera \<Rightarrow> camera" where
  "release_camera c = (stop_camera c)\<lparr>c_engaged := False, c_settling := False, c_group_scale := 1, c_translation := (0, 0)\<rparr>"

definition panBy :: "number \<Rightarrow> number \<Rightarrow> camera \<Rightarrow> camera" where
  "panBy dx dy c = (let c' = stop_camera c; v = c_view c' in
    apply_camera (c'\<lparr>c_view := v\<lparr>w_x := w_x v - dx / w_scale v, w_y := w_y v - dy / w_scale v\<rparr>\<rparr>))"

text \<open>The box under the pointer, if there is one, lets the view grow past full size, and moves to the middle as it does.\<close>

definition zoomView :: "box \<Rightarrow> box option \<Rightarrow> view \<Rightarrow> number \<Rightarrow> number \<Rightarrow> number \<Rightarrow> bool \<Rightarrow> view" where
  "zoomView viewport focus v scale sx sy stepped = (let
      ceiling = (case focus of Some b \<Rightarrow> magnifiedScale b viewport | None \<Rightarrow> FULL_SIZE);
      clamped = clampScale scale (max ceiling (w_scale v));
      next_scale = (if stepped \<and> (w_scale v - FULL_SIZE) * (clamped - FULL_SIZE) < 0 then FULL_SIZE else clamped);
      zoomed = zoomAround v viewport next_scale sx sy
    in case focus of
         Some b \<Rightarrow> if next_scale > FULL_SIZE \<and> ceiling > FULL_SIZE
           then centerOn zoomed viewport b (min 1 ((next_scale - FULL_SIZE) / (ceiling - FULL_SIZE))) else zoomed
       | None \<Rightarrow> zoomed)"

definition zoomAt :: "box option \<Rightarrow> number \<Rightarrow> number \<Rightarrow> number \<Rightarrow> number \<Rightarrow> number \<Rightarrow> camera \<Rightarrow> camera" where
  "zoomAt focus scale sx sy dx dy c = (let c' = stop_camera c; v = zoomView (c_viewport c') focus (c_view c') scale sx sy False in
    apply_camera (c'\<lparr>c_view := v\<lparr>w_x := w_x v - dx / w_scale v, w_y := w_y v - dy / w_scale v\<rparr>\<rparr>))"

definition zoomBy :: "box option \<Rightarrow> number \<Rightarrow> number \<Rightarrow> number \<Rightarrow> camera \<Rightarrow> camera" where
  "zoomBy focus factor sx sy c = (let c' = stop_camera c; v = c_view c' in
    apply_camera (c'\<lparr>c_view := zoomView (c_viewport c') focus v (w_scale v * factor) sx sy True\<rparr>))"

definition snapToFullSize :: "box option \<Rightarrow> number \<Rightarrow> number \<Rightarrow> camera \<Rightarrow> camera" where
  "snapToFullSize focus sx sy c = (let scale = w_scale (c_view c) in
    if scale \<noteq> FULL_SIZE \<and> \<bar>scale - FULL_SIZE\<bar> < FULL_SIZE_SNAP then zoomAt focus FULL_SIZE sx sy 0 0 c else c)"

text \<open>\<open>speed\<close> is the length of the velocity.\<close>

definition glide :: "bool \<Rightarrow> number \<Rightarrow> number \<Rightarrow> number \<Rightarrow> camera \<Rightarrow> camera" where
  "glide animations speed vx vy c = (let c' = stop_camera c in
    if \<not> animations \<or> speed < MOMENTUM_MIN_SPEED * 4 then c' else c'\<lparr>c_glide := Some (vx, vy)\<rparr>)"

definition momentum_frame :: "number \<Rightarrow> number \<Rightarrow> number \<Rightarrow> camera \<Rightarrow> camera" where
  "momentum_frame delta decay speed c = (case c_glide c of
      None \<Rightarrow> c
    | Some (vx0, vy0) \<Rightarrow> (let vx = vx0 * decay; vy = vy0 * decay; v = c_view c;
        c' = apply_camera (c\<lparr>c_view := v\<lparr>w_x := w_x v - vx * delta / w_scale v, w_y := w_y v - vy * delta / w_scale v\<rparr>\<rparr>)
      in c'\<lparr>c_glide := (if speed < MOMENTUM_MIN_SPEED then None else Some (vx, vy))\<rparr>))"

definition animateTo :: "bool \<Rightarrow> view \<Rightarrow> number \<Rightarrow> number \<Rightarrow> camera \<Rightarrow> camera" where
  "animateTo animations target duration arc c = (let c' = stop_camera c in
    if \<not> animations \<or> duration \<le> 0 then apply_camera (c'\<lparr>c_view := target\<rparr>)
    else c'\<lparr>c_tween := Some (c_view c', target, arc)\<rparr>)"

text \<open>A frame of the tween: the center moves evenly, the scale is given; the last frame is the target.\<close>

definition tween_frame :: "number \<Rightarrow> number \<Rightarrow> camera \<Rightarrow> camera" where
  "tween_frame progress scale c = (case c_tween c of
      None \<Rightarrow> c
    | Some (start, target, arc) \<Rightarrow>
        if 1 \<le> progress then apply_camera (c\<lparr>c_view := target, c_tween := None\<rparr>)
        else (let viewport = c_viewport c;
            fx = w_x start + b_w viewport / 2 / w_scale start; fy = w_y start + b_h viewport / 2 / w_scale start;
            cx = fx + (w_x target + b_w viewport / 2 / w_scale target - fx) * progress;
            cy = fy + (w_y target + b_h viewport / 2 / w_scale target - fy) * progress
          in apply_camera (c\<lparr>c_view := \<lparr>w_x = cx - b_w viewport / 2 / scale, w_y = cy - b_h viewport / 2 / scale, w_scale = scale\<rparr>\<rparr>)))"

definition reveal_target :: "box \<Rightarrow> view \<Rightarrow> box \<Rightarrow> number \<Rightarrow> view" where
  "reveal_target viewport v box padding = (let
      visible_width = b_w viewport / w_scale v - 2 * REVEAL_MARGIN / w_scale v;
      visible_height = b_h viewport / w_scale v - 2 * REVEAL_MARGIN / w_scale v;
      margin = REVEAL_MARGIN / w_scale v
    in if b_w box > visible_width \<or> b_h box > visible_height then fitView box viewport padding
       else v\<lparr>w_x := min (max (w_x v) (b_x box + b_w box + margin - b_w viewport / w_scale v)) (b_x box - margin),
              w_y := min (max (w_y v) (b_y box + b_h box + margin - b_h viewport / w_scale v)) (b_y box - margin)\<rparr>)"

definition reveal_box :: "bool \<Rightarrow> box \<Rightarrow> number \<Rightarrow> camera \<Rightarrow> camera" where
  "reveal_box animations box padding c = animateTo animations (reveal_target (c_viewport c) (c_view c) box padding) CAMERA_DURATION 0 c"

definition panStep :: "bool \<Rightarrow> number \<Rightarrow> number \<Rightarrow> camera \<Rightarrow> camera" where
  "panStep animations dx dy c = (let v = c_view c; viewport = c_viewport c in
    animateTo animations (v\<lparr>w_x := w_x v + dx * b_w viewport / 3 / w_scale v, w_y := w_y v + dy * b_h viewport / 3 / w_scale v\<rparr>)
      CAMERA_DURATION 0 c)"

definition zoomStep :: "bool \<Rightarrow> box option \<Rightarrow> number \<Rightarrow> camera \<Rightarrow> camera" where
  "zoomStep animations focus factor c = (let v = c_view c; viewport = c_viewport c in
    animateTo animations (zoomView viewport focus v (w_scale v * factor)
      (b_x viewport + b_w viewport / 2) (b_y viewport + b_h viewport / 2) True) CAMERA_DURATION 0 c)"

text \<open>Where the camera is going, or is.\<close>

definition camera_goal :: "camera \<Rightarrow> view" where
  "camera_goal c = (case c_tween c of Some (start, target, arc) \<Rightarrow> target | None \<Rightarrow> c_view c)"

section \<open>The window the camera is close to\<close>

definition FIT_PADDING :: number where "FIT_PADDING = 56"
definition WINDOW_PADDING :: number where "WINDOW_PADDING = 24"
definition DIMMED :: nat where "DIMMED = 184"
definition MAX_ARC :: number where "MAX_ARC = 16 / 100"
definition ARC_REACH :: number where "ARC_REACH = 4"
definition SETTLED :: number where "SETTLED = 1/2"

record 'w desktop_windows =
  d_windows :: "'w list"
  d_frame :: "'w \<Rightarrow> box"
  d_animations :: bool
  d_hypot :: "number \<Rightarrow> number \<Rightarrow> number"

record 'w focus_state =
  f_entered :: "'w option"
  f_overview :: "view option"

text \<open>The state of the canvas the focus is attached to is \<open>None\<close> while it is attached to none.\<close>

record 'w focus =
  o_state :: "'w focus_state option"
  o_watched :: "'w option"
  o_held :: "'w option"
  o_target :: view
  o_camera :: camera

definition entered_window :: "'w focus \<Rightarrow> 'w option" where
  "entered_window fo = Option.bind (o_state fo) f_entered"

text \<open>The opacity of each window: all but the entered one are dimmed.\<close>

definition shade :: "'w focus \<Rightarrow> 'w list \<Rightarrow> ('w \<times> nat) list" where
  "shade fo windows = map (\<lambda>w. (w, if entered_window fo \<noteq> None \<and> Some w \<noteq> entered_window fo then DIMMED else 255)) windows"

definition watch_window :: "'w \<Rightarrow> 'w focus \<Rightarrow> 'w focus" where
  "watch_window w fo = fo\<lparr>o_watched := Some w, o_held := None\<rparr>"

definition unwatch_window :: "'w focus \<Rightarrow> 'w focus" where
  "unwatch_window fo = fo\<lparr>o_watched := None, o_held := None\<rparr>"

definition detach :: "'w focus \<Rightarrow> 'w focus" where
  "detach fo = (if o_state fo = None then fo else (unwatch_window fo)\<lparr>o_state := None\<rparr>)"

definition attach_focus :: "'w focus_state \<Rightarrow> 'w focus \<Rightarrow> 'w focus" where
  "attach_focus s fo = (let fo' = (detach fo)\<lparr>o_state := Some s, o_target := c_view (o_camera fo)\<rparr> in
    case f_entered s of Some w \<Rightarrow> watch_window w fo' | None \<Rightarrow> fo')"

definition fit_window :: "'w desktop_windows \<Rightarrow> 'w \<Rightarrow> bool \<Rightarrow> 'w focus \<Rightarrow> 'w focus" where
  "fit_window d w travelling fo = (let c = o_camera fo; viewport = c_viewport c; v = c_view c;
      target = fitView (d_frame d w) viewport WINDOW_PADDING;
      travel = d_hypot d (w_x target + b_w viewport / 2 / w_scale target - w_x v - b_w viewport / 2 / w_scale v)
        (w_y target + b_h viewport / 2 / w_scale target - w_y v - b_h viewport / 2 / w_scale v) * w_scale v;
      arc = (if travelling then min MAX_ARC (travel / b_w viewport / ARC_REACH) else 0)
    in fo\<lparr>o_target := target, o_camera := animateTo (d_animations d) target CAMERA_DURATION arc c\<rparr>)"

definition enter_window :: "'w desktop_windows \<Rightarrow> 'w \<Rightarrow> view \<Rightarrow> 'w focus \<Rightarrow> 'w focus" where
  "enter_window d w start fo = (case o_state fo of
      None \<Rightarrow> fo
    | Some s \<Rightarrow> (let
        s1 = (if f_entered s = None then s\<lparr>f_overview := Some start\<rparr> else s);
        fo1 = (if f_entered s \<noteq> Some w then watch_window w (fo\<lparr>o_state := Some (s1\<lparr>f_entered := Some w\<rparr>)\<rparr>) else fo\<lparr>o_state := Some s1\<rparr>)
      in fit_window d w (f_entered s \<noteq> None \<and> f_entered s \<noteq> Some w) fo1))"

definition release_window :: "'w focus \<Rightarrow> 'w focus" where
  "release_window fo = (case o_state fo of
      None \<Rightarrow> fo
    | Some s \<Rightarrow>
        if f_entered s = None then fo\<lparr>o_state := Some (s\<lparr>f_overview := None\<rparr>)\<rparr>
        else unwatch_window (fo\<lparr>o_state := Some (s\<lparr>f_overview := None, f_entered := None\<rparr>)\<rparr>))"

definition fit_all :: "'w desktop_windows \<Rightarrow> 'w focus \<Rightarrow> 'w focus" where
  "fit_all d fo = (if o_state fo = None then fo
     else case boundsOf (map (d_frame d) (d_windows d)) of
       None \<Rightarrow> fo
     | Some bounds \<Rightarrow> (let target = fitView bounds (c_viewport (o_camera fo)) FIT_PADDING in
         fo\<lparr>o_target := target, o_camera := animateTo (d_animations d) target CAMERA_DURATION 0 (o_camera fo)\<rparr>))"

definition show_overview :: "'w desktop_windows \<Rightarrow> 'w focus \<Rightarrow> 'w focus" where
  "show_overview d fo = (let back_to = Option.bind (o_state fo) f_overview; fo' = release_window fo in
    case back_to of
      Some v \<Rightarrow> fo'\<lparr>o_camera := animateTo (d_animations d) v CAMERA_DURATION 0 (o_camera fo')\<rparr>
    | None \<Rightarrow> fit_all d fo')"

definition navigate :: "'w desktop_windows \<Rightarrow> number \<Rightarrow> number \<Rightarrow> 'w focus \<Rightarrow> 'w focus \<times> bool" where
  "navigate d dx dy fo = (case entered_window fo of
      None \<Rightarrow> (fo, False)
    | Some w \<Rightarrow> (let others = filter (\<lambda>x. x \<noteq> w) (d_windows d) in
        case nearestInDirection (d_frame d w) (map (d_frame d) others) dx dy of
          None \<Rightarrow> (fo, False)
        | Some i \<Rightarrow> (enter_window d (others ! i) (c_view (o_camera fo)) fo, True)))"

definition grab_began :: "'w \<Rightarrow> 'w focus \<Rightarrow> 'w focus" where
  "grab_began w fo = (if Some w \<noteq> entered_window fo \<or> c_tween (o_camera fo) = None then fo
     else fo\<lparr>o_camera := stop_camera (o_camera fo), o_held := Some w\<rparr>)"

text \<open>What was left to the next redraw is a flag of the answer: whether the camera has to follow.\<close>

definition grab_ended :: "'w desktop_windows \<Rightarrow> 'w \<Rightarrow> 'w focus \<Rightarrow> 'w focus \<times> bool" where
  "grab_ended d w fo = (if Some w \<noteq> entered_window fo then (fo, False)
     else if o_held fo = Some w then ((fit_window d w True fo)\<lparr>o_held := None\<rparr>, False)
     else (fo\<lparr>o_held := None\<rparr>, True))"

definition follow :: "'w desktop_windows \<Rightarrow> 'w option \<Rightarrow> 'w focus \<Rightarrow> 'w focus" where
  "follow d moving fo = (case entered_window fo of
      None \<Rightarrow> fo
    | Some w \<Rightarrow>
        if moving = Some w then fo
        else (let next_view = fitView (d_frame d w) (c_viewport (o_camera fo)) WINDOW_PADDING; target = o_target fo in
          if \<bar>w_scale next_view - w_scale target\<bar> < 1 / 10000 \<and> \<bar>w_x next_view - w_x target\<bar> * w_scale next_view < SETTLED \<and>
            \<bar>w_y next_view - w_y target\<bar> * w_scale next_view < SETTLED then fo
          else fit_window d w False fo))"

section \<open>What the view shows\<close>

lemma clampScale_pos: "0 < clampScale scale most"
  by (simp add: clampScale_def MIN_SCALE_def less_max_iff_disj)

lemma clampScale_range: "MIN_SCALE \<le> most \<Longrightarrow> MIN_SCALE \<le> clampScale scale most \<and> clampScale scale most \<le> most"
  by (auto simp: clampScale_def)

lemma zoomAround_scale [simp]: "w_scale (zoomAround v viewport scale sx sy) = scale"
  by (simp add: zoomAround_def Let_def)

text \<open>The point of the canvas under a point of the screen.\<close>

definition canvas_point :: "view \<Rightarrow> box \<Rightarrow> number \<Rightarrow> number \<Rightarrow> number \<times> number" where
  "canvas_point v viewport sx sy = (w_x v + (sx - b_x viewport) / w_scale v, w_y v + (sy - b_y viewport) / w_scale v)"

lemma zoomAround_point: "canvas_point (zoomAround v viewport scale sx sy) viewport sx sy = canvas_point v viewport sx sy"
  by (simp add: canvas_point_def zoomAround_def Let_def)

lemma fitView_scale: "MIN_SCALE \<le> w_scale (fitView bounds viewport padding) \<and> w_scale (fitView bounds viewport padding) \<le> FULL_SIZE"
  unfolding fitView_def Let_def by (simp add: clampScale_def FULL_SIZE_def MIN_SCALE_def)

lemma fitView_pos: "0 < w_scale (fitView bounds viewport padding)"
  by (simp add: fitView_def Let_def clampScale_pos)

text \<open>The middle of what is fitted is in the middle of the screen.\<close>

lemma fitView_center:
  "w_x (fitView bounds viewport padding) + b_w viewport / 2 / w_scale (fitView bounds viewport padding) = b_x bounds + b_w bounds / 2"
  "w_y (fitView bounds viewport padding) + b_h viewport / 2 / w_scale (fitView bounds viewport padding) = b_y bounds + b_h bounds / 2"
  by (simp_all add: fitView_def Let_def)

lemma scale_fits:
  fixes s width room :: number
  assumes "s \<le> room / max 1 width" "0 \<le> s" "0 \<le> width" shows "width * s \<le> room"
proof -
  have "s * max 1 width \<le> room" using assms(1) by (simp add: pos_le_divide_eq)
  moreover have "width * s \<le> s * max 1 width" using assms(2,3) by (simp add: mult.commute mult_left_mono)
  ultimately show ?thesis by simp
qed

lemma fitView_room:
  assumes "MIN_SCALE \<le> (b_w viewport - 2 * padding) / max 1 (b_w bounds)" "MIN_SCALE \<le> (b_h viewport - 2 * padding) / max 1 (b_h bounds)"
    and "0 \<le> b_w bounds" "0 \<le> b_h bounds"
  shows "b_w bounds * w_scale (fitView bounds viewport padding) \<le> b_w viewport - 2 * padding"
    and "b_h bounds * w_scale (fitView bounds viewport padding) \<le> b_h viewport - 2 * padding"
proof -
  let ?s = "w_scale (fitView bounds viewport padding)"
  have "?s \<le> (b_w viewport - 2 * padding) / max 1 (b_w bounds)" "?s \<le> (b_h viewport - 2 * padding) / max 1 (b_h bounds)"
    using assms(1,2) by (auto simp: fitView_def Let_def clampScale_def min_def max_def)
  with fitView_pos [of bounds viewport padding] assms(3,4)
  show "b_w bounds * ?s \<le> b_w viewport - 2 * padding" "b_h bounds * ?s \<le> b_h viewport - 2 * padding"
    by (auto intro: scale_fits less_imp_le)
qed

text \<open>A box is on the screen with a margin.\<close>

definition shows_with :: "number \<Rightarrow> view \<Rightarrow> box \<Rightarrow> box \<Rightarrow> bool" where
  "shows_with margin v viewport box \<longleftrightarrow> (let s = screenBox v viewport box in
    b_x viewport + margin \<le> b_x s \<and> b_x s + b_w s \<le> b_x viewport + b_w viewport - margin \<and>
    b_y viewport + margin \<le> b_y s \<and> b_y s + b_h s \<le> b_y viewport + b_h viewport - margin)"

lemma side_shows:
  fixes long size at_pos view_at scale vp margin :: number
  assumes "view_at + long / 2 / scale = at_pos + size / 2" "0 < scale" "size * scale \<le> long - 2 * margin"
  shows "vp + margin \<le> vp + (at_pos - view_at) * scale" "vp + (at_pos - view_at) * scale + size * scale \<le> vp + long - margin"
proof -
  have "at_pos - view_at = long / 2 / scale - size / 2" using assms(1) by linarith
  then have "(at_pos - view_at) * scale = (long / 2 / scale - size / 2) * scale" by (rule arg_cong)
  also have "\<dots> = long / 2 - size * scale / 2" using assms(2) by (simp add: left_diff_distrib)
  finally have "(at_pos - view_at) * scale = long / 2 - size * scale / 2" .
  with assms(3) show "vp + margin \<le> vp + (at_pos - view_at) * scale" "vp + (at_pos - view_at) * scale + size * scale \<le> vp + long - margin"
    by linarith+
qed

lemma fitView_shows:
  assumes "MIN_SCALE \<le> (b_w viewport - 2 * padding) / max 1 (b_w bounds)" "MIN_SCALE \<le> (b_h viewport - 2 * padding) / max 1 (b_h bounds)"
    and "0 \<le> b_w bounds" "0 \<le> b_h bounds"
  shows "shows_with padding (fitView bounds viewport padding) viewport bounds"
  unfolding shows_with_def screenBox_def Let_def
  using side_shows [OF fitView_center(1) fitView_pos fitView_room(1) [OF assms], of "b_x viewport"]
    side_shows [OF fitView_center(2) fitView_pos fitView_room(2) [OF assms], of "b_y viewport"]
  by simp

lemma revealed_side:
  fixes v at_pos size long margin scale vp :: number
  assumes "0 < scale" "size \<le> long / scale - 2 * margin / scale"
  defines "x \<equiv> min (max v (at_pos + size + margin / scale - long / scale)) (at_pos - margin / scale)"
  shows "vp + margin \<le> vp + (at_pos - x) * scale" "vp + (at_pos - x) * scale + size * scale \<le> vp + long - margin"
proof -
  have "margin / scale \<le> at_pos - x" by (simp add: x_def)
  then have "margin / scale * scale \<le> (at_pos - x) * scale" using assms(1) by (intro mult_right_mono) auto
  moreover have "margin / scale * scale = margin" using assms(1) by simp
  ultimately show "vp + margin \<le> vp + (at_pos - x) * scale" by linarith
  have "at_pos + size + margin / scale - long / scale \<le> x" using assms(2) by (auto simp: x_def field_simps)
  then have "(at_pos - x + size) * scale \<le> (long / scale - margin / scale) * scale" using assms(1) by (intro mult_right_mono) auto
  then show "vp + (at_pos - x) * scale + size * scale \<le> vp + long - margin"
    using assms(1) by (simp add: algebra_simps)
qed

lemma camera_goal_animateTo [simp]: "camera_goal (animateTo animations target duration arc c) = target"
  by (simp add: animateTo_def camera_goal_def stop_camera_def apply_camera_def Let_def)

end
