(* ===== verification/Board_Windows.thy ===== *)
theory Board_Windows
  imports Board_Camera
begin

text \<open>
  The windows of the board: giving them their sizes back on the way in, laying them out, and
  tucking them away on the way out (\<^verbatim>\<open>board/windows/arrange.ts\<close>), moving one of them against the
  others (\<^verbatim>\<open>board/windows/windows.ts\<close>), the origin X11 windows see (\<^verbatim>\<open>board/windows/x11Origin.ts\<close>)
  and where a new or a released window goes (\<^verbatim>\<open>board/board.ts\<close>).

  Windows have a frame; a move of a window changes it.  The signals of a window are operations.
\<close>

section \<open>Giving sizes back\<close>

datatype 'w window_call =
    Untile 'w | Unminimize 'w | Unfullscreen 'w | Unmaximize 'w | Resize 'w box

record window_state =
  ws_frame :: box
  ws_fullscreen :: bool
  ws_maximized :: bool
  ws_minimized :: bool

definition restore_window :: "(('w \<Rightarrow> window_state) \<times> ('w \<Rightarrow> (number \<times> number) option)) \<Rightarrow> 'w \<Rightarrow> 'w window_call list \<times> bool" where
  "restore_window env w = (let (state, own_size) = env; s = state w; resizing = ws_fullscreen s \<or> ws_maximized s; frame = ws_frame s;
      size = (if resizing then None else own_size w);
      calls = [Untile w] @ (if ws_minimized s then [Unminimize w] else []) @ (if ws_fullscreen s then [Unfullscreen w] else [])
        @ (if ws_maximized s then [Unmaximize w] else [])
    in case size of
         None \<Rightarrow> (calls, resizing)
       | Some (width, height) \<Rightarrow>
           if \<bar>width - b_w frame\<bar> \<le> 1 \<and> \<bar>height - b_h frame\<bar> \<le> 1 then (calls, resizing)
           else (calls @ [Resize w (frame\<lparr>b_w := width, b_h := height\<rparr>)], True))"

text \<open>
  The windows that are waited for, and how often \<^verbatim>\<open>done\<close> was called.  A timer ends the wait.
\<close>

record 'w restoring =
  rs_pending :: "'w list"
  rs_timer :: bool
  rs_done :: nat

definition restore_sizes :: "('w \<Rightarrow> window_state) \<Rightarrow> ('w \<Rightarrow> (number \<times> number) option) \<Rightarrow> 'w list \<Rightarrow> 'w window_call list \<times> 'w restoring" where
  "restore_sizes state own_size windows = (let
      pending = filter (\<lambda>w. snd (restore_window (state, own_size) w)) windows
    in (concat (map (\<lambda>w. fst (restore_window (state, own_size) w)) windows),
        if pending = [] then \<lparr>rs_pending = [], rs_timer = False, rs_done = 1\<rparr>
        else \<lparr>rs_pending = pending, rs_timer = True, rs_done = 0\<rparr>))"

definition cancel_restoring :: "'w restoring \<Rightarrow> 'w restoring" where
  "cancel_restoring r = r\<lparr>rs_pending := [], rs_timer := False\<rparr>"

definition finish_restoring :: "'w restoring \<Rightarrow> 'w restoring" where
  "finish_restoring r = (cancel_restoring r)\<lparr>rs_done := Suc (rs_done r)\<rparr>"

datatype 'w restore_event = Size_changed 'w | Timed_out | Cancelled

text \<open>A window whose signal was disconnected changes nothing, nor does a timer that was removed.\<close>

fun restore_step :: "'w restore_event \<Rightarrow> 'w restoring \<Rightarrow> 'w restoring" where
  "restore_step (Size_changed w) r = (if w \<notin> set (rs_pending r) then r
     else (let r' = r\<lparr>rs_pending := removeAll w (rs_pending r)\<rparr> in if rs_pending r' = [] then finish_restoring r' else r'))"
| "restore_step Timed_out r = (if rs_timer r then finish_restoring r else r)"
| "restore_step Cancelled r = cancel_restoring r"

section \<open>Laying windows out\<close>

record 'w canvas = "'w focus_state" +
  v_view :: view
  v_layout :: "('w \<times> box) list"
  v_normal :: "('w \<times> box) list"
  v_shown :: bool
  v_known :: bool

fun place_each :: "('w \<Rightarrow> box) \<Rightarrow> ('w \<times> box) list \<Rightarrow> number \<Rightarrow> number \<Rightarrow> box list \<Rightarrow> 'w list \<Rightarrow> box list" where
  "place_each frame layout cx cy known [] = []"
| "place_each frame layout cx cy known (w # ws) = (case map_of layout w of
      Some stored \<Rightarrow> stored # place_each frame layout cx cy known ws
    | None \<Rightarrow> (let p = freeSpot known (b_w (frame w)) (b_h (frame w)) cx cy PLACEMENT_GAP;
          placed = (frame w)\<lparr>b_x := fst p, b_y := snd p\<rparr>
        in placed # place_each frame layout cx cy (known @ [placed]) ws))"

definition arrange :: "('w \<Rightarrow> box) \<Rightarrow> 'w list \<Rightarrow> box \<Rightarrow> 'w canvas \<Rightarrow> box list \<times> 'w canvas" where
  "arrange frame windows viewport canvas =
    (if \<not> v_known canvas then
       (let boxes = settle_boxes (map frame windows) PLACEMENT_GAP in
        (boxes, (case boundsOf boxes of None \<Rightarrow> canvas | Some bounds \<Rightarrow> canvas\<lparr>v_view := fitView bounds viewport FIT_PADDING\<rparr>)
          \<lparr>v_known := True\<rparr>))
     else (let v = v_view canvas in
       (place_each frame (v_layout canvas) (w_x v + b_w viewport / 2 / w_scale v) (w_y v + b_h viewport / 2 / w_scale v)
          (concat (map (\<lambda>w. case map_of (v_layout canvas) w of Some b \<Rightarrow> [b] | None \<Rightarrow> []) windows)) windows, canvas)))"

text \<open>Where a window goes as it is minimized: its place from before, or the middle when little of that is on the screen.\<close>

definition tuck_place :: "('w \<Rightarrow> box) \<Rightarrow> 'w canvas \<Rightarrow> box \<Rightarrow> 'w \<Rightarrow> number \<times> number" where
  "tuck_place frame canvas area w = (let normal = otherwise (map_of (v_normal canvas) w) (frame w);
      width = min (b_w normal) (b_w area); height = min (b_h normal) (b_h area)
    in if intersection normal area \<ge> width * height / 2 then (b_x normal, b_y normal)
       else (b_x area + of_int (round ((b_w area - width) / 2)), b_y area + of_int (round ((b_h area - height) / 2))))"

datatype 'w exit_call = Constrain 'w | Move_window 'w "number \<times> number" | Glide_from 'w box | Maximize 'w | Fade_away 'w box | Tuck_away 'w

text \<open>A window that fades is tucked away once it has faded.\<close>

definition put_back :: "'w exit_plan \<Rightarrow> ('w \<times> box) list \<Rightarrow> view \<Rightarrow> box \<Rightarrow> 'w exit_call list" where
  "put_back plan layout v viewport = (let screen = (\<lambda>w. case map_of layout w of Some b \<Rightarrow> [screenBox v viewport b] | None \<Rightarrow> []) in
    concat (map (\<lambda>(w, b). [Constrain w, Move_window w (b_x b, b_y b)] @ map (Glide_from w) (screen w)) (e_placed plan)) @
    (case e_maximized plan of None \<Rightarrow> [] | Some w \<Rightarrow> Constrain w # map (Glide_from w) (screen w) @ [Maximize w]) @
    concat (map (\<lambda>w. concat (map (\<lambda>s. if intersection s viewport > 0 then [Fade_away w s] else [Tuck_away w]) (screen w))) (e_minimized plan)))"

text \<open>A window that comes to a board: beside the entered window, or in the middle of the view.\<close>

definition place_new :: "('w \<Rightarrow> box) \<Rightarrow> view \<Rightarrow> box \<Rightarrow> 'w option \<Rightarrow> 'w list \<Rightarrow> 'w \<Rightarrow> number \<times> number" where
  "place_new frame v viewport entered others w = (let box = frame w;
      cx = (case entered of Some e \<Rightarrow> b_x (frame e) + b_w (frame e) + PLACEMENT_GAP + b_w box / 2 | None \<Rightarrow> w_x v + b_w viewport / 2 / w_scale v);
      cy = (case entered of Some e \<Rightarrow> b_y (frame e) + b_h (frame e) / 2 | None \<Rightarrow> w_y v + b_h viewport / 2 / w_scale v)
    in freeSpot (map frame others) (b_w box) (b_h box) cx cy PLACEMENT_GAP)"

text \<open>A window that leaves the board for a desktop: the middle when less than half of it would be on the screen.\<close>

definition released_place :: "box \<Rightarrow> box \<Rightarrow> number \<times> number" where
  "released_place area box = (if intersection box area < b_w box * b_h box / 2
     then (b_x area + of_int (round ((b_w area - b_w box) / 2)), b_y area + of_int (round ((b_h area - b_h box) / 2)))
     else (b_x box, b_y box))"

definition window_under :: "('w \<Rightarrow> bool) \<Rightarrow> ('w \<Rightarrow> box) \<Rightarrow> view \<Rightarrow> box \<Rightarrow> 'w list \<Rightarrow> number \<Rightarrow> number \<Rightarrow> 'w option" where
  "window_under minimized frame v viewport windows x y = (let (cx, cy) = canvas_point v viewport x y in
    List.find (\<lambda>w. \<not> minimized w \<and> b_x (frame w) \<le> cx \<and> cx < b_x (frame w) + b_w (frame w) \<and> b_y (frame w) \<le> cy \<and> cy < b_y (frame w) + b_h (frame w)) windows)"

definition magnification :: "('w \<Rightarrow> box) \<Rightarrow> view \<Rightarrow> box \<Rightarrow> 'w \<Rightarrow> number" where
  "magnification frame v viewport w =
    (if w_scale v > FULL_SIZE \<and> intersection (screenBox v viewport (frame w)) viewport > 0 then w_scale v else FULL_SIZE)"

subsection \<open>The origin of X11 windows\<close>

definition keepWithin :: "number \<Rightarrow> number \<Rightarrow> number \<Rightarrow> number \<Rightarrow> number" where
  "keepWithin position long start len = of_int (round (max start (min position (start + len - long))))"

record 'w x11_origin =
  x_windows :: "'w list"
  x_anchor :: "'w option"
  x_origin :: "number \<times> number"

definition x11_apply :: "('w \<Rightarrow> box) \<Rightarrow> view \<Rightarrow> box \<Rightarrow> box \<Rightarrow> 'w x11_origin \<Rightarrow> 'w x11_origin" where
  "x11_apply frame v viewport screen x = (case x_anchor x of
      None \<Rightarrow> x
    | Some w \<Rightarrow> (let f = frame w; shown = screenBox v viewport f in
        x\<lparr>x_origin := (b_x f - keepWithin (b_x shown) (b_w f) (b_x screen) (b_w screen),
          b_y f - keepWithin (b_y shown) (b_h f) (b_y screen) (b_h screen))\<rparr>))"

definition x11_track :: "'w list \<Rightarrow> 'w x11_origin \<Rightarrow> 'w x11_origin" where
  "x11_track windows x = x\<lparr>x_windows := windows,
     x_anchor := (case x_anchor x of Some w \<Rightarrow> if w \<in> set windows then Some w else None | None \<Rightarrow> None)\<rparr>"

definition x11_hover :: "('w \<Rightarrow> bool) \<Rightarrow> ('w \<Rightarrow> box) \<Rightarrow> view \<Rightarrow> box \<Rightarrow> box \<Rightarrow> number \<Rightarrow> number \<Rightarrow> 'w x11_origin \<Rightarrow> 'w x11_origin" where
  "x11_hover minimized frame v viewport screen px py x = (case window_under minimized frame v viewport (x_windows x) px py of
      None \<Rightarrow> x
    | Some w \<Rightarrow> if Some w = x_anchor x then x else x11_apply frame v viewport screen (x\<lparr>x_anchor := Some w\<rparr>))"

definition x11_settle :: "('w \<Rightarrow> bool) \<Rightarrow> ('w \<Rightarrow> box) \<Rightarrow> view \<Rightarrow> box \<Rightarrow> box \<Rightarrow> 'w option \<Rightarrow> number \<Rightarrow> number \<Rightarrow> 'w x11_origin \<Rightarrow> 'w x11_origin" where
  "x11_settle minimized frame v viewport screen focused px py x = x11_apply frame v viewport screen (x\<lparr>x_anchor :=
     (case window_under minimized frame v viewport (x_windows x) px py of
        Some w \<Rightarrow> Some w
      | None \<Rightarrow> (case focused of Some f \<Rightarrow> if f \<in> set (x_windows x) then Some f else x_anchor x | None \<Rightarrow> x_anchor x))\<rparr>)"

definition x11_reset :: "'w x11_origin \<Rightarrow> 'w x11_origin" where
  "x11_reset x = \<lparr>x_windows = [], x_anchor = None, x_origin = (0, 0)\<rparr>"

section \<open>Moving a window against the others\<close>

definition SNAP_DISTANCE :: number where "SNAP_DISTANCE = 12"

text \<open>
  The places of the others as the move began are kept; the boxes of the source are these with
  the moving one at the end, so that they are computed anew each time.
\<close>

record 'w collisions =
  k_moving :: "'w option"
  k_others :: "'w list"
  k_start :: "box list"
  k_intended :: "number \<times> number"
  k_snapping :: bool
  k_queued :: bool

definition stop_collisions :: "'w collisions \<Rightarrow> 'w collisions" where
  "stop_collisions k = k\<lparr>k_moving := None, k_others := [], k_queued := False\<rparr>"

definition rounded :: "number \<times> number \<Rightarrow> number \<times> number" where
  "rounded p = (of_int (round (fst p)), of_int (round (snd p)))"

definition place_at :: "number \<times> number \<Rightarrow> box \<Rightarrow> box" where
  "place_at p b = b\<lparr>b_x := fst p, b_y := snd p\<rparr>"

fun move_all :: "('w \<times> box) list \<Rightarrow> ('w \<Rightarrow> box) \<Rightarrow> ('w \<Rightarrow> box)" where
  "move_all [] frame = frame"
| "move_all ((w, b) # ws) frame = (let p = rounded (b_x b, b_y b) in
    move_all ws (if (b_x (frame w), b_y (frame w)) = p then frame else frame(w := place_at p (frame w))))"

definition resolve :: "number \<Rightarrow> 'w collisions \<Rightarrow> ('w \<Rightarrow> box) \<Rightarrow> ('w \<Rightarrow> box)" where
  "resolve scale k frame = (case k_moving k of
      None \<Rightarrow> frame
    | Some w \<Rightarrow> (let rect = frame w;
        box = (if k_snapping k then snapEdges rect (k_start k) (SNAP_DISTANCE / scale) else rect);
        frame' = (if (b_x box, b_y box) \<noteq> (b_x rect, b_y rect) then frame(w := place_at (rounded (b_x box, b_y box)) rect) else frame)
      in move_all (zip (k_others k) (pushApart (k_start k @ [box]) (length (k_start k)) 0)) frame'))"

definition end_move :: "number \<Rightarrow> 'w collisions \<Rightarrow> ('w \<Rightarrow> box) \<Rightarrow> 'w collisions \<times> ('w \<Rightarrow> box)" where
  "end_move scale k frame = (if k_moving k = None then (k, frame) else (stop_collisions k, resolve scale k frame))"

text \<open>\<open>others\<close> are the other windows of the board that are not minimized; it is \<open>None\<close> when the window is not on the board.\<close>

definition begin_move :: "number \<Rightarrow> 'w \<Rightarrow> 'w list option \<Rightarrow> bool \<Rightarrow> 'w collisions \<Rightarrow> ('w \<Rightarrow> box) \<Rightarrow> 'w collisions \<times> ('w \<Rightarrow> box)" where
  "begin_move scale w others snapping k frame = (let (k', frame') = end_move scale k frame in
    case others of
      None \<Rightarrow> (k', frame')
    | Some ws \<Rightarrow> (k'\<lparr>k_moving := Some w, k_others := ws, k_start := map frame' ws, k_snapping := snapping,
        k_intended := (b_x (frame' w), b_y (frame' w))\<rparr>, frame'))"

definition move_by :: "number \<Rightarrow> number \<Rightarrow> 'w collisions \<Rightarrow> ('w \<Rightarrow> box) \<Rightarrow> 'w collisions \<times> ('w \<Rightarrow> box)" where
  "move_by dx dy k frame = (case k_moving k of
      None \<Rightarrow> (k, frame)
    | Some w \<Rightarrow> (let p = (fst (k_intended k) + dx, snd (k_intended k) + dy) in
        (k\<lparr>k_intended := p, k_queued := True\<rparr>, frame(w := place_at (rounded p) (frame w)))))"

definition queued_resolve :: "number \<Rightarrow> 'w collisions \<Rightarrow> ('w \<Rightarrow> box) \<Rightarrow> 'w collisions \<times> ('w \<Rightarrow> box)" where
  "queued_resolve scale k frame = (if k_queued k then (k\<lparr>k_queued := False\<rparr>, resolve scale k frame) else (k, frame))"

text \<open>The moving window goes away: the others go back to where they were.\<close>

definition abandon :: "'w collisions \<Rightarrow> ('w \<Rightarrow> box) \<Rightarrow> 'w collisions \<times> ('w \<Rightarrow> box)" where
  "abandon k frame = (stop_collisions k, move_all (zip (k_others k) (k_start k)) frame)"

text \<open>One of the others goes away.\<close>

definition forget_other :: "'w \<Rightarrow> 'w collisions \<Rightarrow> 'w collisions" where
  "forget_other w k = (case index_of w (k_others k) of
      None \<Rightarrow> k
    | Some i \<Rightarrow> k\<lparr>k_others := splice_out i (k_others k), k_start := splice_out i (k_start k), k_queued := True\<rparr>)"

section \<open>What laying out keeps\<close>

lemma place_each_length [simp]: "length (place_each frame layout cx cy known ws) = length ws"
  by (induction ws arbitrary: known) (auto simp: Let_def split: option.split)

lemma place_each_stored: "i < length ws \<Longrightarrow> map_of layout (ws ! i) = Some b \<Longrightarrow> place_each frame layout cx cy known ws ! i = b"
proof (induction ws arbitrary: known i)
  case (Cons w ws)
  then show ?case by (cases i; cases "map_of layout w") (auto simp: Let_def)
qed simp

lemma placed_clear:
  "clear known (gap - 1/2) (b\<lparr>b_x := fst (freeSpot known (b_w b) (b_h b) cx cy gap), b_y := snd (freeSpot known (b_w b) (b_h b) cx cy gap)\<rparr>)"
proof -
  have "b\<lparr>b_x := x, b_y := y\<rparr> = spot_box (b_w b) (b_h b) (x, y)" for x y by (simp add: spot_box_def)
  then show ?thesis using freeSpot_clear [of known gap "b_w b" "b_h b" cx cy] by simp
qed

lemma place_each_new_known:
  "i < length ws \<Longrightarrow> map_of layout (ws ! i) = None \<Longrightarrow> clear known (PLACEMENT_GAP - 1/2) (place_each frame layout cx cy known ws ! i)"
proof (induction ws arbitrary: known i)
  case (Cons w ws)
  show ?case
  proof (cases i)
    case 0
    with Cons.prems show ?thesis by (simp add: Let_def placed_clear)
  next
    case (Suc j)
    show ?thesis
    proof (cases "map_of layout w")
      case None
      let ?p = "freeSpot known (b_w (frame w)) (b_h (frame w)) cx cy PLACEMENT_GAP"
      let ?placed = "(frame w)\<lparr>b_x := fst ?p, b_y := snd ?p\<rparr>"
      have "clear (known @ [?placed]) (PLACEMENT_GAP - 1/2) (place_each frame layout cx cy (known @ [?placed]) ws ! j)"
        using Cons.prems Suc by (intro Cons.IH) auto
      then show ?thesis using None Suc by (simp add: Let_def clear_iff)
    qed (use Cons Suc in simp)
  qed
qed simp

lemma place_each_new_new:
  "i < j \<Longrightarrow> j < length ws \<Longrightarrow> map_of layout (ws ! i) = None \<Longrightarrow> map_of layout (ws ! j) = None \<Longrightarrow>
    \<not> overlaps (place_each frame layout cx cy known ws ! i) (place_each frame layout cx cy known ws ! j) (PLACEMENT_GAP - 1/2)"
proof (induction ws arbitrary: known i j)
  case (Cons w ws)
  from Cons.prems obtain j' where j: "j = Suc j'" by (cases j) auto
  show ?case
  proof (cases i)
    case 0
    with Cons.prems have w: "map_of layout w = None" by simp
    let ?p = "freeSpot known (b_w (frame w)) (b_h (frame w)) cx cy PLACEMENT_GAP"
    let ?placed = "(frame w)\<lparr>b_x := fst ?p, b_y := snd ?p\<rparr>"
    have "clear (known @ [?placed]) (PLACEMENT_GAP - 1/2) (place_each frame layout cx cy (known @ [?placed]) ws ! j')"
      using Cons.prems j by (intro place_each_new_known) auto
    then show ?thesis using w 0 j by (simp add: Let_def clear_iff)
  next
    case (Suc i')
    with Cons j show ?thesis by (cases "map_of layout w") (simp_all add: Let_def)
  qed
qed simp

section \<open>What moving keeps\<close>

lemma place_at_simps [simp]: "b_w (place_at p b) = b_w b" "b_h (place_at p b) = b_h b" "b_x (place_at p b) = fst p" "b_y (place_at p b) = snd p"
  by (simp_all add: place_at_def)

lemma place_at_same: "(b_x b, b_y b) = p \<Longrightarrow> place_at p b = b"
  by (auto simp: place_at_def)

lemma move_all_other: "w \<notin> fst ` set ws \<Longrightarrow> move_all ws frame w = frame w"
  by (induction ws frame rule: move_all.induct) (auto simp: Let_def)

lemma move_all_nth:
  "distinct (map fst ws) \<Longrightarrow> (w, b) \<in> set ws \<Longrightarrow> move_all ws frame w = place_at (rounded (b_x b, b_y b)) (frame w)"
proof (induction ws frame rule: move_all.induct)
  case (2 v c ws frame)
  show ?case
  proof (cases "v = w")
    case True
    with 2 have "c = b" "w \<notin> fst ` set ws" by (auto simp: image_iff)
    with True show ?thesis by (simp add: Let_def move_all_other place_at_same)
  next
    case False
    with 2 show ?thesis by (auto simp: Let_def)
  qed
qed simp

text \<open>The window that moves, as it is pushed against the others.\<close>

definition moving_box :: "number \<Rightarrow> 'w collisions \<Rightarrow> ('w \<Rightarrow> box) \<Rightarrow> 'w \<Rightarrow> box" where
  "moving_box scale k frame w = (if k_snapping k then snapEdges (frame w) (k_start k) (SNAP_DISTANCE / scale) else frame w)"

lemma pushApart_length [simp]: "length (pushApart boxes anchor gap) = length boxes"
  unfolding pushApart_def using push_loop_rest by (metis prod.collapse)

lemma pushApart_anchor: "pushApart boxes anchor gap ! anchor = boxes ! anchor"
  unfolding pushApart_def using push_loop_rest by (metis prod.collapse)

lemma pushApart_size: "b_w (pushApart boxes anchor gap ! j) = b_w (boxes ! j) \<and> b_h (pushApart boxes anchor gap ! j) = b_h (boxes ! j)"
  unfolding pushApart_def using push_loop_rest by (metis prod.collapse)

lemma resolve_other:
  assumes "k_moving k = Some w" "distinct (k_others k)" "w \<notin> set (k_others k)" "length (k_start k) = length (k_others k)" "i < length (k_others k)"
  shows "resolve scale k frame (k_others k ! i) =
    place_at (rounded (b_x (pushApart (k_start k @ [moving_box scale k frame w]) (length (k_start k)) 0 ! i),
      b_y (pushApart (k_start k @ [moving_box scale k frame w]) (length (k_start k)) 0 ! i))) (frame (k_others k ! i))"
proof -
  let ?boxes = "pushApart (k_start k @ [moving_box scale k frame w]) (length (k_start k)) 0"
  let ?frame = "if (b_x (moving_box scale k frame w), b_y (moving_box scale k frame w)) \<noteq> (b_x (frame w), b_y (frame w))
    then frame(w := place_at (rounded (b_x (moving_box scale k frame w), b_y (moving_box scale k frame w))) (frame w)) else frame"
  have "resolve scale k frame = move_all (zip (k_others k) ?boxes) ?frame"
    using assms(1) by (simp add: resolve_def moving_box_def Let_def)
  moreover have "distinct (map fst (zip (k_others k) ?boxes))"
    using assms(2,4) by (simp add: distinct_map inj_on_def distinct_zipI1 map_fst_zip_take distinct_take)
  moreover have "(k_others k ! i, ?boxes ! i) \<in> set (zip (k_others k) ?boxes)"
    using assms(4,5) by (auto simp: in_set_zip)
  moreover have "?frame (k_others k ! i) = frame (k_others k ! i)"
    using assms(3,5) by (auto simp: in_set_conv_nth)
  ultimately show ?thesis by (simp only: move_all_nth)
qed

end
