(* ===== verification/Board_Session.thy ===== *)
theory Board_Session
  imports Board_Windows "HOL-Library.AList"
begin

text \<open>
  The board itself (\<^verbatim>\<open>board/board.ts\<close>), what follows the windows of its workspaces
  (\<^verbatim>\<open>board/windows/follower.ts\<close>) and its keys (\<^verbatim>\<open>board/input/keys.ts\<close>).

  A canvas is named by its workspace, so that the presented canvas is the presented workspace.
  The focus and the canvas share an object in the code; here what the focus changes is written
  back to the canvas it is attached to.  What the code leaves to the next redraw waits in a
  list of tasks.  The compositor's windows are part of the state: moves, flags and
  minimizing take effect as they are called, new sizes with an event of the window.  Monitors,
  settings and the kind of a window are a desk, which every event is given.
\<close>

section \<open>State\<close>

record 'w desk =
  n_area :: box
  n_primary :: "box option"
  n_pixel_scale :: number
  n_screen :: "box option"
  n_animations :: bool
  n_hypot :: "number \<Rightarrow> number \<Rightarrow> number"
  n_own_size :: "'w \<Rightarrow> (number \<times> number) option"
  n_x11 :: "'w \<Rightarrow> bool"
  n_enabled :: bool

datatype ('s, 'w) task =
    Place 'w 's | Release 'w 's | Bring_back 'w | Enter_maximized 'w 's | Set_aside 'w box | Follow | Resolve

record ('s, 'w) board =
  bd_active :: 's
  bd_presented :: "'s option"
  bd_canvases :: "('s \<times> 'w canvas) list"
  bd_restoring :: "('s \<times> 'w restoring) option"
  bd_aside :: "'w option"
  bd_focus :: "'w focus"
  bd_collisions :: "'w collisions"
  bd_x11 :: "'w x11_origin"
  bd_magnified :: "'w list"
  bd_keys :: bool
  bd_corner :: bool
  bd_panels_hidden :: bool
  bd_backdrop :: bool
  bd_pending :: "'w list"
  bd_unplaced :: "'w list"
  bd_later :: "('s, 'w) task list"
  bd_fading :: "('w \<times> 's) list"
  bd_stack :: "'w list"
  bd_home :: "'w \<Rightarrow> 's option"
  bd_frame :: "'w \<Rightarrow> box"
  bd_minimized :: "'w \<Rightarrow> bool"
  bd_fullscreen :: "'w \<Rightarrow> bool"
  bd_maximized :: "'w \<Rightarrow> bool"
  bd_free :: "'w \<Rightarrow> bool"
  bd_magnification :: "'w \<Rightarrow> number"
  bd_active_window :: "'w option"

definition no_canvas :: "'w canvas" where
  "no_canvas = \<lparr>f_entered = None, f_overview = None, v_view = \<lparr>w_x = 0, w_y = 0, w_scale = 1\<rparr>, v_layout = [], v_normal = [],
     v_shown = False, v_known = False\<rparr>"

definition canvas_of :: "('s, 'w) board \<Rightarrow> 's \<Rightarrow> 'w canvas option" where
  "canvas_of b s = map_of (bd_canvases b) s"

definition is_shown :: "('s, 'w) board \<Rightarrow> 's \<Rightarrow> bool" where
  "is_shown b s = (case canvas_of b s of Some c \<Rightarrow> v_shown c | None \<Rightarrow> False)"

definition with_canvas :: "'s \<Rightarrow> ('w canvas \<Rightarrow> 'w canvas) \<Rightarrow> ('s, 'w) board \<Rightarrow> ('s, 'w) board" where
  "with_canvas s f b = (case canvas_of b s of
      Some c \<Rightarrow> b\<lparr>bd_canvases := AList.update s (f c) (bd_canvases b)\<rparr>
    | None \<Rightarrow> b)"

text \<open>A workspace without a canvas gets one, which is then followed.\<close>

definition canvas_for :: "'s \<Rightarrow> ('s, 'w) board \<Rightarrow> ('s, 'w) board" where
  "canvas_for s b = (if canvas_of b s = None then b\<lparr>bd_canvases := AList.update s no_canvas (bd_canvases b)\<rparr> else b)"

definition presented_workspace :: "('s, 'w) board \<Rightarrow> 's option" where
  "presented_workspace b = (if bd_presented b = None then None else Some (bd_active b))"

definition board_windows :: "('s, 'w) board \<Rightarrow> 's \<Rightarrow> 'w list" where
  "board_windows b s = filter (\<lambda>w. bd_home b w = Some s) (bd_stack b)"

definition open_windows :: "('s, 'w) board \<Rightarrow> 's \<Rightarrow> 'w list" where
  "open_windows b s = filter (\<lambda>w. \<not> bd_minimized b w) (board_windows b s)"

definition camera_of :: "('s, 'w) board \<Rightarrow> camera" where
  "camera_of b = o_camera (bd_focus b)"

definition with_camera :: "(camera \<Rightarrow> camera) \<Rightarrow> ('s, 'w) board \<Rightarrow> ('s, 'w) board" where
  "with_camera f b = b\<lparr>bd_focus := (bd_focus b)\<lparr>o_camera := f (camera_of b)\<rparr>\<rparr>"

definition windows_for :: "'w desk \<Rightarrow> ('s, 'w) board \<Rightarrow> 'w desktop_windows" where
  "windows_for d b = \<lparr>d_windows = open_windows b (bd_active b), d_frame = bd_frame b, d_animations = n_animations d, d_hypot = n_hypot d\<rparr>"

definition later :: "('s, 'w) task \<Rightarrow> ('s, 'w) board \<Rightarrow> ('s, 'w) board" where
  "later t b = b\<lparr>bd_later := bd_later b @ [t]\<rparr>"

definition screen_of :: "'w desk \<Rightarrow> ('s, 'w) board \<Rightarrow> box" where
  "screen_of d b = otherwise (n_screen d) (c_viewport (camera_of b))"

section \<open>The parts in the board\<close>

definition windows_changed :: "'w desk \<Rightarrow> ('s, 'w) board \<Rightarrow> ('s, 'w) board" where
  "windows_changed d b = (case presented_workspace b of
      None \<Rightarrow> b
    | Some s \<Rightarrow> b\<lparr>bd_x11 := x11_track (filter (n_x11 d) (open_windows b s)) (bd_x11 b)\<rparr>)"

text \<open>What the focus changes of its state is changed in the canvas it is attached to.\<close>

definition store_state :: "('s, 'w) board \<Rightarrow> ('s, 'w) board" where
  "store_state b = (case (bd_presented b, o_state (bd_focus b)) of
      (Some s, Some st) \<Rightarrow> with_canvas s (\<lambda>c. c\<lparr>f_entered := f_entered st, f_overview := f_overview st\<rparr>) b
    | _ \<Rightarrow> b)"

text \<open>A window whose fading is interrupted is not tucked away.\<close>

definition shade_now :: "'s \<Rightarrow> ('s, 'w) board \<Rightarrow> ('s, 'w) board" where
  "shade_now s b = b\<lparr>bd_fading := filter (\<lambda>(w, _). w \<notin> set (board_windows b s)) (bd_fading b)\<rparr>"

text \<open>
  When the entered window changes, so do the shades and the window that is watched; the camera
  that was about to follow the old one does not.
\<close>

definition with_focus :: "'w desk \<Rightarrow> ('w focus \<Rightarrow> 'w focus) \<Rightarrow> ('s, 'w) board \<Rightarrow> ('s, 'w) board" where
  "with_focus d f b = (let b' = store_state (b\<lparr>bd_focus := f (bd_focus b)\<rparr>) in
    if entered_window (bd_focus b') \<noteq> entered_window (bd_focus b)
    then windows_changed d (shade_now (bd_active b') (b'\<lparr>bd_later := removeAll Follow (bd_later b')\<rparr>)) else b')"

definition with_collisions :: "('w collisions \<Rightarrow> ('w \<Rightarrow> box) \<Rightarrow> 'w collisions \<times> ('w \<Rightarrow> box)) \<Rightarrow> ('s, 'w) board \<Rightarrow> ('s, 'w) board" where
  "with_collisions f b = (let (k, frame) = f (bd_collisions b) (bd_frame b) in b\<lparr>bd_collisions := k, bd_frame := frame\<rparr>)"

definition end_collisions :: "('s, 'w) board \<Rightarrow> ('s, 'w) board" where
  "end_collisions b = (if k_moving (bd_collisions b) = None then b
     else with_collisions (end_move (w_scale (c_view (camera_of b)))) (b\<lparr>bd_later := removeAll Resolve (bd_later b)\<rparr>))"

definition reset_magnified :: "('s, 'w) board \<Rightarrow> ('s, 'w) board" where
  "reset_magnified b = b\<lparr>bd_magnification := (\<lambda>w. if w \<in> set (bd_magnified b) then FULL_SIZE else bd_magnification b w), bd_magnified := []\<rparr>"

definition viewport_for :: "'w desk \<Rightarrow> ('s, 'w) board \<Rightarrow> ('s, 'w) board" where
  "viewport_for d b = (case n_primary d of Some p \<Rightarrow> with_camera (\<lambda>c. c\<lparr>c_viewport := p\<rparr>) b | None \<Rightarrow> b)"

definition uncover :: "('s, 'w) board \<Rightarrow> ('s, 'w) board" where
  "uncover b = (if bd_presented b \<noteq> None then b else b\<lparr>bd_backdrop := False\<rparr>)"

definition detach_focus :: "('s, 'w) board \<Rightarrow> ('s, 'w) board" where
  "detach_focus b = (let b' = b\<lparr>bd_focus := detach (bd_focus b), bd_later := removeAll Follow (bd_later b)\<rparr> in
    case bd_presented b of Some p \<Rightarrow> shade_now p b' | None \<Rightarrow> b')"

definition leave :: "'s option \<Rightarrow> ('s, 'w) board \<Rightarrow> ('s, 'w) board" where
  "leave next b = (let
      b1 = (case bd_presented b of
          Some p \<Rightarrow> if next \<noteq> Some p then with_canvas p (\<lambda>c. c\<lparr>v_view := c_view (camera_of b)\<rparr>) b else b
        | None \<Rightarrow> b);
      b2 = reset_magnified ((detach_focus (end_collisions b1))\<lparr>bd_presented := next\<rparr>)
    in b2\<lparr>bd_x11 := x11_reset (bd_x11 b2)\<rparr>)"

definition present :: "'w desk \<Rightarrow> 's option \<Rightarrow> bool \<Rightarrow> ('s, 'w) board \<Rightarrow> ('s, 'w) board" where
  "present d next fade b = (let b1 = leave next b in
    case next of
      None \<Rightarrow>
        if bd_presented b = None then b1
        else (let b2 = (with_camera release_camera b1)\<lparr>bd_corner := False, bd_panels_hidden := False, bd_keys := False\<rparr> in
          if fade then b2 else uncover b2)
    | Some s \<Rightarrow> (case canvas_of b1 s of
        None \<Rightarrow> b1
      | Some c \<Rightarrow> (let
          b2 = with_camera (engage_camera (v_view c) (n_pixel_scale d)) (viewport_for d b1);
          b3 = b2\<lparr>bd_backdrop := True, bd_panels_hidden := True, bd_corner := bd_corner b2 \<or> n_primary d \<noteq> None, bd_keys := True\<rparr>;
          b4 = shade_now (bd_active b3) (b3\<lparr>bd_focus := attach_focus \<lparr>f_entered = f_entered c, f_overview = f_overview c\<rparr> (bd_focus b3)\<rparr>)
        in windows_changed d b4)))"

section \<open>Entering\<close>

definition lay_out :: "'w desk \<Rightarrow> 's \<Rightarrow> 'w canvas \<Rightarrow> ('s, 'w) board \<Rightarrow> ('s, 'w) board" where
  "lay_out d s canvas b = (let
      windows = open_windows b s;
      b1 = viewport_for d b;
      (boxes, canvas') = arrange (bd_frame b) windows (c_viewport (camera_of b1)) canvas;
      b2 = with_canvas s (\<lambda>_. canvas'\<lparr>v_layout := [], v_normal := map (\<lambda>w. (w, bd_frame b w)) windows\<rparr>) b1;
      b3 = present d (Some s) True b2
    in b3\<lparr>bd_frame := move_all (zip windows boxes) (bd_frame b3)\<rparr>)"

text \<open>The sizes are back: the board shows if its workspace is still the active one.\<close>

definition restored :: "'w desk \<Rightarrow> 's \<Rightarrow> ('s, 'w) board \<Rightarrow> ('s, 'w) board" where
  "restored d s b = (let b' = b\<lparr>bd_restoring := None\<rparr> in
    case canvas_of b' s of
      Some c \<Rightarrow> if v_shown c \<and> bd_active b' = s then lay_out d s c b' else b'
    | None \<Rightarrow> b')"

definition state_of_window :: "('s, 'w) board \<Rightarrow> 'w \<Rightarrow> window_state" where
  "state_of_window b w = \<lparr>ws_frame = bd_frame b w, ws_fullscreen = bd_fullscreen b w, ws_maximized = bd_maximized b w,
     ws_minimized = bd_minimized b w\<rparr>"

fun restore_call :: "'w window_call \<Rightarrow> ('s, 'w) board \<Rightarrow> ('s, 'w) board" where
  "restore_call (Untile w) b = b"
| "restore_call (Unminimize w) b = b\<lparr>bd_minimized := (bd_minimized b)(w := False)\<rparr>"
| "restore_call (Unfullscreen w) b = b\<lparr>bd_fullscreen := (bd_fullscreen b)(w := False)\<rparr>"
| "restore_call (Unmaximize w) b = b\<lparr>bd_maximized := (bd_maximized b)(w := False)\<rparr>"
| "restore_call (Resize w box) b = b"

definition settle_restoring :: "'w desk \<Rightarrow> 's \<Rightarrow> 'w restoring \<Rightarrow> ('s, 'w) board \<Rightarrow> ('s, 'w) board" where
  "settle_restoring d s r b = (if rs_done r = 0 then b\<lparr>bd_restoring := Some (s, r)\<rparr> else restored d s b)"

definition enter_board :: "'w desk \<Rightarrow> ('s, 'w) board \<Rightarrow> ('s, 'w) board" where
  "enter_board d b = (let s = bd_active b; b1 = canvas_for s b in
    if is_shown b1 s \<or> bd_restoring b1 \<noteq> None then b1
    else (let
        b2 = (with_canvas s (\<lambda>c. c\<lparr>v_shown := True\<rparr>) b1)\<lparr>bd_aside := None\<rparr>;
        windows = board_windows b2 s;
        b3 = b2\<lparr>bd_free := (\<lambda>w. w \<in> set windows \<or> bd_free b2 w)\<rparr>;
        (calls, r) = restore_sizes (state_of_window b3) (n_own_size d) windows
      in settle_restoring d s r (fold restore_call calls b3)))"

definition restore_event :: "'w desk \<Rightarrow> 'w restore_event \<Rightarrow> ('s, 'w) board \<Rightarrow> ('s, 'w) board" where
  "restore_event d e b = (case bd_restoring b of
      None \<Rightarrow> b
    | Some (s, r) \<Rightarrow> settle_restoring d s (restore_step e r) b)"

section \<open>Leaving\<close>

definition tuck_away :: "'w desk \<Rightarrow> 's \<Rightarrow> 'w \<Rightarrow> ('s, 'w) board \<Rightarrow> ('s, 'w) board" where
  "tuck_away d s w b = b\<lparr>bd_minimized := (bd_minimized b)(w := True), bd_free := (bd_free b)(w := False),
     bd_frame := (bd_frame b)(w := place_at (tuck_place (bd_frame b) (otherwise (canvas_of b s) no_canvas) (n_area d) w) (bd_frame b w))\<rparr>"

fun exit_call :: "'w desk \<Rightarrow> 's \<Rightarrow> 'w exit_call \<Rightarrow> ('s, 'w) board \<Rightarrow> ('s, 'w) board" where
  "exit_call d s (Constrain w) b = b\<lparr>bd_free := (bd_free b)(w := False)\<rparr>"
| "exit_call d s (Move_window w p) b = b\<lparr>bd_frame := (bd_frame b)(w := place_at p (bd_frame b w))\<rparr>"
| "exit_call d s (Glide_from w box) b = b"
| "exit_call d s (Maximize w) b = b\<lparr>bd_maximized := (bd_maximized b)(w := True)\<rparr>"
| "exit_call d s (Fade_away w box) b = b\<lparr>bd_fading := bd_fading b @ [(w, s)]\<rparr>"
| "exit_call d s (Tuck_away w) b = tuck_away d s w b"

definition exit_board :: "'w desk \<Rightarrow> 'w option \<Rightarrow> ('s, 'w) board \<Rightarrow> ('s, 'w) board" where
  "exit_board d except b = (case bd_presented b of
      None \<Rightarrow> b
    | Some s \<Rightarrow> (let
        b1 = end_collisions b;
        windows = filter (\<lambda>w. Some w \<noteq> except) (open_windows b1 (bd_active b1));
        v = c_shown (camera_of b1); viewport = c_viewport (camera_of b1);
        layout = map (\<lambda>w. (w, bd_frame b1 w)) windows;
        entered = Option.bind (canvas_of b1 s) f_entered;
        fitted = (case entered of
            Some w \<Rightarrow> if \<not> bd_minimized b1 w \<and> entered \<noteq> except then entered
              else List.find (\<lambda>w. fits_view v (bd_frame b1 w) viewport WINDOW_PADDING) windows
          | None \<Rightarrow> List.find (\<lambda>w. fits_view v (bd_frame b1 w) viewport WINDOW_PADDING) windows);
        plan = planExit layout v viewport (n_area d) fitted;
        b2 = with_canvas s (\<lambda>c. c\<lparr>v_layout := layout, v_shown := False\<rparr>) b1;
        b3 = present d None True b2
      in fold (exit_call d s) (put_back plan layout v viewport) b3))"

definition toggle_board :: "'w desk \<Rightarrow> ('s, 'w) board \<Rightarrow> ('s, 'w) board" where
  "toggle_board d b = (if bd_presented b \<noteq> None then exit_board d None b else enter_board d b)"

text \<open>A swipe that turns back undoes what it began.\<close>

definition track_board :: "'w desk \<Rightarrow> bool \<Rightarrow> ('s, 'w) board \<Rightarrow> ('s, 'w) board" where
  "track_board d entering b = (if entering then enter_board d b else exit_board d None b)"

definition untrack_board :: "'w desk \<Rightarrow> bool \<Rightarrow> ('s, 'w) board \<Rightarrow> ('s, 'w) board" where
  "untrack_board d entering b = (if entering then exit_board d None b else enter_board d b)"

definition faded :: "'w desk \<Rightarrow> 'w \<Rightarrow> ('s, 'w) board \<Rightarrow> ('s, 'w) board" where
  "faded d w b = (case map_of (bd_fading b) w of
      None \<Rightarrow> b
    | Some s \<Rightarrow> tuck_away d s w (b\<lparr>bd_fading := filter (\<lambda>(x, _). x \<noteq> w) (bd_fading b)\<rparr>))"

section \<open>Windows that come and go\<close>

definition place_window :: "'w desk \<Rightarrow> 'w \<Rightarrow> 's \<Rightarrow> ('s, 'w) board \<Rightarrow> ('s, 'w) board" where
  "place_window d w s b = (let
      c = otherwise (canvas_of b s) no_canvas;
      presented = (bd_presented b = Some s);
      v = (if presented then c_view (camera_of b) else v_view c);
      others = (case bd_home b w of Some home \<Rightarrow> filter (\<lambda>x. x \<noteq> w) (open_windows b home) | None \<Rightarrow> []);
      b1 = b\<lparr>bd_free := (bd_free b)(w := True),
        bd_frame := (bd_frame b)(w := place_at (place_new (bd_frame b) v (c_viewport (camera_of b)) (f_entered c) others w) (bd_frame b w))\<rparr>
    in if \<not> presented then b1
       else (let b2 = windows_changed d b1 in
         if f_entered c \<noteq> None then b2
         else with_camera (reveal_box (n_animations d) (bd_frame b2 w) WINDOW_PADDING) b2))"

definition release_from :: "'w desk \<Rightarrow> 'w \<Rightarrow> 's \<Rightarrow> ('s, 'w) board \<Rightarrow> ('s, 'w) board" where
  "release_from d w s b = (let
      b1 = (if Option.bind (canvas_of b s) f_entered = Some w
        then if bd_presented b = Some s then with_focus d (show_overview (windows_for d b)) b
             else with_canvas s (\<lambda>c. c\<lparr>f_entered := None, f_overview := None\<rparr>) b
        else b);
      b2 = with_canvas s (\<lambda>c. c\<lparr>v_layout := AList.delete w (v_layout c), v_normal := AList.delete w (v_normal c)\<rparr>) b1;
      b3 = (if w \<in> set (bd_magnified b2)
        then b2\<lparr>bd_magnified := removeAll w (bd_magnified b2), bd_magnification := (bd_magnification b2)(w := FULL_SIZE)\<rparr> else b2);
      b4 = (if bd_presented b3 = Some s then windows_changed d b3 else b3)
    in case bd_home b4 w of
         None \<Rightarrow> b4
       | Some home \<Rightarrow> if is_shown b4 home then b4
           else b4\<lparr>bd_free := (bd_free b4)(w := False),
             bd_frame := (bd_frame b4)(w := place_at (released_place (n_area d) (bd_frame b4 w)) (bd_frame b4 w))\<rparr>)"

definition set_aside :: "'w desk \<Rightarrow> 'w \<Rightarrow> box \<Rightarrow> ('s, 'w) board \<Rightarrow> ('s, 'w) board" where
  "set_aside d w before b = (case bd_presented b of
      None \<Rightarrow> b
    | Some s \<Rightarrow> (with_canvas s (\<lambda>c. c\<lparr>v_layout := AList.update w before (v_layout c)\<rparr>) (exit_board d (Some w) b))\<lparr>bd_aside := Some w\<rparr>)"

definition bring_back :: "'w desk \<Rightarrow> 'w \<Rightarrow> ('s, 'w) board \<Rightarrow> ('s, 'w) board" where
  "bring_back d w b = (if Some w \<noteq> bd_aside b then b
     else (let b' = b\<lparr>bd_aside := None\<rparr> in
       case bd_home b' w of
         None \<Rightarrow> b'
       | Some s \<Rightarrow> (case canvas_of b' s of
           None \<Rightarrow> b'
         | Some c \<Rightarrow> if bd_active b' = s \<and> \<not> v_shown c then enter_board d b' else release_from d w s b')))"

definition located_on :: "('s, 'w) board \<Rightarrow> 'w \<Rightarrow> 's \<Rightarrow> bool" where
  "located_on b w s \<longleftrightarrow> w \<in> set (bd_stack b) \<and> bd_home b w = Some s"

definition enter_window_on :: "'w desk \<Rightarrow> 'w \<Rightarrow> view option \<Rightarrow> ('s, 'w) board \<Rightarrow> ('s, 'w) board" where
  "enter_window_on d w start b = (case presented_workspace b of
      None \<Rightarrow> b
    | Some s \<Rightarrow> if located_on b w s
        then with_focus d (enter_window (windows_for d b) w (otherwise start (c_view (camera_of b)))) b else b)"

subsection \<open>The follower\<close>

definition focused_window :: "'w desk \<Rightarrow> 'w \<Rightarrow> ('s, 'w) board \<Rightarrow> ('s, 'w) board" where
  "focused_window d w b = (case presented_workspace b of
      None \<Rightarrow> b
    | Some s \<Rightarrow>
        if w \<in> set (bd_unplaced b) \<or> \<not> located_on b w s then b
        else (case entered_window (bd_focus b) of
            Some e \<Rightarrow> if e \<noteq> w then enter_window_on d w None b else b
          | None \<Rightarrow> (let shown = screenBox (c_view (camera_of b)) (c_viewport (camera_of b)) (bd_frame b w) in
              if intersection shown (c_viewport (camera_of b)) < b_w shown * b_h shown * (3/10)
              then with_camera (reveal_box (n_animations d) (bd_frame b w) WINDOW_PADDING) b else b)))"

definition follower_place :: "'w desk \<Rightarrow> 'w \<Rightarrow> 's \<Rightarrow> ('s, 'w) board \<Rightarrow> ('s, 'w) board" where
  "follower_place d w s b = (if w \<notin> set (bd_unplaced b) then b
     else (let b1 = b\<lparr>bd_unplaced := removeAll w (bd_unplaced b)\<rparr> in
       if \<not> is_shown b1 s \<or> bd_home b1 w \<noteq> Some s then b1
       else (let b2 = place_window d w s b1 in if bd_active_window b2 = Some w then focused_window d w b2 else b2)))"

definition added_window :: "'w \<Rightarrow> 's \<Rightarrow> bool \<Rightarrow> ('s, 'w) board \<Rightarrow> ('s, 'w) board" where
  "added_window w s mapped b = (if \<not> is_shown b s \<or> w \<notin> set (bd_stack b) then b
     else (let b1 = b\<lparr>bd_unplaced := List.insert w (bd_unplaced b)\<rparr> in
       if mapped then later (Place w s) b1 else b1\<lparr>bd_pending := List.insert w (bd_pending b1)\<rparr>))"

definition mapped_window :: "'w desk \<Rightarrow> 'w \<Rightarrow> ('s, 'w) board \<Rightarrow> ('s, 'w) board" where
  "mapped_window d w b = (if w \<notin> set (bd_pending b) then b
     else (let b1 = b\<lparr>bd_pending := removeAll w (bd_pending b)\<rparr> in
       case bd_home b1 w of
         Some s \<Rightarrow> if is_shown b1 s then follower_place d w s b1 else b1
       | None \<Rightarrow> b1))"

definition removed_window :: "'w \<Rightarrow> 's \<Rightarrow> ('s, 'w) board \<Rightarrow> ('s, 'w) board" where
  "removed_window w s b = later (Release w s)
     (b\<lparr>bd_pending := removeAll w (bd_pending b), bd_unplaced := removeAll w (bd_unplaced b)\<rparr>)"

datatype size_change = Maximized | Made_fullscreen | Left_fullscreen | Other_change

definition size_changed :: "'w \<Rightarrow> size_change \<Rightarrow> box \<Rightarrow> ('s, 'w) board \<Rightarrow> ('s, 'w) board" where
  "size_changed w change before b = (if change = Left_fullscreen then later (Bring_back w) b
     else (case presented_workspace b of
         None \<Rightarrow> b
       | Some s \<Rightarrow>
           if \<not> located_on b w s then b
           else if change = Maximized then later (Enter_maximized w s) b
           else if change = Made_fullscreen then later (Set_aside w before) b
           else b))"

section \<open>Workspaces, the camera and the keys\<close>

definition sync_workspace :: "'w desk \<Rightarrow> ('s, 'w) board \<Rightarrow> ('s, 'w) board" where
  "sync_workspace d b = present d (if is_shown b (bd_active b) then Some (bd_active b) else None) False b"

definition forget_workspace :: "'w desk \<Rightarrow> 's \<Rightarrow> ('s, 'w) board \<Rightarrow> ('s, 'w) board" where
  "forget_workspace d s b = (if canvas_of b s = None then b
     else (let b' = (if bd_presented b = Some s then present d None False b else b) in
       b'\<lparr>bd_canvases := AList.delete s (bd_canvases b')\<rparr>))"

text \<open>The camera has come to rest: windows are drawn at its scale, and X11 windows find their origin.\<close>

definition settled :: "'w desk \<Rightarrow> number \<Rightarrow> number \<Rightarrow> ('s, 'w) board \<Rightarrow> ('s, 'w) board" where
  "settled d px py b = (if \<not> c_settling (camera_of b) then b
     else (let b0 = with_camera (\<lambda>c. c\<lparr>c_settling := False\<rparr>) b in
       case presented_workspace b0 of
         None \<Rightarrow> b0
       | Some s \<Rightarrow> (let windows = open_windows b0 s; c = camera_of b0 in
           b0\<lparr>bd_magnification := (\<lambda>w. if w \<in> set windows then magnification (bd_frame b0) (c_shown c) (c_viewport c) w else bd_magnification b0 w),
             bd_magnified := bd_magnified b0 @ filter (\<lambda>w. w \<notin> set (bd_magnified b0)) windows,
             bd_x11 := x11_settle (bd_minimized b0) (bd_frame b0) (c_shown c) (c_viewport c) (screen_of d b0) (bd_active_window b0) px py (bd_x11 b0)\<rparr>)))"

definition fit_board :: "'w desk \<Rightarrow> ('s, 'w) board \<Rightarrow> ('s, 'w) board" where
  "fit_board d b = with_focus d (fit_all (windows_for d b)) (with_focus d release_window b)"

definition step_board :: "'w desk \<Rightarrow> number \<Rightarrow> number \<Rightarrow> ('s, 'w) board \<Rightarrow> ('s, 'w) board" where
  "step_board d dx dy b = (if entered_window (bd_focus b) \<noteq> None
     then with_focus d (\<lambda>fo. fst (navigate (windows_for d b) dx dy fo)) b
     else with_camera (panStep (n_animations d) dx dy) b)"

text \<open>The window a zoom is about: the entered one, or the one under the middle of the screen.\<close>

definition focus_at :: "('s, 'w) board \<Rightarrow> number \<Rightarrow> number \<Rightarrow> box option" where
  "focus_at b x y = (case entered_window (bd_focus b) of
      Some w \<Rightarrow> Some (bd_frame b w)
    | None \<Rightarrow> (case presented_workspace b of
        None \<Rightarrow> None
      | Some s \<Rightarrow> map_option (bd_frame b)
          (window_under (bd_minimized b) (bd_frame b) (c_shown (camera_of b)) (c_viewport (camera_of b)) (board_windows b s) x y)))"

definition zoom_board :: "'w desk \<Rightarrow> number \<Rightarrow> ('s, 'w) board \<Rightarrow> ('s, 'w) board" where
  "zoom_board d factor b = (let b' = with_focus d release_window b; vp = c_viewport (camera_of b') in
    with_camera (zoomStep (n_animations d) (focus_at b' (b_x vp + b_w vp / 2) (b_y vp + b_h vp / 2)) factor) b')"

definition begin_move_on :: "'w \<Rightarrow> bool \<Rightarrow> ('s, 'w) board \<Rightarrow> ('s, 'w) board" where
  "begin_move_on w snapping b = with_collisions (begin_move (w_scale (c_view (camera_of b))) w
     (case presented_workspace b of
        Some s \<Rightarrow> if located_on b w s then Some (filter (\<lambda>x. x \<noteq> w) (open_windows b s)) else None
      | None \<Rightarrow> None) snapping) b"

text \<open>What moves with the moving window is found before the next redraw, once.\<close>

definition queue_resolve :: "('s, 'w) board \<Rightarrow> ('s, 'w) board" where
  "queue_resolve b = (if k_queued (bd_collisions b) then b
     else later Resolve (b\<lparr>bd_collisions := (bd_collisions b)\<lparr>k_queued := True\<rparr>\<rparr>))"

definition queue_follow :: "('s, 'w) board \<Rightarrow> ('s, 'w) board" where
  "queue_follow b = (if Follow \<in> set (bd_later b) then b else later Follow b)"

definition move_on :: "number \<Rightarrow> number \<Rightarrow> ('s, 'w) board \<Rightarrow> ('s, 'w) board" where
  "move_on dx dy b = (if k_moving (bd_collisions b) = None then b
     else (let scale = w_scale (c_view (camera_of b)) in with_collisions (move_by (dx / scale) (dy / scale)) (queue_resolve b)))"

definition end_move_on :: "'w desk \<Rightarrow> ('s, 'w) board \<Rightarrow> ('s, 'w) board" where
  "end_move_on d b = (let b' = end_collisions b in
    case entered_window (bd_focus b') of
      Some w \<Rightarrow> with_focus d (enter_window (windows_for d b') w (c_view (camera_of b'))) b'
    | None \<Rightarrow> b')"

fun run_task :: "'w desk \<Rightarrow> ('s, 'w) task \<Rightarrow> ('s, 'w) board \<Rightarrow> ('s, 'w) board" where
  "run_task d (Place w s) b = follower_place d w s b"
| "run_task d (Release w s) b = release_from d w s b"
| "run_task d (Bring_back w) b = bring_back d w b"
| "run_task d (Enter_maximized w s) b = (if bd_home b w \<noteq> Some s then b
     else enter_window_on d w None (b\<lparr>bd_maximized := (bd_maximized b)(w := False)\<rparr>))"
| "run_task d (Set_aside w box) b = (if bd_fullscreen b w then set_aside d w box b else b)"
| "run_task d Follow b = with_focus d (follow (windows_for d b) (k_moving (bd_collisions b))) b"
| "run_task d Resolve b = with_collisions (queued_resolve (w_scale (c_view (camera_of b)))) b"

definition redraw :: "'w desk \<Rightarrow> ('s, 'w) board \<Rightarrow> ('s, 'w) board" where
  "redraw d b = fold (run_task d) (bd_later b) (b\<lparr>bd_later := []\<rparr>)"

definition overview_on :: "'w desk \<Rightarrow> ('s, 'w) board \<Rightarrow> ('s, 'w) board" where
  "overview_on d b = with_focus d (show_overview (windows_for d b)) b"

section \<open>Windows and grabs\<close>

text \<open>The compositor gives a window a new frame: what watches it waits for the next redraw.\<close>

definition frame_changed :: "'w \<Rightarrow> box \<Rightarrow> ('s, 'w) board \<Rightarrow> ('s, 'w) board" where
  "frame_changed w box b = (let
      b1 = b\<lparr>bd_frame := (bd_frame b)(w := box)\<rparr>;
      b2 = (if k_moving (bd_collisions b1) = Some w then queue_resolve b1 else b1)
    in if o_watched (bd_focus b2) = Some w then queue_follow b2 else b2)"

definition unmanaging :: "'w desk \<Rightarrow> 'w \<Rightarrow> ('s, 'w) board \<Rightarrow> ('s, 'w) board" where
  "unmanaging d w b = (let
      k = bd_collisions b;
      b1 = (if k_moving k = Some w then with_collisions abandon (b\<lparr>bd_later := removeAll Resolve (bd_later b)\<rparr>)
        else if k_moving k \<noteq> None \<and> w \<in> set (k_others k)
        then with_collisions (\<lambda>k frame. (forget_other w k, frame)) (queue_resolve b) else b)
    in if o_watched (bd_focus b1) = Some w then overview_on d b1 else b1)"

definition grab_begins :: "'w desk \<Rightarrow> 'w \<Rightarrow> bool \<Rightarrow> ('s, 'w) board \<Rightarrow> ('s, 'w) board" where
  "grab_begins d w moves b = (let
      b1 = (case presented_workspace b of
          Some s \<Rightarrow> if bd_home b w = Some s then begin_move_on w moves b else b
        | None \<Rightarrow> b)
    in with_focus d (grab_began w) b1)"

definition grab_ends :: "'w desk \<Rightarrow> 'w \<Rightarrow> ('s, 'w) board \<Rightarrow> ('s, 'w) board" where
  "grab_ends d w b = (let
      b1 = (if k_moving (bd_collisions b) = Some w then end_collisions b else b);
      b2 = with_focus d (\<lambda>fo. fst (grab_ended (windows_for d b1) w fo)) b1
    in if snd (grab_ended (windows_for d b1) w (bd_focus b1)) then queue_follow b2 else b2)"

definition enter_app :: "'w desk \<Rightarrow> 'w option \<Rightarrow> ('s, 'w) board \<Rightarrow> ('s, 'w) board" where
  "enter_app d next b = (case next of
      None \<Rightarrow> b
    | Some w \<Rightarrow> if next = entered_window (bd_focus b) then overview_on d b else enter_window_on d w None b)"

section \<open>The machine of events\<close>

text \<open>Frames of the timelines, and what gestures do to the camera.\<close>

datatype camera_op =
    Pan number number
  | Zoom_to number number number number number
  | Zoom_by number number number
  | Snap number number
  | Stop
  | Glide number number number

definition camera_op :: "'w desk \<Rightarrow> camera_op \<Rightarrow> ('s, 'w) board \<Rightarrow> ('s, 'w) board" where
  "camera_op d op b = with_camera (case op of
      Pan dx dy \<Rightarrow> panBy dx dy
    | Zoom_to scale sx sy dx dy \<Rightarrow> zoomAt (focus_at b sx sy) scale sx sy dx dy
    | Zoom_by factor sx sy \<Rightarrow> zoomBy (focus_at b sx sy) factor sx sy
    | Snap sx sy \<Rightarrow> snapToFullSize (focus_at b sx sy) sx sy
    | Stop \<Rightarrow> stop_camera
    | Glide speed vx vy \<Rightarrow> glide (n_animations d) speed vx vy) b"

text \<open>The keys of the board are bound while it is shown; its zoom and enter keys are always.\<close>

datatype ('s, 'w) event =
    Toggle | Track bool | Untrack bool | Restore_signal "'w restore_event" | Faded 'w | Uncovered
  | Added 'w 's bool | Mapped 'w | Removed 'w 's | Size_change 'w size_change box | Window_focused "'w option"
  | Activated 's | Forgotten 's | Redraw | Camera_settled number number
  | Fit_all | Enter 'w "view option" | Overview | Free_view | Navigate number number | App "'w option"
  | Key_step number number | Key_zoom number | Key_enter | Key_overview
  | Begin_move 'w | Move number number | End_move | Grab_began 'w bool | Grab_ended 'w
  | Unmanaging 'w | Frame_changed 'w box | Pointer number number | Monitors_changed | Board_disabled
  | Camera camera_op | Tween_frame number number | Momentum_frame number number number
  | Restacked "'w list" | Rehomed 'w "'s option" | Flags 'w bool bool bool

fun board_event :: "'w desk \<Rightarrow> ('s, 'w) event \<Rightarrow> ('s, 'w) board \<Rightarrow> ('s, 'w) board" where
  "board_event d Toggle b = toggle_board d b"
| "board_event d (Track entering) b = track_board d entering b"
| "board_event d (Untrack entering) b = untrack_board d entering b"
| "board_event d (Restore_signal e) b = restore_event d e b"
| "board_event d (Faded w) b = faded d w b"
| "board_event d Uncovered b = uncover b"
| "board_event d (Added w s mapped) b = added_window w s mapped b"
| "board_event d (Mapped w) b = mapped_window d w b"
| "board_event d (Removed w s) b = removed_window w s b"
| "board_event d (Size_change w change before) b = size_changed w change before b"
| "board_event d (Window_focused w) b = (let b' = b\<lparr>bd_active_window := w\<rparr> in
    case w of Some x \<Rightarrow> focused_window d x b' | None \<Rightarrow> b')"
| "board_event d (Activated s) b = sync_workspace d (b\<lparr>bd_active := s\<rparr>)"
| "board_event d (Forgotten s) b = forget_workspace d s b"
| "board_event d Redraw b = redraw d b"
| "board_event d (Camera_settled px py) b = settled d px py b"
| "board_event d Fit_all b = fit_board d b"
| "board_event d (Enter w start) b = enter_window_on d w start b"
| "board_event d Overview b = overview_on d b"
| "board_event d Free_view b = with_focus d release_window b"
| "board_event d (Navigate dx dy) b = with_focus d (\<lambda>fo. fst (navigate (windows_for d b) dx dy fo)) b"
| "board_event d (App next) b = enter_app d next b"
| "board_event d (Key_step dx dy) b = (if bd_keys b then step_board d dx dy b else b)"
| "board_event d (Key_zoom factor) b = (if bd_presented b \<noteq> None then zoom_board d factor b else b)"
| "board_event d Key_enter b = (case (bd_presented b, bd_active_window b) of
    (Some s, Some w) \<Rightarrow> enter_window_on d w None b | _ \<Rightarrow> b)"
| "board_event d Key_overview b = (if bd_keys b then overview_on d b else b)"
| "board_event d (Begin_move w) b = begin_move_on w True b"
| "board_event d (Move dx dy) b = move_on dx dy b"
| "board_event d End_move b = end_move_on d b"
| "board_event d (Grab_began w moves) b = grab_begins d w moves b"
| "board_event d (Grab_ended w) b = grab_ends d w b"
| "board_event d (Unmanaging w) b = unmanaging d w b"
| "board_event d (Frame_changed w box) b = frame_changed w box b"
| "board_event d (Pointer x y) b = (let c = camera_of b in
    b\<lparr>bd_x11 := x11_hover (bd_minimized b) (bd_frame b) (c_shown c) (c_viewport c) (screen_of d b) x y (bd_x11 b)\<rparr>)"
| "board_event d Monitors_changed b = (if bd_presented b \<noteq> None then present d (bd_presented b) False b else b)"
| "board_event d Board_disabled b = (if \<not> n_enabled d \<and> bd_presented b \<noteq> None then exit_board d None b else b)"
| "board_event d (Camera op) b = camera_op d op b"
| "board_event d (Tween_frame progress scale) b = with_camera (tween_frame progress scale) b"
| "board_event d (Momentum_frame delta decay speed) b = with_camera (momentum_frame delta decay speed) b"
| "board_event d (Restacked ws) b = b\<lparr>bd_stack := ws\<rparr>"
| "board_event d (Rehomed w s) b = b\<lparr>bd_home := (bd_home b)(w := s)\<rparr>"
| "board_event d (Flags w minimized fullscreen maximized) b =
    b\<lparr>bd_minimized := (bd_minimized b)(w := minimized), bd_fullscreen := (bd_fullscreen b)(w := fullscreen),
      bd_maximized := (bd_maximized b)(w := maximized)\<rparr>"

text \<open>
  Gestures reach the camera while a board is shown.  A wait for sizes is cancelled only as the
  board is destroyed, which is no event here.
\<close>

fun in_turn :: "('s, 'w) event \<Rightarrow> ('s, 'w) board \<Rightarrow> bool" where
  "in_turn (Camera op) b = (bd_presented b \<noteq> None)"
| "in_turn (Restore_signal e) b = (e \<noteq> Cancelled)"
| "in_turn e b = True"

definition blank_camera :: "box \<Rightarrow> camera" where
  "blank_camera viewport = \<lparr>c_view = \<lparr>w_x = 0, w_y = 0, w_scale = 1\<rparr>, c_shown = \<lparr>w_x = 0, w_y = 0, w_scale = 1\<rparr>, c_viewport = viewport,
     c_pixel = 1, c_engaged = False, c_tween = None, c_glide = None, c_group_scale = 1, c_translation = (0, 0), c_settling = False\<rparr>"

definition blank_board :: "'s \<Rightarrow> 'w list \<Rightarrow> ('w \<Rightarrow> 's option) \<Rightarrow> ('w \<Rightarrow> box) \<Rightarrow> ('s, 'w) board" where
  "blank_board active stack home frame = \<lparr>bd_active = active, bd_presented = None, bd_canvases = [], bd_restoring = None, bd_aside = None,
     bd_focus = \<lparr>o_state = None, o_watched = None, o_held = None, o_target = \<lparr>w_x = 0, w_y = 0, w_scale = 1\<rparr>,
       o_camera = blank_camera \<lparr>b_x = 0, b_y = 0, b_w = 0, b_h = 0\<rparr>\<rparr>,
     bd_collisions = \<lparr>k_moving = None, k_others = [], k_start = [], k_intended = (0, 0), k_snapping = False, k_queued = False\<rparr>,
     bd_x11 = \<lparr>x_windows = [], x_anchor = None, x_origin = (0, 0)\<rparr>, bd_magnified = [], bd_keys = False, bd_corner = False,
     bd_panels_hidden = False, bd_backdrop = False, bd_pending = [], bd_unplaced = [], bd_later = [], bd_fading = [], bd_stack = stack,
     bd_home = home, bd_frame = frame, bd_minimized = (\<lambda>_. False), bd_fullscreen = (\<lambda>_. False), bd_maximized = (\<lambda>_. False),
     bd_free = (\<lambda>_. False), bd_magnification = (\<lambda>_. 1), bd_active_window = None\<rparr>"

inductive board_reaches :: "('s, 'w) board \<Rightarrow> bool" where
  start: "board_reaches (blank_board active stack home frame)"
| event: "board_reaches b \<Longrightarrow> in_turn e b \<Longrightarrow> board_reaches (board_event d e b)"

end
