(* ===== verification/Board_Facts.thy ===== *)
theory Board_Facts
  imports Board_Session
begin

text \<open>
  What every operation of the board keeps: a board that is shown is the canvas of the active
  workspace, which its focus shares; while none is shown, the screen is as if there were no board.
\<close>

section \<open>The invariant\<close>

definition camera_idle :: "camera \<Rightarrow> bool" where
  "camera_idle c \<longleftrightarrow> \<not> c_engaged c \<and> c_tween c = None \<and> c_glide c = None \<and> c_group_scale c = 1 \<and> c_translation c = (0, 0) \<and> \<not> c_settling c"

definition shares :: "('s, 'w) board \<Rightarrow> 's \<Rightarrow> bool" where
  "shares b s \<longleftrightarrow> (\<exists>c. canvas_of b s = Some c \<and> v_shown c \<and> o_state (bd_focus b) = Some \<lparr>f_entered = f_entered c, f_overview = f_overview c\<rparr>)"

definition board_off :: "('s, 'w) board \<Rightarrow> bool" where
  "board_off b \<longleftrightarrow> o_state (bd_focus b) = None \<and> camera_idle (camera_of b) \<and> k_moving (bd_collisions b) = None \<and>
    x_windows (bd_x11 b) = [] \<and> bd_magnified b = [] \<and> \<not> bd_keys b \<and> \<not> bd_corner b \<and> \<not> bd_panels_hidden b"

definition board_on :: "('s, 'w) board \<Rightarrow> 's \<Rightarrow> bool" where
  "board_on b s \<longleftrightarrow> s = bd_active b \<and> bd_keys b \<and> bd_panels_hidden b \<and> bd_backdrop b \<and> c_engaged (camera_of b) \<and> shares b s"

definition board_base :: "('s, 'w) board \<Rightarrow> bool" where
  "board_base b \<longleftrightarrow> distinct (map fst (bd_canvases b)) \<and> o_watched (bd_focus b) = entered_window (bd_focus b) \<and>
    (\<forall>w. w \<notin> set (bd_magnified b) \<longrightarrow> bd_magnification b w = 1) \<and>
    (case bd_restoring b of Some (s, r) \<Rightarrow> rs_done r = 0 \<and> rs_timer r | None \<Rightarrow> True)"

definition board_ok :: "('s, 'w) board \<Rightarrow> bool" where
  "board_ok b \<longleftrightarrow> board_base b \<and> (case bd_presented b of None \<Rightarrow> board_off b | Some s \<Rightarrow> board_on b s)"

named_theorems board_parts

lemmas board_ok_defs = board_ok_def board_base_def board_on_def board_off_def shares_def camera_of_def canvas_of_def

text \<open>Windows and tasks are no part of it.\<close>

lemma board_ok_windows [board_parts]:
  "board_ok (b\<lparr>bd_frame := x1\<rparr>) = board_ok b" "board_ok (b\<lparr>bd_later := x2\<rparr>) = board_ok b" "board_ok (b\<lparr>bd_pending := x3\<rparr>) = board_ok b"
  "board_ok (b\<lparr>bd_unplaced := x4\<rparr>) = board_ok b" "board_ok (b\<lparr>bd_fading := x5\<rparr>) = board_ok b" "board_ok (b\<lparr>bd_stack := x6\<rparr>) = board_ok b"
  "board_ok (b\<lparr>bd_home := x7\<rparr>) = board_ok b" "board_ok (b\<lparr>bd_minimized := x8\<rparr>) = board_ok b" "board_ok (b\<lparr>bd_fullscreen := x9\<rparr>) = board_ok b"
  "board_ok (b\<lparr>bd_maximized := x10\<rparr>) = board_ok b" "board_ok (b\<lparr>bd_free := x11\<rparr>) = board_ok b" "board_ok (b\<lparr>bd_aside := x12\<rparr>) = board_ok b"
  "board_ok (b\<lparr>bd_active_window := x13\<rparr>) = board_ok b"
  by (simp_all add: board_ok_defs split: option.split)

lemma later_ok [board_parts]: "board_ok (later t b) = board_ok b"
  by (simp add: later_def board_parts)

lemma shade_now_ok [board_parts]: "board_ok (shade_now s b) = board_ok b"
  by (simp add: shade_now_def board_parts)

section \<open>Canvases\<close>

lemma canvas_of_with_canvas: "canvas_of (with_canvas s f b) t = (if t = s then map_option f (canvas_of b s) else canvas_of b t)"
  by (simp add: with_canvas_def canvas_of_def update_conv' split: option.split)

lemma with_canvas_fields [simp]:
  "bd_active (with_canvas s f b) = bd_active b" "bd_presented (with_canvas s f b) = bd_presented b"
  "bd_restoring (with_canvas s f b) = bd_restoring b" "bd_focus (with_canvas s f b) = bd_focus b"
  "bd_collisions (with_canvas s f b) = bd_collisions b" "bd_x11 (with_canvas s f b) = bd_x11 b"
  "bd_magnified (with_canvas s f b) = bd_magnified b" "bd_keys (with_canvas s f b) = bd_keys b" "bd_corner (with_canvas s f b) = bd_corner b"
  "bd_panels_hidden (with_canvas s f b) = bd_panels_hidden b" "bd_backdrop (with_canvas s f b) = bd_backdrop b"
  "bd_magnification (with_canvas s f b) = bd_magnification b" "camera_of (with_canvas s f b) = camera_of b"
  "bd_stack (with_canvas s f b) = bd_stack b" "bd_home (with_canvas s f b) = bd_home b" "bd_frame (with_canvas s f b) = bd_frame b"
  "bd_minimized (with_canvas s f b) = bd_minimized b" "bd_free (with_canvas s f b) = bd_free b" "bd_maximized (with_canvas s f b) = bd_maximized b"
  "bd_fading (with_canvas s f b) = bd_fading b"
  by (simp_all add: with_canvas_def camera_of_def split: option.split)

lemma with_canvas_distinct [simp]: "distinct (map fst (bd_canvases b)) \<Longrightarrow> distinct (map fst (bd_canvases (with_canvas s f b)))"
  by (simp add: with_canvas_def distinct_update split: option.split)

lemma with_canvas_base [simp]: "board_base b \<Longrightarrow> board_base (with_canvas s f b)"
  by (simp add: board_base_def)

lemma with_canvas_off [simp]: "board_off (with_canvas s f b) = board_off b"
  by (simp add: board_off_def)

lemma with_canvas_ok:
  assumes "board_ok b"
    and "\<And>c. bd_presented b = Some s \<Longrightarrow> v_shown (f c) = v_shown c \<and> f_entered (f c) = f_entered c \<and> f_overview (f c) = f_overview c"
  shows "board_ok (with_canvas s f b)"
proof (cases "bd_presented b")
  case None
  with assms show ?thesis by (simp add: board_ok_def)
next
  case (Some p)
  with assms(1) have "board_on b p" by (simp add: board_ok_def)
  then have "board_on (with_canvas s f b) p"
    using assms(2) Some by (auto simp: board_on_def shares_def canvas_of_with_canvas)
  with assms(1) Some show ?thesis by (simp add: board_ok_def)
qed

section \<open>The parts\<close>

lemma windows_changed_fields [simp]:
  "bd_active (windows_changed d b) = bd_active b" "bd_presented (windows_changed d b) = bd_presented b"
  "bd_restoring (windows_changed d b) = bd_restoring b" "bd_focus (windows_changed d b) = bd_focus b"
  "bd_collisions (windows_changed d b) = bd_collisions b" "bd_canvases (windows_changed d b) = bd_canvases b"
  "bd_magnified (windows_changed d b) = bd_magnified b" "bd_keys (windows_changed d b) = bd_keys b" "bd_corner (windows_changed d b) = bd_corner b"
  "bd_panels_hidden (windows_changed d b) = bd_panels_hidden b" "bd_backdrop (windows_changed d b) = bd_backdrop b"
  "bd_magnification (windows_changed d b) = bd_magnification b" "camera_of (windows_changed d b) = camera_of b"
  "bd_stack (windows_changed d b) = bd_stack b" "bd_home (windows_changed d b) = bd_home b" "bd_frame (windows_changed d b) = bd_frame b"
  "bd_minimized (windows_changed d b) = bd_minimized b" "bd_free (windows_changed d b) = bd_free b" "bd_maximized (windows_changed d b) = bd_maximized b"
  "bd_fading (windows_changed d b) = bd_fading b"
  "canvas_of (windows_changed d b) s = canvas_of b s"
  by (simp_all add: windows_changed_def camera_of_def canvas_of_def split: option.split)

lemma windows_changed_ok [board_parts]: "board_ok (windows_changed d b) = board_ok b"
proof (cases "bd_presented b")
  case None
  then show ?thesis by (simp add: windows_changed_def presented_workspace_def)
next
  case (Some s)
  then show ?thesis by (simp add: board_ok_def board_base_def board_on_def shares_def)
qed

lemma with_camera_ok:
  assumes "board_ok b" and "bd_presented b = None \<Longrightarrow> camera_idle (f (camera_of b))"
    and "\<And>c. c_engaged (f c) = c_engaged c"
  shows "board_ok (with_camera f b)"
  using assms by (auto simp: board_ok_defs with_camera_def entered_window_def split: option.splits)

lemma with_camera_on:
  assumes "board_ok b" and "bd_presented b \<noteq> None" and "\<And>c. c_engaged (f c) = c_engaged c"
  shows "board_ok (with_camera f b)"
  using assms by (auto intro: with_camera_ok)

lemma collisions_ok:
  assumes "board_ok b" and "bd_presented b = None \<Longrightarrow> k_moving k = None"
  shows "board_ok (b\<lparr>bd_collisions := k\<rparr>)"
  using assms by (auto simp: board_ok_defs split: option.splits)

lemma with_collisions_ok:
  assumes "board_ok b" and "\<And>k frame. bd_presented b = None \<Longrightarrow> k_moving k = None \<Longrightarrow> k_moving (fst (f k frame)) = None"
  shows "board_ok (with_collisions f b)"
proof -
  obtain k frame where f: "f (bd_collisions b) (bd_frame b) = (k, frame)" by fastforce
  have "bd_presented b = None \<Longrightarrow> k_moving k = None"
    using assms(1) assms(2) [of "bd_collisions b" "bd_frame b"] f by (simp add: board_ok_def board_off_def)
  with collisions_ok [OF assms(1)] f show ?thesis by (simp add: with_collisions_def board_parts)
qed

lemma end_collisions_ok: "board_ok b \<Longrightarrow> board_ok (end_collisions b)"
  unfolding end_collisions_def by (auto simp: board_parts end_move_def stop_collisions_def intro: with_collisions_ok)

lemma queue_resolve_ok: "board_ok b \<Longrightarrow> board_ok (queue_resolve b)"
proof -
  assume ok: "board_ok b"
  then have "board_ok (b\<lparr>bd_collisions := (bd_collisions b)\<lparr>k_queued := True\<rparr>\<rparr>)"
    by (rule collisions_ok) (use ok in \<open>simp add: board_ok_def board_off_def\<close>)
  with ok show ?thesis by (simp add: queue_resolve_def board_parts)
qed

lemma queue_follow_ok [board_parts]: "board_ok (queue_follow b) = board_ok b"
  by (simp add: queue_follow_def board_parts)

section \<open>What the focus does\<close>

text \<open>
  An operation of the focus does nothing while it is detached, never detaches it, and watches
  the window that is entered.
\<close>

locale focus_operation =
  fixes f :: "'w focus \<Rightarrow> 'w focus"
  assumes idle: "o_state fo = None \<Longrightarrow> f fo = fo"
    and stays: "o_state fo \<noteq> None \<Longrightarrow> o_state (f fo) \<noteq> None"
    and watches: "o_watched fo = entered_window fo \<Longrightarrow> o_watched (f fo) = entered_window (f fo)"
    and engaged: "c_engaged (o_camera (f fo)) = c_engaged (o_camera fo)"
begin

lemma stored_ok: "board_ok b \<Longrightarrow> board_ok (store_state (b\<lparr>bd_focus := f (bd_focus b)\<rparr>))"
proof (cases "bd_presented b")
  case None
  assume "board_ok b"
  with None have "o_state (bd_focus b) = None" by (simp add: board_ok_def board_off_def)
  from idle [OF this] have "b\<lparr>bd_focus := f (bd_focus b)\<rparr> = b" by simp
  with None \<open>board_ok b\<close> show ?thesis by (simp add: store_state_def)
next
  case (Some s)
  assume ok: "board_ok b"
  with Some have on: "board_on b s" by (simp add: board_ok_def)
  then obtain c where c: "canvas_of b s = Some c" "v_shown c" and "o_state (bd_focus b) \<noteq> None" by (auto simp: board_on_def shares_def)
  from stays [OF this(3)] obtain st where st: "o_state (f (bd_focus b)) = Some st" by blast
  let ?b = "store_state (b\<lparr>bd_focus := f (bd_focus b)\<rparr>)"
  have b: "?b = with_canvas s (\<lambda>c. c\<lparr>f_entered := f_entered st, f_overview := f_overview st\<rparr>) (b\<lparr>bd_focus := f (bd_focus b)\<rparr>)"
    by (simp add: store_state_def Some st)
  have "board_base (b\<lparr>bd_focus := f (bd_focus b)\<rparr>)"
    using ok watches by (simp add: board_ok_def board_base_def)
  then have "board_base ?b" by (simp add: b)
  moreover have "board_on ?b s"
    using on c st engaged by (simp add: b board_on_def shares_def canvas_of_with_canvas) (simp add: canvas_of_def camera_of_def)
  ultimately show ?thesis using Some by (simp add: board_ok_def b)
qed

lemma with_focus_ok: "board_ok b \<Longrightarrow> board_ok (with_focus d f b)"
  using stored_ok [of b] by (simp add: with_focus_def Let_def board_parts)

end

lemma camera_engaged [simp]:
  "c_engaged (apply_camera c) = c_engaged c" "c_engaged (stop_camera c) = c_engaged c" "c_engaged (animateTo a v t arc c) = c_engaged c"
  "c_engaged (panBy dx dy c) = c_engaged c" "c_engaged (zoomAt fo s sx sy dx dy c) = c_engaged c" "c_engaged (zoomBy fo s sx sy c) = c_engaged c"
  "c_engaged (snapToFullSize fo sx sy c) = c_engaged c" "c_engaged (glide a speed vx vy c) = c_engaged c"
  "c_engaged (tween_frame p s c) = c_engaged c" "c_engaged (momentum_frame p s sp c) = c_engaged c"
  "c_engaged (reveal_box a box p c) = c_engaged c" "c_engaged (panStep a dx dy c) = c_engaged c" "c_engaged (zoomStep a fo s c) = c_engaged c"
  by (simp_all add: apply_camera_def stop_camera_def animateTo_def panBy_def zoomAt_def zoomBy_def snapToFullSize_def glide_def
      tween_frame_def momentum_frame_def reveal_box_def panStep_def zoomStep_def Let_def split: option.split prod.split)

lemma fit_window_parts [simp]:
  "o_state (fit_window d w t fo) = o_state fo" "o_watched (fit_window d w t fo) = o_watched fo"
  "entered_window (fit_window d w t fo) = entered_window fo" "c_engaged (o_camera (fit_window d w t fo)) = c_engaged (o_camera fo)"
  by (simp_all add: fit_window_def entered_window_def Let_def)

interpretation entering: focus_operation "enter_window d w start" for d w start
  by unfold_locales
    (auto simp: enter_window_def watch_window_def entered_window_def Let_def split: option.splits)

interpretation releasing: focus_operation release_window
  by unfold_locales (auto simp: release_window_def unwatch_window_def entered_window_def split: option.splits)

interpretation fitting: focus_operation "fit_all d" for d
  by unfold_locales (auto simp: fit_all_def entered_window_def Let_def split: option.splits)

interpretation leading_back: focus_operation "show_overview d" for d
proof unfold_locales
  fix fo :: "'a focus"
  have plain: "o_state (fo'\<lparr>o_camera := c\<rparr>) = o_state fo'" "entered_window (fo'\<lparr>o_camera := c\<rparr>) = entered_window fo'"
    "o_watched (fo'\<lparr>o_camera := c\<rparr>) = o_watched fo'" for fo' :: "'a focus" and c
    by (simp_all add: entered_window_def)
  show "o_state fo = None \<Longrightarrow> show_overview d fo = fo"
    using releasing.idle [of fo] fitting.idle [of fo d] by (simp add: show_overview_def)
  show "o_state fo \<noteq> None \<Longrightarrow> o_state (show_overview d fo) \<noteq> None"
    using releasing.stays [of fo] fitting.stays [of "release_window fo" d] by (simp add: show_overview_def Let_def plain split: option.split)
  show "o_watched fo = entered_window fo \<Longrightarrow> o_watched (show_overview d fo) = entered_window (show_overview d fo)"
    using releasing.watches [of fo] fitting.watches [of "release_window fo" d] by (simp add: show_overview_def Let_def plain split: option.split)
  show "c_engaged (o_camera (show_overview d fo)) = c_engaged (o_camera fo)"
    using releasing.engaged [of fo] fitting.engaged [of d "release_window fo"] by (simp add: show_overview_def Let_def split: option.split)
qed

interpretation going: focus_operation "\<lambda>fo. fst (navigate d dx dy fo)" for d dx dy
proof unfold_locales
  fix fo :: "'a focus"
  have cases: "fst (navigate d dx dy fo) = fo \<or> (\<exists>w start. fst (navigate d dx dy fo) = enter_window d w start fo)"
    by (auto simp: navigate_def Let_def split: option.split)
  show "o_state fo = None \<Longrightarrow> fst (navigate d dx dy fo) = fo" by (simp add: navigate_def entered_window_def)
  show "o_state fo \<noteq> None \<Longrightarrow> o_state (fst (navigate d dx dy fo)) \<noteq> None" using cases entering.stays by metis
  show "o_watched fo = entered_window fo \<Longrightarrow> o_watched (fst (navigate d dx dy fo)) = entered_window (fst (navigate d dx dy fo))"
    using cases entering.watches by metis
  show "c_engaged (o_camera (fst (navigate d dx dy fo))) = c_engaged (o_camera fo)" using cases entering.engaged by metis
qed

interpretation grabbing: focus_operation "grab_began w" for w
  by unfold_locales (auto simp: grab_began_def entered_window_def)

interpretation letting_go: focus_operation "\<lambda>fo. fst (grab_ended d w fo)" for d w
proof unfold_locales
  fix fo :: "'a focus"
  have held: "o_state (x\<lparr>o_held := h\<rparr>) = o_state x" "entered_window (x\<lparr>o_held := h\<rparr>) = entered_window x"
    "o_watched (x\<lparr>o_held := h\<rparr>) = o_watched x" for x :: "'a focus" and h
    by (simp_all add: entered_window_def)
  show "o_state fo = None \<Longrightarrow> fst (grab_ended d w fo) = fo" by (simp add: grab_ended_def entered_window_def)
  show "o_state fo \<noteq> None \<Longrightarrow> o_state (fst (grab_ended d w fo)) \<noteq> None" by (simp add: grab_ended_def held)
  show "o_watched fo = entered_window fo \<Longrightarrow> o_watched (fst (grab_ended d w fo)) = entered_window (fst (grab_ended d w fo))"
    by (simp add: grab_ended_def held)
  show "c_engaged (o_camera (fst (grab_ended d w fo))) = c_engaged (o_camera fo)" by (simp add: grab_ended_def)
qed

interpretation following: focus_operation "follow d moving" for d moving
  by unfold_locales (auto simp: follow_def entered_window_def Let_def split: option.split)

section \<open>Presenting\<close>

lemma detach_parts [simp]: "o_state (detach fo) = None" "o_camera (detach fo) = o_camera fo" "entered_window (detach fo) = None"
  "o_watched fo = entered_window fo \<Longrightarrow> o_watched (detach fo) = None"
  by (simp_all add: detach_def unwatch_window_def entered_window_def)

lemma with_collisions_fields [simp]:
  "bd_active (with_collisions f b) = bd_active b" "bd_presented (with_collisions f b) = bd_presented b"
  "bd_restoring (with_collisions f b) = bd_restoring b" "bd_focus (with_collisions f b) = bd_focus b"
  "bd_x11 (with_collisions f b) = bd_x11 b" "bd_canvases (with_collisions f b) = bd_canvases b"
  "bd_magnified (with_collisions f b) = bd_magnified b" "bd_keys (with_collisions f b) = bd_keys b" "bd_corner (with_collisions f b) = bd_corner b"
  "bd_panels_hidden (with_collisions f b) = bd_panels_hidden b" "bd_backdrop (with_collisions f b) = bd_backdrop b"
  "bd_magnification (with_collisions f b) = bd_magnification b" "bd_stack (with_collisions f b) = bd_stack b" "bd_home (with_collisions f b) = bd_home b"
  "bd_minimized (with_collisions f b) = bd_minimized b" "bd_free (with_collisions f b) = bd_free b"
  "bd_maximized (with_collisions f b) = bd_maximized b" "bd_fading (with_collisions f b) = bd_fading b"
  by (simp_all add: with_collisions_def split: prod.split)

lemma end_collisions_fields [simp]:
  "bd_active (end_collisions b) = bd_active b" "bd_presented (end_collisions b) = bd_presented b"
  "bd_restoring (end_collisions b) = bd_restoring b" "bd_focus (end_collisions b) = bd_focus b"
  "bd_x11 (end_collisions b) = bd_x11 b" "bd_canvases (end_collisions b) = bd_canvases b"
  "bd_magnified (end_collisions b) = bd_magnified b" "bd_keys (end_collisions b) = bd_keys b" "bd_corner (end_collisions b) = bd_corner b"
  "bd_panels_hidden (end_collisions b) = bd_panels_hidden b" "bd_backdrop (end_collisions b) = bd_backdrop b"
  "bd_magnification (end_collisions b) = bd_magnification b" "bd_stack (end_collisions b) = bd_stack b" "bd_home (end_collisions b) = bd_home b"
  "bd_minimized (end_collisions b) = bd_minimized b" "bd_free (end_collisions b) = bd_free b"
  "bd_maximized (end_collisions b) = bd_maximized b" "bd_fading (end_collisions b) = bd_fading b"
  "canvas_of (end_collisions b) s = canvas_of b s" "camera_of (end_collisions b) = camera_of b"
  by (simp_all add: end_collisions_def canvas_of_def camera_of_def)

lemma end_collisions_still [simp]: "k_moving (bd_collisions (end_collisions b)) = None"
  by (simp add: end_collisions_def with_collisions_def end_move_def stop_collisions_def split: prod.split)

lemma detach_focus_fields [simp]:
  "bd_active (detach_focus b) = bd_active b" "bd_presented (detach_focus b) = bd_presented b"
  "bd_restoring (detach_focus b) = bd_restoring b" "bd_focus (detach_focus b) = detach (bd_focus b)"
  "bd_x11 (detach_focus b) = bd_x11 b" "bd_canvases (detach_focus b) = bd_canvases b" "bd_collisions (detach_focus b) = bd_collisions b"
  "bd_magnified (detach_focus b) = bd_magnified b" "bd_keys (detach_focus b) = bd_keys b" "bd_corner (detach_focus b) = bd_corner b"
  "bd_panels_hidden (detach_focus b) = bd_panels_hidden b" "bd_backdrop (detach_focus b) = bd_backdrop b"
  "bd_magnification (detach_focus b) = bd_magnification b" "bd_stack (detach_focus b) = bd_stack b" "bd_home (detach_focus b) = bd_home b"
  "bd_minimized (detach_focus b) = bd_minimized b" "bd_free (detach_focus b) = bd_free b" "bd_frame (detach_focus b) = bd_frame b"
  "bd_maximized (detach_focus b) = bd_maximized b"
  by (simp_all add: detach_focus_def shade_now_def Let_def split: option.split)

definition presented_none :: "('s, 'w) board \<Rightarrow> bool" where
  "presented_none b \<longleftrightarrow> o_state (bd_focus b) = None \<and> k_moving (bd_collisions b) = None \<and> x_windows (bd_x11 b) = [] \<and> bd_magnified b = []"

text \<open>Whatever was shown, leaving it keeps the camera and what is bound, and the shape of every canvas but its view.\<close>

definition put_down :: "'s option \<Rightarrow> ('s, 'w) board \<Rightarrow> ('s, 'w) board" where
  "put_down next b = (case bd_presented b of
      Some p \<Rightarrow> if next \<noteq> Some p then with_canvas p (\<lambda>c. c\<lparr>v_view := c_view (camera_of b)\<rparr>) b else b
    | None \<Rightarrow> b)"

lemma put_down_fields [simp]:
  "bd_active (put_down next b) = bd_active b" "bd_presented (put_down next b) = bd_presented b" "bd_focus (put_down next b) = bd_focus b"
  "bd_restoring (put_down next b) = bd_restoring b" "bd_x11 (put_down next b) = bd_x11 b" "bd_keys (put_down next b) = bd_keys b"
  "bd_corner (put_down next b) = bd_corner b" "bd_panels_hidden (put_down next b) = bd_panels_hidden b" "bd_backdrop (put_down next b) = bd_backdrop b"
  "bd_magnified (put_down next b) = bd_magnified b" "bd_magnification (put_down next b) = bd_magnification b"
  "bd_collisions (put_down next b) = bd_collisions b" "bd_frame (put_down next b) = bd_frame b" "bd_free (put_down next b) = bd_free b"
  "bd_minimized (put_down next b) = bd_minimized b" "bd_maximized (put_down next b) = bd_maximized b" "bd_home (put_down next b) = bd_home b"
  "bd_stack (put_down next b) = bd_stack b" "camera_of (put_down next b) = camera_of b"
  "distinct (map fst (bd_canvases b)) \<Longrightarrow> distinct (map fst (bd_canvases (put_down next b)))"
  by (simp_all add: put_down_def split: option.split)

lemma leave_eq: "leave next b = (let b2 = reset_magnified ((detach_focus (end_collisions (put_down next b)))\<lparr>bd_presented := next\<rparr>)
    in b2\<lparr>bd_x11 := x11_reset (bd_x11 b2)\<rparr>)"
  unfolding leave_def put_down_def Let_def ..

lemma leave_fields [simp]:
  "bd_active (leave next b) = bd_active b" "bd_presented (leave next b) = next" "bd_focus (leave next b) = detach (bd_focus b)"
  "bd_restoring (leave next b) = bd_restoring b" "bd_keys (leave next b) = bd_keys b" "bd_corner (leave next b) = bd_corner b"
  "bd_panels_hidden (leave next b) = bd_panels_hidden b" "bd_backdrop (leave next b) = bd_backdrop b"
  "bd_magnified (leave next b) = []" "bd_free (leave next b) = bd_free b" "bd_minimized (leave next b) = bd_minimized b"
  "bd_maximized (leave next b) = bd_maximized b" "bd_home (leave next b) = bd_home b" "bd_stack (leave next b) = bd_stack b"
  "camera_of (leave next b) = camera_of b" "x_windows (bd_x11 (leave next b)) = []" "k_moving (bd_collisions (leave next b)) = None"
  "bd_canvases (leave next b) = bd_canvases (put_down next b)" "canvas_of (leave next b) s = canvas_of (put_down next b) s"
  by (simp_all add: leave_eq Let_def reset_magnified_def x11_reset_def camera_of_def canvas_of_def)

lemma leave_magnification: "board_base b \<Longrightarrow> bd_magnification (leave next b) w = 1"
  by (auto simp: leave_eq Let_def reset_magnified_def board_base_def FULL_SIZE_def)

lemma leave_base: "board_base b \<Longrightarrow> board_base (leave next b)"
  using leave_magnification [of b "next"] by (simp add: board_base_def)

lemma canvas_put_down:
  "canvas_of b s = Some c \<Longrightarrow> \<exists>v. canvas_of (put_down next b) s = Some (c\<lparr>v_view := v\<rparr>)"
proof -
  assume c: "canvas_of b s = Some c"
  have "\<exists>v. c = c\<lparr>v_view := v\<rparr>" by (rule exI [of _ "v_view c"]) simp
  with c show ?thesis by (auto simp: put_down_def canvas_of_with_canvas split: option.split)
qed

lemma with_camera_fields [simp]:
  "bd_active (with_camera f b) = bd_active b" "bd_presented (with_camera f b) = bd_presented b"
  "bd_restoring (with_camera f b) = bd_restoring b" "bd_collisions (with_camera f b) = bd_collisions b"
  "bd_x11 (with_camera f b) = bd_x11 b" "bd_canvases (with_camera f b) = bd_canvases b"
  "bd_magnified (with_camera f b) = bd_magnified b" "bd_keys (with_camera f b) = bd_keys b" "bd_corner (with_camera f b) = bd_corner b"
  "bd_panels_hidden (with_camera f b) = bd_panels_hidden b" "bd_backdrop (with_camera f b) = bd_backdrop b"
  "bd_magnification (with_camera f b) = bd_magnification b" "bd_stack (with_camera f b) = bd_stack b" "bd_home (with_camera f b) = bd_home b"
  "bd_minimized (with_camera f b) = bd_minimized b" "bd_free (with_camera f b) = bd_free b" "bd_frame (with_camera f b) = bd_frame b"
  "bd_maximized (with_camera f b) = bd_maximized b" "bd_fading (with_camera f b) = bd_fading b" "bd_later (with_camera f b) = bd_later b"
  "camera_of (with_camera f b) = f (camera_of b)" "canvas_of (with_camera f b) s = canvas_of b s"
  "o_state (bd_focus (with_camera f b)) = o_state (bd_focus b)" "o_watched (bd_focus (with_camera f b)) = o_watched (bd_focus b)"
  "entered_window (bd_focus (with_camera f b)) = entered_window (bd_focus b)"
  by (simp_all add: with_camera_def camera_of_def canvas_of_def entered_window_def)

lemma with_camera_base [simp]: "board_base (with_camera f b) = board_base b"
  by (simp add: board_base_def)

lemma viewport_for_fields [simp]:
  "bd_active (viewport_for d b) = bd_active b" "bd_presented (viewport_for d b) = bd_presented b" "bd_keys (viewport_for d b) = bd_keys b"
  "bd_corner (viewport_for d b) = bd_corner b" "bd_frame (viewport_for d b) = bd_frame b" "canvas_of (viewport_for d b) s = canvas_of b s"
  "o_state (bd_focus (viewport_for d b)) = o_state (bd_focus b)" "o_watched (bd_focus (viewport_for d b)) = o_watched (bd_focus b)"
  "board_base (viewport_for d b) = board_base b" "c_engaged (camera_of (viewport_for d b)) = c_engaged (camera_of b)"
  "bd_free (viewport_for d b) = bd_free b" "bd_minimized (viewport_for d b) = bd_minimized b" "bd_maximized (viewport_for d b) = bd_maximized b"
  "bd_stack (viewport_for d b) = bd_stack b" "bd_home (viewport_for d b) = bd_home b" "bd_canvases (viewport_for d b) = bd_canvases b"
  by (simp_all add: viewport_for_def split: option.split)

lemma release_camera_idle [simp]: "camera_idle (release_camera c)"
  by (simp add: camera_idle_def release_camera_def stop_camera_def)

lemma present_none_ok:
  assumes "board_base b" and "bd_presented b = None \<Longrightarrow> board_off b"
  shows "board_ok (present d None fade b)"
proof (cases "bd_presented b")
  case None
  then have "present d None fade b = leave None b" by (simp add: present_def)
  with None assms(2) leave_base [OF assms(1)] show ?thesis by (simp add: board_ok_def board_off_def)
next
  case (Some p)
  let ?b = "(with_camera release_camera (leave None b))\<lparr>bd_corner := False, bd_panels_hidden := False, bd_keys := False\<rparr>"
  have "board_base ?b" using leave_base [OF assms(1), of None] by (simp add: board_base_def)
  moreover have "board_off ?b"
    by (simp add: board_off_def) (simp add: camera_of_def with_camera_def)
  ultimately have "board_ok ?b" by (simp add: board_ok_def)
  moreover have "board_ok ?b \<Longrightarrow> board_ok (uncover ?b)"
    by (simp add: uncover_def board_ok_def board_base_def board_off_def camera_of_def)
  ultimately show ?thesis using Some by (simp add: present_def Let_def)
qed

lemma attach_focus_parts:
  assumes "o_state fo = None" "o_watched fo = None"
  shows "o_state (attach_focus st fo) = Some st" "o_camera (attach_focus st fo) = o_camera fo"
    "o_watched (attach_focus st fo) = f_entered st" "entered_window (attach_focus st fo) = f_entered st"
  using assms by (simp_all add: attach_focus_def detach_def watch_window_def entered_window_def Let_def split: option.split)

lemma engage_camera_engaged [simp]: "c_engaged (engage_camera v p c)"
  by (simp add: engage_camera_def)

lemma present_some_ok:
  assumes "board_base b" and "canvas_of b s = Some c" and "v_shown c" and "s = bd_active b"
  shows "board_ok (present d (Some s) fade b)"
proof -
  from canvas_put_down [OF assms(2)] obtain v where v: "canvas_of (leave (Some s) b) s = Some (c\<lparr>v_view := v\<rparr>)" by auto
  let ?b1 = "leave (Some s) b"
  let ?b2 = "with_camera (engage_camera v (n_pixel_scale d)) (viewport_for d ?b1)"
  let ?b3 = "?b2\<lparr>bd_backdrop := True, bd_panels_hidden := True, bd_corner := bd_corner ?b2 \<or> n_primary d \<noteq> None, bd_keys := True\<rparr>"
  let ?st = "\<lparr>f_entered = f_entered c, f_overview = f_overview c\<rparr>"
  let ?b4 = "?b3\<lparr>bd_focus := attach_focus ?st (bd_focus ?b3)\<rparr>"
  have same: "bd_focus ?b3 = bd_focus ?b2" by simp
  have free: "o_state (bd_focus ?b3) = None" "o_watched (bd_focus ?b3) = None"
    unfolding same using assms(1) by (simp_all add: board_base_def)
  have base2: "board_base ?b2" using leave_base [OF assms(1), of "Some s"] by simp
  have "board_base ?b4"
    using base2 attach_focus_parts(3,4) [OF free, of ?st] by (simp add: board_base_def)
  moreover have "board_on ?b4 s"
  proof -
    have "camera_of ?b4 = camera_of ?b2" using attach_focus_parts(2) [OF free, of ?st] by (simp add: camera_of_def)
    then have "c_engaged (camera_of ?b4)" by simp
    moreover have "canvas_of ?b4 s = Some (c\<lparr>v_view := v\<rparr>)" using v by (simp add: canvas_of_def)
    ultimately show ?thesis
      using attach_focus_parts(1) [OF free, of ?st] assms(3,4) by (simp add: board_on_def shares_def)
  qed
  ultimately have "board_ok ?b4" by (simp add: board_ok_def)
  then show ?thesis using v by (simp add: present_def Let_def board_parts)
qed

text \<open>The canvas of the active workspace, if it is shown, is what is presented.\<close>

lemma present_active_ok:
  assumes "board_base b" and "bd_presented b = None \<Longrightarrow> board_off b"
    and "next = (if is_shown b (bd_active b) then Some (bd_active b) else None)"
  shows "board_ok (present d next fade b)"
proof (cases "is_shown b (bd_active b)")
  case True
  then obtain c where "canvas_of b (bd_active b) = Some c" "v_shown c" by (auto simp: is_shown_def split: option.splits)
  with present_some_ok [OF assms(1) this refl] True assms(3) show ?thesis by simp
qed (use present_none_ok [OF assms(1,2)] assms(3) in simp)

section \<open>Every event\<close>

lemma board_okD: "board_ok b \<Longrightarrow> board_base b" "board_ok b \<Longrightarrow> bd_presented b = None \<Longrightarrow> board_off b"
  "board_ok b \<Longrightarrow> bd_presented b = Some s \<Longrightarrow> board_on b s"
  by (simp_all add: board_ok_def)

lemma presented_shown: "board_ok b \<Longrightarrow> bd_presented b = Some s \<Longrightarrow> s = bd_active b \<and> is_shown b s"
  by (auto simp: board_ok_def board_on_def shares_def is_shown_def)

subsection \<open>Entering\<close>

lemma lay_out_ok:
  assumes "board_base b" "canvas_of b s = Some c" "v_shown c" "s = bd_active b"
  shows "board_ok (lay_out d s c b)"
proof -
  let ?b1 = "viewport_for d b"
  obtain boxes c' where a: "arrange (bd_frame b) (open_windows b s) (c_viewport (camera_of ?b1)) c = (boxes, c')" by fastforce
  have shown: "v_shown c'" using a assms(3) by (auto simp: arrange_def Let_def split: if_splits option.splits)
  let ?c = "c'\<lparr>v_layout := [], v_normal := map (\<lambda>w. (w, bd_frame b w)) (open_windows b s)\<rparr>"
  let ?b2 = "with_canvas s (\<lambda>_. ?c) ?b1"
  have "board_ok (present d (Some s) True ?b2)"
    using assms shown by (intro present_some_ok [where c = ?c]) (simp_all add: canvas_of_with_canvas)
  then show ?thesis by (simp add: lay_out_def Let_def a board_parts)
qed

lemma restoring_parts: "board_off (b\<lparr>bd_restoring := x\<rparr>) = board_off b" "board_on (b\<lparr>bd_restoring := x\<rparr>) s = board_on b s"
  by (simp_all add: board_off_def board_on_def shares_def camera_of_def canvas_of_def)

lemma restoring_update [board_parts]: "board_ok b \<Longrightarrow> board_ok (b\<lparr>bd_restoring := None\<rparr>)"
  "board_ok b \<Longrightarrow> rs_done r = 0 \<Longrightarrow> rs_timer r \<Longrightarrow> board_ok (b\<lparr>bd_restoring := Some (s, r)\<rparr>)"
  by (simp_all add: board_ok_def restoring_parts board_base_def split: option.splits)

lemma restored_ok: assumes "board_ok b" shows "board_ok (restored d s b)"
proof -
  let ?b = "b\<lparr>bd_restoring := None\<rparr>"
  have ok: "board_ok ?b" using assms by (rule restoring_update)
  have "board_ok (lay_out d s c ?b)" if "canvas_of ?b s = Some c" "v_shown c" "bd_active ?b = s" for c
    using lay_out_ok [OF board_okD(1) [OF ok] that(1,2)] that(3) by simp
  with ok show ?thesis by (simp add: restored_def Let_def split: option.split)
qed

lemma settle_restoring_ok: "board_ok b \<Longrightarrow> rs_done r = 0 \<longrightarrow> rs_timer r \<Longrightarrow> board_ok (settle_restoring d s r b)"
  by (simp add: settle_restoring_def restored_ok board_parts)

lemma restore_call_ok: "board_ok b \<Longrightarrow> board_ok (restore_call c b)"
  by (cases c) (simp_all add: board_parts)

lemma fold_ok: "(\<And>x b. board_ok b \<Longrightarrow> board_ok (f x b)) \<Longrightarrow> board_ok b \<Longrightarrow> board_ok (fold f xs b)"
  by (induction xs arbitrary: b) simp_all

lemma canvas_for_ok: assumes "board_ok b" shows "board_ok (canvas_for s b)"
proof (cases "canvas_of b s")
  case None
  let ?b = "b\<lparr>bd_canvases := AList.update s no_canvas (bd_canvases b)\<rparr>"
  have "board_base ?b" using assms by (simp add: board_ok_def board_base_def distinct_update)
  moreover have "board_off ?b = board_off b" by (simp add: board_off_def camera_of_def)
  moreover have "board_on ?b p" if "board_on b p" for p
    using that None by (auto simp: board_on_def shares_def camera_of_def canvas_of_def update_conv')
  ultimately show ?thesis using assms None by (auto simp: canvas_for_def board_ok_def split: option.splits)
qed (use assms in \<open>simp add: canvas_for_def\<close>)

lemma canvas_for_fields [simp]: "bd_presented (canvas_for s b) = bd_presented b" "bd_active (canvas_for s b) = bd_active b"
  by (simp_all add: canvas_for_def)

lemma enter_board_ok: assumes ok: "board_ok b" shows "board_ok (enter_board d b)"
proof -
  let ?s = "bd_active b"
  let ?b1 = "canvas_for ?s b"
  have b1: "board_ok ?b1" using ok by (rule canvas_for_ok)
  show ?thesis
  proof (cases "is_shown ?b1 ?s \<or> bd_restoring ?b1 \<noteq> None")
    case False
    have "bd_presented ?b1 \<noteq> Some ?s" using presented_shown [OF b1] False by auto
    moreover from this have "bd_presented ?b1 = None" using presented_shown [OF b1] by (cases "bd_presented ?b1") auto
    ultimately have "board_ok (with_canvas ?s (\<lambda>c. c\<lparr>v_shown := True\<rparr>) ?b1)" by (intro with_canvas_ok [OF b1]) simp
    then have b2: "board_ok ((with_canvas ?s (\<lambda>c. c\<lparr>v_shown := True\<rparr>) ?b1)\<lparr>bd_aside := None\<rparr>)" (is "board_ok ?b2")
      by (simp add: board_parts)
    let ?b3 = "?b2\<lparr>bd_free := (\<lambda>w. w \<in> set (board_windows ?b2 ?s) \<or> bd_free ?b2 w)\<rparr>"
    obtain calls r where r: "restore_sizes (state_of_window ?b3) (n_own_size d) (board_windows ?b2 ?s) = (calls, r)" by fastforce
    have "rs_done r = 0 \<longrightarrow> rs_timer r" using r by (auto simp: restore_sizes_def Let_def split: if_splits)
    moreover have "board_ok (fold restore_call calls ?b3)"
      using b2 by (intro fold_ok restore_call_ok) (simp_all add: board_parts)
    ultimately have "board_ok (settle_restoring d ?s r (fold restore_call calls ?b3))" by (intro settle_restoring_ok)
    with r False show ?thesis by (simp add: enter_board_def Let_def)
  qed (simp add: enter_board_def Let_def b1)
qed

lemma restore_event_ok:
  assumes "board_ok b" "e \<noteq> Cancelled" shows "board_ok (restore_event d e b)"
proof (cases "bd_restoring b")
  case (Some p)
  obtain s r where p: "p = (s, r)" by fastforce
  with assms(1) Some have "rs_done r = 0" "rs_timer r" by (auto simp: board_ok_def board_base_def)
  with assms(2) have "rs_done (restore_step e r) = 0 \<longrightarrow> rs_timer (restore_step e r)"
    by (cases e) (auto simp: finish_restoring_def cancel_restoring_def Let_def)
  with assms(1) Some p show ?thesis by (simp add: restore_event_def settle_restoring_ok)
qed (use assms in \<open>simp add: restore_event_def\<close>)

subsection \<open>Leaving\<close>

lemma tuck_away_ok [board_parts]: "board_ok (tuck_away d s w b) = board_ok b"
  by (simp add: tuck_away_def board_parts)

lemma exit_call_ok [board_parts]: "board_ok (exit_call d s c b) = board_ok b"
  by (cases c) (simp_all add: board_parts)

lemma present_after_ok:
  assumes "board_ok b" and "board_base (f b)" and "bd_presented (f b) = bd_presented b" and "board_off b \<Longrightarrow> board_off (f b)"
  shows "board_ok (present d None fade (f b))"
  using assms by (intro present_none_ok) (auto simp: board_ok_def)

lemma exit_board_ok: assumes ok: "board_ok b" shows "board_ok (exit_board d except b)"
proof (cases "bd_presented b")
  case (Some s)
  let ?b1 = "end_collisions b"
  have b1: "board_ok ?b1" using ok by (rule end_collisions_ok)
  have "board_ok (present d None True (with_canvas s f ?b1))" for f
    by (rule present_none_ok) (use board_okD [OF b1] Some in simp_all)
  then show ?thesis using Some
    by (simp add: exit_board_def Let_def) (intro fold_ok; simp add: board_parts)
qed (use ok in \<open>simp add: exit_board_def\<close>)

lemma faded_ok: "board_ok b \<Longrightarrow> board_ok (faded d w b)"
  by (simp add: faded_def board_parts split: option.split)

lemma uncover_ok: "board_ok b \<Longrightarrow> board_ok (uncover b)"
  by (simp add: uncover_def board_ok_def board_base_def board_off_def camera_of_def split: option.splits)

subsection \<open>Windows\<close>

lemmas focus_ok = entering.with_focus_ok releasing.with_focus_ok fitting.with_focus_ok leading_back.with_focus_ok going.with_focus_ok
  grabbing.with_focus_ok letting_go.with_focus_ok following.with_focus_ok

lemma place_window_ok: "board_ok b \<Longrightarrow> board_ok (place_window d w s b)"
  by (auto simp: place_window_def Let_def board_parts intro!: with_camera_on)

lemma enter_window_on_ok: "board_ok b \<Longrightarrow> board_ok (enter_window_on d w start b)"
  by (simp add: enter_window_on_def focus_ok split: option.split)

lemma board_focused_window_ok: assumes ok: "board_ok b" shows "board_ok (focused_window d w b)"
proof (cases "bd_presented b")
  case (Some p)
  then have "board_ok (with_camera (reveal_box (n_animations d) (bd_frame b w) WINDOW_PADDING) b)"
    using ok by (intro with_camera_on) simp_all
  with ok show ?thesis by (simp add: focused_window_def Let_def enter_window_on_ok split: option.split)
qed (use ok in \<open>simp add: focused_window_def presented_workspace_def\<close>)

lemma follower_place_ok: "board_ok b \<Longrightarrow> board_ok (follower_place d w s b)"
  by (simp add: follower_place_def Let_def board_parts place_window_ok board_focused_window_ok)

lemma unmagnified_ok: "board_ok b \<Longrightarrow> w \<in> set (bd_magnified b) \<Longrightarrow>
    board_ok (b\<lparr>bd_magnified := removeAll w (bd_magnified b), bd_magnification := (bd_magnification b)(w := FULL_SIZE)\<rparr>)"
  by (auto simp: board_ok_defs FULL_SIZE_def split: option.splits)

lemma release_from_ok: assumes ok: "board_ok b" shows "board_ok (release_from d w s b)"
proof -
  define b1 where "b1 = (if Option.bind (canvas_of b s) f_entered = Some w
        then if bd_presented b = Some s then with_focus d (show_overview (windows_for d b)) b
             else with_canvas s (\<lambda>c. c\<lparr>f_entered := None, f_overview := None\<rparr>) b
        else b)"
  have 1: "board_ok b1"
    unfolding b1_def using ok by (auto intro: focus_ok with_canvas_ok)
  define b2 where "b2 = with_canvas s (\<lambda>c. c\<lparr>v_layout := AList.delete w (v_layout c), v_normal := AList.delete w (v_normal c)\<rparr>) b1"
  have 2: "board_ok b2" unfolding b2_def using 1 by (rule with_canvas_ok) simp
  define b3 where "b3 = (if w \<in> set (bd_magnified b2)
        then b2\<lparr>bd_magnified := removeAll w (bd_magnified b2), bd_magnification := (bd_magnification b2)(w := FULL_SIZE)\<rparr> else b2)"
  have 3: "board_ok b3" unfolding b3_def using 2 unmagnified_ok [OF 2, of w] by simp
  define b4 where "b4 = (if bd_presented b3 = Some s then windows_changed d b3 else b3)"
  have 4: "board_ok b4" unfolding b4_def using 3 by (simp add: board_parts)
  have "release_from d w s b = (case bd_home b4 w of
         None \<Rightarrow> b4
       | Some home \<Rightarrow> if is_shown b4 home then b4
           else b4\<lparr>bd_free := (bd_free b4)(w := False),
             bd_frame := (bd_frame b4)(w := place_at (released_place (n_area d) (bd_frame b4 w)) (bd_frame b4 w))\<rparr>)"
    unfolding release_from_def Let_def b4_def b3_def b2_def b1_def by (rule refl)
  with 4 show ?thesis by (simp add: board_parts split: option.split)
qed

lemma set_aside_ok: assumes ok: "board_ok b" shows "board_ok (set_aside d w before b)"
proof -
  have "board_ok (with_canvas s (\<lambda>c. c\<lparr>v_layout := AList.update w before (v_layout c)\<rparr>) (exit_board d (Some w) b))" for s
    using exit_board_ok [OF ok] by (rule with_canvas_ok) simp
  then show ?thesis using ok by (simp add: set_aside_def board_parts split: option.split)
qed

lemma bring_back_ok: "board_ok b \<Longrightarrow> board_ok (bring_back d w b)"
  by (simp add: bring_back_def Let_def board_parts enter_board_ok release_from_ok split: option.split)

lemma begin_move_on_ok: "board_ok b \<Longrightarrow> board_ok (begin_move_on w snapping b)"
  unfolding begin_move_on_def
  by (rule with_collisions_ok) (simp_all add: begin_move_def end_move_def presented_workspace_def)

lemma move_on_ok: "board_ok b \<Longrightarrow> board_ok (move_on dx dy b)"
  unfolding move_on_def Let_def
  by (auto intro!: with_collisions_ok queue_resolve_ok simp: move_by_def split: option.split)

lemma run_task_ok: "board_ok b \<Longrightarrow> board_ok (run_task d t b)"
proof (cases t)
  case Resolve
  assume "board_ok b"
  then have "board_ok (with_collisions (queued_resolve (w_scale (c_view (camera_of b)))) b)"
    by (rule with_collisions_ok) (simp add: queued_resolve_def)
  with Resolve show ?thesis by simp
qed (simp_all add: follower_place_ok release_from_ok bring_back_ok enter_window_on_ok set_aside_ok focus_ok board_parts)

subsection \<open>Workspaces and the camera\<close>

lemma board_sync_ok: assumes "board_ok b" shows "board_ok (sync_workspace d (b\<lparr>bd_active := s\<rparr>))"
  unfolding sync_workspace_def
proof (rule present_active_ok)
  show "board_base (b\<lparr>bd_active := s\<rparr>)" using assms by (simp add: board_ok_def board_base_def)
  show "bd_presented (b\<lparr>bd_active := s\<rparr>) = None \<Longrightarrow> board_off (b\<lparr>bd_active := s\<rparr>)"
    using assms by (simp add: board_ok_def board_off_def camera_of_def)
qed simp

lemma without_canvas_ok:
  assumes "board_ok b" "bd_presented b \<noteq> Some s"
  shows "board_ok (b\<lparr>bd_canvases := AList.delete s (bd_canvases b)\<rparr>)"
proof -
  let ?b = "b\<lparr>bd_canvases := AList.delete s (bd_canvases b)\<rparr>"
  have "board_base ?b" using assms(1) by (simp add: board_ok_def board_base_def distinct_delete)
  moreover have "board_off ?b = board_off b" by (simp add: board_off_def camera_of_def)
  moreover have "board_on b p \<Longrightarrow> p \<noteq> s \<Longrightarrow> board_on ?b p" for p
    by (auto simp: board_on_def shares_def camera_of_def canvas_of_def delete_conv')
  ultimately show ?thesis using assms by (cases "bd_presented b") (simp_all add: board_ok_def)
qed

lemma forget_workspace_ok: assumes ok: "board_ok b" shows "board_ok (forget_workspace d s b)"
proof (cases "bd_presented b = Some s")
  case True
  have "board_ok (present d None False b)" using board_okD(1,2) [OF ok] by (rule present_none_ok)
  moreover have "bd_presented (present d None False b) \<noteq> Some s" by (simp add: present_def Let_def uncover_def)
  ultimately show ?thesis using ok True by (simp add: forget_workspace_def Let_def without_canvas_ok)
qed (use ok in \<open>simp add: forget_workspace_def Let_def without_canvas_ok\<close>)

lemma magnified_ok:
  assumes "board_ok b" "bd_presented b \<noteq> None" "\<And>w. w \<notin> set ws \<Longrightarrow> w \<notin> set (bd_magnified b) \<Longrightarrow> m w = bd_magnification b w"
  shows "board_ok (b\<lparr>bd_magnification := m, bd_magnified := bd_magnified b @ ws, bd_x11 := x\<rparr>)"
proof -
  let ?b = "b\<lparr>bd_magnification := m, bd_magnified := bd_magnified b @ ws, bd_x11 := x\<rparr>"
  have "board_on ?b s = board_on b s" for s by (simp add: board_on_def shares_def camera_of_def canvas_of_def)
  moreover have "board_base ?b" using assms(1,3) by (simp add: board_ok_def board_base_def)
  ultimately show ?thesis using assms(1,2) by (auto simp: board_ok_def)
qed

lemma board_settled_ok: assumes ok: "board_ok b" shows "board_ok (settled d px py b)"
proof -
  let ?b = "with_camera (\<lambda>c. c\<lparr>c_settling := False\<rparr>) b"
  have b: "board_ok ?b" using ok by (rule with_camera_ok) (use ok in \<open>simp_all add: board_ok_def board_off_def camera_idle_def\<close>)
  show ?thesis
  proof (cases "bd_presented b")
    case (Some s)
    then have "bd_presented ?b \<noteq> None" by simp
    note settles = magnified_ok [OF b this]
    show ?thesis using ok Some unfolding settled_def Let_def presented_workspace_def
      by (simp del: with_camera_fields(7)) (intro impI settles; simp)
  qed (use ok b in \<open>simp add: settled_def presented_workspace_def\<close>)
qed

lemma camera_frames_ok:
  assumes "board_ok b" and "\<And>c. c_engaged (f c) = c_engaged c" and "\<And>c. c_tween c = None \<Longrightarrow> c_glide c = None \<Longrightarrow> f c = c"
  shows "board_ok (with_camera f b)"
  using assms(1) by (rule with_camera_ok) (use assms in \<open>auto simp: board_ok_def board_off_def camera_idle_def\<close>)

lemma zoom_board_ok: "board_ok b \<Longrightarrow> bd_presented b \<noteq> None \<Longrightarrow> board_ok (zoom_board d factor b)"
proof -
  assume b: "board_ok b" "bd_presented b \<noteq> None"
  have "bd_presented (with_focus d release_window b) = bd_presented b"
    by (simp add: with_focus_def store_state_def shade_now_def Let_def split: option.split)
  with b show ?thesis unfolding zoom_board_def Let_def by (intro with_camera_on focus_ok) simp_all
qed

lemma step_board_ok: "board_ok b \<Longrightarrow> bd_keys b \<Longrightarrow> board_ok (step_board d dx dy b)"
proof -
  assume b: "board_ok b" "bd_keys b"
  then have "bd_presented b \<noteq> None" by (auto simp: board_ok_def board_off_def split: option.splits)
  with b show ?thesis by (simp add: step_board_def focus_ok with_camera_on)
qed

lemma camera_op_ok: "board_ok b \<Longrightarrow> bd_presented b \<noteq> None \<Longrightarrow> board_ok (camera_op d op b)"
  unfolding camera_op_def by (rule with_camera_on) (simp_all split: camera_op.split)

lemma frame_changed_ok: "board_ok b \<Longrightarrow> board_ok (frame_changed w box b)"
  by (simp add: frame_changed_def Let_def board_parts queue_resolve_ok)

lemma unmanaging_ok: assumes ok: "board_ok b" shows "board_ok (unmanaging d w b)"
proof -
  have 1: "board_ok (with_collisions abandon (b\<lparr>bd_later := l\<rparr>))" for l
    by (rule with_collisions_ok) (use ok in \<open>simp_all add: board_parts abandon_def stop_collisions_def\<close>)
  have 2: "board_ok (with_collisions (\<lambda>k frame. (forget_other w k, frame)) (queue_resolve b))"
    by (rule with_collisions_ok) (use ok in \<open>simp_all add: queue_resolve_ok forget_other_def split: option.split\<close>)
  show ?thesis
    using ok 1 2 by (simp add: unmanaging_def Let_def overview_on_def focus_ok)
qed

lemma grab_begins_ok: "board_ok b \<Longrightarrow> board_ok (grab_begins d w moves b)"
  by (simp add: grab_begins_def Let_def focus_ok begin_move_on_ok split: option.split)

lemma grab_ends_ok: "board_ok b \<Longrightarrow> board_ok (grab_ends d w b)"
  by (simp add: grab_ends_def Let_def focus_ok end_collisions_ok board_parts)

lemma pointer_ok: assumes "board_ok b" "x_windows x = x_windows (bd_x11 b)" shows "board_ok (b\<lparr>bd_x11 := x\<rparr>)"
proof -
  let ?b = "b\<lparr>bd_x11 := x\<rparr>"
  have "board_on ?b s = board_on b s" for s by (simp add: board_on_def shares_def camera_of_def canvas_of_def)
  moreover have "board_off ?b = board_off b" using assms(2) by (simp add: board_off_def camera_of_def)
  ultimately show ?thesis using assms(1) by (simp add: board_ok_def board_base_def split: option.splits)
qed

lemma x11_hover_windows [simp]: "x_windows (x11_hover m f v vp scr px py x) = x_windows x"
  by (simp add: x11_hover_def x11_apply_def Let_def split: option.split)

lemma monitors_ok: assumes ok: "board_ok b" and s: "bd_presented b = Some s" shows "board_ok (present d (Some s) fade b)"
proof (rule present_active_ok)
  show "Some s = (if is_shown b (bd_active b) then Some (bd_active b) else None)"
    using presented_shown [OF ok s] by auto
qed (use ok board_okD in auto)

lemma end_move_on_ok: "board_ok b \<Longrightarrow> board_ok (end_move_on d b)"
  by (simp add: end_move_on_def Let_def end_collisions_ok focus_ok split: option.split)

lemma added_window_ok: "board_ok b \<Longrightarrow> board_ok (added_window w s mapped b)"
  by (simp add: added_window_def Let_def board_parts)

lemma mapped_window_ok: "board_ok b \<Longrightarrow> board_ok (mapped_window d w b)"
  by (simp add: mapped_window_def Let_def board_parts follower_place_ok split: option.split)

lemma removed_window_ok: "board_ok b \<Longrightarrow> board_ok (removed_window w s b)"
  by (simp add: removed_window_def board_parts)

lemma board_size_changed_ok: "board_ok b \<Longrightarrow> board_ok (size_changed w change before b)"
  by (simp add: size_changed_def board_parts split: option.split)

lemma enter_app_ok: "board_ok b \<Longrightarrow> board_ok (enter_app d w b)"
  by (simp add: enter_app_def overview_on_def focus_ok enter_window_on_ok split: option.split)

lemma board_redraw_ok: "board_ok b \<Longrightarrow> board_ok (redraw d b)"
  unfolding redraw_def by (intro fold_ok run_task_ok) (simp_all add: board_parts)

lemmas event_ok = enter_board_ok exit_board_ok restore_event_ok faded_ok uncover_ok added_window_ok mapped_window_ok removed_window_ok
  board_size_changed_ok board_focused_window_ok board_sync_ok forget_workspace_ok board_redraw_ok board_settled_ok enter_window_on_ok focus_ok enter_app_ok
  step_board_ok zoom_board_ok begin_move_on_ok move_on_ok end_move_on_ok grab_begins_ok grab_ends_ok unmanaging_ok frame_changed_ok
  monitors_ok camera_op_ok

end
