(* ===== verification/Board_Properties.thy ===== *)
theory Board_Properties
  imports Board_Windows
begin

text \<open>
  What holds of the board: room for every window, windows pushed apart, a camera that keeps
  its point, a way back to the view from before, and a plan for every window on the way out.
\<close>

section \<open>Room for windows\<close>

lemma all_apart_nth: "all_apart gap bs \<longleftrightarrow> (\<forall>j < length bs. \<forall>i < j. \<not> overlaps (bs ! i) (bs ! j) gap)"
proof (induction bs rule: rev_induct)
  case (snoc b bs)
  show ?case
    unfolding all_apart_snoc snoc.IH clear_iff by (simp add: nth_append all_set_conv_all_nth less_Suc_eq all_conj_distrib imp_disjL)
qed simp

lemma arranged_unknown:
  assumes "\<not> v_known canvas" "arrange frame windows viewport canvas = (boxes, canvas')"
  shows "boxes = settle_boxes (map frame windows) PLACEMENT_GAP"
  using assms by (simp add: arrange_def Let_def)

text \<open>Laying out windows on a board gives every window a box of its own size, in order: on a board that is new, boxes that
  keep half a pixel less than the gap from each other, and the boxes the windows had if these do; on a board that is known, the
  boxes it knows, and for each new window a box that keeps that distance from every other.\<close>

theorem windows_find_room:
  assumes "arrange frame windows viewport canvas = (boxes, canvas')" and "distinct windows"
  shows "length boxes = length windows \<and> v_known canvas' \<and>
    (\<not> v_known canvas \<longrightarrow> map (\<lambda>b. (b_w b, b_h b)) boxes = map (\<lambda>w. (b_w (frame w), b_h (frame w))) windows \<and>
      (\<forall>j < length boxes. \<forall>i < j. \<not> overlaps (boxes ! i) (boxes ! j) (PLACEMENT_GAP - 1/2)) \<and>
      (all_apart (PLACEMENT_GAP - 1/2) (map frame windows) \<longrightarrow> boxes = map frame windows)) \<and>
    (v_known canvas \<longrightarrow> (\<forall>i < length windows. case map_of (v_layout canvas) (windows ! i) of
        Some stored \<Rightarrow> boxes ! i = stored
      | None \<Rightarrow> \<forall>j < length windows. j \<noteq> i \<longrightarrow> \<not> overlaps (boxes ! j) (boxes ! i) (PLACEMENT_GAP - 1/2)))"
proof (cases "v_known canvas")
  case False
  note boxes = arranged_unknown [OF False assms(1)]
  have "map (\<lambda>b. (b_w b, b_h b)) boxes = map (\<lambda>w. (b_w (frame w), b_h (frame w))) windows"
    unfolding boxes settle_boxes_def by (simp add: settle_from_sizes comp_def)
  moreover have "all_apart (PLACEMENT_GAP - 1/2) boxes"
    unfolding boxes settle_boxes_def by (rule settle_from_apart) simp
  moreover have "all_apart (PLACEMENT_GAP - 1/2) (map frame windows) \<longrightarrow> boxes = map frame windows"
    unfolding boxes settle_boxes_def using settle_from_idle [of PLACEMENT_GAP "[]" "map frame windows"] by simp
  moreover have "v_known canvas'" using False assms(1) by (auto simp: arrange_def Let_def split: option.splits)
  moreover have "length boxes = length windows" unfolding boxes settle_boxes_def using settle_from_sizes [of PLACEMENT_GAP "[]" "map frame windows"]
    by (metis append_Nil length_map)
  ultimately show ?thesis using False unfolding all_apart_nth by simp
next
  case True
  let ?known = "concat (map (\<lambda>w. case map_of (v_layout canvas) w of Some b \<Rightarrow> [b] | None \<Rightarrow> []) windows)"
  let ?v = "v_view canvas"
  define cx cy where "cx = w_x ?v + b_w viewport / 2 / w_scale ?v" and "cy = w_y ?v + b_h viewport / 2 / w_scale ?v"
  from True assms(1) have boxes: "boxes = place_each frame (v_layout canvas) cx cy ?known windows" and "canvas' = canvas"
    unfolding arrange_def Let_def cx_def cy_def by auto
  have stored: "boxes ! i = b" if "i < length windows" "map_of (v_layout canvas) (windows ! i) = Some b" for i b
    unfolding boxes by (rule place_each_stored [OF that])
  have new: "\<not> overlaps (boxes ! j) (boxes ! i) (PLACEMENT_GAP - 1/2)"
    if i: "i < length windows" "map_of (v_layout canvas) (windows ! i) = None" and j: "j < length windows" "j \<noteq> i" for i j
  proof (cases "map_of (v_layout canvas) (windows ! j)")
    case (Some b)
    then have "b \<in> set ?known" using j(1) by (force simp: in_set_conv_nth)
    moreover have "clear ?known (PLACEMENT_GAP - 1/2) (boxes ! i)"
      unfolding boxes by (rule place_each_new_known [OF i])
    ultimately show ?thesis unfolding clear_iff stored [OF j(1) Some] by blast
  next
    case None
    show ?thesis
    proof (cases "j < i")
      case True
      with None i show ?thesis unfolding boxes by (intro place_each_new_new) auto
    next
      case False
      with None i j have "\<not> overlaps (boxes ! i) (boxes ! j) (PLACEMENT_GAP - 1/2)"
        unfolding boxes by (intro place_each_new_new) auto
      then show ?thesis by (simp add: overlaps_sym)
    qed
  qed
  have "\<forall>i < length windows. case map_of (v_layout canvas) (windows ! i) of
        Some stored \<Rightarrow> boxes ! i = stored
      | None \<Rightarrow> \<forall>j < length windows. j \<noteq> i \<longrightarrow> \<not> overlaps (boxes ! j) (boxes ! i) (PLACEMENT_GAP - 1/2)"
    using stored new by (simp split: option.split)
  moreover have "length boxes = length windows" by (simp add: boxes)
  ultimately show ?thesis using True \<open>canvas' = canvas\<close> by simp
qed

definition sample_frame :: "nat \<Rightarrow> box" where
  "sample_frame w = \<lparr>b_x = 10 * of_nat w, b_y = 0, b_w = 100, b_h = 80\<rparr>"

definition sample_canvas :: "nat canvas" where
  "sample_canvas = \<lparr>f_entered = None, f_overview = None, v_view = \<lparr>w_x = 0, w_y = 0, w_scale = 1\<rparr>, v_layout = [], v_normal = [],
     v_shown = True, v_known = False\<rparr>"

definition sample_viewport :: box where "sample_viewport = \<lparr>b_x = 0, b_y = 0, b_w = 800, b_h = 600\<rparr>"

theorem windows_find_room_witness:
  "\<not> overlaps (fst (arrange sample_frame [0, 1, 2] sample_viewport sample_canvas) ! 0)
     (fst (arrange sample_frame [0, 1, 2] sample_viewport sample_canvas) ! 2) (PLACEMENT_GAP - 1/2)"
proof -
  have "arrange sample_frame [0, 1, 2] sample_viewport sample_canvas =
      (fst (arrange sample_frame [0, 1, 2] sample_viewport sample_canvas), snd (arrange sample_frame [0, 1, 2] sample_viewport sample_canvas))"
    by simp
  from windows_find_room [OF this] show ?thesis by (simp add: sample_canvas_def)
qed

section \<open>Moving a window\<close>

text \<open>C34. Pushing windows apart leaves the one that moves where it is and every size as it is, moves nothing while nothing
  overlaps it, and, whenever it comes to rest before the number of turns it allows itself, leaves the other windows clear of
  each other if they were.\<close>

theorem pushed_apart:
  assumes "anchor < length boxes"
  shows "pushApart boxes anchor gap ! anchor = boxes ! anchor \<and> length (pushApart boxes anchor gap) = length boxes \<and>
    (\<forall>i. b_w (pushApart boxes anchor gap ! i) = b_w (boxes ! i) \<and> b_h (pushApart boxes anchor gap ! i) = b_h (boxes ! i)) \<and>
    ((\<forall>i < length boxes. i \<noteq> anchor \<longrightarrow> \<not> overlaps (boxes ! anchor) (boxes ! i) gap) \<longrightarrow> pushApart boxes anchor gap = boxes) \<and>
    (snd (push_loop (length boxes * length boxes * 4) anchor gap [anchor] boxes) = [] \<longrightarrow>
     (\<forall>i < length boxes. \<forall>j < length boxes. i \<noteq> j \<longrightarrow> i \<noteq> anchor \<longrightarrow> j \<noteq> anchor \<longrightarrow> \<not> overlaps (boxes ! i) (boxes ! j) gap) \<longrightarrow>
     (\<forall>i < length boxes. \<forall>j < length boxes. i \<noteq> j \<longrightarrow> i \<noteq> anchor \<longrightarrow> j \<noteq> anchor \<longrightarrow>
       \<not> overlaps (pushApart boxes anchor gap ! i) (pushApart boxes anchor gap ! j) gap))"
proof -
  let ?loop = "push_loop (length boxes * length boxes * 4) anchor gap [anchor] boxes"
  have "pending_overlaps anchor gap [] (pushApart boxes anchor gap)"
    if "snd ?loop = []"
      "\<forall>i < length boxes. \<forall>j < length boxes. i \<noteq> j \<longrightarrow> i \<noteq> anchor \<longrightarrow> j \<noteq> anchor \<longrightarrow> \<not> overlaps (boxes ! i) (boxes ! j) gap"
  proof (rule push_loop_apart)
    show "pending_overlaps anchor gap [anchor] boxes" using that(2) by (simp add: pending_overlaps_def)
    show "set [anchor] \<subseteq> {..<length boxes}" using assms by simp
    show "?loop = (pushApart boxes anchor gap, [])" using that(1) unfolding pushApart_def by (metis prod.collapse)
  qed
  then show ?thesis
    using pushApart_anchor pushApart_length pushApart_size pushApart_nothing
    by (simp add: pending_overlaps_def)
qed

definition sample_boxes :: "box list" where
  "sample_boxes = [\<lparr>b_x = 0, b_y = 0, b_w = 10, b_h = 10\<rparr>, \<lparr>b_x = 12, b_y = 0, b_w = 10, b_h = 10\<rparr>, \<lparr>b_x = -6, b_y = 0, b_w = 10, b_h = 10\<rparr>]"

theorem pushed_apart_witness:
  "\<not> overlaps (pushApart sample_boxes 2 0 ! 0) (pushApart sample_boxes 2 0 ! 1) 0 \<and> pushApart sample_boxes 2 0 ! 0 \<noteq> sample_boxes ! 0"
proof -
  have two: "(2::nat) < length sample_boxes" by (simp add: sample_boxes_def)
  have rest: "snd (push_loop (length sample_boxes * length sample_boxes * 4) 2 0 [2] sample_boxes) = []" by code_simp
  have start: "\<forall>i < length sample_boxes. \<forall>j < length sample_boxes. i \<noteq> j \<longrightarrow> i \<noteq> 2 \<longrightarrow> j \<noteq> 2 \<longrightarrow> \<not> overlaps (sample_boxes ! i) (sample_boxes ! j) 0"
    by (simp add: sample_boxes_def overlaps_def less_Suc_eq)
  from pushed_apart [OF two, of 0] have "\<forall>i < length sample_boxes. \<forall>j < length sample_boxes. i \<noteq> j \<longrightarrow> i \<noteq> 2 \<longrightarrow> j \<noteq> 2 \<longrightarrow>
      \<not> overlaps (pushApart sample_boxes 2 0 ! i) (pushApart sample_boxes 2 0 ! j) 0"
    using rest start by blast
  from this [rule_format, of 0 1] have "\<not> overlaps (pushApart sample_boxes 2 0 ! 0) (pushApart sample_boxes 2 0 ! 1) 0"
    by (simp add: sample_boxes_def)
  moreover have "pushApart sample_boxes 2 0 ! 0 \<noteq> sample_boxes ! 0" by code_simp
  ultimately show ?thesis by blast
qed

definition narrow_boxes :: "box list" where
  "narrow_boxes = [\<lparr>b_x = 300, b_y = 0, b_w = 10, b_h = 500\<rparr>, \<lparr>b_x = 501, b_y = 0, b_w = 5, b_h = 500\<rparr>,
     \<lparr>b_x = 0, b_y = 0, b_w = 500, b_h = 500\<rparr>]"

text \<open>The window that moves never gets a turn after its first, so a window that is pushed back over it stays there: here
  a narrow window that the moving one pushes out lands on the edge of another, which goes the shorter way, under the moving one.\<close>

theorem pushed_under_moving_window:
  "snd (push_loop (length narrow_boxes * length narrow_boxes * 4) 2 0 [2] narrow_boxes) = [] \<and>
   \<not> overlaps (narrow_boxes ! 1) (narrow_boxes ! 2) 0 \<and> overlaps (pushApart narrow_boxes 2 0 ! 1) (pushApart narrow_boxes 2 0 ! 2) 0"
proof (intro conjI)
  show "snd (push_loop (length narrow_boxes * length narrow_boxes * 4) 2 0 [2] narrow_boxes) = []" by code_simp
  show "\<not> overlaps (narrow_boxes ! 1) (narrow_boxes ! 2) 0" by code_simp
  show "overlaps (pushApart narrow_boxes 2 0 ! 1) (pushApart narrow_boxes 2 0 ! 2) 0" by code_simp
qed

section \<open>The camera\<close>


lemma apply_camera_view [simp]: "c_view (apply_camera c) = c_view c" "c_viewport (apply_camera c) = c_viewport c"
  by (simp_all add: apply_camera_def Let_def)

lemma stop_camera_view [simp]: "c_view (stop_camera c) = c_view c" "c_viewport (stop_camera c) = c_viewport c" "c_pixel (stop_camera c) = c_pixel c"
  by (simp_all add: stop_camera_def)



definition sample_camera :: camera where
  "sample_camera = \<lparr>c_view = \<lparr>w_x = 3, w_y = 4, w_scale = 1/2\<rparr>, c_shown = \<lparr>w_x = 3, w_y = 4, w_scale = 1/2\<rparr>, c_viewport = sample_viewport,
     c_pixel = 1, c_engaged = True, c_tween = None, c_glide = None, c_group_scale = 1/2, c_translation = (0, 0), c_settling = False\<rparr>"


text \<open>C36. Revealing a window brings all of it on the screen: with the margin around it when it fits at the scale there is,
  and otherwise fitted, with its padding, wherever the smallest scale leaves room for it.\<close>

theorem revealed_window_shows:
  assumes "0 < w_scale (c_view c)" and "0 \<le> b_w box" "0 \<le> b_h box"
    and "MIN_SCALE \<le> (b_w (c_viewport c) - 2 * padding) / max 1 (b_w box)"
    and "MIN_SCALE \<le> (b_h (c_viewport c) - 2 * padding) / max 1 (b_h box)"
  shows "shows_with (min padding REVEAL_MARGIN) (camera_goal (reveal_box animations box padding c)) (c_viewport c) box"
proof -
  let ?v = "c_view c" and ?vp = "c_viewport c"
  have weaken: "shows_with m v vp box \<Longrightarrow> min padding REVEAL_MARGIN \<le> m \<Longrightarrow> shows_with (min padding REVEAL_MARGIN) v vp box" for m v vp
    by (simp add: shows_with_def Let_def)
  have goal: "camera_goal (reveal_box animations box padding c) = reveal_target ?vp ?v box padding"
    by (simp add: reveal_box_def)
  show ?thesis
  proof (cases "b_w box > b_w ?vp / w_scale ?v - 2 * REVEAL_MARGIN / w_scale ?v \<or> b_h box > b_h ?vp / w_scale ?v - 2 * REVEAL_MARGIN / w_scale ?v")
    case True
    then have "reveal_target ?vp ?v box padding = fitView box ?vp padding" by (simp add: reveal_target_def Let_def)
    with fitView_shows [OF assms(4,5,2,3)] weaken show ?thesis unfolding goal by simp
  next
    case False
    have "shows_with REVEAL_MARGIN (reveal_target ?vp ?v box padding) ?vp box"
      using False revealed_side [OF assms(1), of "b_w box" "b_w ?vp" REVEAL_MARGIN "b_x ?vp" "b_x box" "w_x ?v"]
        revealed_side [OF assms(1), of "b_h box" "b_h ?vp" REVEAL_MARGIN "b_y ?vp" "b_y box" "w_y ?v"]
      by (simp add: reveal_target_def Let_def shows_with_def screenBox_def)
    with weaken show ?thesis unfolding goal by simp
  qed
qed

theorem revealed_window_shows_witness:
  "shows_with (min WINDOW_PADDING REVEAL_MARGIN) (camera_goal (reveal_box True \<lparr>b_x = 5000, b_y = -300, b_w = 640, b_h = 480\<rparr> WINDOW_PADDING sample_camera))
     sample_viewport \<lparr>b_x = 5000, b_y = -300, b_w = 640, b_h = 480\<rparr>"
proof -
  have vp: "c_viewport sample_camera = sample_viewport" by (simp add: sample_camera_def)
  show ?thesis
    using revealed_window_shows [of sample_camera "\<lparr>b_x = 5000, b_y = -300, b_w = 640, b_h = 480\<rparr>" WINDOW_PADDING True]
    by (simp add: vp) (simp add: sample_camera_def sample_viewport_def WINDOW_PADDING_def MIN_SCALE_def)
qed

section \<open>The way back\<close>

lemma fit_window_state [simp]: "o_state (fit_window d w t fo) = o_state fo"
  by (simp add: fit_window_def Let_def)

lemma enter_window_state:
  assumes "o_state fo = Some s"
  shows "o_state (enter_window d w start fo) =
    Some (s\<lparr>f_entered := Some w, f_overview := (if f_entered s = None then Some start else f_overview s)\<rparr>)"
proof (cases "f_entered s = Some w")
  case True
  then show ?thesis using assms by (cases s) (simp add: enter_window_def Let_def)
next
  case False
  then show ?thesis using assms by (cases s) (simp add: enter_window_def Let_def watch_window_def)
qed

lemma enter_more:
  "o_state fo = Some s \<Longrightarrow> f_entered s \<noteq> None \<Longrightarrow> f_overview s = Some v \<Longrightarrow>
    \<exists>s'. o_state (fold (\<lambda>(w, u). enter_window d w u) entries fo) = Some s' \<and> f_entered s' \<noteq> None \<and> f_overview s' = Some v"
proof (induction entries arbitrary: fo s)
  case (Cons e entries)
  obtain w u where e: "e = (w, u)" by (cases e)
  from Cons.prems have "o_state (enter_window d w u fo) = Some (s\<lparr>f_entered := Some w, f_overview := Some v\<rparr>)"
    by (auto simp: enter_window_state)
  from Cons.IH [OF this] show ?case by (simp add: e)
qed auto

text \<open>C37. Whatever windows are entered one after another from a view of the whole board, the overview then leads back to
  that view and leaves no window entered.\<close>

theorem overview_goes_back:
  fixes entries :: "('w \<times> view) list" and w :: 'w and start :: view and d :: "'w desktop_windows" and fo :: "'w focus"
  assumes "o_state fo = Some s" and "f_entered s = None"
  defines "there \<equiv> fold (\<lambda>(w, u). enter_window d w u) entries (enter_window d w start fo)"
  shows "entered_window there \<noteq> None \<and> camera_goal (o_camera (show_overview d there)) = start \<and> entered_window (show_overview d there) = None"
proof -
  have "o_state (enter_window d w start fo) = Some (s\<lparr>f_entered := Some w, f_overview := Some start\<rparr>)"
    using assms(1,2) by (simp add: enter_window_state)
  from enter_more [OF this, of start d entries] obtain s' where s': "o_state there = Some s'" "f_entered s' \<noteq> None" "f_overview s' = Some start"
    unfolding there_def by auto
  then show ?thesis
    by (auto simp: entered_window_def show_overview_def release_window_def unwatch_window_def Let_def)
qed

definition sample_desktop :: "nat desktop_windows" where
  "sample_desktop = \<lparr>d_windows = [0, 1], d_frame = sample_frame, d_animations = True, d_hypot = (\<lambda>x y. \<bar>x\<bar> + \<bar>y\<bar>)\<rparr>"

definition sample_focus :: "nat focus" where
  "sample_focus = \<lparr>o_state = Some \<lparr>f_entered = None, f_overview = None\<rparr>, o_watched = None, o_held = None,
     o_target = \<lparr>w_x = 0, w_y = 0, w_scale = 1\<rparr>, o_camera = sample_camera\<rparr>"

theorem overview_goes_back_witness:
  "camera_goal (o_camera (show_overview sample_desktop
     (enter_window sample_desktop 1 (c_view sample_camera) (enter_window sample_desktop 0 \<lparr>w_x = 7, w_y = 8, w_scale = 1\<rparr> sample_focus))))
   = \<lparr>w_x = 7, w_y = 8, w_scale = 1\<rparr>"
  using overview_goes_back [of sample_focus "\<lparr>f_entered = None, f_overview = None\<rparr>" sample_desktop "[(1, c_view sample_camera)]" 0
      "\<lparr>w_x = 7, w_y = 8, w_scale = 1\<rparr>"]
  by (simp add: sample_focus_def)

section \<open>Leaving\<close>

definition planned_keys :: "'k exit_plan \<Rightarrow> 'k list" where
  "planned_keys plan = map fst (e_placed plan) @ e_minimized plan @ (case e_maximized plan of None \<Rightarrow> [] | Some k \<Rightarrow> [k])"

lemma exit_each_keys: "mset (planned_keys (exit_each v viewport area fitted windows plan)) =
    mset (planned_keys plan) + mset (filter (\<lambda>k. Some k \<noteq> fitted) (map fst windows))"
proof (induction v viewport area fitted windows plan rule: exit_each.induct)
  case (2 v viewport area fitted key box windows plan)
  then show ?case by (auto simp: Let_def planned_keys_def split: if_splits option.splits)
qed simp

lemma exit_each_inside:
  "(\<forall>(k, b) \<in> set (e_placed plan). P k b) \<Longrightarrow> (\<And>k box. (k, box) \<in> set windows \<Longrightarrow> P k (kept_inside area (screenBox v viewport box) box)) \<Longrightarrow>
    \<forall>(k, b) \<in> set (e_placed (exit_each v viewport area fitted windows plan)). P k b"
proof (induction v viewport area fitted windows plan rule: exit_each.induct)
  case (2 v viewport area fitted key box windows plan)
  show ?case
    unfolding exit_each.simps by (rule "2.IH") (use "2.prems" in \<open>auto simp: Let_def\<close>)
qed simp

lemma kept_side:
  fixes c w :: number and a l :: int
  assumes "w = of_int n" "n \<le> l"
  shows "of_int a \<le> (of_int (round (max (of_int a) (min c (of_int a + of_int l - w)))) :: number)"
    and "of_int (round (max (of_int a) (min c (of_int a + of_int l - w)))) + w \<le> (of_int a + of_int l :: number)"
proof -
  let ?x = "max (of_int a) (min c (of_int a + of_int l - w))"
  have "of_int a \<le> ?x" by simp
  then show "of_int a \<le> (of_int (round ?x) :: number)" by (simp add: round_ge_int)
  have "?x \<le> of_int (a + l - n)" using assms by auto
  then have "round ?x \<le> a + l - n" by (rule round_le_int)
  then have "(of_int (round ?x) :: number) \<le> of_int (a + l - n)" by (simp only: of_int_le_iff)
  then show "of_int (round ?x) + w \<le> (of_int a + of_int l :: number)" using assms(1) by simp
qed

lemma exit_each_maximized:
  "f \<noteq> None \<Longrightarrow> e_maximized p = f \<Longrightarrow> e_maximized (exit_each v viewport area f ws p) = f"
  by (induction ws arbitrary: p) (auto simp: Let_def)

lemma exit_plan_keys:
  fixes windows :: "('k \<times> box) list"
  assumes "distinct (map fst windows)" and "\<And>k. fitted = Some k \<Longrightarrow> k \<in> fst ` set windows"
  shows "mset (planned_keys (planExit windows v viewport area fitted)) = mset (map fst windows)"
proof -
  let ?each = "exit_each v viewport area fitted windows \<lparr>e_placed = [], e_minimized = [], e_maximized = fitted\<rparr>"
  have "mset (planned_keys (planExit windows v viewport area fitted)) = mset (planned_keys ?each)"
    by (simp add: planExit_def Let_def planned_keys_def)
  also have "\<dots> = mset (map fst windows)"
  proof (cases fitted)
    case (Some k)
    have once: "distinct ks \<Longrightarrow> k \<in> set ks \<Longrightarrow> mset (filter (\<lambda>x. x \<noteq> k) ks) + {#k#} = mset ks" for ks :: "'k list"
    proof (induction ks)
      case (Cons x ks)
      show ?case
      proof (cases "x = k")
        case True
        with Cons.prems have "filter (\<lambda>x. x \<noteq> k) ks = ks" by (auto intro: filter_True)
        with True show ?thesis by simp
      qed (use Cons in simp)
    qed simp
    from once [OF assms(1)] assms(2) [OF Some] have "mset (filter (\<lambda>x. x \<noteq> k) (map fst windows)) + {#k#} = mset (map fst windows)" by simp
    then show ?thesis unfolding exit_each_keys using Some by (simp add: planned_keys_def union_commute)
  next
    case None
    then show ?thesis unfolding exit_each_keys by (simp add: planned_keys_def)
  qed
  finally show ?thesis .
qed

text \<open>C38. The plan for leaving the board has every window exactly once, to be placed, minimized or maximized; with a window
  that is maximized no other is placed; and a placed window lies in the work area, no larger than it was.\<close>

theorem exit_plan_covers_windows:
  fixes windows :: "('k \<times> box) list" and fitted :: "'k option" and v :: view and viewport area :: box and ax ay aw ah :: int
  assumes "distinct (map fst windows)" and "\<And>k. fitted = Some k \<Longrightarrow> k \<in> fst ` set windows"
    and "area = \<lparr>b_x = of_int ax, b_y = of_int ay, b_w = of_int aw, b_h = of_int ah\<rparr>"
    and "\<And>k box. (k, box) \<in> set windows \<Longrightarrow> \<exists>bw bh :: int. b_w box = of_int bw \<and> b_h box = of_int bh"
  defines "plan \<equiv> planExit windows v viewport area fitted"
  shows "mset (planned_keys plan) = mset (map fst windows) \<and> (e_maximized plan \<noteq> None \<longrightarrow> e_placed plan = []) \<and>
    (fitted \<noteq> None \<longrightarrow> e_maximized plan = fitted) \<and>
    (\<forall>(k, b) \<in> set (e_placed plan). b_x area \<le> b_x b \<and> b_x b + b_w b \<le> b_x area + b_w area \<and>
       b_y area \<le> b_y b \<and> b_y b + b_h b \<le> b_y area + b_h area \<and> (\<exists>box. (k, box) \<in> set windows \<and> b_w b \<le> b_w box \<and> b_h b \<le> b_h box))"
proof -
  let ?start = "\<lparr>e_placed = [], e_minimized = [], e_maximized = fitted\<rparr>"
  let ?each = "exit_each v viewport area fitted windows ?start"
  have "mset (planned_keys plan) = mset (map fst windows)"
    unfolding plan_def by (rule exit_plan_keys [OF assms(1,2)])
  moreover have "e_maximized plan \<noteq> None \<longrightarrow> e_placed plan = []"
    by (simp add: plan_def planExit_def Let_def)
  moreover
  have "fitted \<noteq> None \<longrightarrow> e_maximized ?each = fitted" by (intro impI exit_each_maximized) simp_all
  then have "fitted \<noteq> None \<longrightarrow> e_maximized plan = fitted"
    by (simp add: plan_def planExit_def Let_def)
  moreover have "\<forall>(k, b) \<in> set (e_placed ?each). b_x area \<le> b_x b \<and> b_x b + b_w b \<le> b_x area + b_w area \<and>
       b_y area \<le> b_y b \<and> b_y b + b_h b \<le> b_y area + b_h area \<and> (\<exists>box. (k, box) \<in> set windows \<and> b_w b \<le> b_w box \<and> b_h b \<le> b_h box)"
  proof (rule exit_each_inside)
    fix k box assume kb: "(k, box) \<in> set windows"
    from assms(4) [OF kb] obtain bw bh :: int where size: "b_w box = of_int bw" "b_h box = of_int bh" by blast
    have w: "min (b_w box) (b_w area) = of_int (min bw aw)" "min (b_h box) (b_h area) = of_int (min bh ah)"
      using size assms(3) by (simp_all add: of_int_min)
    let ?b = "kept_inside area (screenBox v viewport box) box"
    have "b_x area \<le> b_x ?b \<and> b_x ?b + b_w ?b \<le> b_x area + b_w area \<and> b_y area \<le> b_y ?b \<and> b_y ?b + b_h ?b \<le> b_y area + b_h area"
      using kept_side [OF w(1), of aw ax] kept_side [OF w(2), of ah ay] w assms(3) by (simp add: kept_inside_def Let_def)
    moreover have "b_w ?b \<le> b_w box" "b_h ?b \<le> b_h box" by (simp_all add: kept_inside_def Let_def)
    ultimately show "b_x area \<le> b_x ?b \<and> b_x ?b + b_w ?b \<le> b_x area + b_w area \<and> b_y area \<le> b_y ?b \<and> b_y ?b + b_h ?b \<le> b_y area + b_h area
        \<and> (\<exists>box. (k, box) \<in> set windows \<and> b_w ?b \<le> b_w box \<and> b_h ?b \<le> b_h box)"
      using kb by blast
  qed simp
  then have "\<forall>(k, b) \<in> set (e_placed plan). b_x area \<le> b_x b \<and> b_x b + b_w b \<le> b_x area + b_w area \<and>
       b_y area \<le> b_y b \<and> b_y b + b_h b \<le> b_y area + b_h area \<and> (\<exists>box. (k, box) \<in> set windows \<and> b_w b \<le> b_w box \<and> b_h b \<le> b_h box)"
    by (simp add: plan_def planExit_def Let_def)
  ultimately show ?thesis by simp
qed

theorem exit_plan_covers_windows_witness:
  "mset (planned_keys (planExit [(0::nat, sample_frame 0), (1, sample_frame 90)] \<lparr>w_x = 0, w_y = 0, w_scale = 1\<rparr> sample_viewport
     \<lparr>b_x = of_int 0, b_y = of_int 40, b_w = of_int 800, b_h = of_int 560\<rparr> None)) = mset [0, 1]"
proof -
  have "\<exists>bw bh :: int. b_w (sample_frame w) = of_int bw \<and> b_h (sample_frame w) = of_int bh" for w
    by (intro exI [of _ 100] exI [of _ 80]) (simp add: sample_frame_def)
  then have sizes: "(k, box) \<in> set [(0::nat, sample_frame 0), (1, sample_frame 90)] \<Longrightarrow>
      \<exists>bw bh :: int. b_w box = of_int bw \<and> b_h box = of_int bh" for k box
    by auto
  from exit_plan_covers_windows [where windows = "[(0::nat, sample_frame 0), (1, sample_frame 90)]" and fitted = None
      and ax = 0 and ay = 40 and aw = 800 and ah = 560, OF _ _ refl sizes]
  show ?thesis by simp
qed

section \<open>Giving sizes back\<close>

text \<open>Unless it is cancelled, giving sizes back comes to its end once, with the timer at the latest.\<close>

lemma restore_once:
  "rs_done r = 1 \<and> rs_pending r = [] \<and> \<not> rs_timer r \<or> rs_done r = 0 \<and> rs_timer r \<Longrightarrow> Cancelled \<notin> set es \<Longrightarrow>
    (let r' = fold restore_step es r in rs_done r' = 1 \<and> rs_pending r' = [] \<and> \<not> rs_timer r' \<or> rs_done r' = 0 \<and> rs_timer r')"
proof (induction es arbitrary: r)
  case (Cons e es)
  have "rs_done (restore_step e r) = 1 \<and> rs_pending (restore_step e r) = [] \<and> \<not> rs_timer (restore_step e r) \<or>
      rs_done (restore_step e r) = 0 \<and> rs_timer (restore_step e r)"
    using Cons.prems by (cases e) (auto simp: finish_restoring_def cancel_restoring_def Let_def)
  with Cons show ?case by simp
qed simp

theorem restoring_ends_once:
  assumes "Cancelled \<notin> set es"
  shows "rs_done (restore_step Timed_out (fold restore_step es (snd (restore_sizes state own_size windows)))) = 1"
proof -
  let ?r = "snd (restore_sizes state own_size windows)"
  have "rs_done ?r = 1 \<and> rs_pending ?r = [] \<and> \<not> rs_timer ?r \<or> rs_done ?r = 0 \<and> rs_timer ?r"
    by (simp add: restore_sizes_def Let_def)
  from restore_once [OF this assms] show ?thesis
    by (auto simp: Let_def finish_restoring_def cancel_restoring_def)
qed

end
