(* ===== verification/Board_Machine.thy ===== *)
theory Board_Machine
  imports Board_Facts Board_Properties
begin

text \<open>
  What holds of the board as a machine of events: what is shown and what is bound, where windows
  are after it is entered, what becomes of each of them as it is left, and where it goes wrong.
\<close>

section \<open>Every state it reaches\<close>





definition sample_desk :: "nat desk" where
  "sample_desk = \<lparr>n_area = \<lparr>b_x = 0, b_y = 40, b_w = 800, b_h = 560\<rparr>, n_primary = Some sample_viewport, n_pixel_scale = 1,
     n_screen = Some sample_viewport, n_animations = True, n_hypot = (\<lambda>x y. \<bar>x\<bar> + \<bar>y\<bar>), n_own_size = (\<lambda>_. None), n_x11 = (\<lambda>_. False),
     n_enabled = True\<rparr>"

definition sample_board :: "(nat, nat) board" where
  "sample_board = blank_board 0 [0, 1] (\<lambda>_. Some 0) sample_frame"




section \<open>Leaving\<close>

lemma exit_call_parts [simp]:
  "bd_presented (exit_call d s c b) = bd_presented b" "canvas_of (exit_call d s c b) t = canvas_of b t"
  by (cases c; simp add: tuck_away_def canvas_of_def)+

lemma fold_exit_parts [simp]:
  "bd_presented (fold (exit_call d s) cs b) = bd_presented b" "canvas_of (fold (exit_call d s) cs b) t = canvas_of b t"
  by (induction cs arbitrary: b) simp_all

lemma exit_calls_keep:
  "\<not> bd_free b w \<Longrightarrow> \<not> bd_free (fold (exit_call d s) cs b) w"
  "p \<in> set (bd_fading b) \<Longrightarrow> p \<in> set (bd_fading (fold (exit_call d s) cs b))"
proof (induction cs arbitrary: b)
  case (Cons c cs)
  case 1
  then have "\<not> bd_free (exit_call d s c b) w" by (cases c) (auto simp: tuck_away_def)
  with Cons show ?case by simp
next
  case (Cons c cs)
  case 2
  then have "p \<in> set (bd_fading (exit_call d s c b))" by (cases c) (auto simp: tuck_away_def)
  with Cons show ?case by simp
qed simp_all

lemma exit_calls_let_go:
  "Constrain w \<in> set cs \<or> Tuck_away w \<in> set cs \<Longrightarrow> \<not> bd_free (fold (exit_call d s) cs b) w"
  "Fade_away w box \<in> set cs \<Longrightarrow> (w, s) \<in> set (bd_fading (fold (exit_call d s) cs b))"
proof (induction cs arbitrary: b)
  case (Cons c cs)
  case 1
  show ?case
  proof (cases "c = Constrain w \<or> c = Tuck_away w")
    case True
    then have "\<not> bd_free (exit_call d s c b) w" by (auto simp: tuck_away_def)
    from exit_calls_keep(1) [OF this] show ?thesis by simp
  qed (use 1 Cons in auto)
next
  case (Cons c cs)
  case 2
  show ?case
  proof (cases "c = Fade_away w box")
    case True
    then have "(w, s) \<in> set (bd_fading (exit_call d s c b))" by simp
    from exit_calls_keep(2) [OF this] show ?thesis by simp
  qed (use 2 Cons in auto)
qed simp_all

fun called_window :: "'w exit_call \<Rightarrow> 'w" where
  "called_window (Constrain w) = w" | "called_window (Move_window w p) = w" | "called_window (Glide_from w b) = w"
| "called_window (Maximize w) = w" | "called_window (Fade_away w b) = w" | "called_window (Tuck_away w) = w"

lemma exit_calls_others: "w \<notin> called_window ` set cs \<Longrightarrow> bd_free (fold (exit_call d s) cs b) w = bd_free b w"
proof (induction cs arbitrary: b)
  case (Cons c cs)
  then have "bd_free (exit_call d s c b) w = bd_free b w" by (cases c) (auto simp: tuck_away_def)
  with Cons show ?case by simp
qed simp

lemma put_back_calls: "c \<in> set (put_back plan layout v viewport) \<Longrightarrow> called_window c \<in> set (planned_keys plan)"
proof -
  have keys: "(a, b) \<in> X \<Longrightarrow> a \<in> fst ` X" for a b and X :: "('a \<times> box) set" by force
  assume "c \<in> set (put_back plan layout v viewport)"
  then show ?thesis unfolding put_back_def planned_keys_def Let_def
    by (auto split: option.splits if_splits dest: keys)
qed

lemma find_in_set: "List.find P xs = Some x \<Longrightarrow> x \<in> set xs"
  by (metis find_Some_iff nth_mem)

lemma put_back_covers:
  assumes "w \<in> set (planned_keys plan)" "map_of layout w = Some box"
  shows "Constrain w \<in> set (put_back plan layout v viewport) \<or> Tuck_away w \<in> set (put_back plan layout v viewport) \<or>
    Fade_away w (screenBox v viewport box) \<in> set (put_back plan layout v viewport)"
proof -
  from assms(1) consider (placed) b where "(w, b) \<in> set (e_placed plan)" | (minimized) "w \<in> set (e_minimized plan)" | (maximized) "e_maximized plan = Some w"
    by (auto simp: planned_keys_def split: option.splits)
  then show ?thesis
  proof cases
    case placed
    then show ?thesis by (force simp: put_back_def Let_def)
  next
    case minimized
    with assms(2) show ?thesis by (force simp: put_back_def Let_def)
  qed (simp add: put_back_def Let_def)
qed

lemma canvas_present_none: "canvas_of (present d None fade b) s = canvas_of (put_down None b) s"
  by (simp add: present_def Let_def uncover_def) (simp add: canvas_of_def with_camera_def)

lemma map_of_self: "w \<in> set ws \<Longrightarrow> map_of (map (\<lambda>w. (w, f w)) ws) w = Some (f w)"
  by (induction ws) auto

text \<open>The windows that are open as the board is left, with the plan for them.\<close>

lemma exit_board_plan:
  fixes b :: "('s, 'w) board" and except :: "'w option" and d :: "'w desk"
  assumes "bd_presented b = Some s" and "distinct (bd_stack b)"
    and "\<And>e. Option.bind (canvas_of b s) f_entered = Some e \<Longrightarrow> located_on b e (bd_active b)"
  obtains plan layout where
    "exit_board d except b = fold (exit_call d s) (put_back plan layout (c_shown (camera_of b)) (c_viewport (camera_of b)))
      (present d None True (with_canvas s (\<lambda>c. c\<lparr>v_layout := layout, v_shown := False\<rparr>) (end_collisions b)))"
    and "set (planned_keys plan) = {w \<in> set (open_windows b (bd_active b)). Some w \<noteq> except}"
    and "\<forall>w \<in> set (planned_keys plan). \<exists>box. map_of layout w = Some box"
proof -
  let ?b1 = "end_collisions b"
  let ?windows = "filter (\<lambda>w. Some w \<noteq> except) (open_windows ?b1 (bd_active ?b1))"
  let ?v = "c_shown (camera_of ?b1)" and ?viewport = "c_viewport (camera_of ?b1)"
  define layout where "layout = map (\<lambda>w. (w, bd_frame ?b1 w)) ?windows"
  let ?entered = "Option.bind (canvas_of ?b1 s) f_entered"
  let ?find = "List.find (\<lambda>w. fits_view ?v (bd_frame ?b1 w) ?viewport WINDOW_PADDING) ?windows"
  define fitted where "fitted = (case ?entered of Some w \<Rightarrow> if \<not> bd_minimized ?b1 w \<and> ?entered \<noteq> except then ?entered else ?find | None \<Rightarrow> ?find)"
  define plan where "plan = planExit layout ?v ?viewport (n_area d) fitted"
  have gone: "exit_board d except b = fold (exit_call d s) (put_back plan layout ?v ?viewport)
      (present d None True (with_canvas s (\<lambda>c. c\<lparr>v_layout := layout, v_shown := False\<rparr>) ?b1))"
    unfolding exit_board_def Let_def plan_def fitted_def layout_def by (simp only: assms(1) option.case)
  have windows: "set ?windows = {w \<in> set (open_windows b (bd_active b)). Some w \<noteq> except}"
    by (auto simp: open_windows_def board_windows_def)
  have keys: "map fst layout = ?windows" by (simp add: layout_def comp_def)
  have fits: "k \<in> set ?windows" if "fitted = Some k" for k
  proof -
    have "?find = Some k \<Longrightarrow> k \<in> set ?windows" by (rule find_in_set)
    moreover have "?entered = Some k \<Longrightarrow> \<not> bd_minimized ?b1 k \<Longrightarrow> ?entered \<noteq> except \<Longrightarrow> k \<in> set ?windows"
      using assms(3) [of k] by (simp add: open_windows_def board_windows_def located_on_def)
    ultimately show ?thesis using that by (auto simp: fitted_def split: option.splits if_splits)
  qed
  have "mset (planned_keys plan) = mset (map fst layout)"
    unfolding plan_def
  proof (rule exit_plan_keys)
    show "distinct (map fst layout)" unfolding keys using assms(2) by (simp add: open_windows_def board_windows_def)
    show "k \<in> fst ` set layout" if "fitted = Some k" for k
      unfolding set_map [symmetric] keys using that by (rule fits)
  qed
  then have planned: "set (planned_keys plan) = set ?windows" unfolding keys by (metis set_mset_mset)
  have "map_of layout w = Some (bd_frame ?b1 w)" if "w \<in> set ?windows" for w
    unfolding layout_def using that by (rule map_of_self)
  then have known: "\<forall>w \<in> set (planned_keys plan). \<exists>box. map_of layout w = Some box"
    unfolding planned by blast
  show thesis
  proof (rule that)
    show "exit_board d except b = fold (exit_call d s) (put_back plan layout (c_shown (camera_of b)) (c_viewport (camera_of b)))
      (present d None True (with_canvas s (\<lambda>c. c\<lparr>v_layout := layout, v_shown := False\<rparr>) (end_collisions b)))"
      using gone by simp
    show "set (planned_keys plan) = {w \<in> set (open_windows b (bd_active b)). Some w \<noteq> except}" using planned windows by simp
  qed (rule known)
qed

text \<open>C32. Leaving the board ends with none shown, and every window that was open on it is let go, at once or once it has faded
  away and is minimized; every other window, a minimized one too, stays as free of constraints as it was.\<close>

theorem leaving_lets_go:
  fixes b :: "('s, 'w) board" and except :: "'w option" and d :: "'w desk"
  assumes "bd_presented b = Some s" and "distinct (bd_stack b)"
    and "\<And>e. Option.bind (canvas_of b s) f_entered = Some e \<Longrightarrow> located_on b e (bd_active b)"
  defines "gone \<equiv> exit_board d except b"
  shows "bd_presented gone = None \<and> \<not> is_shown gone s \<and>
    (\<forall>w \<in> set (open_windows b (bd_active b)). Some w \<noteq> except \<longrightarrow> \<not> bd_free gone w \<or> (w, s) \<in> set (bd_fading gone)) \<and>
    (\<forall>w. w \<notin> set (open_windows b (bd_active b)) \<or> Some w = except \<longrightarrow> bd_free gone w = bd_free b w) \<and>
    (\<forall>w t. (w, t) \<in> set (bd_fading gone) \<longrightarrow> \<not> bd_free (faded d w gone) w \<and> bd_minimized (faded d w gone) w)"
proof -
  obtain plan layout where
    left: "exit_board d except b = fold (exit_call d s) (put_back plan layout (c_shown (camera_of b)) (c_viewport (camera_of b)))
      (present d None True (with_canvas s (\<lambda>c. c\<lparr>v_layout := layout, v_shown := False\<rparr>) (end_collisions b)))"
    and planned: "set (planned_keys plan) = {w \<in> set (open_windows b (bd_active b)). Some w \<noteq> except}"
    and known: "\<forall>w \<in> set (planned_keys plan). \<exists>box. map_of layout w = Some box"
    by (rule exit_board_plan [OF assms(1-3), where d = d and except = except])
  note gone = left [folded gone_def]
  let ?calls = "put_back plan layout (c_shown (camera_of b)) (c_viewport (camera_of b))"
  let ?b3 = "present d None True (with_canvas s (\<lambda>c. c\<lparr>v_layout := layout, v_shown := False\<rparr>) (end_collisions b))"
  have let_go: "\<not> bd_free gone w \<or> (w, s) \<in> set (bd_fading gone)" if "w \<in> set (planned_keys plan)" for w
    using bspec [OF known that] put_back_covers [OF that] exit_calls_let_go unfolding gone by metis
  have "bd_free ?b3 = bd_free b" by (simp add: present_def Let_def uncover_def)
  then have others: "bd_free gone w = bd_free b w" if "w \<notin> set (planned_keys plan)" for w
    using exit_calls_others [of w ?calls d s ?b3] put_back_calls that unfolding gone by fastforce
  have "bd_presented gone = None" unfolding gone by (simp add: present_def Let_def uncover_def)
  moreover have "\<not> is_shown gone s"
    unfolding gone is_shown_def using assms(1)
    by (simp add: canvas_present_none put_down_def canvas_of_with_canvas split: option.split)
  moreover have "\<not> bd_free (faded d w gone) w \<and> bd_minimized (faded d w gone) w" if "(w, t) \<in> set (bd_fading gone)" for w t
  proof -
    from that obtain u where "map_of (bd_fading gone) w = Some u" by (metis map_of_eq_None_iff not_Some_eq fst_conv image_eqI)
    then show ?thesis by (simp add: faded_def tuck_away_def)
  qed
  ultimately show ?thesis using let_go others unfolding planned by blast
qed

definition sample_shown :: "(nat, nat) board" where
  "sample_shown = board_event sample_desk Toggle sample_board"

theorem leaving_lets_go_witness:
  "bd_free (exit_board sample_desk None sample_shown) 0 = False \<or> (0, 0) \<in> set (bd_fading (exit_board sample_desk None sample_shown))"
proof -
  have "bd_presented sample_shown = Some 0" "distinct (bd_stack sample_shown)" "Option.bind (canvas_of sample_shown 0) f_entered = None"
    "0 \<in> set (open_windows sample_shown (bd_active sample_shown))"
    by code_simp+
  then show ?thesis using leaving_lets_go [where b = sample_shown and s = 0 and d = sample_desk and except = None] by simp
qed

section \<open>Entering\<close>

definition whole :: "box \<Rightarrow> bool" where
  "whole b \<longleftrightarrow> b_x b \<in> \<int> \<and> b_y b \<in> \<int> \<and> b_w b \<in> \<int> \<and> b_h b \<in> \<int>"

lemma freeSpot_whole:
  assumes "\<forall>b \<in> set occupied. whole b" "width \<in> \<int>" "height \<in> \<int>" "gap \<in> \<int>"
  shows "fst (freeSpot occupied width height cx cy gap) \<in> \<int> \<and> snd (freeSpot occupied width height cx cy gap) \<in> \<int>"
proof -
  let ?wanted = "(of_int (round (cx - width / 2)), of_int (round (cy - height / 2))) :: number \<times> number"
  have spots: "fst p \<in> \<int> \<and> snd p \<in> \<int>" if p: "p \<in> set (concat (map (spots_beside width height gap ?wanted) occupied))" for p
  proof -
    from p obtain b where b: "b \<in> set occupied" "p \<in> set (spots_beside width height gap ?wanted b)" by auto
    with assms have "b_x b \<in> \<int>" "b_y b \<in> \<int>" "b_w b \<in> \<int>" "b_h b \<in> \<int>" by (auto simp: whole_def)
    with b(2) assms(2-4) show ?thesis by (auto simp: spots_beside_def Let_def)
  qed
  show ?thesis
  proof (cases "clear occupied gap (spot_box width height ?wanted)")
    case False
    show ?thesis
    proof (cases "consider_spots (\<lambda>p. clear occupied (gap - 1/2) (spot_box width height p)) (spot_distance width height cx cy) None
        (concat (map (spots_beside width height gap ?wanted) occupied))")
      case (Some q)
      from consider_result [OF this] have "q \<in> set (concat (map (spots_beside width height gap ?wanted) occupied))" by simp
      from spots [OF this] False Some show ?thesis by (simp add: freeSpot_def Let_def)
    qed (use False in \<open>simp add: freeSpot_def Let_def\<close>)
  qed (simp add: freeSpot_def Let_def)
qed

lemma settle_from_whole:
  "\<forall>b \<in> set (placed @ bs). whole b \<Longrightarrow> gap \<in> \<int> \<Longrightarrow> \<forall>b \<in> set (settle_from gap placed bs). whole b"
proof (induction gap placed bs rule: settle_from.induct)
  case (2 gap placed b bs)
  let ?p = "freeSpot placed (b_w b) (b_h b) (b_x b + b_w b / 2) (b_y b + b_h b / 2) gap"
  from "2.prems" have b: "whole b" "b_w b \<in> \<int>" "b_h b \<in> \<int>" by (auto simp: whole_def)
  with "2.prems" have "whole (b\<lparr>b_x := fst ?p, b_y := snd ?p\<rparr>)"
    using freeSpot_whole [of placed "b_w b" "b_h b" gap] by (simp add: whole_def)
  with 2 b show ?case by (simp add: Let_def)
qed simp

lemma rounded_whole: "x \<in> \<int> \<Longrightarrow> y \<in> \<int> \<Longrightarrow> rounded (x, y) = (x, y)"
  by (auto simp: rounded_def elim!: Ints_cases)

lemma place_at_self: "b_w b = b_w f \<Longrightarrow> b_h b = b_h f \<Longrightarrow> place_at (b_x b, b_y b) f = b"
  by (simp add: place_at_def)

lemma leave_frame: "k_moving (bd_collisions b) = None \<Longrightarrow> bd_frame (leave onto b) = bd_frame b"
  by (simp add: leave_eq Let_def reset_magnified_def end_collisions_def)

lemma present_frame: "k_moving (bd_collisions b) = None \<Longrightarrow> bd_frame (present d onto fade b) = bd_frame b"
  by (simp add: present_def Let_def leave_frame uncover_def shade_now_def split: option.split)

lemma laid_out_box:
  fixes b :: "('s, 'w) board" and d :: "'w desk"
  assumes "\<not> v_known c" "k_moving (bd_collisions b) = None" "distinct (bd_stack b)"
    and "\<And>w. w \<in> set (open_windows b s) \<Longrightarrow> whole (bd_frame b w)" and "i < length (open_windows b s)"
  defines "boxes \<equiv> settle_from PLACEMENT_GAP [] (map (bd_frame b) (open_windows b s))"
  shows "bd_frame (lay_out d s c b) (open_windows b s ! i) = boxes ! i \<and> length boxes = length (open_windows b s) \<and>
    b_w (boxes ! i) = b_w (bd_frame b (open_windows b s ! i)) \<and> b_h (boxes ! i) = b_h (bd_frame b (open_windows b s ! i))"
proof -
  let ?ws = "open_windows b s"
  have sizes: "map (\<lambda>b. (b_w b, b_h b)) boxes = map (\<lambda>b. (b_w b, b_h b)) (map (bd_frame b) ?ws)"
    using settle_from_sizes [of PLACEMENT_GAP "[]" "map (bd_frame b) ?ws"] by (simp add: boxes_def)
  then have len: "length boxes = length ?ws" by (metis length_map)
  have size: "b_w (boxes ! i) = b_w (bd_frame b (?ws ! i))" "b_h (boxes ! i) = b_h (bd_frame b (?ws ! i))"
    using arg_cong [OF sizes, of "\<lambda>xs. xs ! i"] assms(5) len by simp_all
  have "fst (arrange (bd_frame b) ?ws vp c) = boxes" for vp
    using assms(1) by (simp add: arrange_def Let_def settle_boxes_def boxes_def)
  then have frame: "bd_frame (lay_out d s c b) = move_all (zip ?ws boxes) (bd_frame b)"
    unfolding lay_out_def Let_def
    by (simp add: split_beta present_frame assms(2) viewport_for_def with_camera_def split: option.split)
  have "\<forall>b \<in> set boxes. whole b"
    unfolding boxes_def using assms(4) by (intro settle_from_whole) (auto simp: PLACEMENT_GAP_def)
  then have whole: "whole (boxes ! i)" using assms(5) len by simp
  have "(?ws ! i, boxes ! i) \<in> set (zip ?ws boxes)" using assms(5) len by (auto simp: set_zip)
  moreover have "distinct (map fst (zip ?ws boxes))" using assms(3) len by (simp add: open_windows_def board_windows_def)
  ultimately have "bd_frame (lay_out d s c b) (?ws ! i) = place_at (rounded (b_x (boxes ! i), b_y (boxes ! i))) (bd_frame b (?ws ! i))"
    unfolding frame by (intro move_all_nth)
  with whole size len show ?thesis by (simp add: whole_def rounded_whole place_at_self)
qed

text \<open>C33. As a board is entered for the first time, its open windows, whatever they overlapped, come to lie apart with half a pixel
  less than the gap between them, keep their sizes, and stay where they are when they lie apart already.\<close>

theorem entering_lays_out_apart:
  fixes b :: "('s, 'w) board" and d :: "'w desk"
  assumes "\<not> v_known c" and "k_moving (bd_collisions b) = None" and "distinct (bd_stack b)"
    and "\<And>w. w \<in> set (open_windows b s) \<Longrightarrow> whole (bd_frame b w)"
  defines "there \<equiv> lay_out d s c b"
  shows "(\<forall>w \<in> set (open_windows b s). \<forall>v \<in> set (open_windows b s). w \<noteq> v \<longrightarrow>
      \<not> overlaps (bd_frame there w) (bd_frame there v) (PLACEMENT_GAP - 1/2)) \<and>
    (\<forall>w \<in> set (open_windows b s). b_w (bd_frame there w) = b_w (bd_frame b w) \<and> b_h (bd_frame there w) = b_h (bd_frame b w)) \<and>
    (all_apart (PLACEMENT_GAP - 1/2) (map (bd_frame b) (open_windows b s)) \<longrightarrow>
      (\<forall>w \<in> set (open_windows b s). bd_frame there w = bd_frame b w))"
proof -
  let ?ws = "open_windows b s"
  let ?boxes = "settle_from PLACEMENT_GAP [] (map (bd_frame b) ?ws)"
  note box = laid_out_box [OF assms(1-3) assms(4), where d = d and s = s, folded there_def]
  have at_box: "i < length ?ws \<Longrightarrow> bd_frame there (?ws ! i) = ?boxes ! i" for i using box [of i] by simp
  have len: "length ?boxes = length ?ws"
    using settle_from_sizes [of PLACEMENT_GAP "[]" "map (bd_frame b) ?ws"] by (metis append_Nil length_map)
  have "all_apart (PLACEMENT_GAP - 1/2) ?boxes" by (rule settle_from_apart) simp
  then have apart: "i < j \<Longrightarrow> j < length ?ws \<Longrightarrow> \<not> overlaps (?boxes ! i) (?boxes ! j) (PLACEMENT_GAP - 1/2)" for i j
    by (simp add: all_apart_nth len)
  have "\<not> overlaps (bd_frame there w) (bd_frame there v) (PLACEMENT_GAP - 1/2)" if wv: "w \<in> set ?ws" "v \<in> set ?ws" "w \<noteq> v" for w v
  proof -
    from wv obtain i j where ij: "i < length ?ws" "w = ?ws ! i" "j < length ?ws" "v = ?ws ! j" by (auto simp: in_set_conv_nth)
    with wv(3) have "i < j \<or> j < i" by (cases i j rule: linorder_cases) auto
    then show ?thesis using apart [of i j] apart [of j i] ij by (auto simp: at_box overlaps_sym)
  qed
  moreover have "b_w (bd_frame there w) = b_w (bd_frame b w) \<and> b_h (bd_frame there w) = b_h (bd_frame b w)" if w: "w \<in> set ?ws" for w
  proof -
    from w obtain i where "i < length ?ws" "w = ?ws ! i" by (auto simp: in_set_conv_nth)
    with box [of i] show ?thesis by simp
  qed
  moreover have "bd_frame there w = bd_frame b w" if w: "w \<in> set ?ws" "all_apart (PLACEMENT_GAP - 1/2) (map (bd_frame b) ?ws)" for w
  proof -
    have "?boxes = map (bd_frame b) ?ws" using settle_from_idle [of PLACEMENT_GAP "[]" "map (bd_frame b) ?ws"] w(2) by simp
    moreover from w obtain i where "i < length ?ws" "w = ?ws ! i" by (auto simp: in_set_conv_nth)
    ultimately show ?thesis by (simp add: at_box)
  qed
  ultimately show ?thesis by blast
qed

theorem entering_lays_out_apart_witness:
  "\<not> overlaps (bd_frame (lay_out sample_desk 0 no_canvas sample_board) 0) (bd_frame (lay_out sample_desk 0 no_canvas sample_board) 1) (PLACEMENT_GAP - 1/2)"
proof -
  have "\<not> v_known (no_canvas :: nat canvas)" by (simp add: no_canvas_def)
  moreover have "k_moving (bd_collisions sample_board) = None" "distinct (bd_stack sample_board)" by code_simp+
  moreover have "whole (bd_frame sample_board w)" for w
    by (simp add: sample_board_def blank_board_def sample_frame_def whole_def)
  moreover have "set (open_windows sample_board 0) = {0, 1}"
    by (simp add: sample_board_def blank_board_def open_windows_def board_windows_def)
  ultimately show ?thesis using entering_lays_out_apart [of no_canvas sample_board 0 sample_desk] by simp
qed

section \<open>Where it goes wrong\<close>

lemma apply_camera_tween [simp]: "c_tween (apply_camera c) = c_tween c"
  by (simp add: apply_camera_def Let_def)

text \<open>C40. When the workspace changes from one board to another while the camera is on its way, the camera goes on to where it was
  going on the first board, in place of the view the second one had.\<close>

theorem switching_boards_keeps_gliding:
  fixes b :: "('s, 'w) board" and d :: "'w desk" and fade :: bool and t :: 's
  assumes "bd_presented b = Some s" and "s \<noteq> t" and "canvas_of b t = Some c"
    and "c_tween (camera_of b) = Some (start, target, arc)" and "1 \<le> progress"
  defines "switched \<equiv> present d (Some t) fade b"
  shows "c_view (camera_of switched) = v_view c \<and> c_view (camera_of (with_camera (tween_frame progress scale) switched)) = target"
proof -
  have "canvas_of (put_down (Some t) b) t = Some c" using assms(1-3) by (simp add: put_down_def canvas_of_with_canvas)
  moreover have "o_camera (attach_focus st fo) = o_camera fo" for st and fo :: "'w focus"
    by (simp add: attach_focus_def detach_def unwatch_window_def watch_window_def Let_def split: option.split)
  moreover have "camera_of (shade_now u x) = camera_of x" for u and x :: "('s, 'w) board" by (simp add: shade_now_def camera_of_def)
  ultimately have camera: "camera_of switched = engage_camera (v_view c) (n_pixel_scale d) (camera_of (viewport_for d (leave (Some t) b)))"
    unfolding switched_def by (simp add: present_def Let_def) (simp add: camera_of_def with_camera_def)
  have tween: "c_tween (camera_of (viewport_for d (leave (Some t) b))) = Some (start, target, arc)"
    using assms(4) by (simp add: viewport_for_def split: option.split)
  show ?thesis
    using assms(5) tween by (simp add: camera tween_frame_def engage_camera_def)
qed

definition sample_gliding :: "(nat, nat) board" where
  "sample_gliding = fold (board_event sample_desk) [Activated 1, Toggle, Activated 0, Toggle, Fit_all] sample_board"

theorem switching_boards_keeps_gliding_witness:
  "\<exists>start target arc. c_tween (camera_of sample_gliding) = Some (start, target, arc) \<and>
     c_view (camera_of (with_camera (tween_frame 1 1) (present sample_desk (Some 1) False sample_gliding))) = target"
proof -
  have shown: "bd_presented sample_gliding = Some 0" by code_simp
  have "canvas_of sample_gliding 1 \<noteq> None" "c_tween (camera_of sample_gliding) \<noteq> None" by code_simp+
  then obtain c start target arc where "canvas_of sample_gliding 1 = Some c" "c_tween (camera_of sample_gliding) = Some (start, target, arc)" by auto
  from switching_boards_keeps_gliding [OF shown _ this] this(2) show ?thesis by simp
qed

text \<open>A swipe that turns back while windows are getting their sizes back does not stop the board: as the wait ends it shows.\<close>

theorem cancelled_swipe_still_enters:
  assumes "bd_presented b = None" and "bd_restoring b = Some (s, r)" and "rs_timer r" and "rs_done r = 0"
    and "is_shown b s" and "bd_active b = s"
  shows "bd_presented (restore_event d Timed_out (untrack_board d True b)) = Some s"
proof -
  from assms(5) obtain c where c: "canvas_of b s = Some c" "v_shown c" by (auto simp: is_shown_def split: option.splits)
  have same: "untrack_board d True b = b" using assms(1) by (simp add: untrack_board_def exit_board_def)
  have "canvas_of (b\<lparr>bd_restoring := None\<rparr>) s = Some c" using c by (simp add: canvas_of_def)
  then have "restore_event d Timed_out b = lay_out d s c (b\<lparr>bd_restoring := None\<rparr>)"
    using assms c by (simp add: restore_event_def settle_restoring_def finish_restoring_def cancel_restoring_def restored_def Let_def)
  moreover have "bd_presented (present d (Some s) fade x) = Some s" for fade and x :: "('a, 'b) board"
    by (simp add: present_def Let_def shade_now_def split: option.split)
  ultimately show ?thesis unfolding same by (simp add: lay_out_def Let_def split: prod.split)
qed

definition sample_waiting :: "(nat, nat) board" where
  "sample_waiting = fold (board_event sample_desk) [Flags 0 False True False, Toggle] sample_board"

theorem cancelled_swipe_still_enters_witness:
  "bd_presented (restore_event sample_desk Timed_out (untrack_board sample_desk True sample_waiting)) = Some 0"
proof -
  have "bd_presented sample_waiting = None" "is_shown sample_waiting 0" "bd_active sample_waiting = 0" by code_simp+
  moreover have "bd_restoring sample_waiting = Some (0, \<lparr>rs_pending = [0], rs_timer = True, rs_done = 0\<rparr>)" by code_simp
  ultimately show ?thesis using cancelled_swipe_still_enters [of sample_waiting 0] by simp
qed

text \<open>When the workspace changes during the wait, the board that was entered shows on the way back as it never was laid out.\<close>

lemma left_while_waiting:
  assumes "bd_restoring b = Some (s, r)" "rs_timer r" "bd_active b \<noteq> s" "bd_presented b = None" "canvas_of b s = Some c" "v_shown c"
  shows "bd_presented (board_event d (Activated s) (board_event d (Restore_signal Timed_out) b)) = Some s"
    and "\<exists>v. canvas_of (board_event d (Activated s) (board_event d (Restore_signal Timed_out) b)) s = Some (c\<lparr>v_view := v\<rparr>)"
proof -
  let ?b = "b\<lparr>bd_restoring := None\<rparr>"
  have c: "canvas_of ?b s = Some c" using assms(5) by (simp add: canvas_of_def)
  have same: "board_event d (Restore_signal Timed_out) b = ?b"
    using assms c by (simp add: restore_event_def settle_restoring_def finish_restoring_def cancel_restoring_def restored_def Let_def)
  let ?a = "?b\<lparr>bd_active := s\<rparr>"
  have a: "canvas_of ?a s = Some c" "bd_presented ?a = None" using c assms(4) by (simp_all add: canvas_of_def)
  have act: "board_event d (Activated s) ?b = present d (Some s) False ?a"
    using a assms(6) by (simp add: sync_workspace_def is_shown_def)
  have put: "canvas_of (put_down (Some s) ?a) s = Some c" using a by (simp add: put_down_def)
  show "bd_presented (board_event d (Activated s) (board_event d (Restore_signal Timed_out) b)) = Some s"
    unfolding same act using put by (simp add: present_def Let_def shade_now_def)
  have "canvas_of (present d (Some s) False ?a) s = Some c"
    using put by (simp add: present_def Let_def) (simp add: canvas_of_def shade_now_def)
  then show "\<exists>v. canvas_of (board_event d (Activated s) (board_event d (Restore_signal Timed_out) b)) s = Some (c\<lparr>v_view := v\<rparr>)"
    unfolding same act by (intro exI [of _ "v_view c"]) simp
qed

end
