(* ===== verification/Board_Input.thy ===== *)
theory Board_Input
  imports Board_Machine
begin

text \<open>
  What the pointer and the touchpad do to the board (\<^verbatim>\<open>board/input/input.ts\<close>).

  An event carries its time, its place, and what is picked there: the shield, the backdrop or a
  window.  Times that are minus infinity in the code are \<open>None\<close>.  The results of \<^verbatim>\<open>Math.exp\<close> and
  \<^verbatim>\<open>Math.pow\<close> for a wheel, and whether the shell lets the board interact, come with the event.
\<close>

section \<open>State and events\<close>

definition TAP_DURATION :: number where "TAP_DURATION = 250"
definition TAP_TO_DRAG :: number where "TAP_TO_DRAG = 400"
definition DOUBLE_CLICK_TIME :: number where "DOUBLE_CLICK_TIME = 400"
definition DOUBLE_CLICK_DISTANCE :: number where "DOUBLE_CLICK_DISTANCE = 8"
definition WHEEL_PAN :: number where "WHEEL_PAN = 60"
definition FINGER_PAN :: number where "FINGER_PAN = 10"
definition PINCH_ENTER :: number where "PINCH_ENTER = 115 / 100"
definition PINCH_PAN :: number where "PINCH_PAN = 24"
definition PINCH_STILL :: number where "PINCH_STILL = 108 / 100"
definition MAGNIFIED :: number where "MAGNIFIED = 106 / 100"
definition STEP_THRESHOLD :: number where "STEP_THRESHOLD = 48"
definition DRAG_SLOP :: number where "DRAG_SLOP = 6"
definition VELOCITY_SMOOTHING :: number where "VELOCITY_SMOOTHING = 3 / 10"
definition SHIELD_BELOW :: number where "SHIELD_BELOW = 6 / 10"

datatype swipe_mode = No_swipe | Pan_swipe | Move_swipe | Step_swipe | Switch_swipe

datatype phase = Phase_begin | Phase_update | Phase_end

record 'w input =
  i_mode :: swipe_mode
  i_swipe :: "number \<times> number"
  i_velocity :: "number \<times> number"
  i_last_swipe :: number
  i_hold_start :: number
  i_tap :: "number option"
  i_pinching :: bool
  i_pinch_scale :: number
  i_pinch_travel :: number
  i_pinch_entered :: "'w option"
  i_pinch_start :: view
  i_dragging :: bool
  i_drag :: "number \<times> number"
  i_panned :: bool
  i_picked :: "'w option"
  i_pick_moved :: bool
  i_click :: "number option"
  i_click_at :: "number \<times> number"
  i_swallowed :: "nat option"

record 'w spot_picked =
  p_x :: number
  p_y :: number
  p_shield :: bool
  p_backdrop :: bool
  p_window :: "'w option"

type_synonym ('s, 'w) table = "'w input \<times> ('s, 'w) board"

definition window_at_point :: "('s, 'w) board \<Rightarrow> number \<Rightarrow> number \<Rightarrow> 'w option" where
  "window_at_point b x y = (case presented_workspace b of
      None \<Rightarrow> None
    | Some s \<Rightarrow> window_under (bd_minimized b) (bd_frame b) (c_shown (camera_of b)) (c_viewport (camera_of b)) (board_windows b s) x y)"

definition window_at :: "('s, 'w) board \<Rightarrow> 'w spot_picked \<Rightarrow> 'w option" where
  "window_at b p = (if p_shield p then window_at_point b (p_x p) (p_y p)
     else case p_window p of Some w \<Rightarrow> if w \<in> set (bd_stack b) then Some w else None | None \<Rightarrow> None)"

definition on_canvas :: "('s, 'w) board \<Rightarrow> 'w spot_picked \<Rightarrow> bool" where
  "on_canvas b p \<longleftrightarrow> (if p_shield p then window_at_point b (p_x p) (p_y p) = None else p_backdrop p)"

definition is_active :: "('s, 'w) board \<Rightarrow> bool" where
  "is_active b \<longleftrightarrow> bd_presented b \<noteq> None"

text \<open>The shield covers windows that are too small to be used in place.\<close>

definition shielded :: "bool \<Rightarrow> ('s, 'w) board \<Rightarrow> bool" where
  "shielded shown b \<longleftrightarrow> shown \<and> entered_window (bd_focus b) = None \<and> w_scale (c_view (camera_of b)) < SHIELD_BELOW"

section \<open>Three fingers\<close>

definition begin_swipe :: "nat \<Rightarrow> number \<Rightarrow> 'w spot_picked \<Rightarrow> ('s, 'w) table \<Rightarrow> ('s, 'w) table" where
  "begin_swipe fingers time p t = (let (i0, b) = t;
      i = i0\<lparr>i_swipe := (0, 0), i_velocity := (0, 0), i_last_swipe := time\<rparr>
    in if fingers \<noteq> 3 \<or> \<not> is_active b then (i\<lparr>i_mode := No_swipe\<rparr>, b)
       else (let
           window = (case i_tap i of Some tap \<Rightarrow> if time - tap < TAP_TO_DRAG then window_at b p else None | None \<Rightarrow> None);
           i1 = i\<lparr>i_tap := None\<rparr>
         in if window = None \<and> entered_window (bd_focus b) \<noteq> None then (i1\<lparr>i_mode := Step_swipe\<rparr>, b)
            else (let b1 = with_camera stop_camera b in
              case window of
                Some w \<Rightarrow> (i1\<lparr>i_mode := Move_swipe\<rparr>, begin_move_on w True b1)
              | None \<Rightarrow> (i1\<lparr>i_mode := Pan_swipe\<rparr>, b1))))"

text \<open>Fingers that went far enough step once, to the window they pull in, or down and out to the board.\<close>

definition step_of :: "number \<times> number \<Rightarrow> number \<times> number" where
  "step_of swipe = (if \<bar>snd swipe\<bar> \<le> \<bar>fst swipe\<bar> then (if fst swipe < 0 then 1 else -1, 0) else (0, if snd swipe < 0 then 1 else -1))"

definition step_by_swipe :: "'w desk \<Rightarrow> number \<times> number \<Rightarrow> ('s, 'w) board \<Rightarrow> ('s, 'w) board" where
  "step_by_swipe d swipe b = (let
      (dx, dy) = step_of swipe;
      went = snd (navigate (windows_for d b) dx dy (bd_focus b));
      b1 = with_focus d (\<lambda>fo. fst (navigate (windows_for d b) dx dy fo)) b
    in if \<bar>fst swipe\<bar> < \<bar>snd swipe\<bar> \<and> \<not> went \<and> 0 < snd swipe then overview_on d b1 else b1)"

definition choose_step :: "'w desk \<Rightarrow> number \<Rightarrow> number \<Rightarrow> ('s, 'w) table \<Rightarrow> ('s, 'w) table" where
  "choose_step d dx dy t = (let (i0, b) = t; swipe = (fst (i_swipe i0) + dx, snd (i_swipe i0) + dy); i = i0\<lparr>i_swipe := swipe\<rparr> in
    if n_hypot d (fst swipe) (snd swipe) < STEP_THRESHOLD then (i, b)
    else (i\<lparr>i_mode := Switch_swipe\<rparr>, step_by_swipe d swipe b))"

text \<open>\<open>speed\<close> is the length of the velocity as the fingers lift.\<close>

definition end_swipe :: "'w desk \<Rightarrow> number \<Rightarrow> ('s, 'w) table \<Rightarrow> ('s, 'w) table" where
  "end_swipe d speed t = (let (i, b) = t in (i\<lparr>i_mode := No_swipe\<rparr>,
    (case i_mode i of
       Pan_swipe \<Rightarrow> with_camera (glide (n_animations d) speed (fst (i_velocity i)) (snd (i_velocity i))) b
     | Move_swipe \<Rightarrow> end_move_on d b
     | _ \<Rightarrow> b)))"

definition smoothed :: "number \<Rightarrow> number \<Rightarrow> number \<times> number \<Rightarrow> number \<times> number \<Rightarrow> number \<times> number" where
  "smoothed time last_time delta v = (let elapsed = max 1 (time - last_time) in
    (fst v + (fst delta / elapsed - fst v) * VELOCITY_SMOOTHING, snd v + (snd delta / elapsed - snd v) * VELOCITY_SMOOTHING))"

definition swipe_moves :: "'w desk \<Rightarrow> number \<Rightarrow> number \<times> number \<Rightarrow> number \<times> number \<Rightarrow> ('s, 'w) table \<Rightarrow> ('s, 'w) table \<times> bool" where
  "swipe_moves d time delta plain t = (let (i, b) = t in
    case i_mode i of
      Pan_swipe \<Rightarrow> ((i\<lparr>i_velocity := smoothed time (i_last_swipe i) delta (i_velocity i), i_last_swipe := time\<rparr>,
        with_camera (panBy (fst delta) (snd delta)) b), True)
    | Move_swipe \<Rightarrow> ((i\<lparr>i_velocity := smoothed time (i_last_swipe i) delta (i_velocity i), i_last_swipe := time\<rparr>,
        move_on (fst delta) (snd delta) b), True)
    | Step_swipe \<Rightarrow> (choose_step d (fst plain) (snd plain) t, True)
    | Switch_swipe \<Rightarrow> (t, True)
    | No_swipe \<Rightarrow> (t, False))"

definition swipe_event :: "'w desk \<Rightarrow> phase \<Rightarrow> nat \<Rightarrow> number \<Rightarrow> 'w spot_picked \<Rightarrow> number \<times> number \<Rightarrow> number \<times> number \<Rightarrow> number \<Rightarrow>
    ('s, 'w) table \<Rightarrow> ('s, 'w) table \<times> bool" where
  "swipe_event d phase fingers time p delta plain speed t = (case phase of
      Phase_begin \<Rightarrow> swipe_moves d time delta plain (begin_swipe fingers time p t)
    | Phase_update \<Rightarrow> swipe_moves d time delta plain t
    | Phase_end \<Rightarrow> (end_swipe d speed t, i_mode (fst t) \<noteq> No_swipe))"

definition hold_event :: "phase \<Rightarrow> nat \<Rightarrow> number \<Rightarrow> ('s, 'w) table \<Rightarrow> ('s, 'w) table" where
  "hold_event phase fingers time t = (let (i, b) = t in
    if \<not> is_active b \<or> fingers \<noteq> 3 then t
    else if phase = Phase_begin then (i\<lparr>i_hold_start := time\<rparr>, b)
    else if time - i_hold_start i < TAP_DURATION then (i\<lparr>i_tap := Some time\<rparr>, b)
    else t)"

section \<open>Pinching\<close>

definition end_pinch :: "'w desk \<Rightarrow> 'w spot_picked \<Rightarrow> ('s, 'w) table \<Rightarrow> ('s, 'w) table" where
  "end_pinch d p t = (let (i0, b) = t; entered = i_pinch_entered i0; i = i0\<lparr>i_pinch_entered := None\<rparr>; scale = i_pinch_scale i in
    if w_scale (c_view (camera_of b)) \<ge> FULL_SIZE * MAGNIFIED then (i, with_focus d release_window b)
    else if i_pinch_travel i \<ge> PINCH_PAN \<and> scale < PINCH_STILL \<and> scale > 1 / PINCH_STILL then (i, with_focus d release_window b)
    else (i, (case (if scale > PINCH_ENTER then window_at b p else None) of
        Some w \<Rightarrow> enter_window_on d w (Some (i_pinch_start i)) b
      | None \<Rightarrow> (case entered of
          Some w \<Rightarrow> if scale < 1 / PINCH_ENTER then overview_on d b else enter_window_on d w None b
        | None \<Rightarrow> camera_op d (Snap (p_x p) (p_y p)) b))))"

definition pinch_event :: "'w desk \<Rightarrow> phase \<Rightarrow> 'w spot_picked \<Rightarrow> number \<times> number \<Rightarrow> number \<Rightarrow> ('s, 'w) table \<Rightarrow> ('s, 'w) table \<times> bool" where
  "pinch_event d phase p delta scale t = (let (i, b) = t in
    case phase of
      Phase_begin \<Rightarrow>
        if \<not> is_active b then ((i\<lparr>i_pinching := False\<rparr>, b), False)
        else ((i\<lparr>i_pinching := True, i_pinch_start := c_view (camera_of b), i_pinch_scale := 1, i_pinch_travel := 0,
            i_pinch_entered := entered_window (bd_focus b)\<rparr>, with_camera stop_camera b), True)
    | Phase_update \<Rightarrow>
        if \<not> i_pinching i then (t, False)
        else ((i\<lparr>i_pinch_scale := scale, i_pinch_travel := i_pinch_travel i + n_hypot d (fst delta) (snd delta)\<rparr>,
            camera_op d (Zoom_to (w_scale (i_pinch_start i) * scale) (p_x p) (p_y p) (fst delta) (snd delta)) b), True)
    | Phase_end \<Rightarrow>
        if \<not> i_pinching i then (t, False) else (end_pinch d p (i\<lparr>i_pinching := False\<rparr>, b), True))"

section \<open>The pointer\<close>

definition PRIMARY :: nat where "PRIMARY = 1"
definition MIDDLE :: nat where "MIDDLE = 2"

definition is_double_click :: "'w desk \<Rightarrow> number \<Rightarrow> 'w spot_picked \<Rightarrow> 'w input \<Rightarrow> 'w input \<times> bool" where
  "is_double_click d time p i = (let
      double = (case i_click i of Some t \<Rightarrow> time - t < DOUBLE_CLICK_TIME | None \<Rightarrow> False) \<and>
        n_hypot d (p_x p - fst (i_click_at i)) (p_y p - snd (i_click_at i)) < DOUBLE_CLICK_DISTANCE
    in (i\<lparr>i_click := (if double then None else Some time), i_click_at := (p_x p, p_y p)\<rparr>, double))"

text \<open>\<open>shield\<close>: whether the shield is shown and picked; the grab of a drag is \<open>i_dragging\<close>.\<close>

definition press_event :: "'w desk \<Rightarrow> nat \<Rightarrow> bool \<Rightarrow> bool \<Rightarrow> number \<Rightarrow> 'w spot_picked \<Rightarrow> ('s, 'w) table \<Rightarrow> ('s, 'w) table \<times> bool" where
  "press_event d button touchpad with_super time p t = (let (i, b) = t in
    if button = MIDDLE \<and> (case i_tap i of Some tap \<Rightarrow> time - tap < TAP_DURATION | None \<Rightarrow> False) \<and> touchpad
    then ((i\<lparr>i_swallowed := Some button\<rparr>, b), True)
    else if \<not> is_active b \<or> i_dragging i then (t, False)
    else (let
        canvas = on_canvas b p;
        (i1, double) = (if button = PRIMARY \<and> canvas then is_double_click d time p i else (i, False))
      in if double then ((i1, fit_board d b), True)
         else (let
             shield = p_shield p;
             picked = (if button = PRIMARY \<and> shield then window_at b p else None);
             pans = (button = PRIMARY \<and> canvas \<or> button = MIDDLE \<and> (canvas \<or> with_super \<or> shield))
           in if picked = None \<and> \<not> pans then ((i1, b), False)
              else ((i1\<lparr>i_picked := picked, i_pick_moved := False, i_panned := False, i_drag := (p_x p, p_y p), i_dragging := True\<rparr>,
                if pans then with_camera stop_camera b else b), True))))"

definition motion_event :: "'w desk \<Rightarrow> bool \<Rightarrow> 'w spot_picked \<Rightarrow> ('s, 'w) table \<Rightarrow> ('s, 'w) table \<times> bool" where
  "motion_event d buttons p t = (let (i, b) = t; dx = p_x p - fst (i_drag i); dy = p_y p - snd (i_drag i); there = (p_x p, p_y p) in
    if \<not> i_dragging i then
      ((i, if is_active b \<and> \<not> buttons then board_event d (Pointer (p_x p) (p_y p)) b else b), False)
    else case i_picked i of
      Some w \<Rightarrow>
        if \<not> i_pick_moved i \<and> n_hypot d dx dy < DRAG_SLOP then (t, True)
        else ((i\<lparr>i_pick_moved := True, i_drag := there\<rparr>, move_on dx dy (if i_pick_moved i then b else begin_move_on w True b)), True)
    | None \<Rightarrow> ((i\<lparr>i_panned := True, i_drag := there\<rparr>, with_camera (panBy dx dy) (if i_panned i then b else with_focus d release_window b)), True))"

definition release_event :: "'w desk \<Rightarrow> nat \<Rightarrow> ('s, 'w) table \<Rightarrow> ('s, 'w) table \<times> bool" where
  "release_event d button t = (let (i, b) = t in
    if i_swallowed i = Some button then ((i\<lparr>i_swallowed := None\<rparr>, b), True)
    else if \<not> i_dragging i then (t, False)
    else ((i\<lparr>i_dragging := False, i_picked := None\<rparr>,
      (case i_picked i of
         Some w \<Rightarrow> if i_pick_moved i then end_move_on d b else enter_window_on d w None b
       | None \<Rightarrow> b)), True))"

text \<open>\<open>factor\<close> is the factor of the zoom the wheel or the fingers ask for.\<close>

definition scroll_event :: "'w desk \<Rightarrow> bool \<Rightarrow> bool \<Rightarrow> bool \<Rightarrow> bool \<Rightarrow> bool \<Rightarrow> number \<times> number \<Rightarrow> number \<Rightarrow> 'w spot_picked \<Rightarrow>
    ('s, 'w) table \<Rightarrow> ('s, 'w) table \<times> bool" where
  "scroll_event d with_super with_control with_shift smooth fingers delta factor p t = (let (i, b) = t in
    if \<not> is_active b \<or> with_super \<and> \<not> with_control then (t, False)
    else (let canvas = p_shield p \<or> on_canvas b p; zooms = with_control \<and> (with_super \<or> canvas) in
      if \<not> zooms \<and> \<not> canvas then (t, False)
      else if \<not> smooth then (t, True)
      else (let
          b1 = with_focus d release_window b;
          unit = (if fingers then FINGER_PAN else WHEEL_PAN);
          (dx, dy) = delta
        in ((i,
          if zooms \<and> fingers then camera_op d (Zoom_to (w_scale (c_view (camera_of b1)) * factor) (p_x p) (p_y p) 0 0) b1
          else if zooms then camera_op d (Zoom_by factor (p_x p) (p_y p)) b1
          else if with_shift \<and> dx = 0 then with_camera (panBy (- dy * unit) 0) b1
          else with_camera (panBy (- dx * unit) (- dy * unit)) b1), True))))"

datatype 'w input_event =
    Motion bool "'w spot_picked"
  | Button_release nat
  | Swipe phase nat number "'w spot_picked" "number \<times> number" "number \<times> number" number
  | Pinch phase "'w spot_picked" "number \<times> number" number
  | Hold phase nat number
  | Button_press nat bool bool number "'w spot_picked"
  | Scroll bool bool bool bool bool "number \<times> number" number "'w spot_picked"

fun handle_input :: "'w desk \<Rightarrow> bool \<Rightarrow> 'w input_event \<Rightarrow> ('s, 'w) table \<Rightarrow> ('s, 'w) table \<times> bool" where
  "handle_input d can (Motion buttons p) t = motion_event d buttons p t"
| "handle_input d can (Button_release button) t = release_event d button t"
| "handle_input d can (Swipe phase fingers time p delta plain speed) t =
    (if can then swipe_event d phase fingers time p delta plain speed t else (t, False))"
| "handle_input d can (Pinch phase p delta scale) t = (if can then pinch_event d phase p delta scale t else (t, False))"
| "handle_input d can (Hold phase fingers time) t = (if can then (hold_event phase fingers time t, False) else (t, False))"
| "handle_input d can (Button_press button touchpad with_super time p) t =
    (if can then press_event d button touchpad with_super time p t else (t, False))"
| "handle_input d can (Scroll su ct sh smooth fingers delta factor p) t =
    (if can then scroll_event d su ct sh smooth fingers delta factor p t else (t, False))"

definition blank_input :: "'w input" where
  "blank_input = \<lparr>i_mode = No_swipe, i_swipe = (0, 0), i_velocity = (0, 0), i_last_swipe = 0, i_hold_start = 0, i_tap = None,
     i_pinching = False, i_pinch_scale = 1, i_pinch_travel = 0, i_pinch_entered = None, i_pinch_start = \<lparr>w_x = 0, w_y = 0, w_scale = 1\<rparr>,
     i_dragging = False, i_drag = (0, 0), i_panned = False, i_picked = None, i_pick_moved = False, i_click = None, i_click_at = (0, 0),
     i_swallowed = None\<rparr>"

text \<open>The double tap of the key that toggles the board.\<close>

definition DOUBLE_TAP_TIME :: number where "DOUBLE_TAP_TIME = 250"

definition double_tapped :: "number \<Rightarrow> number option \<Rightarrow> number option \<times> bool" where
  "double_tapped now last_tap = (let tapped = (case last_tap of Some t \<Rightarrow> now - t < DOUBLE_TAP_TIME | None \<Rightarrow> False)
    in (if tapped then None else Some now, tapped))"

section \<open>What holds of it\<close>

subsection \<open>A step for a swipe\<close>

lemma swipe_moves_switch: "i_mode i = Switch_swipe \<Longrightarrow> swipe_moves d time delta plain (i, b) = ((i, b), True)"
  by (simp add: swipe_moves_def)

fun swipe_updates :: "'w desk \<Rightarrow> (number \<times> (number \<times> number) \<times> (number \<times> number)) list \<Rightarrow> ('s, 'w) table \<Rightarrow> ('s, 'w) table" where
  "swipe_updates d [] t = t"
| "swipe_updates d ((time, delta, plain) # us) t = swipe_updates d us (fst (swipe_moves d time delta plain t))"

lemma switched_updates: "i_mode i = Switch_swipe \<Longrightarrow> swipe_updates d us (i, b) = (i, b)"
  by (induction us arbitrary: i b) (auto simp: swipe_moves_switch)

text \<open>However long a swipe over an entered window goes on, it steps at most once, in the direction the fingers have gone by the time
  they have gone far enough, and not before.\<close>

theorem one_step_a_swipe:
  assumes "i_mode i = Step_swipe" and "swipe_updates d us (i, b) = (i', b')"
  shows "i_mode i' = Step_swipe \<and> b' = b \<or>
    (i_mode i' = Switch_swipe \<and> STEP_THRESHOLD \<le> n_hypot d (fst (i_swipe i')) (snd (i_swipe i')) \<and> b' = step_by_swipe d (i_swipe i') b)"
  using assms
proof (induction us arbitrary: i)
  case (Cons u us)
  obtain time delta plain where u: "u = (time, delta, plain)" by (cases u)
  let ?swipe = "(fst (i_swipe i) + fst plain, snd (i_swipe i) + snd plain)"
  show ?case
  proof (cases "n_hypot d (fst ?swipe) (snd ?swipe) < STEP_THRESHOLD")
    case True
    with Cons.prems u have "swipe_updates d us (i\<lparr>i_swipe := ?swipe\<rparr>, b) = (i', b')"
      by (simp add: swipe_moves_def choose_step_def Let_def)
    then show ?thesis using Cons.IH [of "i\<lparr>i_swipe := ?swipe\<rparr>"] Cons.prems(1) by simp
  next
    case False
    with Cons.prems u have "swipe_updates d us (i\<lparr>i_swipe := ?swipe, i_mode := Switch_swipe\<rparr>, step_by_swipe d ?swipe b) = (i', b')"
      by (simp add: swipe_moves_def choose_step_def Let_def)
    moreover have "swipe_updates d us (i\<lparr>i_swipe := ?swipe, i_mode := Switch_swipe\<rparr>, step_by_swipe d ?swipe b) =
        (i\<lparr>i_swipe := ?swipe, i_mode := Switch_swipe\<rparr>, step_by_swipe d ?swipe b)" by (rule switched_updates) simp
    ultimately have "i' = i\<lparr>i_swipe := ?swipe, i_mode := Switch_swipe\<rparr>" "b' = step_by_swipe d ?swipe b" by simp_all
    with False show ?thesis by simp
  qed
qed simp

theorem one_step_a_swipe_witness:
  "i_mode (fst (swipe_updates sample_desk [(0, (0, 0), (-30, 0)), (8, (0, 0), (-30, 4)), (16, (0, 0), (-90, 0))]
     (blank_input\<lparr>i_mode := Step_swipe\<rparr>, sample_shown))) \<noteq> Pan_swipe"
proof -
  obtain i' b' where "swipe_updates sample_desk [(0, (0, 0), (-30, 0)), (8, (0, 0), (-30, 4)), (16, (0, 0), (-90, 0))]
     (blank_input\<lparr>i_mode := Step_swipe\<rparr>, sample_shown) = (i', b')" by fastforce
  from one_step_a_swipe [OF _ this] this show ?thesis by auto
qed

subsection \<open>A gesture that outlives the board\<close>

lemma exit_calls_camera [simp]: "camera_of (fold (exit_call d s) cs b) = camera_of b"
proof (induction cs arbitrary: b)
  case (Cons c cs)
  moreover have "camera_of (exit_call d s c b) = camera_of b" by (cases c) (simp_all add: tuck_away_def camera_of_def)
  ultimately show ?case by simp
qed simp

lemma exit_board_camera: "bd_presented b = Some s \<Longrightarrow> camera_of (exit_board d except b) = release_camera (camera_of b)"
  by (simp add: exit_board_def Let_def present_def uncover_def) (simp add: camera_of_def with_camera_def)

lemma exit_board_presented: "bd_presented b = Some s \<Longrightarrow> bd_presented (exit_board d except b) = None"
  by (simp add: exit_board_def Let_def present_def uncover_def)

definition sample_spot :: "nat spot_picked" where
  "sample_spot = \<lparr>p_x = 400, p_y = 500, p_shield = False, p_backdrop = True, p_window = None\<rparr>"

text \<open>C39. A swipe that pans goes on after the board is left by a key: its next move draws the windows of the desktop at the scale of
  the board, moved with it, though no board is shown.\<close>

theorem pan_outlives_board:
  fixes b :: "('s, 'w) board" and i :: "'w input" and d :: "'w desk" and p :: "'w spot_picked"
    and delta plain :: "number \<times> number" and time speed :: number
  assumes "bd_presented b = Some s" and "i_mode i = Pan_swipe"
  defines "moved \<equiv> snd (fst (swipe_event d Phase_update 3 time p delta plain speed (i, exit_board d None b)))"
  shows "bd_presented moved = None \<and> c_group_scale (camera_of moved) = w_scale (c_view (camera_of b)) \<and>
    c_translation (camera_of moved) = c_translation (panBy (fst delta) (snd delta) (camera_of b))"
proof -
  have "moved = with_camera (panBy (fst delta) (snd delta)) (exit_board d None b)"
    unfolding moved_def by (simp add: swipe_event_def swipe_moves_def assms(2))
  moreover have "bd_presented (exit_board d None b) = None"
    using exit_board_presented [OF assms(1)] .
  ultimately show ?thesis
    by (simp add: exit_board_camera [OF assms(1)] panBy_def apply_camera_def release_camera_def stop_camera_def Let_def)
qed

theorem pan_outlives_board_witness:
  "c_group_scale (camera_of (snd (fst (swipe_event sample_desk Phase_update 3 120 sample_spot (5, 0) (5, 0) 0
     (blank_input\<lparr>i_mode := Pan_swipe\<rparr>, exit_board sample_desk None sample_shown))))) = w_scale (c_view (camera_of sample_shown))"
proof -
  have "bd_presented sample_shown = Some 0" by code_simp
  from pan_outlives_board [OF this] show ?thesis by simp
qed

end
