(* ===== verification/Spec2Isabelle.thy ===== *)
theory Spec2Isabelle
  imports Disk_Properties Tiling_Properties Desktop_Properties Taskbar_Properties Extension_Properties Board_Input
begin

text \<open>
  Luft is a desktop: a shell written in TypeScript for GNOME's compositor (\<^verbatim>\<open>src/kestrel\<close>),
  applications drawn in web views (\<^verbatim>\<open>src/apps\<close>), what both share (\<^verbatim>\<open>src/packages\<close>), and services
  behind D-Bus.  This library models the parts of the TypeScript that decide something: what
  is written to a disk, where windows are, which arrangement a taskbar has, which extensions
  run.  What they call to draw, to ask a service or to read a setting is an argument or a
  list of calls that an operation leaves behind.

  Conventions.  \<open>Prelude\<close> holds what the parts share.  A number of the source is a rational
  (\<open>number\<close>), since none of the properties is about rounding, and what only the machine
  computes (\<^verbatim>\<open>Math.exp\<close>, \<^verbatim>\<open>Math.pow\<close>, \<^verbatim>\<open>Math.sin\<close>, \<^verbatim>\<open>Math.hypot\<close>) is an argument.  A \<^verbatim>\<open>NaN\<close> the code
  can meet is \<open>None\<close>.  Sizes of disks are integers.  A \<^verbatim>\<open>Map\<close> of which the order matters is an
  association list (\<open>map_put\<close>, \<open>map_drop\<close>), other maps are functions.  Errors are the left of
  a sum.  Objects that the code compares by identity have numbers.  An operation that calls the
  compositor returns the calls beside the new state.

  Disks (\<^verbatim>\<open>src/apps/system/disks/src/lib\<close>).  \<open>Disk_Model\<close> (\<^verbatim>\<open>editor/model.ts\<close>): parts of a layout,
  the gaps between them, and the steps of a plan.  \<open>Disk_Types\<close> (\<^verbatim>\<open>partitions/types.ts\<close>, \<^verbatim>\<open>format.ts\<close>
  and the records of \<^verbatim>\<open>bindings.ts\<close> these use).  \<open>Disk_Limits\<close> (\<^verbatim>\<open>editor/limits.ts\<close>): how far
  an edge may be dragged.  \<open>Disk_Plan\<close> (\<^verbatim>\<open>editor/describe.ts\<close>): the sentences and the warnings.
  \<open>Disk_Editor\<close> (\<^verbatim>\<open>editor/edits.ts\<close>, \<^verbatim>\<open>editor/editor.svelte.ts\<close>): every edit of the plan, and
  applying it through the service, which is a function of the step and the request.
  \<open>Disk_Properties\<close>: the plan that the editor holds is sound and has the effect of what was asked
  for, merged steps do what they replaced, limits keep parts apart, gaps are exactly what is
  left, requests name blocks there are, a loss of data is warned of, and how applying ends.

  Tiling (\<^verbatim>\<open>src/kestrel/ui/src/desktop/tiling\<close>).  \<open>Tiling_Geometry\<close>, \<open>Tiling_Layout\<close> (an interface
  as a record of operations), \<open>Tiling_Dwindle\<close> and \<open>Tiling_Master\<close> (\<^verbatim>\<open>layouts\<close>), \<open>Tiling_Space\<close>
  (\<^verbatim>\<open>layouts/tiledSpace.ts\<close>); \<open>Tiling_Strip\<close> (\<^verbatim>\<open>scrolling/strip.ts\<close>) with its lemmas in
  \<open>Tiling_Strip_Facts\<close>, \<open>_Moves\<close> and \<open>_View\<close>, \<open>Tiling_Scene\<close> (\<^verbatim>\<open>scene.ts\<close>) and \<open>Tiling_Scroll\<close>
  (\<^verbatim>\<open>scrollingSpace.ts\<close>).  Both kinds of space implement one interface (\<open>Tiling_Spaces\<close>,
  \<^verbatim>\<open>space.ts\<close>), which \<open>Tiling_Tiler\<close> (\<^verbatim>\<open>tiler.ts\<close>) calls; \<open>Tiling_Commands\<close> are the commands,
  keys, drags, swipes and the overview; \<open>Tiling_Session\<close> wires them as \<^verbatim>\<open>tiling.ts\<close> does, and
  \<open>Tiling_Machine\<close> is the step relation of all that can happen to it.  The layouts are the
  laws of locales, interpreted on the dwindle and the master layout, and the interface of a
  space on both spaces; \<open>Tiling_Tiler_Facts\<close> rests on the locale.  \<open>Tiling_Properties\<close> and
  \<open>Desktop_Properties\<close>: tiles fill their area and never overlap, the strip stays sound, snapping
  finds the nearest column, every window is in the space it is recorded in and nothing is left
  tiled once tiling is off.  A swipe and the overview hold the strip they began on by its
  place; the fuel of a chain of transient windows is the number of windows, which bounds a chain
  that visits none twice.

  Taskbar (\<^verbatim>\<open>src/packages/web/ui/src/taskbar/arrangement\<close>).  \<open>Taskbar_Model\<close> (\<^verbatim>\<open>model.ts\<close>),
  \<open>Taskbar_Geometry\<close> (\<^verbatim>\<open>geometry.ts\<close>) and \<open>Taskbar_Editing\<close> (\<^verbatim>\<open>editing.ts\<close>): islands of elements
  on the spots of a screen.  \<open>Taskbar_Properties\<close>: edits keep every element once and refine
  changes of a map from spots to elements, an arrangement is stored and read back, drop
  targets never overlap, and where an island at a side runs into a row.

  Extensions (\<^verbatim>\<open>src/kestrel/ui/src/extensions\<close>).  \<open>Extension_Types\<close> and \<open>Extension_Manifest\<close>
  (\<^verbatim>\<open>api/v1/types.ts\<close>, \<^verbatim>\<open>runtime/manifest.ts\<close>): reading a manifest, with an error for each thing
  that may be wrong in it; the TOML parser is an argument.  \<open>Extension_Store\<close> (\<^verbatim>\<open>store.ts\<close>,
  \<^verbatim>\<open>storage.ts\<close>, \<^verbatim>\<open>settings.ts\<close>, \<^verbatim>\<open>crashes.ts\<close>), \<open>Extension_Shortcuts\<close> (\<^verbatim>\<open>shortcuts.ts\<close>,
  \<^verbatim>\<open>accelerators.ts\<close>), \<open>Extension_Manager\<close> (\<^verbatim>\<open>manager.ts\<close>, \<^verbatim>\<open>instance.ts\<close>, \<^verbatim>\<open>folders.ts\<close>, \<^verbatim>\<open>listing.ts\<close>)
  as a machine of events; a signal of the settings is left pending (\<open>g_pending\<close>) until it is
  handled, and one that arrives inside an operation is handled after it.  \<open>Extension_Facts\<close>,
  \<open>_Settings\<close>, \<open>_Running\<close> and \<open>_Properties\<close>: what an accepted manifest promises, that deciding
  whether a setting shows ends (\<open>shown\<close> is a \<open>partial_function\<close>, which returns for every
  accepted manifest), that what is set is read, and that the manager runs what is on.

  Board (\<^verbatim>\<open>src/kestrel/ui/src/desktop/board\<close>).  \<open>Board_Geometry\<close> (\<^verbatim>\<open>view/geometry.ts\<close>),
  \<open>Board_Camera\<close> (\<^verbatim>\<open>view/camera.ts\<close>, \<^verbatim>\<open>windows/focus.ts\<close>), \<open>Board_Windows\<close> (\<^verbatim>\<open>windows\<close>),
  \<open>Board_Session\<close> (\<^verbatim>\<open>board.ts\<close>, \<^verbatim>\<open>windows/follower.ts\<close>, \<^verbatim>\<open>input/keys.ts\<close>) and \<open>Board_Input\<close>
  (\<^verbatim>\<open>input/input.ts\<close>).  A canvas is named by its workspace; what the focus changes of its canvas
  is written back to it; tasks left for the next redraw wait in a list; a window's move takes
  effect as it is called, its resizes with an event.  Pushing windows apart has the code's own
  budget of steps, four times the square of their number.  \<open>Board_Facts\<close>, \<open>_Properties\<close> and \<open>_Machine\<close>:
  a board that is shown is the canvas of the active workspace, windows that are let in are laid
  out apart, windows that are let go are free again, zooming keeps the point under the
  pointer; and two ways a glide outlives its board.

  Not modelled: drawing (Clutter actors, \<^verbatim>\<open>view/backdrop.ts\<close>, \<^verbatim>\<open>corner.ts\<close>, the fades of
  \<^verbatim>\<open>transitions.ts\<close>), Svelte panels, generated \<^verbatim>\<open>bindings.ts\<close>, the services in Rust behind D-Bus,
  and the shell's other surfaces, which mostly lay out actors.
\<close>

end
